(* ===== verification/WPrelude.thy ===== *)
theory WPrelude
  imports Main "HOL-Library.Word"
begin

text \<open>
  What every component shares: the types the models use for Go's bytes, byte slices,
  strings and 64-bit integers, the big-endian encodings, the checked-result
  combinators, and the named collections the component proofs rewrite with.

  A Go string is a sequence of bytes, and so is Isabelle's \<open>string\<close> (a \<open>char\<close> is
  eight bits); a \<open>[]byte\<close> is a list of 8-bit words. \<open>bytes_of\<close> and \<open>string_of\<close>
  are the conversions \<open>[]byte(s)\<close> and \<open>string(b)\<close>. An \<open>int64\<close> is an \<open>int\<close>
  whose arithmetic is wrapped by \<open>i64\<close> wherever it could leave the range.
\<close>

unbundle bit_operations_syntax

type_synonym byte = "8 word"
type_synonym bytes = "byte list"

named_theorems enc_simps \<open>rewrite rules of the byte encodings\<close>
named_theorems check_intros \<open>introduction rules of the field checks\<close>

subsection \<open>64-bit signed integers\<close>

definition i64 :: "int \<Rightarrow> int" where
  "i64 x = signed_take_bit 63 x"

definition is_i64 :: "int \<Rightarrow> bool" where
  "is_i64 x \<longleftrightarrow> - (2 ^ 63) \<le> x \<and> x < 2 ^ 63"

lemma i64_id [simp]: "is_i64 x \<Longrightarrow> i64 x = x"
  unfolding i64_def is_i64_def by (simp add: signed_take_bit_int_eq_self)

lemma is_i64_i64 [simp]: "is_i64 (i64 x)"
  unfolding i64_def is_i64_def
  using signed_take_bit_int_greater_eq_minus_exp [of 63 x] signed_take_bit_int_less_exp [of 63 x]
  by simp

lemma i64_add_i64 [simp]: "i64 (i64 x + y) = i64 (x + y)"
  unfolding i64_def by (metis signed_take_bit_add signed_take_bit_signed_take_bit min.idem)

subsection \<open>Strings and bytes\<close>

definition byte_of :: "char \<Rightarrow> byte" where
  "byte_of c = of_char c"

definition char_of_byte :: "byte \<Rightarrow> char" where
  "char_of_byte b = char_of (unat b)"

definition bytes_of :: "string \<Rightarrow> bytes" where
  "bytes_of s = map byte_of s"

definition string_of :: "bytes \<Rightarrow> string" where
  "string_of b = map char_of_byte b"

lemma byte_of_eq: "byte_of c = word_of_nat (of_char c)"
  by (simp add: byte_of_def of_nat_of_char)

lemma char_of_byte_byte_of [simp]: "char_of_byte (byte_of c) = c"
proof -
  have "unat (word_of_nat (of_char c) :: byte) = of_char c"
    by (simp add: unat_of_nat take_bit_eq_mod)
  then show ?thesis by (simp add: char_of_byte_def byte_of_eq)
qed

lemma byte_of_char_of_byte [simp]: "byte_of (char_of_byte b) = b"
proof -
  have "unat b < 2 ^ LENGTH(8)" by (rule unsigned_less)
  then have "unat b < 256" by simp
  then show ?thesis by (simp add: char_of_byte_def byte_of_eq)
qed

lemma byte_of_inject [simp]: "byte_of c = byte_of d \<longleftrightarrow> c = d"
  by (metis char_of_byte_byte_of)

lemma string_of_bytes_of [simp]: "string_of (bytes_of s) = s"
  by (simp add: string_of_def bytes_of_def comp_def)

lemma bytes_of_string_of [simp]: "bytes_of (string_of b) = b"
  by (simp add: string_of_def bytes_of_def comp_def)

lemma bytes_of_inject [simp]: "bytes_of s = bytes_of t \<longleftrightarrow> s = t"
  by (metis string_of_bytes_of)

lemma string_of_inject [simp]: "string_of s = string_of t \<longleftrightarrow> s = t"
  by (metis bytes_of_string_of)

lemma length_bytes_of [simp]: "length (bytes_of s) = length s"
  by (simp add: bytes_of_def)

lemma length_string_of [simp]: "length (string_of s) = length s"
  by (simp add: string_of_def)

lemma bytes_of_append [simp]: "bytes_of (s @ t) = bytes_of s @ bytes_of t"
  by (simp add: bytes_of_def)

lemma bytes_of_Nil [simp]: "bytes_of [] = []"
  by (simp add: bytes_of_def)

lemma string_of_Nil [simp]: "string_of [] = []"
  by (simp add: string_of_def)

lemma bytes_of_eq_Nil [simp]: "bytes_of s = [] \<longleftrightarrow> s = []"
  by (simp add: bytes_of_def)

lemma set_bytes_of: "set (bytes_of s) = byte_of ` set s"
  by (simp add: bytes_of_def)

lemma byte_of_eq_0: "byte_of c = 0 \<longleftrightarrow> c = CHR 0x00"
proof -
  have "byte_of (CHR 0x00) = 0" by (simp add: byte_of_def of_char_def)
  then show ?thesis by (metis byte_of_inject)
qed

subsection \<open>Words as numbers\<close>

lemma unat_bound: "unat (w :: 'a::len word) < 2 ^ LENGTH('a)"
  by (rule unsigned_less)

lemma unat_take_bit: "unat (take_bit n w) = unat w mod 2 ^ n"
  by (rule trans [OF unsigned_take_bit_eq take_bit_eq_mod])

lemma unat_drop_bit: "unat (drop_bit k v) = unat v div 2 ^ k" for v :: "'a::len word"
proof -
  have "unat (drop_bit k v) = drop_bit k (take_bit LENGTH('a) (unat v))" by (rule unsigned_drop_bit_eq)
  also have "take_bit LENGTH('a) (unat v) = unat v"
    using unat_bound [of v] by (rule take_bit_nat_eq_self)
  finally show ?thesis by (simp only: drop_bit_eq_div)
qed

lemma unat_push_bit: "unat (push_bit k v) = unat v * 2 ^ k mod 2 ^ LENGTH('a)" for v :: "'a::len word"
proof -
  have "unat (push_bit k v) = take_bit LENGTH('a) (push_bit k (unat v))" by (rule unsigned_push_bit_eq)
  then show ?thesis by (simp only: take_bit_eq_mod push_bit_eq_mult)
qed

lemma unat_ucast: "unat (ucast v :: 'b::len word) = unat v mod 2 ^ LENGTH('b)"
  by (rule trans [OF unsigned_ucast_eq take_bit_eq_mod])

subsection \<open>Big-endian encodings\<close>

definition be64 :: "64 word \<Rightarrow> bytes" where
  "be64 v = map (\<lambda>s. ucast (drop_bit s v)) [56, 48, 40, 32, 24, 16, 8, 0]"

definition be128 :: "128 word \<Rightarrow> bytes" where
  "be128 v = map (\<lambda>s. ucast (drop_bit s v))
     [120, 112, 104, 96, 88, 80, 72, 64, 56, 48, 40, 32, 24, 16, 8, 0]"

definition be32 :: "32 word \<Rightarrow> bytes" where
  "be32 v = map (\<lambda>s. ucast (drop_bit s v)) [24, 16, 8, 0]"

definition be16 :: "16 word \<Rightarrow> bytes" where
  "be16 v = map (\<lambda>s. ucast (drop_bit s v)) [8, 0]"

definition be_val :: "bytes \<Rightarrow> 'a::len word" where
  "be_val b = foldl (\<lambda>v x. push_bit 8 v OR ucast x) 0 b"

lemma length_be [enc_simps, simp]:
  "length (be128 a) = 16" "length (be64 v) = 8" "length (be32 w) = 4" "length (be16 u) = 2"
  by (simp_all add: be128_def be64_def be32_def be16_def)

text \<open>One more byte: the value of the bits above \<open>s\<close> from those above \<open>s + 8\<close>.\<close>

lemma be_step [enc_simps]:
  "push_bit 8 (drop_bit (s + 8) v) OR ucast (ucast (drop_bit s v) :: byte) = drop_bit s (v :: 'a::len word)"
proof (rule bit_word_eqI)
  fix n assume "n < LENGTH('a)"
  then show "bit (push_bit 8 (drop_bit (s + 8) v) OR ucast (ucast (drop_bit s v) :: byte)) n = bit (drop_bit s v) n"
    by (cases "n < 8") (auto simp: bit_simps dest: bit_imp_le_length)
qed

lemma drop_bit_beyond [simp]: "LENGTH('a) \<le> n \<Longrightarrow> drop_bit n (v :: 'a::len word) = 0"
  by (rule bit_word_eqI) (auto simp: bit_simps dest: bit_imp_le_length)

lemma be_val_be16 [enc_simps, simp]: "be_val (be16 v) = v"
  using be_step [of 8 v] be_step [of 0 v] by (simp add: be_val_def be16_def)

lemma be_val_be32 [enc_simps, simp]: "be_val (be32 v) = v"
  using be_step [of 24 v] be_step [of 16 v] be_step [of 8 v] be_step [of 0 v]
  by (simp add: be_val_def be32_def)

lemma be_val_be64 [enc_simps, simp]: "be_val (be64 v) = v"
  using be_step [of 56 v] be_step [of 48 v] be_step [of 40 v] be_step [of 32 v]
    be_step [of 24 v] be_step [of 16 v] be_step [of 8 v] be_step [of 0 v]
  by (simp add: be_val_def be64_def)

lemma be_val_be128 [enc_simps, simp]: "be_val (be128 v) = v"
  using be_step [of 120 v] be_step [of 112 v] be_step [of 104 v] be_step [of 96 v]
    be_step [of 88 v] be_step [of 80 v] be_step [of 72 v] be_step [of 64 v]
    be_step [of 56 v] be_step [of 48 v] be_step [of 40 v] be_step [of 32 v]
    be_step [of 24 v] be_step [of 16 v] be_step [of 8 v] be_step [of 0 v]
  by (simp add: be_val_def be128_def)

lemma be_inject [enc_simps, simp]:
  "be128 a = be128 b \<longleftrightarrow> a = b" "be64 c = be64 d \<longleftrightarrow> c = d" "be32 e = be32 f \<longleftrightarrow> e = f"
  "be16 g = be16 h \<longleftrightarrow> g = h"
  by (metis be_val_be128, metis be_val_be64, metis be_val_be32, metis be_val_be16)

text \<open>\<open>uint64(x)\<close> of an \<open>int64\<close> loses nothing.\<close>

lemma word_of_int_i64_inject:
  "is_i64 x \<Longrightarrow> is_i64 y \<Longrightarrow> (word_of_int x :: 64 word) = word_of_int y \<longleftrightarrow> x = y"
proof -
  assume xy: "is_i64 x" "is_i64 y"
  have "sint (word_of_int z :: 64 word) = i64 z" for z
    by (simp add: i64_def sint_sbintrunc')
  with xy show ?thesis by (metis i64_id)
qed

subsection \<open>Framing\<close>

text \<open>A field that ends at the first separator, and a field behind a fixed-length one.\<close>

lemma sep_inject:
  "d \<notin> set a \<Longrightarrow> d \<notin> set b \<Longrightarrow> a @ d # x = b @ d # y \<longleftrightarrow> a = b \<and> x = y"
  by (auto simp: append_eq_append_conv2 Cons_eq_append_conv append_eq_Cons_conv)

lemma fixed_inject:
  "length a = length b \<Longrightarrow> a @ x = b @ y \<longleftrightarrow> a = b \<and> x = y"
  by simp

subsection \<open>Chains of checks\<close>

text \<open>A check that is \<open>None\<close> passed each of its guards.\<close>

lemma guard_None: "(if P then Some x else y) = None \<longleftrightarrow> \<not> P \<and> y = None"
  by simp

lemma guard_Inr: "(if P then Inl x else y) = Inr z \<longleftrightarrow> \<not> P \<and> y = Inr z"
  by simp

subsection \<open>Strict readers\<close>

text \<open>
  What a strict reader promises of a writer: it accepts a byte string as a value exactly
  when the value is well formed and the bytes are its one encoding. Everything that hashes,
  signs or compares encodings rests on the consequences proved here.
\<close>

locale strict_codec =
  fixes wf :: "'x \<Rightarrow> bool"
    and enc :: "'x \<Rightarrow> 'b"
    and accepts :: "'b \<Rightarrow> 'x \<Rightarrow> bool"
  assumes accepts_iff: "accepts b x \<longleftrightarrow> wf x \<and> b = enc x"
    and accepts_fun: "accepts b x \<Longrightarrow> accepts b y \<Longrightarrow> x = y"
begin

lemma round_trip: "wf x \<Longrightarrow> accepts (enc x) x"
  by (simp add: accepts_iff)

lemma enc_inject: "wf x \<Longrightarrow> wf y \<Longrightarrow> enc x = enc y \<longleftrightarrow> x = y"
  using accepts_fun accepts_iff by metis

lemma one_spelling: "accepts b x \<Longrightarrow> accepts c x \<Longrightarrow> b = c"
  by (simp add: accepts_iff)

end

end
