(* ===== verification/GoText.thy ===== *)
theory GoText
  imports WPrelude "HOL-Library.Char_ord" "HOL-Library.Sublist"
begin

text \<open>
  The parts of Go's standard library the sources call on text: hexadecimal, decimal and
  base64 renderings with their readers, \<open>utf8.Valid\<close>, \<open>strings.TrimSpace\<close>,
  \<open>ToLower\<close> and \<open>EqualFold\<close>, \<open>strings.Split\<close> and \<open>strings.Cut\<close>. Each
  rendering comes with the round-trip lemmas the component proofs use.
\<close>

subsection \<open>Character classes\<close>

definition is_digit :: "char \<Rightarrow> bool" where
  "is_digit c \<longleftrightarrow> c \<in> set ''0123456789''"

definition is_lower_hex :: "char \<Rightarrow> bool" where
  "is_lower_hex c \<longleftrightarrow> c \<in> set ''0123456789abcdef''"

definition is_lower_alnum :: "char \<Rightarrow> bool" where
  "is_lower_alnum c \<longleftrightarrow> c \<in> set ''0123456789abcdefghijklmnopqrstuvwxyz''"

definition is_ascii :: "char \<Rightarrow> bool" where
  "is_ascii c \<longleftrightarrow> (of_char c :: nat) < 128"

lemma is_digit_lower_hex: "is_digit c \<Longrightarrow> is_lower_hex c"
  by (auto simp: is_digit_def is_lower_hex_def)

lemma is_lower_hex_alnum: "is_lower_hex c \<Longrightarrow> is_lower_alnum c"
  by (auto simp: is_lower_hex_def is_lower_alnum_def)

lemma is_lower_alnum_ascii: "is_lower_alnum c \<Longrightarrow> is_ascii c \<and> c \<noteq> CHR 0x00"
  by (auto simp: is_lower_alnum_def is_ascii_def of_char_def)

subsection \<open>hex.EncodeToString\<close>

definition hex_digit :: "nat \<Rightarrow> char" where
  "hex_digit n = ''0123456789abcdef'' ! n"

definition hex_of_byte :: "byte \<Rightarrow> string" where
  "hex_of_byte b = [hex_digit (unat b div 16), hex_digit (unat b mod 16)]"

definition hex_encode :: "bytes \<Rightarrow> string" where
  "hex_encode b = concat (map hex_of_byte b)"

lemma is_lower_hex_digit: "n < 16 \<Longrightarrow> is_lower_hex (hex_digit n)"
  unfolding is_lower_hex_def hex_digit_def by (rule nth_mem) simp

lemma unat_byte_less [simp]: "unat (b :: byte) < 256"
proof -
  have "unat b < 2 ^ LENGTH(8)" by (rule unsigned_less)
  then show ?thesis by simp
qed

lemma list_all_lower_hex_encode [simp]: "list_all is_lower_hex (hex_encode b)"
proof -
  have "unat x div 16 < 16" for x :: byte
    using unat_byte_less [of x] by arith
  then show ?thesis
    by (induction b) (auto simp: hex_encode_def hex_of_byte_def intro: is_lower_hex_digit)
qed

lemma length_hex_encode [simp]: "length (hex_encode b) = 2 * length b"
  by (induction b) (auto simp: hex_encode_def hex_of_byte_def)

lemma hex_digit_inject: "m < 16 \<Longrightarrow> n < 16 \<Longrightarrow> hex_digit m = hex_digit n \<longleftrightarrow> m = n"
proof -
  assume "m < 16" "n < 16"
  moreover have "distinct ''0123456789abcdef''" "length ''0123456789abcdef'' = 16" by simp_all
  ultimately show ?thesis unfolding hex_digit_def by (metis nth_eq_iff_index_eq)
qed

lemma hex_of_byte_inject: "hex_of_byte a = hex_of_byte b \<longleftrightarrow> a = b"
proof
  assume h: "hex_of_byte a = hex_of_byte b"
  have "unat x div 16 < 16" for x :: byte using unat_byte_less [of x] by linarith
  with h have "unat a div 16 = unat b div 16" "unat a mod 16 = unat b mod 16"
    by (simp_all add: hex_of_byte_def hex_digit_inject)
  then have "unat a = unat b" by (metis div_mult_mod_eq)
  then show "a = b" by (rule word_unat_eq_iff [THEN iffD2])
qed simp

lemma hex_encode_inject [simp]: "hex_encode a = hex_encode b \<longleftrightarrow> a = b"
proof (induction a arbitrary: b)
  case Nil
  then show ?case by (cases b) (simp_all add: hex_encode_def hex_of_byte_def)
next
  case (Cons x a)
  note Cons_IH = Cons.IH
  have c: "hex_encode (y # ys) = hex_of_byte y @ hex_encode ys" for y ys
    by (simp add: hex_encode_def)
  show ?case
  proof (cases b)
    case Nil
    then show ?thesis by (simp add: hex_encode_def hex_of_byte_def)
  next
    case (Cons y ys)
    have "length (hex_of_byte x) = length (hex_of_byte y)" by (simp add: hex_of_byte_def)
    then show ?thesis using Cons_IH [of ys] \<open>b = y # ys\<close> by (simp add: c hex_of_byte_inject)
  qed
qed

subsection \<open>strconv: decimal integers\<close>

definition digit_val :: "char \<Rightarrow> nat" where
  "digit_val c = of_char c - 48"

definition digit_char :: "nat \<Rightarrow> char" where
  "digit_char n = ''0123456789'' ! n"

fun dec_nat :: "nat \<Rightarrow> string" where
  "dec_nat n = (if n < 10 then [digit_char n] else dec_nat (n div 10) @ [digit_char (n mod 10)])"

declare dec_nat.simps [simp del]

definition parse_nat :: "string \<Rightarrow> nat" where
  "parse_nat s = foldl (\<lambda>v c. 10 * v + digit_val c) 0 s"

text \<open>\<open>strconv.FormatInt(x, 10)\<close> and \<open>strconv.ParseInt(s, 10, 64)\<close>.\<close>

definition format_int :: "int \<Rightarrow> string" where
  "format_int x = (if x < 0 then CHR ''-'' # dec_nat (nat (- x)) else dec_nat (nat x))"

definition parse_int :: "string \<Rightarrow> int option" where
  "parse_int s =
     (let neg = (s \<noteq> [] \<and> hd s = CHR ''-'');
          d = (if s \<noteq> [] \<and> (hd s = CHR ''-'' \<or> hd s = CHR ''+'') then tl s else s)
      in if d = [] \<or> \<not> list_all is_digit d then None
         else if neg then (if parse_nat d \<le> 2 ^ 63 then Some (- int (parse_nat d)) else None)
         else (if parse_nat d < 2 ^ 63 then Some (int (parse_nat d)) else None))"

lemma parse_int_code [code]:
  "parse_int s =
     (let neg = (s \<noteq> [] \<and> hd s = CHR ''-'');
          d = (if s \<noteq> [] \<and> (hd s = CHR ''-'' \<or> hd s = CHR ''+'') then tl s else s)
      in if d = [] \<or> \<not> list_all is_digit d then None
         else let n = int (parse_nat d) in
           if neg then (if n \<le> 2 ^ 63 then Some (- n) else None)
           else (if n < 2 ^ 63 then Some n else None))"
  by (simp add: parse_int_def Let_def)

lemma digit_char_is_digit: "n < 10 \<Longrightarrow> is_digit (digit_char n)"
  unfolding is_digit_def digit_char_def by (rule nth_mem) simp

lemma digit_val_char: "n < 10 \<Longrightarrow> digit_val (digit_char n) = n"
proof -
  have "list_all (\<lambda>n. digit_val (digit_char n) = n) [0..<10]"
    by code_simp
  then show "n < 10 \<Longrightarrow> ?thesis" by (simp add: list_all_iff)
qed

lemma digit_char_val: "is_digit c \<Longrightarrow> digit_char (digit_val c) = c \<and> digit_val c < 10"
proof -
  have "list_all (\<lambda>c. digit_char (digit_val c) = c \<and> digit_val c < 10) ''0123456789''"
    by code_simp
  then show "is_digit c \<Longrightarrow> ?thesis" unfolding is_digit_def list_all_iff by blast
qed

lemma dec_nat_nonempty [simp]: "dec_nat n \<noteq> []"
  by (subst dec_nat.simps) simp

lemma list_all_digit_dec_nat [simp]: "list_all is_digit (dec_nat n)"
proof (induction n rule: dec_nat.induct)
  case (1 n)
  then show ?case
    by (subst dec_nat.simps) (auto simp: digit_char_is_digit)
qed

lemma parse_nat_append: "parse_nat (s @ [c]) = 10 * parse_nat s + digit_val c"
  by (simp add: parse_nat_def)

lemma parse_nat_dec_nat [simp]: "parse_nat (dec_nat n) = n"
proof (induction n rule: dec_nat.induct)
  case (1 n)
  show ?case
  proof (cases "n < 10")
    case True
    then show ?thesis
      by (subst dec_nat.simps) (simp add: parse_nat_def digit_val_char)
  next
    case False
    with 1 have "parse_nat (dec_nat (n div 10)) = n div 10" by simp
    with False show ?thesis
      by (subst dec_nat.simps) (simp add: parse_nat_append digit_val_char)
  qed
qed

lemma parse_nat_bound: "list_all is_digit s \<Longrightarrow> parse_nat s < 10 ^ length s"
proof (induction s rule: rev_induct)
  case Nil
  then show ?case by (simp add: parse_nat_def)
next
  case (snoc c s)
  then have "parse_nat s < 10 ^ length s" "digit_val c < 10"
    using digit_char_val [of c] by auto
  then show ?case by (simp add: parse_nat_append)
qed

text \<open>A decimal with no leading zero is the rendering of its value.\<close>

definition no_leading_zero :: "string \<Rightarrow> bool" where
  "no_leading_zero s \<longleftrightarrow> s \<noteq> [] \<and> (hd s = CHR ''0'' \<longrightarrow> length s = 1)"

lemma digit_val_zero: "is_digit c \<Longrightarrow> digit_val c = 0 \<Longrightarrow> c = CHR ''0''"
  using digit_char_val [of c] by (simp add: digit_char_def)

lemma parse_nat_pos:
  "list_all is_digit s \<Longrightarrow> s \<noteq> [] \<Longrightarrow> hd s \<noteq> CHR ''0'' \<Longrightarrow> 0 < parse_nat s"
proof (induction s rule: rev_induct)
  case Nil
  then show ?case by simp
next
  case (snoc c s)
  show ?case
  proof (cases "s = []")
    case True
    with snoc.prems show ?thesis
      using digit_val_zero [of c] by (auto simp: parse_nat_def)
  next
    case False
    with snoc show ?thesis by (simp add: parse_nat_append)
  qed
qed

lemma dec_nat_parse_nat:
  "list_all is_digit s \<Longrightarrow> no_leading_zero s \<Longrightarrow> dec_nat (parse_nat s) = s"
proof (induction s rule: rev_induct)
  case Nil
  then show ?case by (simp add: no_leading_zero_def)
next
  case (snoc c s)
  have c: "digit_char (digit_val c) = c" "digit_val c < 10"
    using snoc.prems digit_char_val [of c] by auto
  show ?case
  proof (cases "s = []")
    case True
    with c show ?thesis
      by (subst dec_nat.simps) (simp add: parse_nat_def)
  next
    case False
    with snoc.prems have s: "list_all is_digit s" "no_leading_zero s" "hd s \<noteq> CHR ''0''"
      by (auto simp: no_leading_zero_def)
    with False have "0 < parse_nat s" by (intro parse_nat_pos)
    with c snoc.IH [OF s(1,2)] show ?thesis
      by (subst dec_nat.simps) (simp add: parse_nat_append)
  qed
qed

lemma hd_append_ne: "xs \<noteq> [] \<Longrightarrow> hd (xs @ ys) = hd xs"
  by simp

lemma no_leading_zero_dec_nat [simp]: "no_leading_zero (dec_nat n)"
proof (induction n rule: dec_nat.induct)
  case (1 n)
  show ?case
  proof (cases "n < 10")
    case True
    then show ?thesis by (subst dec_nat.simps) (simp add: no_leading_zero_def)
  next
    case False
    with 1 have IH: "no_leading_zero (dec_nat (n div 10))" by simp
    have "hd (dec_nat (n div 10)) \<noteq> CHR ''0''"
    proof
      assume "hd (dec_nat (n div 10)) = CHR ''0''"
      with IH have "dec_nat (n div 10) = ''0''"
        by (cases "dec_nat (n div 10)") (auto simp: no_leading_zero_def)
      then have "n div 10 = parse_nat ''0''" by (metis parse_nat_dec_nat)
      with False show False by (simp add: parse_nat_def digit_val_def of_char_def)
    qed
    with False show ?thesis
      by (subst dec_nat.simps) (simp add: no_leading_zero_def)
  qed
qed

lemma hd_digit_not_sign: "is_digit c \<Longrightarrow> c \<noteq> CHR ''-'' \<and> c \<noteq> CHR ''+''"
  by (auto simp: is_digit_def)

lemma parse_int_digits:
  "s \<noteq> [] \<Longrightarrow> list_all is_digit s \<Longrightarrow>
   parse_int s = (if parse_nat s < 2 ^ 63 then Some (int (parse_nat s)) else None)"
  by (cases s) (auto simp: parse_int_def Let_def dest: hd_digit_not_sign)

lemma parse_int_format_int:
  "0 \<le> x \<Longrightarrow> x < 2 ^ 63 \<Longrightarrow> parse_int (format_int x) = Some x"
proof -
  assume x: "0 \<le> x" "x < 2 ^ 63"
  then have "nat x < 2 ^ 63" by simp
  with x show ?thesis by (simp add: format_int_def parse_int_digits)
qed

text \<open>How many digits, and the strict decimal reading: digits with no leading zero.\<close>

lemma length_dec_nat: "n < 10 ^ Suc k \<Longrightarrow> length (dec_nat n) \<le> Suc k"
proof (induction k arbitrary: n)
  case 0
  then show ?case by (subst dec_nat.simps) simp
next
  case (Suc k)
  then have "n div 10 < 10 ^ Suc k" by (simp add: less_mult_imp_div_less)
  from Suc.IH [OF this] show ?case by (subst dec_nat.simps) simp
qed

definition is_decimal :: "string \<Rightarrow> bool" where
  "is_decimal s \<longleftrightarrow> list_all is_digit s \<and> no_leading_zero s"

lemma is_decimal_format_int [simp]: "0 \<le> n \<Longrightarrow> is_decimal (format_int n)"
  by (simp add: is_decimal_def format_int_def)

lemma decimal_parse_int:
  "is_decimal s \<and> parse_int s = Some n \<longleftrightarrow> 0 \<le> n \<and> n < 2 ^ 63 \<and> s = format_int n"
proof
  assume s: "is_decimal s \<and> parse_int s = Some n"
  then have d: "list_all is_digit s" "no_leading_zero s" "s \<noteq> []"
    by (simp_all add: is_decimal_def no_leading_zero_def)
  then have n: "n = int (parse_nat s)" "parse_nat s < 2 ^ 63"
    using s by (simp_all add: parse_int_digits split: if_splits)
  moreover have "s = dec_nat (parse_nat s)" using d by (simp add: dec_nat_parse_nat)
  ultimately show "0 \<le> n \<and> n < 2 ^ 63 \<and> s = format_int n" by (simp add: format_int_def)
qed (simp add: parse_int_format_int)

lemma length_format_int: "0 \<le> n \<Longrightarrow> n < 2 ^ 63 \<Longrightarrow> length (format_int n) \<le> 19"
  using length_dec_nat [of "nat n" 18] by (simp add: format_int_def)

subsection \<open>encoding/base64: the standard padded alphabet\<close>

definition b64_char :: "nat \<Rightarrow> char" where
  "b64_char n = ''ABCDEFGHIJKLMNOPQRSTUVWXYZabcdefghijklmnopqrstuvwxyz0123456789+/'' ! n"

definition b64_alphabet :: "(char \<times> nat) list" where
  "b64_alphabet = map (\<lambda>n. (b64_char n, n)) [0..<64]"

definition b64_val :: "char \<Rightarrow> nat option" where
  "b64_val c = map_of b64_alphabet c"

text \<open>The four six-bit pieces of three bytes, and the three bytes of four pieces.\<close>

definition b64_p1 :: "byte \<Rightarrow> nat" where "b64_p1 a = unat a div 4"
definition b64_p2 :: "byte \<Rightarrow> byte \<Rightarrow> nat" where "b64_p2 a b = unat a mod 4 * 16 + unat b div 16"
definition b64_p3 :: "byte \<Rightarrow> byte \<Rightarrow> nat" where "b64_p3 b c = unat b mod 16 * 4 + unat c div 64"
definition b64_p4 :: "byte \<Rightarrow> nat" where "b64_p4 c = unat c mod 64"

definition b64_j1 :: "nat \<Rightarrow> nat \<Rightarrow> byte" where
  "b64_j1 v1 v2 = word_of_nat (v1 * 4 + v2 div 16)"
definition b64_j2 :: "nat \<Rightarrow> nat \<Rightarrow> byte" where
  "b64_j2 v2 v3 = word_of_nat (v2 mod 16 * 16 + v3 div 4)"
definition b64_j3 :: "nat \<Rightarrow> nat \<Rightarrow> byte" where
  "b64_j3 v3 v4 = word_of_nat (v3 mod 4 * 64 + v4)"

fun b64_encode :: "bytes \<Rightarrow> string" where
  "b64_encode [] = []"
| "b64_encode [a] = [b64_char (b64_p1 a), b64_char (b64_p2 a 0), CHR ''='', CHR ''='']"
| "b64_encode [a, b] =
     [b64_char (b64_p1 a), b64_char (b64_p2 a b), b64_char (b64_p3 b 0), CHR ''='']"
| "b64_encode (a # b # c # r) =
     b64_char (b64_p1 a) # b64_char (b64_p2 a b) # b64_char (b64_p3 b c) # b64_char (b64_p4 c) #
     b64_encode r"

text \<open>
  \<open>DecodeString\<close>: newlines are skipped, every quantum is four characters, padding ends
  the text, and the bits a padded quantum does not use are not checked.
\<close>

fun b64_quanta :: "string \<Rightarrow> bytes option" where
  "b64_quanta [] = Some []"
| "b64_quanta (c1 # c2 # c3 # c4 # r) =
     (case (b64_val c1, b64_val c2) of
        (Some v1, Some v2) \<Rightarrow>
          if c3 = CHR ''='' then
            (if c4 = CHR ''='' \<and> r = [] then Some [b64_j1 v1 v2] else None)
          else (case b64_val c3 of
             None \<Rightarrow> None
           | Some v3 \<Rightarrow>
               if c4 = CHR ''='' then
                 (if r = [] then Some [b64_j1 v1 v2, b64_j2 v2 v3] else None)
               else (case (b64_val c4, b64_quanta r) of
                  (Some v4, Some t) \<Rightarrow> Some (b64_j1 v1 v2 # b64_j2 v2 v3 # b64_j3 v3 v4 # t)
                | _ \<Rightarrow> None))
      | _ \<Rightarrow> None)"
| "b64_quanta _ = None"

definition b64_decode :: "string \<Rightarrow> bytes option" where
  "b64_decode s = b64_quanta (filter (\<lambda>c. c \<noteq> CHR 0x0D \<and> c \<noteq> CHR 0x0A) s)"

lemma b64_char_props:
  "n < 64 \<Longrightarrow> b64_val (b64_char n) = Some n \<and> b64_char n \<noteq> CHR ''='' \<and>
     b64_char n \<noteq> CHR 0x0D \<and> b64_char n \<noteq> CHR 0x0A"
proof -
  have "list_all (\<lambda>n. b64_val (b64_char n) = Some n \<and> b64_char n \<noteq> CHR ''='' \<and>
     b64_char n \<noteq> CHR 0x0D \<and> b64_char n \<noteq> CHR 0x0A) [0..<64]"
    by code_simp
  then show "n < 64 \<Longrightarrow> ?thesis" unfolding list_all_iff by simp
qed

lemma b64_pieces:
  "b64_p1 a < 64" "b64_p2 a b < 64" "b64_p3 a b < 64" "b64_p4 a < 64"
proof -
  have "unat a < 256" "unat b < 256" by simp_all
  then show "b64_p1 a < 64" "b64_p2 a b < 64" "b64_p3 a b < 64" "b64_p4 a < 64"
    unfolding b64_p1_def b64_p2_def b64_p3_def b64_p4_def by arith+
qed

lemma quot_rem: "(k :: nat) < m \<Longrightarrow> (q * m + k) div m = q \<and> (q * m + k) mod m = k"
  by simp

lemma b64_joins:
  "b64_j1 (b64_p1 a) (b64_p2 a b) = a"
  "b64_j2 (b64_p2 a b) (b64_p3 b c) = b"
  "b64_j3 (b64_p3 b c) (b64_p4 c) = c"
proof -
  have "unat b < 256" "unat c < 256" by simp_all
  then have "unat b div 16 < 16" "unat c div 64 < 4" by arith+
  note q = quot_rem [OF this(1)] quot_rem [OF this(2)]
  show "b64_j1 (b64_p1 a) (b64_p2 a b) = a" "b64_j2 (b64_p2 a b) (b64_p3 b c) = b"
    "b64_j3 (b64_p3 b c) (b64_p4 c) = c"
    unfolding b64_j1_def b64_j2_def b64_j3_def b64_p1_def b64_p2_def b64_p3_def b64_p4_def
    by (simp_all only: q div_mult_mod_eq of_nat_unat ucast_id)
qed

lemma b64_quanta_encode: "b64_quanta (b64_encode b) = Some b"
  by (induction b rule: b64_encode.induct) (simp_all add: b64_char_props b64_pieces b64_joins)

lemma filter_newlines_encode:
  "filter (\<lambda>c. c \<noteq> CHR 0x0D \<and> c \<noteq> CHR 0x0A) (b64_encode b) = b64_encode b"
  by (induction b rule: b64_encode.induct) (simp_all add: b64_char_props b64_pieces)

lemma b64_decode_encode [simp]: "b64_decode (b64_encode b) = Some b"
  by (simp add: b64_decode_def filter_newlines_encode b64_quanta_encode)

lemma b64_encode_inject [simp]: "b64_encode a = b64_encode b \<longleftrightarrow> a = b"
  by (metis b64_decode_encode option.inject)

subsection \<open>utf8.Valid\<close>

definition cont_byte :: "byte \<Rightarrow> bool" where
  "cont_byte b \<longleftrightarrow> 0x80 \<le> b \<and> b \<le> 0xBF"

fun valid_utf8 :: "bytes \<Rightarrow> bool" where
  "valid_utf8 [] = True"
| "valid_utf8 (a # r) =
     (if a < 0x80 then valid_utf8 r
      else if 0xC2 \<le> a \<and> a \<le> 0xDF then
        (case r of b # r' \<Rightarrow> cont_byte b \<and> valid_utf8 r' | _ \<Rightarrow> False)
      else if 0xE0 \<le> a \<and> a \<le> 0xEF then
        (case r of b # c # r' \<Rightarrow>
           (if a = 0xE0 then 0xA0 \<le> b \<and> b \<le> 0xBF
            else if a = 0xED then 0x80 \<le> b \<and> b \<le> 0x9F
            else cont_byte b) \<and> cont_byte c \<and> valid_utf8 r'
         | _ \<Rightarrow> False)
      else if 0xF0 \<le> a \<and> a \<le> 0xF4 then
        (case r of b # c # d # r' \<Rightarrow>
           (if a = 0xF0 then 0x90 \<le> b \<and> b \<le> 0xBF
            else if a = 0xF4 then 0x80 \<le> b \<and> b \<le> 0x8F
            else cont_byte b) \<and> cont_byte c \<and> cont_byte d \<and> valid_utf8 r'
         | _ \<Rightarrow> False)
      else False)"

declare valid_utf8.simps(2) [simp del]

lemma valid_utf8_ascii: "\<forall>b \<in> set r. b < 0x80 \<Longrightarrow> valid_utf8 r"
  by (induction r) (auto simp: valid_utf8.simps(2))

subsection \<open>strings.TrimSpace\<close>

text \<open>
  The length in bytes of the Unicode white space character a string begins with, 0 if it
  begins with none: the ASCII ones, U+0085, U+00A0, U+1680, U+2000 to U+200A, U+2028,
  U+2029, U+202F, U+205F and U+3000 in UTF-8.
\<close>

fun space_len :: "string \<Rightarrow> nat" where
  "space_len [] = 0"
| "space_len (a # r) =
     (if a \<in> {CHR 0x09, CHR 0x0A, CHR 0x0B, CHR 0x0C, CHR 0x0D, CHR 0x20} then 1
      else if a = CHR 0xC2 then
        (case r of b # _ \<Rightarrow> if b = CHR 0x85 \<or> b = CHR 0xA0 then 2 else 0 | _ \<Rightarrow> 0)
      else (case r of b # c # _ \<Rightarrow>
         if a = CHR 0xE1 \<and> b = CHR 0x9A \<and> c = CHR 0x80 then 3
         else if a = CHR 0xE2 \<and> b = CHR 0x80 \<and>
                 (CHR 0x80 \<le> c \<and> c \<le> CHR 0x8A \<or> c = CHR 0xA8 \<or> c = CHR 0xA9 \<or> c = CHR 0xAF) then 3
         else if a = CHR 0xE2 \<and> b = CHR 0x81 \<and> c = CHR 0x9F then 3
         else if a = CHR 0xE3 \<and> b = CHR 0x80 \<and> c = CHR 0x80 then 3
         else 0
       | _ \<Rightarrow> 0))"

definition space_len_end :: "string \<Rightarrow> nat" where
  "space_len_end s =
     (if s \<noteq> [] \<and> space_len (drop (length s - 1) s) = 1 then 1
      else if 2 \<le> length s \<and> space_len (drop (length s - 2) s) = 2 then 2
      else if 3 \<le> length s \<and> space_len (drop (length s - 3) s) = 3 then 3
      else 0)"

function trim_left :: "string \<Rightarrow> string" where
  "trim_left s = (if space_len s = 0 then s else trim_left (drop (space_len s) s))"
  by pat_completeness auto
termination
proof (relation "measure length")
  fix s :: string assume "space_len s \<noteq> 0"
  then show "(drop (space_len s) s, s) \<in> measure length" by (cases s) auto
qed simp

function trim_right :: "string \<Rightarrow> string" where
  "trim_right s =
     (if space_len_end s = 0 then s else trim_right (take (length s - space_len_end s) s))"
  by pat_completeness auto
termination
proof (relation "measure length")
  fix s :: string assume "space_len_end s \<noteq> 0"
  then show "(take (length s - space_len_end s) s, s) \<in> measure length"
    by (cases s) (auto simp: space_len_end_def split: if_splits)
qed simp

declare trim_left.simps [simp del] trim_right.simps [simp del]

definition trim_space :: "string \<Rightarrow> string" where
  "trim_space s = trim_right (trim_left s)"

lemma trim_space_Nil [simp]: "trim_space [] = []"
  by (simp add: trim_space_def trim_left.simps trim_right.simps space_len_end_def)

text \<open>A string of printable ASCII other than the space has nothing to trim.\<close>

definition is_graph :: "char \<Rightarrow> bool" where
  "is_graph c \<longleftrightarrow> CHR 0x20 < c \<and> c < CHR 0x7F"

lemma space_len_graph: "is_graph c \<Longrightarrow> space_len (c # r) = 0"
proof -
  assume g: "is_graph c"
  have "c \<notin> {CHR 0x09, CHR 0x0A, CHR 0x0B, CHR 0x0C, CHR 0x0D, CHR 0x20}"
    "c \<noteq> CHR 0xC2" "c \<noteq> CHR 0xE1" "c \<noteq> CHR 0xE2" "c \<noteq> CHR 0xE3"
    using g by (auto simp: is_graph_def)
  then show ?thesis by (simp split: list.split)
qed

lemma space_len_graph_list: "list_all is_graph s \<Longrightarrow> space_len s = 0"
  by (cases s) (simp_all add: space_len_graph del: space_len.simps(2))

lemma space_len_end_graph: "list_all is_graph s \<Longrightarrow> space_len_end s = 0"
proof -
  assume "list_all is_graph s"
  then have "list_all is_graph (drop n s)" for n
    by (metis append_take_drop_id list_all_append)
  then show ?thesis by (simp add: space_len_end_def space_len_graph_list)
qed

lemma trim_space_graph [simp]: "list_all is_graph s \<Longrightarrow> trim_space s = s"
  by (simp add: trim_space_def trim_left.simps trim_right.simps
      space_len_graph_list space_len_end_graph)

lemma b64_char_graph: "n < 64 \<Longrightarrow> is_graph (b64_char n)"
proof -
  have "list_all (\<lambda>n. is_graph (b64_char n)) [0..<64]" by code_simp
  then show "n < 64 \<Longrightarrow> ?thesis" by (simp add: list_all_iff)
qed

lemma is_graph_eq: "is_graph (CHR ''='')"
  by code_simp

lemma b64_encode_graph: "list_all is_graph (b64_encode b)"
  by (induction b rule: b64_encode.induct) (simp_all add: b64_char_graph b64_pieces is_graph_eq)

lemma trim_b64_encode [simp]: "trim_space (b64_encode b) = b64_encode b"
  by (simp add: b64_encode_graph)

subsection \<open>ASCII case, strings.EqualFold, strings.Split, strings.Cut, strings.Index\<close>

definition lower_char :: "char \<Rightarrow> char" where
  "lower_char c = (if CHR ''A'' \<le> c \<and> c \<le> CHR ''Z'' then char_of (of_char c + 32 :: nat) else c)"

text \<open>
  \<open>strings.ToLower\<close>: the ASCII fast path, and for a string with a byte above 0x7F the
  Unicode tables, which are the parameter \<open>uni\<close>.
\<close>

definition to_lower :: "(string \<Rightarrow> string) \<Rightarrow> string \<Rightarrow> string" where
  "to_lower uni s = (if list_all is_ascii s then map lower_char s else uni s)"

fun split_on :: "char \<Rightarrow> string \<Rightarrow> string list" where
  "split_on d [] = [[]]"
| "split_on d (c # s) =
     (if c = d then [] # split_on d s
      else (case split_on d s of [] \<Rightarrow> [[c]] | t # ts \<Rightarrow> (c # t) # ts))"

text \<open>\<open>strings.Cut(s, d)\<close> for a one-byte separator: before, after, and whether it was there.\<close>

fun cut_at :: "char \<Rightarrow> string \<Rightarrow> (string \<times> string) option" where
  "cut_at d [] = None"
| "cut_at d (c # s) =
     (if c = d then Some ([], s)
      else map_option (\<lambda>(a, b). (c # a, b)) (cut_at d s))"

text \<open>\<open>strings.Index(s, p)\<close>: the first position \<open>p\<close> occurs at.\<close>

fun index_of :: "string \<Rightarrow> string \<Rightarrow> nat option" where
  "index_of p [] = (if p = [] then Some 0 else None)"
| "index_of p (c # s) = (if prefix p (c # s) then Some 0 else map_option Suc (index_of p s))"

text \<open>\<open>strings.Join\<close>.\<close>

fun join :: "string \<Rightarrow> string list \<Rightarrow> string" where
  "join sep [] = []"
| "join sep [s] = s"
| "join sep (s # ss) = s @ sep @ join sep ss"

lemma split_on_nonempty [simp]: "split_on d s \<noteq> []"
  by (induction s) (auto split: list.splits)

lemma split_on_append: "d \<notin> set a \<Longrightarrow> split_on d (a @ d # b) = a # split_on d b"
  by (induction a) auto

lemma split_on_none: "d \<notin> set a \<Longrightarrow> split_on d a = [a]"
  by (induction a) auto

lemma cut_at_Some: "cut_at d s = Some (a, b) \<longleftrightarrow> s = a @ d # b \<and> d \<notin> set a"
proof (induction s arbitrary: a)
  case (Cons c s)
  show ?case
  proof (cases a)
    case (Cons x xs)
    then show ?thesis using Cons.IH [of xs] by auto
  qed auto
qed simp

lemma cut_at_None: "cut_at d s = None \<longleftrightarrow> d \<notin> set s"
  by (induction s) auto

lemma cut_at_append [simp]: "d \<notin> set a \<Longrightarrow> cut_at d (a @ d # b) = Some (a, b)"
  by (simp add: cut_at_Some)

end
