(* ===== verification/Sha256.thy ===== *)
theory Sha256
  imports WPrelude
begin

text \<open>
  SHA-256 (FIPS 180-4), which the sources take from \<open>crypto/sha256\<close>: padding, message
  schedule, compression and the big-endian digest, on 32-bit words. The proofs use one
  fact of it, that a digest is 32 bytes; what rests on its collision resistance is stated
  as "or here are two different inputs with one digest".
\<close>

text \<open>
  The constants are derived as the standard defines them: the first 32 fractional bits of the
  cube roots of the first 64 primes, and of the square roots of the first eight.
  \<open>root_bits k n b 0\<close> is the integer k-th root of \<open>n\<close> when it has at most \<open>b\<close> bits.
\<close>

fun root_bits :: "nat \<Rightarrow> nat \<Rightarrow> nat \<Rightarrow> nat \<Rightarrow> nat" where
  "root_bits k n 0 acc = acc"
| "root_bits k n (Suc b) acc =
     root_bits k n b (if (acc + 2 ^ b) ^ k \<le> n then acc + 2 ^ b else acc)"

definition sha_primes :: "nat list" where
  "sha_primes = take 64 (filter (\<lambda>n. list_all (\<lambda>d. n mod d \<noteq> 0) [2..<n]) [2..<312])"

definition sha_k :: "32 word list" where
  "sha_k = map (\<lambda>p. word_of_nat (root_bits 3 (p * 2 ^ 96) 35 0)) sha_primes"

definition sha_h0 :: "32 word list" where
  "sha_h0 = map (\<lambda>p. word_of_nat (root_bits 2 (p * 2 ^ 64) 35 0)) [2, 3, 5, 7, 11, 13, 17, 19]"

definition rotr32 :: "nat \<Rightarrow> 32 word \<Rightarrow> 32 word" where
  "rotr32 n x = drop_bit n x OR push_bit (32 - n) x"

definition sha_pad :: "bytes \<Rightarrow> bytes" where
  "sha_pad m = m @ 0x80 # replicate ((119 - length m mod 64) mod 64) 0 @ be64 (word_of_nat (8 * length m))"

fun sha_words :: "bytes \<Rightarrow> 32 word list" where
  "sha_words (a # b # c # d # r) = be_val [a, b, c, d] # sha_words r"
| "sha_words _ = []"

fun sha_schedule :: "nat \<Rightarrow> 32 word list \<Rightarrow> 32 word list" where
  "sha_schedule 0 w = w"
| "sha_schedule (Suc n) w =
     (let t = length w; x = w ! (t - 15); y = w ! (t - 2);
          s0 = rotr32 7 x XOR rotr32 18 x XOR drop_bit 3 x;
          s1 = rotr32 17 y XOR rotr32 19 y XOR drop_bit 10 y
      in sha_schedule n (w @ [w ! (t - 16) + s0 + w ! (t - 7) + s1]))"

definition sha_round :: "32 word list \<Rightarrow> 32 word \<times> 32 word \<Rightarrow> 32 word list" where
  "sha_round v kw =
     (let a = v ! 0; b = v ! 1; c = v ! 2; d = v ! 3; e = v ! 4; f = v ! 5; g = v ! 6; h = v ! 7;
          s1 = rotr32 6 e XOR rotr32 11 e XOR rotr32 25 e;
          ch = (e AND f) XOR (NOT e AND g);
          t1 = h + s1 + ch + fst kw + snd kw;
          s0 = rotr32 2 a XOR rotr32 13 a XOR rotr32 22 a;
          maj = (a AND b) XOR (a AND c) XOR (b AND c)
      in [t1 + s0 + maj, a, b, c, d + t1, e, f, g])"

definition sha_compress :: "32 word list \<Rightarrow> 32 word list \<Rightarrow> 32 word list" where
  "sha_compress v blk = map2 (+) v (foldl sha_round v (zip sha_k (sha_schedule 48 blk)))"

function sha_blocks :: "32 word list \<Rightarrow> 32 word list \<Rightarrow> 32 word list" where
  "sha_blocks v w = (if w = [] then v else sha_blocks (sha_compress v (take 16 w)) (drop 16 w))"
  by pat_completeness auto
termination
  by (relation "measure (\<lambda>(v, w). length w)") auto

declare sha_blocks.simps [simp del]

text \<open>\<open>sha256.Sum256\<close>.\<close>

definition sha256 :: "bytes \<Rightarrow> bytes" where
  "sha256 m = concat (map be32 (sha_blocks sha_h0 (sha_words (sha_pad m))))"

lemma length_sha_round [simp]: "length (sha_round v kw) = 8"
  by (simp add: sha_round_def Let_def)

lemma length_sha_rounds: "length v = 8 \<Longrightarrow> length (foldl sha_round v kws) = 8"
  by (induction kws arbitrary: v) auto

lemma length_sha_blocks: "length v = 8 \<Longrightarrow> length (sha_blocks v w) = 8"
proof (induction v w rule: sha_blocks.induct)
  case (1 v w)
  then show ?case
    by (subst sha_blocks.simps) (auto simp: sha_compress_def length_sha_rounds)
qed

lemma length_sha256 [simp]: "length (sha256 m) = 32"
proof -
  have "length (sha_blocks sha_h0 w) = 8" for w
    by (rule length_sha_blocks) (simp add: sha_h0_def)
  moreover have "length (concat (map be32 ws)) = 4 * length ws" for ws
    by (induction ws) auto
  ultimately show ?thesis by (simp add: sha256_def)
qed

end
