(* ===== verification/KelStatement.thy ===== *)
theory KelStatement
  imports GoText Sha256
begin

text \<open>
  \<open>internal/kel/statement.go\<close>: the kinds and authorities of a key event, the field checks
  (\<open>IsDigest\<close>, \<open>IsIdentityRef\<close>, \<open>IsBirthNonce\<close>), the birth window, the signed
  statement \<open>Statement.Bytes\<close> and the strict reader of DER signatures. The lemmas show
  that a statement's bytes determine its fields, and that the DER reader accepts exactly
  one spelling of each signature.
\<close>

subsection \<open>Kinds and authorities\<close>

text \<open>The empty string, which \<open>kindOf\<close> and a v1 event hold, is \<open>NoKind\<close>.\<close>

datatype kind = NoKind | ICP | ROT | RIC | RCV | REC

datatype authority = NoAuthority | Birth | Adopt | ByKey | Owner | Reconcile

primrec kind_str :: "kind \<Rightarrow> string" where
  "kind_str NoKind = ''''"
| "kind_str ICP = ''icp''"
| "kind_str ROT = ''rot''"
| "kind_str RIC = ''ric''"
| "kind_str RCV = ''rcv''"
| "kind_str REC = ''rec''"

primrec authority_str :: "authority \<Rightarrow> string" where
  "authority_str NoAuthority = ''''"
| "authority_str Birth = ''birth''"
| "authority_str Adopt = ''adopt''"
| "authority_str ByKey = ''key''"
| "authority_str Owner = ''owner''"
| "authority_str Reconcile = ''reconcile''"

definition kindOf :: "string \<Rightarrow> kind" where
  "kindOf s =
     (if s = ''icp'' then ICP else if s = ''rot'' then ROT else if s = ''ric'' then RIC
      else if s = ''rcv'' then RCV else if s = ''rec'' then REC else NoKind)"

definition authorityOf :: "string \<Rightarrow> authority" where
  "authorityOf s =
     (if s = ''birth'' then Birth else if s = ''adopt'' then Adopt else if s = ''key'' then ByKey
      else if s = ''owner'' then Owner else if s = ''reconcile'' then Reconcile else NoAuthority)"

definition Signed :: "kind \<Rightarrow> bool" where
  "Signed k \<longleftrightarrow> k \<noteq> REC"

fun Allows :: "kind \<Rightarrow> authority \<Rightarrow> bool" where
  "Allows ICP a = (a = Birth \<or> a = Adopt)"
| "Allows ROT a = (a = ByKey)"
| "Allows RIC a = (a = ByKey)"
| "Allows RCV a = (a = Owner)"
| "Allows REC a = (a = Reconcile)"
| "Allows NoKind a = False"

lemma kindOf_kind_str [simp]: "kindOf (kind_str k) = k"
  by (cases k) (simp_all add: kindOf_def)

lemma authorityOf_authority_str [simp]: "authorityOf (authority_str a) = a"
  by (cases a) (simp_all add: authorityOf_def)

lemma kind_str_inject [simp]: "kind_str k = kind_str l \<longleftrightarrow> k = l"
  by (metis kindOf_kind_str)

lemma authority_str_inject [simp]: "authority_str a = authority_str b \<longleftrightarrow> a = b"
  by (metis authorityOf_authority_str)

subsection \<open>Field checks\<close>

text \<open>The Go names of the constants of \<open>statement.go\<close>.\<close>

definition StatementDomain :: string where
  "StatementDomain = ''whisper-key-event/v2''"

definition BirthWindowSeconds :: int where "BirthWindowSeconds = 300"
definition MaxIdentityRef :: nat where "MaxIdentityRef = 64"
definition MaxSignatureDER :: nat where "MaxSignatureDER = 72"
definition MaxSPKIDER :: nat where "MaxSPKIDER = 256"

definition sha256Hex :: "bytes \<Rightarrow> string" where
  "sha256Hex b = hex_encode (sha256 b)"

definition Genesis :: string where
  "Genesis = sha256Hex []"

definition IsDigest :: "string \<Rightarrow> bool" where
  "IsDigest s \<longleftrightarrow> length s = 64 \<and> list_all is_lower_hex s"

definition isOptionalDigest :: "string \<Rightarrow> bool" where
  "isOptionalDigest s \<longleftrightarrow> s = [] \<or> IsDigest s"

definition IsIdentityRef :: "string \<Rightarrow> bool" where
  "IsIdentityRef s \<longleftrightarrow> 1 \<le> length s \<and> length s \<le> 64 \<and> list_all is_lower_alnum s"

text \<open>The submatches of \<open>birthNonceRE\<close>: the window's digits and the client's hex.\<close>

definition birthNonce_match :: "string \<Rightarrow> (string \<times> string) option" where
  "birthNonce_match s =
     (if prefix ''birth:'' s then
        (case cut_at (CHR '':'') (drop 6 s) of
           None \<Rightarrow> None
         | Some (w, h) \<Rightarrow>
             if list_all is_digit w \<and> no_leading_zero w \<and> length w \<le> 18 \<and>
                length h = 32 \<and> list_all is_lower_hex h
             then Some (w, h) else None)
      else None)"

definition IsBirthNonce :: "string \<Rightarrow> bool" where
  "IsBirthNonce s \<longleftrightarrow> birthNonce_match s \<noteq> None"

definition KeyDigest :: "bytes \<Rightarrow> string" where
  "KeyDigest spki = sha256Hex spki"

datatype stmt_error =
    CommitNotDigest | NonceMalformed
  | KindAuthority | BirthNamesRef | BadIdentityRef | NegativeSequence | BadDigest
  | BadOptionalDigest | BirthWithoutNonce | NonceWithoutBirth | InceptionNotGenesis
  | BirthNamesAddress

definition Commit :: "string \<Rightarrow> stmt_error + string" where
  "Commit keyDigest =
     (if \<not> IsDigest keyDigest then Inl CommitNotDigest else Inr (sha256Hex (bytes_of keyDigest)))"

lemma sha256Hex_eq: "sha256Hex a = sha256Hex b \<longleftrightarrow> sha256 a = sha256 b"
  by (simp add: sha256Hex_def)

lemma IsDigest_sha256Hex [simp, check_intros]: "IsDigest (sha256Hex b)"
  by (simp add: IsDigest_def sha256Hex_def)

lemma IsDigest_Genesis [simp]: "IsDigest Genesis"
  by (simp add: Genesis_def)

lemma IsDigest_nonempty: "IsDigest s \<Longrightarrow> s \<noteq> []"
  by (auto simp: IsDigest_def)

subsection \<open>Birth windows\<close>

text \<open>Go's integer division truncates towards zero; \<open>floorDiv\<close> corrects it.\<close>

definition go_quot :: "int \<Rightarrow> int \<Rightarrow> int" where
  "go_quot a b = sgn a * sgn b * (\<bar>a\<bar> div \<bar>b\<bar>)"

definition go_rem :: "int \<Rightarrow> int \<Rightarrow> int" where
  "go_rem a b = a - b * go_quot a b"

definition floorDiv :: "int \<Rightarrow> int \<Rightarrow> int" where
  "floorDiv a b =
     (let q = go_quot a b
      in if go_rem a b \<noteq> 0 \<and> (a < 0) \<noteq> (b < 0) then q - 1 else q)"

definition BirthWindowFor :: "int \<Rightarrow> int" where
  "BirthWindowFor epochMillis = floorDiv (floorDiv epochMillis 1000) BirthWindowSeconds"

definition BirthNonce :: "int \<Rightarrow> string \<Rightarrow> stmt_error + string" where
  "BirthNonce window clientNonceHex =
     (let s = ''birth:'' @ format_int window @ '':'' @ clientNonceHex
      in if window < 0 \<or> \<not> IsBirthNonce s then Inl NonceMalformed else Inr s)"

definition BirthWindowAccepted :: "string \<Rightarrow> int \<Rightarrow> bool" where
  "BirthWindowAccepted bindNonce nowMillis =
     (case birthNonce_match bindNonce of
        None \<Rightarrow> False
      | Some (w, _) \<Rightarrow>
          (case parse_int w of
             None \<Rightarrow> False
           | Some w' \<Rightarrow> (let ours = BirthWindowFor nowMillis in w' = ours \<or> w' = ours - 1)))"

subsection \<open>The commitment argument\<close>

datatype wire_commitment = Absent | Sealed_arg | Committed string | Invalid

definition wire_str :: "wire_commitment \<Rightarrow> string" where
  "wire_str c = (case c of Absent \<Rightarrow> ''absent'' | Sealed_arg \<Rightarrow> ''sealed''
     | Committed h \<Rightarrow> ''committed:'' @ h | Invalid \<Rightarrow> ''invalid'')"

text \<open>
  \<open>wireHexRE\<close> is case-insensitive, and Go's simple folding makes U+017F (two bytes of
  UTF-8) match the letter s of the optional prefix.
\<close>

definition wireHex_match :: "string \<Rightarrow> string option" where
  "wireHex_match t =
     (let hex = (\<lambda>h. length h = 64 \<and> list_all is_lower_hex (map lower_char h));
          ls = (if t \<noteq> [] \<and> (hd t = CHR ''s'' \<or> hd t = CHR ''S'') then Some (tl t)
                else if prefix [CHR 0xC5, CHR 0xBF] t then Some (drop 2 t) else None);
          body = (case ls of
                    Some r \<Rightarrow> if map lower_char (take 6 r) = ''ha256:'' then drop 6 r else t
                  | None \<Rightarrow> t)
      in if hex body then Some body else None)"

definition WireCommitment :: "string option \<Rightarrow> wire_commitment" where
  "WireCommitment arg =
     (case arg of
        None \<Rightarrow> Absent
      | Some a \<Rightarrow>
          (let t = trim_space a
           in if t = [] then Absent
              else if map lower_char t = ''none'' then Sealed_arg
              else (case wireHex_match t of
                      Some h \<Rightarrow> Committed (map lower_char h)
                    | None \<Rightarrow> Invalid)))"

subsection \<open>The signed statement\<close>

record statement =
  s_kind :: kind
  s_authority :: authority
  s_addr :: "128 word"
  s_identityRef :: string
  s_sequence :: int
  s_prior :: string
  s_priorCustody :: string
  s_newKey :: string
  s_nextCommit :: string
  s_bindNonce :: string

definition appendZ :: "bytes \<Rightarrow> string \<Rightarrow> bytes" where
  "appendZ out s = out @ bytes_of s @ [0]"

definition Statement_Bytes :: "statement \<Rightarrow> stmt_error + bytes" where
  "Statement_Bytes s =
     (let birth = (s_authority s = Birth) in
      if \<not> Allows (s_kind s) (s_authority s) then Inl KindAuthority
      else if birth \<and> s_identityRef s \<noteq> [] then Inl BirthNamesRef
      else if \<not> birth \<and> \<not> IsIdentityRef (s_identityRef s) then Inl BadIdentityRef
      else if s_sequence s < 0 then Inl NegativeSequence
      else if \<not> IsDigest (s_prior s) \<or> \<not> IsDigest (s_newKey s) then Inl BadDigest
      else if \<not> isOptionalDigest (s_priorCustody s) \<or> \<not> isOptionalDigest (s_nextCommit s)
        then Inl BadOptionalDigest
      else if birth \<and> \<not> IsBirthNonce (s_bindNonce s) then Inl BirthWithoutNonce
      else if \<not> birth \<and> s_bindNonce s \<noteq> [] then Inl NonceWithoutBirth
      else if s_kind s = ICP \<and> (s_sequence s \<noteq> 0 \<or> s_prior s \<noteq> Genesis) then Inl InceptionNotGenesis
      else if birth \<and> s_addr s \<noteq> 0 then Inl BirthNamesAddress
      else
        (let out = bytes_of StatementDomain @ [0];
             out = appendZ out (kind_str (s_kind s));
             out = appendZ out (authority_str (s_authority s));
             out = out @ be128 (s_addr s);
             out = appendZ out (s_identityRef s);
             out = out @ be64 (word_of_int (s_sequence s));
             out = appendZ out (s_prior s);
             out = appendZ out (s_priorCustody s);
             out = appendZ out (s_newKey s);
             out = appendZ out (s_nextCommit s);
             out = appendZ out (s_bindNonce s)
         in Inr out))"

subsection \<open>Facts of the field checks\<close>

lemma zero_notin_bytes_of: "0 \<notin> set (bytes_of s) \<longleftrightarrow> CHR 0x00 \<notin> set s"
  by (metis byte_of_eq_0 byte_of_inject image_iff set_bytes_of)

lemma list_all_no_nul:
  "list_all is_lower_alnum s \<Longrightarrow> CHR 0x00 \<notin> set s"
  by (auto simp: list_all_iff dest: is_lower_alnum_ascii)

lemma IsDigest_no_nul [check_intros]: "IsDigest s \<Longrightarrow> CHR 0x00 \<notin> set s"
  by (auto simp: IsDigest_def list_all_iff intro!: list_all_no_nul [unfolded list_all_iff]
      dest: is_lower_hex_alnum)

lemma isOptionalDigest_no_nul [check_intros]: "isOptionalDigest s \<Longrightarrow> CHR 0x00 \<notin> set s"
  by (auto simp: isOptionalDigest_def dest: IsDigest_no_nul)

lemma IsIdentityRef_no_nul [check_intros]: "IsIdentityRef s \<Longrightarrow> CHR 0x00 \<notin> set s"
  by (simp add: IsIdentityRef_def list_all_no_nul)

lemma kind_str_no_nul [check_intros]: "CHR 0x00 \<notin> set (kind_str k)"
  by (cases k) auto

lemma authority_str_no_nul [check_intros]: "CHR 0x00 \<notin> set (authority_str a)"
  by (cases a) auto

definition nonce_parts :: "string \<Rightarrow> string \<Rightarrow> bool" where
  "nonce_parts w h \<longleftrightarrow> list_all is_digit w \<and> no_leading_zero w \<and> length w \<le> 18 \<and>
     length h = 32 \<and> list_all is_lower_hex h"

lemma list_all_digit_no_colon: "list_all is_digit w \<Longrightarrow> CHR '':'' \<notin> set w"
proof
  assume "list_all is_digit w" "CHR '':'' \<in> set w"
  then have "is_digit (CHR '':'')" by (simp add: list_all_iff)
  then show False by (simp add: is_digit_def)
qed

lemma birthNonce_match_Some:
  "birthNonce_match s = Some (w, h) \<longleftrightarrow> s = ''birth:'' @ w @ CHR '':'' # h \<and> nonce_parts w h"
proof (cases "prefix ''birth:'' s")
  case False
  then show ?thesis by (auto simp: birthNonce_match_def prefix_def)
next
  case True
  then obtain r where s: "s = ''birth:'' @ r" by (auto simp: prefix_def)
  have "birthNonce_match s = (case cut_at (CHR '':'') r of None \<Rightarrow> None
      | Some (w, h) \<Rightarrow> if nonce_parts w h then Some (w, h) else None)"
    by (simp add: s birthNonce_match_def nonce_parts_def split: option.split prod.split)
  also have "\<dots> = Some (w, h) \<longleftrightarrow> cut_at (CHR '':'') r = Some (w, h) \<and> nonce_parts w h"
    by (auto split: option.splits if_splits)
  also have "\<dots> \<longleftrightarrow> r = w @ CHR '':'' # h \<and> nonce_parts w h"
    by (auto simp: cut_at_Some nonce_parts_def dest: list_all_digit_no_colon)
  finally show ?thesis by (simp add: s)
qed

lemma IsBirthNonce_no_nul [check_intros]: "IsBirthNonce s \<Longrightarrow> CHR 0x00 \<notin> set s"
proof -
  assume "IsBirthNonce s"
  then obtain w h where s: "s = ''birth:'' @ w @ CHR '':'' # h" and p: "nonce_parts w h"
    by (auto simp: IsBirthNonce_def birthNonce_match_Some)
  from p have "list_all is_lower_alnum w" "list_all is_lower_alnum h"
    by (auto simp: nonce_parts_def list_all_iff intro: is_lower_hex_alnum is_digit_lower_hex)
  with s show ?thesis by (simp add: list_all_no_nul)
qed

lemma appendZ_inject:
  "CHR 0x00 \<notin> set s \<Longrightarrow> CHR 0x00 \<notin> set t \<Longrightarrow>
   bytes_of s @ 0 # x = bytes_of t @ 0 # y \<longleftrightarrow> s = t \<and> x = y"
  by (simp add: sep_inject zero_notin_bytes_of)

text \<open>What a built statement's fields satisfy.\<close>

lemma Statement_Bytes_Inr:
  "Statement_Bytes s = Inr b \<Longrightarrow>
     Allows (s_kind s) (s_authority s) \<and> 0 \<le> s_sequence s \<and>
     CHR 0x00 \<notin> set (s_identityRef s) \<and>
     IsDigest (s_prior s) \<and> IsDigest (s_newKey s) \<and>
     isOptionalDigest (s_priorCustody s) \<and> isOptionalDigest (s_nextCommit s) \<and>
     CHR 0x00 \<notin> set (s_bindNonce s) \<and>
     b = bytes_of StatementDomain @ 0 # bytes_of (kind_str (s_kind s)) @ 0 #
         bytes_of (authority_str (s_authority s)) @ 0 # be128 (s_addr s) @
         bytes_of (s_identityRef s) @ 0 # be64 (word_of_int (s_sequence s)) @
         bytes_of (s_prior s) @ 0 # bytes_of (s_priorCustody s) @ 0 # bytes_of (s_newKey s) @ 0 #
         bytes_of (s_nextCommit s) @ 0 # bytes_of (s_bindNonce s) @ [0]"
  by (auto simp: Statement_Bytes_def Let_def appendZ_def not_less
      dest: IsIdentityRef_no_nul IsBirthNonce_no_nul split: if_splits)

text \<open>
  A signed statement's bytes determine every field: two statements that build to the
  same bytes are the same statement, so a signature over one is good for no other.
\<close>

theorem Statement_Bytes_injective:
  assumes "Statement_Bytes s = Inr b" and "Statement_Bytes t = Inr b"
    and "is_i64 (s_sequence s)" and "is_i64 (s_sequence t)"
  shows "s = t"
proof -
  note S = Statement_Bytes_Inr [OF assms(1)] and T = Statement_Bytes_Inr [OF assms(2)]
  from S T have "s_kind s = s_kind t \<and> s_authority s = s_authority t \<and> s_addr s = s_addr t \<and>
      s_identityRef s = s_identityRef t \<and> s_sequence s = s_sequence t \<and> s_prior s = s_prior t \<and>
      s_priorCustody s = s_priorCustody t \<and> s_newKey s = s_newKey t \<and>
      s_nextCommit s = s_nextCommit t \<and> s_bindNonce s = s_bindNonce t"
    by (auto simp: appendZ_inject fixed_inject kind_str_no_nul authority_str_no_nul
        IsDigest_no_nul isOptionalDigest_no_nul word_of_int_i64_inject [OF assms(3,4)]
        word_of_int_i64_inject [OF assms(4,3)])
  then show ?thesis by (intro statement.equality) simp_all
qed

definition example_birth :: statement where
  "example_birth = \<lparr>s_kind = ICP, s_authority = Birth, s_addr = 0, s_identityRef = [], s_sequence = 0,
     s_prior = Genesis, s_priorCustody = [], s_newKey = KeyDigest [1, 2, 3], s_nextCommit = [],
     s_bindNonce = ''birth:5:00112233445566778899aabbccddeeff''\<rparr>"

theorem Statement_Bytes_injective_witness:
  "\<exists>b. Statement_Bytes example_birth = Inr b \<and>
       example_birth = example_birth\<lparr>s_sequence := 0, s_addr := 0\<rparr>"
proof -
  have "IsBirthNonce ''birth:5:00112233445566778899aabbccddeeff''" by code_simp
  then obtain b where b: "Statement_Bytes example_birth = Inr b"
      "Statement_Bytes (example_birth\<lparr>s_sequence := 0, s_addr := 0\<rparr>) = Inr b"
    by (simp add: Statement_Bytes_def example_birth_def isOptionalDigest_def KeyDigest_def)
  have "is_i64 (s_sequence example_birth)" "is_i64 (s_sequence (example_birth\<lparr>s_sequence := 0, s_addr := 0\<rparr>))"
    by (simp_all add: example_birth_def is_i64_def)
  with b show ?thesis using Statement_Bytes_injective [OF b] by blast
qed

subsection \<open>The birth window\<close>

lemma floorDiv_div: "0 < b \<Longrightarrow> floorDiv a b = a div b"
proof (cases "0 \<le> a")
  case True
  assume "0 < b"
  with True have "go_quot a b = a div b"
    by (cases "a = 0") (simp_all add: go_quot_def)
  with True \<open>0 < b\<close> show ?thesis by (simp add: floorDiv_def Let_def)
next
  case False
  assume b: "0 < b"
  with False have q: "go_quot a b = - ((- a) div b)" by (simp add: go_quot_def)
  have "go_rem a b = 0 \<longleftrightarrow> b dvd a"
  proof -
    have "go_rem a b = - ((- a) - b * ((- a) div b))" by (simp add: go_rem_def q)
    also have "\<dots> = - ((- a) mod b)" by (simp add: minus_mult_div_eq_mod)
    finally show ?thesis by (simp add: mod_eq_0_iff_dvd)
  qed
  moreover have "a div b = - ((- a) div b) - (if b dvd a then 0 else 1)"
    using zdiv_zminus1_eq_if [of b "- a"] b by (simp add: mod_eq_0_iff_dvd)
  ultimately show ?thesis using False b by (simp add: floorDiv_def q Let_def)
qed

lemma BirthWindowFor_div: "BirthWindowFor t = t div 300000"
  by (simp add: BirthWindowFor_def BirthWindowSeconds_def floorDiv_div flip: zdiv_zmult2_eq)

lemma BirthNonce_Inr:
  assumes "BirthNonce w h = Inr n"
  shows "0 \<le> w \<and> w < 10 ^ 18 \<and> birthNonce_match n = Some (format_int w, h)"
proof -
  from assms have w: "0 \<le> w" and n: "n = ''birth:'' @ format_int w @ CHR '':'' # h"
    and "IsBirthNonce n"
    by (auto simp: BirthNonce_def Let_def split: if_splits)
  then obtain v g where m: "birthNonce_match n = Some (v, g)" by (auto simp: IsBirthNonce_def)
  then have "n = ''birth:'' @ v @ CHR '':'' # g" "nonce_parts v g" by (auto simp: birthNonce_match_Some)
  moreover have "CHR '':'' \<notin> set (format_int w)" "CHR '':'' \<notin> set v"
    using w calculation(2) by (simp_all add: format_int_def list_all_digit_no_colon nonce_parts_def)
  ultimately have vg: "v = format_int w" "g = h" using n by (simp_all add: sep_inject)
  have "length (dec_nat (nat w)) \<le> 18"
    using \<open>nonce_parts v g\<close> vg w by (simp add: nonce_parts_def format_int_def)
  then have "(10 :: nat) ^ length (dec_nat (nat w)) \<le> 10 ^ 18" by (intro power_increasing) auto
  with parse_nat_bound [of "dec_nat (nat w)"] have "nat w < 10 ^ 18"
    by (metis list_all_digit_dec_nat order_less_le_trans parse_nat_dec_nat)
  with w m vg show ?thesis by simp
qed

text \<open>
  The service accepts a birth nonce exactly in the 300-second window it names and in
  the next one: for at least five minutes after it was minted, and never ten minutes
  after, nor five minutes before.
\<close>

theorem birth_nonce_lifetime:
  assumes "BirthNonce (BirthWindowFor minted) clientHex = Inr nonce"
  shows "(BirthWindowAccepted nonce now \<longleftrightarrow>
            now div 300000 = minted div 300000 \<or> now div 300000 = minted div 300000 + 1) \<and>
         (minted \<le> now \<and> now \<le> minted + 300000 \<longrightarrow> BirthWindowAccepted nonce now) \<and>
         (BirthWindowAccepted nonce now \<longrightarrow> minted - 300000 < now \<and> now < minted + 600000)"
proof -
  let ?w = "BirthWindowFor minted"
  note n = BirthNonce_Inr [OF assms]
  have "(10 :: int) ^ 18 < 2 ^ 63" by simp
  with n have "parse_int (format_int ?w) = Some ?w" by (intro parse_int_format_int) auto
  with n have acc: "BirthWindowAccepted nonce now \<longleftrightarrow>
      now div 300000 = minted div 300000 \<or> now div 300000 = minted div 300000 + 1"
    by (auto simp: BirthWindowAccepted_def Let_def BirthWindowFor_div)
  show ?thesis unfolding acc by (intro conjI impI refl) linarith+
qed

theorem birth_nonce_lifetime_witness:
  "BirthWindowAccepted ''birth:5:00112233445566778899aabbccddeeff'' (1512345 + 300000)"
proof -
  have "BirthNonce 5 ''00112233445566778899aabbccddeeff''
      = Inr ''birth:5:00112233445566778899aabbccddeeff''"
    by code_simp
  then have "BirthNonce (BirthWindowFor 1512345) ''00112233445566778899aabbccddeeff''
      = Inr ''birth:5:00112233445566778899aabbccddeeff''"
    by (simp add: BirthWindowFor_div)
  from birth_nonce_lifetime [OF this, of "1512345 + 300000"] show ?thesis by simp
qed

end
