(* ===== verification/KelSignature.thy ===== *)
theory KelSignature
  imports KelStatement
begin

text \<open>
  The signature half of \<open>internal/kel/statement.go\<close>: the strict DER reader
  \<open>parseDER\<close>, \<open>LowS\<close>, \<open>IsCanonicalSignature\<close>, \<open>ParseSPKI\<close> and
  \<open>VerifySignature\<close>. Reading an SPKI (\<open>x509.ParsePKIXPublicKey\<close>) and checking an ECDSA
  equation are the parameter \<open>x509\<close>: given a DER SPKI it returns the check of that P-256
  key, or None when the bytes are not one.
\<close>

subsection \<open>Strict DER\<close>

definition p256N :: int where
  "p256N = 0xffffffff00000000ffffffffffffffffbce6faada7179e84f3b9cac2fc632551"

definition halfN :: int where
  "halfN = p256N div 2"

text \<open>\<open>big.Int.SetBytes\<close>.\<close>

definition be_int :: "bytes \<Rightarrow> int" where
  "be_int b = foldl (\<lambda>v x. v * 256 + uint x) 0 b"

text \<open>One INTEGER at position \<open>i\<close>: its value and the position after it.\<close>

definition der_integer :: "bytes \<Rightarrow> nat \<Rightarrow> (int \<times> nat) option" where
  "der_integer der i =
     (if i + 2 > length der \<or> der ! i \<noteq> 0x02 then None
      else
        (let n = unat (der ! (i + 1)); i = i + 2
         in if n < 1 \<or> n > 33 \<or> i + n > length der then None
            else if der ! i \<ge> 0x80 then None
            else if der ! i = 0x00 \<and> (n = 1 \<or> der ! (i + 1) < 0x80) then None
            else
              (let v = be_int (take n (drop i der))
               in if v \<le> 0 \<or> v \<ge> p256N then None else Some (v, i + n))))"

definition parseDER :: "bytes \<Rightarrow> (int \<times> int) option" where
  "parseDER der =
     (if length der < 8 \<or> length der > MaxSignatureDER then None
      else if der ! 0 \<noteq> 0x30 \<or> unat (der ! 1) \<noteq> length der - 2 then None
      else
        (case der_integer der 2 of
           None \<Rightarrow> None
         | Some (r, i) \<Rightarrow>
             (case der_integer der i of
                None \<Rightarrow> None
              | Some (s, i) \<Rightarrow> if i \<noteq> length der then None else Some (r, s))))"

text \<open>
  \<open>asn1.Marshal\<close> of two positive integers of at most 33 octets each: the minimal
  two's-complement octets, short-form lengths, one SEQUENCE.
\<close>

fun int_octets :: "nat \<Rightarrow> bytes" where
  "int_octets n = (if n < 256 then [word_of_nat n] else int_octets (n div 256) @ [word_of_nat (n mod 256)])"

declare int_octets.simps [simp del]

definition asn1_content :: "int \<Rightarrow> bytes" where
  "asn1_content v = (let b = int_octets (nat v) in if hd b \<ge> 0x80 then 0 # b else b)"

definition asn1_integer :: "int \<Rightarrow> bytes" where
  "asn1_integer v = 0x02 # word_of_nat (length (asn1_content v)) # asn1_content v"

definition asn1_signature :: "int \<Rightarrow> int \<Rightarrow> bytes" where
  "asn1_signature r s =
     (let c = asn1_integer r @ asn1_integer s in 0x30 # word_of_nat (length c) # c)"

definition IsCanonicalSignature :: "bytes \<Rightarrow> bool" where
  "IsCanonicalSignature der = (case parseDER der of None \<Rightarrow> False | Some (_, s) \<Rightarrow> s \<le> halfN)"

datatype sig_error = NotStrictDER | NotP256SPKI

definition LowS :: "bytes \<Rightarrow> sig_error + bytes" where
  "LowS der =
     (case parseDER der of
        None \<Rightarrow> Inl NotStrictDER
      | Some (r, s) \<Rightarrow> Inr (asn1_signature r (if s > halfN then p256N - s else s)))"

subsection \<open>The signature check\<close>

text \<open>A P-256 public key is what it checks: a digest and the two signature integers.\<close>

type_synonym p256_key = "bytes \<Rightarrow> int \<Rightarrow> int \<Rightarrow> bool"
type_synonym x509_p256 = "bytes \<Rightarrow> p256_key option"

datatype SignatureCheck =
  SigValid | SigMalformedKey | SigMalformedSignature | SigHighS | SigBad

definition ParseSPKI :: "x509_p256 \<Rightarrow> bytes \<Rightarrow> sig_error + p256_key" where
  "ParseSPKI x509 spki =
     (if length spki = 0 \<or> length spki > MaxSPKIDER then Inl NotP256SPKI
      else (case x509 spki of None \<Rightarrow> Inl NotP256SPKI | Some k \<Rightarrow> Inr k))"

definition VerifySignature :: "x509_p256 \<Rightarrow> bytes \<Rightarrow> bytes option \<Rightarrow> bytes \<Rightarrow> SignatureCheck" where
  "VerifySignature x509 spki stmt sig =
     (case ParseSPKI x509 spki of
        Inl _ \<Rightarrow> SigMalformedKey
      | Inr key \<Rightarrow>
          (case parseDER sig of
             None \<Rightarrow> SigMalformedSignature
           | Some (r, s) \<Rightarrow>
               if s > halfN then SigHighS
               else (case stmt of
                       None \<Rightarrow> SigBad
                     | Some m \<Rightarrow> if \<not> key (sha256 m) r s then SigBad else SigValid)))"

subsection \<open>The reader accepts one spelling\<close>

lemma uint_byte_bounds: "0 \<le> uint (x :: byte) \<and> uint x < 256"
  using unat_byte_less [of x] uint_nat [of x] by linarith

lemma uint_byte_of_nat: "n < 256 \<Longrightarrow> uint (word_of_nat n :: byte) = int n"
  using uint_nat [of "word_of_nat n :: byte"] by (simp add: unat_of_nat take_bit_eq_mod)

lemma be_int_snoc: "be_int (b @ [x]) = be_int b * 256 + uint x"
  by (simp add: be_int_def)

lemma be_int_nonneg: "0 \<le> be_int b"
  by (induction b rule: rev_induct) (simp_all add: be_int_snoc be_int_def uint_byte_bounds)

lemma be_int_octets: "be_int (int_octets n) = int n"
proof (induction n rule: int_octets.induct)
  case (1 n)
  show ?case
  proof (cases "n < 256")
    case True
    then show ?thesis
      by (subst int_octets.simps) (simp add: be_int_def uint_byte_of_nat)
  next
    case False
    then have "be_int (int_octets (n div 256)) = int (n div 256)" by (rule 1)
    with False show ?thesis
      by (subst int_octets.simps) (simp add: be_int_snoc uint_byte_of_nat zdiv_int zmod_int)
  qed
qed

lemma int_octets_nonempty [simp]: "int_octets n \<noteq> []"
  by (subst int_octets.simps) simp

text \<open>Octets with no leading zero are the octets of their value.\<close>

lemma be_int_pos: "b \<noteq> [] \<Longrightarrow> hd b \<noteq> 0 \<Longrightarrow> 0 < be_int b"
proof (induction b rule: rev_induct)
  case (snoc x b)
  show ?case
  proof (cases "b = []")
    case True
    with snoc.prems have "uint x \<noteq> 0" by (simp add: uint_0_iff)
    with True uint_byte_bounds [of x] have "0 < uint x" by linarith
    with True show ?thesis by (simp add: be_int_def)
  next
    case False
    with snoc have "0 < be_int b" by simp
    then show ?thesis using uint_byte_bounds [of x] by (simp add: be_int_snoc add_pos_nonneg)
  qed
qed simp

lemma int_octets_be_int: "b \<noteq> [] \<Longrightarrow> hd b \<noteq> 0 \<Longrightarrow> int_octets (nat (be_int b)) = b"
proof (induction b rule: rev_induct)
  case (snoc x b)
  have x: "0 \<le> uint x" "uint x < 256" using uint_byte_bounds [of x] by auto
  show ?case
  proof (cases "b = []")
    case True
    with x show ?thesis
      by (subst int_octets.simps) (simp add: be_int_def nat_less_iff)
  next
    case False
    with snoc.prems have hd: "hd b \<noteq> 0" by simp
    have pos: "0 < be_int b" by (rule be_int_pos [OF False hd])
    have "nat (be_int b * 256 + uint x) = nat (be_int b) * 256 + unat x"
      using pos x by (simp add: nat_add_distrib nat_mult_distrib)
    moreover have "(nat (be_int b) * 256 + unat x) div 256 = nat (be_int b)"
      "(nat (be_int b) * 256 + unat x) mod 256 = unat x"
      "\<not> nat (be_int b) * 256 + unat x < 256"
      using pos by simp_all
    ultimately show ?thesis using snoc.IH [OF False hd]
      by (subst int_octets.simps) (simp add: be_int_snoc)
  qed
qed simp

lemma hd_int_octets: "0 < n \<Longrightarrow> hd (int_octets n) \<noteq> 0"
proof (induction n rule: int_octets.induct)
  case (1 n)
  show ?case
  proof (cases "n < 256")
    case True
    with \<open>0 < n\<close> have "uint (word_of_nat n :: byte) \<noteq> 0" by (simp add: uint_byte_of_nat)
    then have "(word_of_nat n :: byte) \<noteq> 0" by (metis uint_0_eq)
    with True show ?thesis by (subst int_octets.simps) simp
  next
    case False
    then have "hd (int_octets (n div 256)) \<noteq> 0" by (intro 1) auto
    with False show ?thesis by (subst int_octets.simps) simp
  qed
qed

lemma length_int_octets: "n < 256 ^ Suc k \<Longrightarrow> length (int_octets n) \<le> Suc k"
proof (induction k arbitrary: n)
  case 0
  then show ?case by (subst int_octets.simps) simp
next
  case (Suc k)
  show ?case
  proof (cases "n < 256")
    case False
    have "n div 256 < 256 ^ Suc k" using Suc.prems by (simp add: less_mult_imp_div_less mult.commute)
    with False Suc.IH show ?thesis by (subst int_octets.simps) simp
  qed (subst int_octets.simps, simp)
qed

text \<open>The octets an INTEGER may have: no redundant leading zero, not negative.\<close>

definition minimal_octets :: "bytes \<Rightarrow> bool" where
  "minimal_octets c \<longleftrightarrow> c \<noteq> [] \<and> hd c < 0x80 \<and> (hd c = 0 \<longrightarrow> length c \<noteq> 1 \<and> 0x80 \<le> c ! 1)"

lemma be_int_Cons_0: "be_int (0 # c) = be_int c"
  by (simp add: be_int_def)

lemma asn1_content_be_int: "minimal_octets c \<Longrightarrow> asn1_content (be_int c) = c"
proof (cases "hd c = 0")
  case True
  assume m: "minimal_octets c"
  with True obtain d where c: "c = 0 # d" by (cases c) (auto simp: minimal_octets_def)
  with m have d: "d \<noteq> []" "0x80 \<le> hd d" by (cases d; simp add: minimal_octets_def)+
  then have "hd d \<noteq> 0" by auto
  with d have "int_octets (nat (be_int d)) = d" by (intro int_octets_be_int)
  with d c show ?thesis by (simp add: asn1_content_def be_int_Cons_0)
next
  case False
  assume "minimal_octets c"
  with False show ?thesis
    by (auto simp: asn1_content_def int_octets_be_int minimal_octets_def Let_def not_le)
qed

lemma minimal_asn1_content:
  assumes "0 < v" shows "minimal_octets (asn1_content v)" "be_int (asn1_content v) = v"
proof -
  have "hd (int_octets (nat v)) \<noteq> 0" using assms by (intro hd_int_octets) simp
  then show "minimal_octets (asn1_content v)"
    by (cases "int_octets (nat v)") (auto simp: asn1_content_def Let_def minimal_octets_def)
  show "be_int (asn1_content v) = v"
    using assms by (simp add: asn1_content_def Let_def be_int_octets be_int_Cons_0)
qed

lemma length_asn1_content: "v < p256N \<Longrightarrow> length (asn1_content v) \<le> 33"
proof -
  assume "v < p256N"
  then have "nat v < 256 ^ Suc 31" by (simp add: p256N_def nat_less_iff)
  then have "length (int_octets (nat v)) \<le> Suc 31" by (rule length_int_octets)
  then show ?thesis by (simp add: asn1_content_def Let_def)
qed

lemma der_integer_shift:
  "der_integer (p @ q) (length p) = map_option (\<lambda>(v, k). (v, length p + k)) (der_integer q 0)"
proof -
  have nth: "(p @ q) ! (length p + k) = q ! k" and drp: "drop (length p + k) (p @ q) = drop k q"
    and len: "length p + k > length (p @ q) \<longleftrightarrow> k > length q" for k
    by simp_all
  have nth0: "(p @ q) ! length p = q ! 0" using nth [of 0] by simp
  show ?thesis
    unfolding der_integer_def Let_def
    by (simp only: add.assoc add_0 nth nth0 drp len if_distrib [of "map_option _"]
        option.map prod.case)
qed

lemma der_integer_Cons:
  "der_integer (a # L # t) 0 =
     (if a \<noteq> 2 \<or> unat L < 1 \<or> unat L > 33 \<or> unat L > length t \<or> t ! 0 \<ge> 0x80 \<or>
         (t ! 0 = 0 \<and> (unat L = 1 \<or> t ! 1 < 0x80)) \<or>
         be_int (take (unat L) t) \<le> 0 \<or> be_int (take (unat L) t) \<ge> p256N
      then None else Some (be_int (take (unat L) t), 2 + unat L))"
  by (simp add: der_integer_def Let_def eval_nat_numeral)

lemma der_integer_short: "length q < 2 \<Longrightarrow> der_integer q 0 = None"
  by (simp add: der_integer_def)

lemma minimal_octets_take:
  "1 \<le> n \<Longrightarrow> n \<le> length t \<Longrightarrow>
   minimal_octets (take n t) \<longleftrightarrow> t ! 0 < 0x80 \<and> (t ! 0 = 0 \<longrightarrow> n \<noteq> 1 \<and> 0x80 \<le> t ! 1)"
  by (cases t; cases n) (auto simp: minimal_octets_def)

lemma der_integer_0:
  "der_integer q 0 = Some (v, k) \<longleftrightarrow>
     0 < v \<and> v < p256N \<and> k = length (asn1_integer v) \<and> (\<exists>post. q = asn1_integer v @ post)"
  (is "?l \<longleftrightarrow> ?r")
proof
  assume ?l
  then have "\<not> length q < 2" by (auto simp: der_integer_short)
  then obtain a L t where q: "q = a # L # t" by (cases q; cases "tl q") auto
  let ?c = "take (unat L) t"
  from \<open>?l\<close> [unfolded q der_integer_Cons]
  have a: "a = 2" and n: "1 \<le> unat L" "unat L \<le> length t" and v: "v = be_int ?c" "0 < v" "v < p256N"
    and k: "k = 2 + unat L" and "t ! 0 < 0x80 \<and> (t ! 0 = 0 \<longrightarrow> unat L \<noteq> 1 \<and> 0x80 \<le> t ! 1)"
    by (auto simp: not_le not_less split: if_splits)
  with n have "minimal_octets ?c" by (simp add: minimal_octets_take)
  then have "asn1_content v = ?c" by (simp add: v asn1_content_be_int)
  with n k q a have "asn1_integer v = 2 # L # ?c" "k = length (asn1_integer v)"
    by (simp_all add: asn1_integer_def)
  with q a v show ?r by (metis append_Cons append_take_drop_id)
next
  assume ?r
  then obtain post where v: "0 < v" "v < p256N" and k: "k = length (asn1_integer v)"
    and q: "q = asn1_integer v @ post" by blast
  let ?c = "asn1_content v" and ?L = "word_of_nat (length (asn1_content v)) :: byte"
  note m = minimal_asn1_content [OF v(1)] and l = length_asn1_content [OF v(2)]
  have L: "unat ?L = length ?c" using l by (simp add: unat_of_nat take_bit_eq_mod)
  have q': "q = 2 # ?L # (?c @ post)" by (simp add: q asn1_integer_def)
  have "1 \<le> length ?c" using m by (simp add: minimal_octets_def Suc_le_eq)
  with m(1) have "(?c @ post) ! 0 < 0x80 \<and> ((?c @ post) ! 0 = 0 \<longrightarrow> length ?c \<noteq> 1 \<and> 0x80 \<le> (?c @ post) ! 1)"
    using minimal_octets_take [of "length ?c" "?c @ post"] by simp
  with m(2) l v \<open>1 \<le> length ?c\<close> show ?l
    unfolding q' der_integer_Cons L by (auto simp: k asn1_integer_def not_le not_less)
qed

lemma der_integer_at:
  "der_integer (p @ q) (length p) = Some (v, j) \<longleftrightarrow>
     0 < v \<and> v < p256N \<and> j = length p + length (asn1_integer v) \<and> (\<exists>post. q = asn1_integer v @ post)"
  unfolding der_integer_shift map_option_eq_Some
  by (auto simp: der_integer_0)

lemma length_asn1_integer:
  "0 < v \<Longrightarrow> v < p256N \<Longrightarrow> 3 \<le> length (asn1_integer v) \<and> length (asn1_integer v) \<le> 35"
proof -
  assume v: "0 < v" "v < p256N"
  have "asn1_content v \<noteq> []" using minimal_asn1_content(1) [OF v(1)] by (simp add: minimal_octets_def)
  then have "1 \<le> length (asn1_content v)" by (simp add: Suc_le_eq)
  with length_asn1_content [OF v(2)] show ?thesis by (simp add: asn1_integer_def)
qed

lemma der_pairs:
  "parseDER der = Some (r, s) \<longleftrightarrow>
     0 < r \<and> r < p256N \<and> 0 < s \<and> s < p256N \<and> der = asn1_signature r s"
  (is "?l \<longleftrightarrow> ?r")
proof
  assume ?l
  then have len: "8 \<le> length der" and d0: "der ! 0 = 0x30" and d1: "unat (der ! 1) = length der - 2"
    by (auto simp: parseDER_def split: if_splits)
  then obtain L t where der: "der = [0x30, L] @ t" by (cases der; cases "tl der") auto
  have 2: "(2 :: nat) = length [0x30, L]" by simp
  from \<open>?l\<close> obtain i where r: "der_integer der 2 = Some (r, i)"
    and s: "der_integer der i = Some (s, length der)"
    by (auto simp: parseDER_def split: if_splits option.splits prod.splits)
  from r obtain p where rr: "0 < r" "r < p256N" and i: "i = 2 + length (asn1_integer r)"
    and t: "t = asn1_integer r @ p"
    unfolding der 2 der_integer_at by blast
  have "der = ([0x30, L] @ asn1_integer r) @ p" "i = length ([0x30, L] @ asn1_integer r)"
    using der t i by simp_all
  with s obtain p' where ss: "0 < s" "s < p256N" and p: "p = asn1_integer s @ p'"
    and n: "length der = i + length (asn1_integer s)"
    using der_integer_at [of "[0x30, L] @ asn1_integer r" p s "length der"] by auto
  from n der t p i have "p' = []" by simp
  with der t p have der': "der = 0x30 # L # asn1_integer r @ asn1_integer s" by simp
  with d1 have "unat L = length (asn1_integer r @ asn1_integer s)" by simp
  then have "L = word_of_nat (length (asn1_integer r @ asn1_integer s))"
    by (metis of_nat_unat ucast_id)
  with der' rr ss show ?r by (simp add: asn1_signature_def)
next
  assume ?r
  then have rr: "0 < r" "r < p256N" and ss: "0 < s" "s < p256N" and der: "der = asn1_signature r s"
    by auto
  let ?c = "asn1_integer r @ asn1_integer s"
  let ?h = "[0x30, word_of_nat (length ?c)] :: bytes"
  have len: "6 \<le> length ?c" "length ?c \<le> 70"
    using length_asn1_integer [OF rr] length_asn1_integer [OF ss] by simp_all
  have "unat (word_of_nat n :: byte) = n" if "n \<le> 70" for n
    using that by (simp add: unat_of_nat take_bit_eq_mod)
  with len have L: "unat (word_of_nat (length ?c) :: byte) = length ?c" by blast
  have d: "der = ?h @ ?c" by (simp add: der asn1_signature_def Let_def)
  have "der_integer (?h @ ?c) (length ?h) = Some (r, length ?h + length (asn1_integer r))"
    unfolding der_integer_at using rr by blast
  then have 1: "der_integer der 2 = Some (r, 2 + length (asn1_integer r))"
    by (simp add: d numeral_2_eq_2)
  have "der_integer ((?h @ asn1_integer r) @ asn1_integer s) (length (?h @ asn1_integer r)) =
      Some (s, length (?h @ asn1_integer r) + length (asn1_integer s))"
    unfolding der_integer_at using ss by blast
  then have 2: "der_integer der (2 + length (asn1_integer r)) = Some (s, length der)"
    by (simp add: d numeral_2_eq_2)
  have "8 \<le> length der" "length der \<le> 72" "der ! 0 = 0x30" "unat (der ! 1) = length der - 2"
    using len L by (simp_all add: d del: of_nat_add length_append)
  then show ?l using 1 2 by (simp add: parseDER_def MaxSignatureDER_def)
qed

text \<open>
  The DER reader accepts exactly one byte string for each pair of integers strictly
  between 0 and the group order, the canonical encoding of the pair.
\<close>

theorem parseDER_canonical:
  "parseDER der = Some (r, s) \<longleftrightarrow>
     0 < r \<and> r < p256N \<and> 0 < s \<and> s < p256N \<and> der = asn1_signature r s"
  by (rule der_pairs)

interpretation der: strict_codec
  "\<lambda>(r, s). 0 < r \<and> r < p256N \<and> 0 < s \<and> s < p256N" "\<lambda>(r, s). asn1_signature r s"
  "\<lambda>der p. parseDER der = Some p"
  by unfold_locales (auto simp: der_pairs)

lemma halfN_reflect: "halfN < s \<Longrightarrow> s < p256N \<Longrightarrow> 0 < p256N - s \<and> p256N - s \<le> halfN"
  by (simp add: halfN_def p256N_def)

lemma LowS_Inr:
  "LowS der = Inr d \<longleftrightarrow> (\<exists>r s. parseDER der = Some (r, s) \<and>
     d = asn1_signature r (if s > halfN then p256N - s else s))"
  by (auto simp: LowS_def split: option.splits)

text \<open>
  \<open>LowS\<close> answers exactly for the signatures the reader takes; its result keeps r, has
  the low one of s and n - s, is canonical, and is the input itself when that already was.
  So of the two spellings of a signature the verifier accepts the low one only.
\<close>

theorem LowS_normalises:
  assumes "parseDER der = Some (r, s)"
  shows "\<exists>d. LowS der = Inr d \<and> parseDER d = Some (r, min s (p256N - s)) \<and> IsCanonicalSignature d \<and>
             LowS d = Inr d \<and> (IsCanonicalSignature der \<longleftrightarrow> d = der) \<and>
             (d \<noteq> der \<longrightarrow> (\<forall>x509 spki stmt. VerifySignature x509 spki stmt der \<noteq> SigValid))"
proof -
  from assms have rs: "0 < r" "r < p256N" "0 < s" "s < p256N" and der: "der = asn1_signature r s"
    by (simp_all add: der_pairs)
  define l where "l = (if s > halfN then p256N - s else s)"
  let ?d = "asn1_signature r l"
  have l: "0 < l" "l < p256N" "l \<le> halfN" "l = min s (p256N - s)"
    using rs halfN_reflect [of s] by (auto simp: l_def min_def halfN_def p256N_def)
  with rs have d: "parseDER ?d = Some (r, l)" by (simp add: der_pairs)
  have 1: "LowS der = Inr ?d" using assms by (auto simp: LowS_Inr l_def)
  have 2: "LowS ?d = Inr ?d" using d l by (auto simp: LowS_Inr)
  have 3: "IsCanonicalSignature der \<longleftrightarrow> ?d = der"
  proof
    assume "IsCanonicalSignature der"
    with assms show "?d = der" by (simp add: IsCanonicalSignature_def l_def der)
  next
    assume "?d = der"
    with d l show "IsCanonicalSignature der" by (simp add: IsCanonicalSignature_def)
  qed
  have "?d \<noteq> der \<Longrightarrow> VerifySignature x509 spki stmt der \<noteq> SigValid" for x509 spki stmt
    using assms by (auto simp: VerifySignature_def l_def der split: sum.splits)
  with 1 2 3 d l show ?thesis by (auto simp: IsCanonicalSignature_def)
qed

theorem LowS_normalises_witness:
  "\<exists>d. LowS (asn1_signature 5 (p256N - 7)) = Inr d \<and> parseDER d = Some (5, 7)"
proof -
  have "parseDER (asn1_signature 5 (p256N - 7)) = Some (5, p256N - 7)"
    by (simp add: der_pairs p256N_def)
  from LowS_normalises [OF this] show ?thesis by (auto simp: p256N_def)
qed

end
