(* ===== verification/KelEvent.thy ===== *)
theory KelEvent
  imports KelSignature
begin

text \<open>
  \<open>internal/kel/event.go\<close>: the key event, the statement its key signed, its canonical
  bytes and digest, the field validation, and \<open>ParseEvent\<close> with its bounded reader.
  The lemmas show that the parser and the encoder are inverse on exactly the well-formed
  events, and that the hashed bytes determine the event.
\<close>

subsection \<open>The event\<close>

definition eventMagic :: bytes where
  "eventMagic = bytes_of ''WNSROT162'' @ [0]"

definition V1 :: int where "V1 = 1"
definition V2 :: int where "V2 = 2"
definition MaxCanonical :: nat where "MaxCanonical = 1024"
definition maxV1Field :: nat where "maxV1Field = 256"

record event =
  e_identityRef :: string
  e_sequence :: int
  e_prior :: string
  e_newKey :: string
  e_next :: string
  e_epochMillis :: int
  e_version :: int
  e_kind :: kind
  e_authority :: authority
  e_addr :: "128 word"
  e_priorCustody :: string
  e_bindNonce :: string
  e_signature :: bytes

definition IsV2 :: "event \<Rightarrow> bool" where
  "IsV2 e \<longleftrightarrow> e_version e = V2"

definition Sealed :: "event \<Rightarrow> bool" where
  "Sealed e \<longleftrightarrow> e_next e = []"

datatype event_error =
    NoV1Statement | StatementRefused stmt_error
  | RefBlank | SequenceNegative int | NewKeyBlank | V1CarriesV2 | UnknownVersion int
  | RefMalformed | SequenceOrTimeNegative | DigestMalformed | OptionalDigestMalformed
  | KindNotUnder kind authority | BirthNeedsNonce | NonceOnlyBirth | AdoptNeedsCustody
  | CustodyOnlyAdopt | IcpNotGenesis | NeverSequenceZero kind | RecNotGenesis | RicSealed
  | RecCommitted | RecSigned | SignatureNotCanonical
  | SizeOutOfRange nat | NotMagic | Truncated nat | FieldTooLong nat nat | NulInField
  | NotCanonical | TrailingBytes nat

definition event_Statement :: "event \<Rightarrow> event_error + bytes" where
  "event_Statement e =
     (if \<not> IsV2 e then Inl NoV1Statement
      else
        (let st = \<lparr>s_kind = e_kind e, s_authority = e_authority e, s_addr = e_addr e,
              s_identityRef = e_identityRef e, s_sequence = e_sequence e, s_prior = e_prior e,
              s_priorCustody = e_priorCustody e, s_newKey = e_newKey e, s_nextCommit = e_next e,
              s_bindNonce = e_bindNonce e\<rparr>;
             st = (if e_authority e = Birth then st\<lparr>s_addr := 0, s_identityRef := []\<rparr> else st)
         in (case Statement_Bytes st of Inl x \<Rightarrow> Inl (StatementRefused x) | Inr b \<Rightarrow> Inr b)))"

definition StatementDigest :: "event \<Rightarrow> event_error + string" where
  "StatementDigest e = (case event_Statement e of Inl x \<Rightarrow> Inl x | Inr b \<Rightarrow> Inr (sha256Hex b))"

subsection \<open>The canonical bytes\<close>

definition writeU64 :: "int \<Rightarrow> bytes" where
  "writeU64 v = be64 (word_of_int v)"

definition writeLP :: "bytes \<Rightarrow> bytes" where
  "writeLP f = be32 (word_of_nat (length f)) @ f"

definition Unsigned :: "event \<Rightarrow> bytes" where
  "Unsigned e =
     eventMagic @ [word_of_int (e_version e)] @ writeU64 (e_sequence e) @
     writeLP (bytes_of (e_identityRef e)) @ writeLP (bytes_of (e_prior e)) @
     writeLP (bytes_of (e_newKey e)) @ writeLP (bytes_of (e_next e)) @
     writeU64 (e_epochMillis e) @
     (if IsV2 e then
        writeLP (bytes_of (kind_str (e_kind e))) @ writeLP (bytes_of (authority_str (e_authority e))) @
        be128 (e_addr e) @ writeLP (bytes_of (e_priorCustody e)) @ writeLP (bytes_of (e_bindNonce e))
      else [])"

definition Canonical :: "event \<Rightarrow> bytes" where
  "Canonical e = (if \<not> IsV2 e then Unsigned e else Unsigned e @ writeLP (e_signature e))"

definition Digest :: "event \<Rightarrow> string" where
  "Digest e = sha256Hex (Unsigned e)"

subsection \<open>Validation\<close>

definition checkV2 :: "event \<Rightarrow> event_error option" where
  "checkV2 e =
     (let birth = (e_authority e = Birth); adopt = (e_authority e = Adopt) in
      if \<not> IsIdentityRef (e_identityRef e) then Some RefMalformed
      else if e_sequence e < 0 \<or> e_epochMillis e < 0 then Some SequenceOrTimeNegative
      else if \<not> IsDigest (e_prior e) \<or> \<not> IsDigest (e_newKey e) then Some DigestMalformed
      else if \<not> isOptionalDigest (e_next e) \<or> \<not> isOptionalDigest (e_priorCustody e)
        then Some OptionalDigestMalformed
      else if e_kind e = NoKind \<or> \<not> Allows (e_kind e) (e_authority e)
        then Some (KindNotUnder (e_kind e) (e_authority e))
      else if birth \<and> \<not> IsBirthNonce (e_bindNonce e) then Some BirthNeedsNonce
      else if \<not> birth \<and> e_bindNonce e \<noteq> [] then Some NonceOnlyBirth
      else if adopt \<and> e_priorCustody e = [] then Some AdoptNeedsCustody
      else if \<not> adopt \<and> e_priorCustody e \<noteq> [] then Some CustodyOnlyAdopt
      else if e_kind e = ICP \<and> (e_sequence e \<noteq> 0 \<or> e_prior e \<noteq> Genesis) then Some IcpNotGenesis
      else if e_kind e \<in> {ROT, RIC, RCV} \<and> e_sequence e = 0 then Some (NeverSequenceZero (e_kind e))
      else if e_kind e = REC \<and> e_sequence e = 0 \<and> e_prior e \<noteq> Genesis then Some RecNotGenesis
      else if e_kind e = RIC \<and> e_next e = [] then Some RicSealed
      else if e_kind e = REC then
        (if e_next e \<noteq> [] then Some RecCommitted
         else if e_signature e \<noteq> [] then Some RecSigned else None)
      else if e_signature e \<noteq> [] \<and> \<not> IsCanonicalSignature (e_signature e)
        then Some SignatureNotCanonical
      else None)"

definition check :: "event \<Rightarrow> event_error option" where
  "check e =
     (if e_version e = V1 then
        (if trim_space (e_identityRef e) = [] then Some RefBlank
         else if e_sequence e < 0 then Some (SequenceNegative (e_sequence e))
         else if trim_space (e_newKey e) = [] then Some NewKeyBlank
         else if e_kind e \<noteq> NoKind \<or> e_authority e \<noteq> NoAuthority \<or> e_addr e \<noteq> 0 \<or>
                 e_priorCustody e \<noteq> [] \<or> e_bindNonce e \<noteq> [] \<or> e_signature e \<noteq> []
           then Some V1CarriesV2
         else None)
      else if e_version e = V2 then checkV2 e
      else Some (UnknownVersion (e_version e)))"

subsection \<open>The bounded reader\<close>

record reader =
  r_b :: bytes
  r_i :: nat

type_synonym 'a read = "reader \<Rightarrow> event_error + 'a \<times> reader"

text \<open>Reading one thing and then another, stopping at the first error.\<close>

definition read_then :: "'a read \<Rightarrow> ('a \<Rightarrow> 'b read) \<Rightarrow> 'b read" where
  "read_then p f r = (case p r of Inl x \<Rightarrow> Inl x | Inr (a, r') \<Rightarrow> f a r')"

definition read_return :: "'a \<Rightarrow> 'a read" where
  "read_return a r = Inr (a, r)"

definition read_fail :: "event_error \<Rightarrow> 'a read" where
  "read_fail x r = Inl x"

definition reader_take :: "nat \<Rightarrow> bytes read" where
  "reader_take n r =
     (if r_i r + n > length (r_b r) then Inl (Truncated (r_i r))
      else Inr (take n (drop (r_i r) (r_b r)), r\<lparr>r_i := r_i r + n\<rparr>))"

definition reader_u8 :: "int read" where
  "reader_u8 = read_then (reader_take 1) (\<lambda>b. read_return (uint (b ! 0)))"

definition reader_u64 :: "64 word read" where
  "reader_u64 = read_then (reader_take 8) (\<lambda>b. read_return (be_val b))"

definition reader_bytes :: "nat \<Rightarrow> bytes read" where
  "reader_bytes mx =
     read_then (reader_take 4) (\<lambda>l.
       let n = unat (be_val l :: 64 word)
       in if n > mx then read_fail (FieldTooLong n mx) else reader_take n)"

fun text_scan :: "bool \<Rightarrow> bytes \<Rightarrow> event_error option" where
  "text_scan ascii [] = None"
| "text_scan ascii (x # raw) =
     (if x = 0 then Some NulInField
      else if ascii \<and> x \<ge> 0x80 then Some NotCanonical
      else text_scan ascii raw)"

definition reader_text :: "nat \<Rightarrow> bool \<Rightarrow> string read" where
  "reader_text mx ascii =
     read_then (reader_bytes mx) (\<lambda>raw.
       case text_scan ascii raw of
         Some x \<Rightarrow> read_fail x
       | None \<Rightarrow>
           if \<not> ascii \<and> \<not> valid_utf8 raw then read_fail NotCanonical
           else read_return (string_of raw))"

subsection \<open>ParseEvent\<close>

text \<open>The v2 fields after the time, written into the event.\<close>

definition parse_v2_fields :: "event \<Rightarrow> event read" where
  "parse_v2_fields e =
     read_then (reader_text 3 True) (\<lambda>k.
     read_then (reader_text 9 True) (\<lambda>a.
     read_then (reader_take 16) (\<lambda>ad.
     read_then (reader_text 64 True) (\<lambda>pc.
     read_then (reader_text 64 True) (\<lambda>bn.
     read_then (reader_bytes MaxSignatureDER) (\<lambda>sg.
       read_return (e\<lparr>e_kind := kindOf k, e_authority := authorityOf a, e_addr := be_val ad,
         e_priorCustody := pc, e_bindNonce := bn, e_signature := sg\<rparr>)))))))"

text \<open>The fields after the version byte, and the version byte itself.\<close>

definition parse_versioned :: "int \<Rightarrow> event read" where
  "parse_versioned ver =
     (let v2 = (ver = V2);
          refMax = (if v2 then MaxIdentityRef else maxV1Field);
          digestMax = (if v2 then 64 else maxV1Field)
      in
     read_then reader_u64 (\<lambda>sq.
     if uint sq > 2 ^ 63 - 1 then read_fail (SequenceNegative (uint sq)) else
     read_then (reader_text refMax v2) (\<lambda>rf.
     read_then (reader_text digestMax v2) (\<lambda>pr.
     read_then (reader_text digestMax v2) (\<lambda>nk.
     read_then (reader_text digestMax v2) (\<lambda>nx.
     read_then reader_u64 (\<lambda>ep.
       let e = \<lparr>e_identityRef = rf, e_sequence = uint sq, e_prior = pr, e_newKey = nk, e_next = nx,
                e_epochMillis = sint ep, e_version = ver, e_kind = NoKind,
                e_authority = NoAuthority, e_addr = 0, e_priorCustody = [], e_bindNonce = [],
                e_signature = []\<rparr>
       in if v2 then parse_v2_fields e
          else if pr = [] \<or> trim_space pr = [] then read_return (e\<lparr>e_prior := Genesis\<rparr>)
          else read_return e)))))))"

definition parse_fields :: "event read" where
  "parse_fields =
     read_then reader_u8 (\<lambda>ver.
       if ver \<noteq> V1 \<and> ver \<noteq> V2 then read_fail (UnknownVersion ver) else parse_versioned ver)"

definition ParseEvent :: "bytes \<Rightarrow> event_error + event" where
  "ParseEvent b =
     (if length b = 0 \<or> length b > MaxCanonical then Inl (SizeOutOfRange (length b))
      else
        (case reader_take (length eventMagic) \<lparr>r_b = b, r_i = 0\<rparr> of
           Inl _ \<Rightarrow> Inl NotMagic
         | Inr (magic, r) \<Rightarrow>
             if magic \<noteq> eventMagic then Inl NotMagic
             else
               (case parse_fields r of
                  Inl x \<Rightarrow> Inl x
                | Inr (e, r) \<Rightarrow>
                    if r_i r \<noteq> length b then Inl (TrailingBytes (length b - r_i r))
                    else (case check e of
                            Some x \<Rightarrow> Inl x
                          | None \<Rightarrow> if Canonical e \<noteq> b then Inl NotCanonical else Inr e))))"

subsection \<open>Reading back what was written\<close>

text \<open>
  \<open>reads p bs a\<close>: whatever follows them, \<open>p\<close> takes exactly the bytes \<open>bs\<close> and returns
  \<open>a\<close>. \<open>ensures p P\<close>: what \<open>p\<close> returns satisfies \<open>P\<close>. Both compose along
  \<open>read_then\<close>, so each field is proved once.
\<close>

definition reads :: "'a read \<Rightarrow> bytes \<Rightarrow> 'a \<Rightarrow> bool" where
  "reads p bs a \<longleftrightarrow> (\<forall>r post. drop (r_i r) (r_b r) = bs @ post \<longrightarrow> r_i r \<le> length (r_b r) \<longrightarrow>
     p r = Inr (a, r\<lparr>r_i := r_i r + length bs\<rparr>))"

definition ensures :: "'a read \<Rightarrow> ('a \<Rightarrow> bool) \<Rightarrow> bool" where
  "ensures p P \<longleftrightarrow> (\<forall>r a r'. p r = Inr (a, r') \<longrightarrow> P a)"

lemma reads_take: "n = length bs \<Longrightarrow> reads (reader_take n) bs bs"
  unfolding reads_def reader_take_def
proof (intro allI impI)
  fix r :: reader and post assume n: "n = length bs" and d: "drop (r_i r) (r_b r) = bs @ post" and "r_i r \<le> length (r_b r)"
  then have "length (r_b r) = r_i r + length (bs @ post)"
    by (metis le_add_diff_inverse length_drop)
  with n d show "(if length (r_b r) < r_i r + n then Inl (Truncated (r_i r))
      else Inr (take n (drop (r_i r) (r_b r)), r\<lparr>r_i := r_i r + n\<rparr>)) = Inr (bs, r\<lparr>r_i := r_i r + length bs\<rparr>)"
    by simp
qed

lemma reads_return [simp, intro]: "reads (read_return a) [] a"
  by (simp add: reads_def read_return_def)

lemma reads_then: "reads p bs a \<Longrightarrow> reads (f a) cs c \<Longrightarrow> reads (read_then p f) (bs @ cs) c"
  unfolding reads_def
proof (intro allI impI)
  fix r :: reader and post
  assume p: "\<forall>r post. drop (r_i r) (r_b r) = bs @ post \<longrightarrow> r_i r \<le> length (r_b r) \<longrightarrow>
      p r = Inr (a, r\<lparr>r_i := r_i r + length bs\<rparr>)"
    and f: "\<forall>r post. drop (r_i r) (r_b r) = cs @ post \<longrightarrow> r_i r \<le> length (r_b r) \<longrightarrow>
      f a r = Inr (c, r\<lparr>r_i := r_i r + length cs\<rparr>)"
    and d: "drop (r_i r) (r_b r) = (bs @ cs) @ post" and i: "r_i r \<le> length (r_b r)"
  let ?r = "r\<lparr>r_i := r_i r + length bs\<rparr>"
  have "drop (r_i ?r) (r_b ?r) = drop (length bs) (drop (r_i r) (r_b r))"
    by (simp add: add.commute)
  with d have d2: "drop (r_i ?r) (r_b ?r) = cs @ post" by simp
  have "length (r_b r) - r_i r = length ((bs @ cs) @ post)" using d by (metis length_drop)
  with i have "r_i ?r \<le> length (r_b ?r)" by simp
  with f d2 have "f a ?r = Inr (c, ?r\<lparr>r_i := r_i ?r + length cs\<rparr>)" by blast
  moreover have "p r = Inr (a, ?r)" using p d i by simp
  ultimately show "read_then p f r = Inr (c, r\<lparr>r_i := r_i r + length (bs @ cs)\<rparr>)"
    by (simp add: read_then_def add.assoc)
qed

lemma reads_then_return: "reads p bs a \<Longrightarrow> reads (read_then p (\<lambda>x. read_return (f x))) bs (f a)"
  using reads_then [of p bs a "\<lambda>x. read_return (f x)" "[]" "f a"] by simp

lemma ensures_then:
  "ensures p P \<Longrightarrow> (\<And>a. P a \<Longrightarrow> ensures (f a) Q) \<Longrightarrow> ensures (read_then p f) Q"
  by (fastforce simp: ensures_def read_then_def split: sum.splits)

lemma ensures_return [intro]: "P a \<Longrightarrow> ensures (read_return a) P"
  by (simp add: ensures_def read_return_def)

lemma ensures_fail [simp, intro]: "ensures (read_fail x) P"
  by (simp add: ensures_def read_fail_def)

lemma ensures_any: "ensures p (\<lambda>_. True)"
  by (simp add: ensures_def)

lemma ensures_if [intro]: "(c \<Longrightarrow> ensures p P) \<Longrightarrow> (\<not> c \<Longrightarrow> ensures q P) \<Longrightarrow> ensures (if c then p else q) P"
  by simp

text \<open>The fields.\<close>

definition text_ok :: "nat \<Rightarrow> bool \<Rightarrow> string \<Rightarrow> bool" where
  "text_ok mx ascii s \<longleftrightarrow> length s \<le> mx \<and> text_scan ascii (bytes_of s) = None \<and>
     (ascii \<or> valid_utf8 (bytes_of s))"

lemma reads_u64: "reads reader_u64 (be64 w) w"
  using reads_then_return [OF reads_take [of 8 "be64 w"], of "be_val :: bytes \<Rightarrow> 64 word"]
  by (simp add: reader_u64_def)

lemma reads_u8: "0 \<le> v \<Longrightarrow> v < 256 \<Longrightarrow> reads reader_u8 [word_of_int v] v"
  using reads_then_return [OF reads_take [of 1 "[word_of_int v]"], of "\<lambda>b. uint (b ! 0)"]
  by (simp add: reader_u8_def uint_word_of_int)

lemma ucast_drop_64: "(ucast (drop_bit s (w :: 32 word)) :: byte) = ucast (drop_bit s (ucast w :: 64 word))"
  by (rule bit_word_eqI) (auto simp: bit_simps dest: bit_imp_le_length)

lemma drop_bit_32_64: "drop_bit 32 (ucast (w :: 32 word) :: 64 word) = 0"
  by (rule bit_word_eqI) (auto simp: bit_simps dest: bit_imp_le_length)

lemma be_val_be32_64: "(be_val (be32 w) :: 64 word) = ucast w"
  using be_step [of 24 "ucast w :: 64 word"] be_step [of 16 "ucast w :: 64 word"]
    be_step [of 8 "ucast w :: 64 word"] be_step [of 0 "ucast w :: 64 word"]
  by (simp add: be_val_def be32_def ucast_drop_64 drop_bit_32_64)

lemma reads_bytes:
  assumes "length f \<le> mx" and "mx < 2 ^ 32"
  shows "reads (reader_bytes mx) (writeLP f) f"
proof -
  have "unat (word_of_nat (length f) :: 32 word) = length f"
    using assms by (simp add: unat_of_nat take_bit_eq_mod)
  then have n: "unat (be_val (be32 (word_of_nat (length f))) :: 64 word) = length f"
    using assms by (simp add: be_val_be32_64 unsigned_ucast_eq take_bit_eq_mod)
  have "reads (reader_take 4) (be32 (word_of_nat (length f))) (be32 (word_of_nat (length f)))"
    by (rule reads_take) simp
  moreover have "reads (let n = unat (be_val (be32 (word_of_nat (length f))) :: 64 word)
      in if n > mx then read_fail (FieldTooLong n mx) else reader_take n) f f"
    unfolding Let_def n using assms by (simp add: reads_take)
  ultimately show ?thesis
    unfolding reader_bytes_def writeLP_def by (rule reads_then)
qed

lemma reads_text:
  assumes "text_ok mx ascii s" and "mx < 2 ^ 32"
  shows "reads (reader_text mx ascii) (writeLP (bytes_of s)) s"
proof -
  have "reads (reader_bytes mx) (writeLP (bytes_of s)) (bytes_of s)"
    using assms by (intro reads_bytes) (simp_all add: text_ok_def)
  moreover have "reads (case text_scan ascii (bytes_of s) of Some x \<Rightarrow> read_fail x
      | None \<Rightarrow> if \<not> ascii \<and> \<not> valid_utf8 (bytes_of s) then read_fail NotCanonical
                else read_return (string_of (bytes_of s))) [] s"
    using assms(1) by (auto simp: text_ok_def)
  ultimately show ?thesis
    unfolding reader_text_def using reads_then by fastforce
qed

text \<open>The same as rules that walk a parser one field at a time.\<close>

lemma reads_text_then:
  "text_ok mx ascii s \<Longrightarrow> mx < 2 ^ 32 \<Longrightarrow> reads (f s) cs c \<Longrightarrow>
   reads (read_then (reader_text mx ascii) f) (writeLP (bytes_of s) @ cs) c"
  by (rule reads_then [OF reads_text])

lemma reads_u64_then:
  "reads (f w) cs c \<Longrightarrow> reads (read_then reader_u64 f) (be64 w @ cs) c"
  by (rule reads_then [OF reads_u64])

lemma reads_u8_then:
  "0 \<le> v \<Longrightarrow> v < 256 \<Longrightarrow> reads (f v) cs c \<Longrightarrow>
   reads (read_then reader_u8 f) ([word_of_int v] @ cs) c"
  by (rule reads_then [OF reads_u8])

lemma reads_take_then:
  "n = length bs \<Longrightarrow> reads (f bs) cs c \<Longrightarrow> reads (read_then (reader_take n) f) (bs @ cs) c"
  by (rule reads_then [OF reads_take])

lemma reads_else: "\<not> c \<Longrightarrow> reads q bs a \<Longrightarrow> reads (if c then p else q) bs a"
  by simp

lemmas reads_walk = reads_text_then reads_u64_then reads_u8_then reads_take_then

lemma ensures_bytes: "ensures (reader_bytes mx) (\<lambda>f. length f \<le> mx)"
proof -
  have "ensures (reader_take n) (\<lambda>f. length f = n)" for n
    by (auto simp: ensures_def reader_take_def split: if_splits)
  then show ?thesis
    unfolding reader_bytes_def
    by (intro ensures_then [OF ensures_any]) (auto simp: Let_def ensures_def read_fail_def)
qed

lemma ensures_text: "ensures (reader_text mx ascii) (text_ok mx ascii)"
  unfolding reader_text_def
  by (rule ensures_then [OF ensures_bytes])
    (auto simp: text_ok_def split: option.split)

subsection \<open>The well-formed events are the parsed ones\<close>

text \<open>
  What the wire can carry and the validation accepts. For a v2 event that is the validation
  and the 63-bit range of its two integers; a v1 event's fields are bounded UTF-8 texts.
\<close>

definition v1_text :: "string \<Rightarrow> bool" where
  "v1_text s \<longleftrightarrow> text_ok maxV1Field False s"

definition event_wf :: "event \<Rightarrow> bool" where
  "event_wf e \<longleftrightarrow>
     check e = None \<and> is_i64 (e_sequence e) \<and> is_i64 (e_epochMillis e) \<and>
     (e_version e = V1 \<longrightarrow>
        v1_text (e_identityRef e) \<and> v1_text (e_prior e) \<and> v1_text (e_newKey e) \<and>
        v1_text (e_next e) \<and> trim_space (e_prior e) \<noteq> [] \<and>
        length (Canonical e) \<le> MaxCanonical)"

lemma text_scan_True: "text_scan True b = None \<longleftrightarrow> (\<forall>x \<in> set b. x \<noteq> 0 \<and> x < 0x80)"
  by (induction b) (auto simp: not_le not_less)

lemma text_scan_False: "text_scan False b = None \<longleftrightarrow> 0 \<notin> set b"
  by (induction b) auto

lemma byte_of_ascii: "is_ascii c \<longleftrightarrow> byte_of c < 0x80"
proof -
  have "(of_char c :: nat) < 256" by (rule nat_of_char_less_256)
  then have "unat (byte_of c) = of_char c" by (simp add: byte_of_eq unat_of_nat take_bit_eq_mod)
  then show ?thesis by (simp add: is_ascii_def word_less_nat_alt)
qed

lemma text_ok_ascii:
  "text_ok mx True s \<longleftrightarrow> length s \<le> mx \<and> (\<forall>c \<in> set s. is_ascii c \<and> c \<noteq> CHR 0x00)"
  by (auto simp: text_ok_def text_scan_True set_bytes_of byte_of_ascii byte_of_eq_0)

lemma text_ok_alnum: "length s \<le> mx \<Longrightarrow> list_all is_lower_alnum s \<Longrightarrow> text_ok mx True s"
  by (auto simp: text_ok_ascii list_all_iff dest: is_lower_alnum_ascii)

lemma text_ok_append:
  "text_ok m True s \<Longrightarrow> text_ok n True t \<Longrightarrow> text_ok (m + n) True (s @ t)"
  by (auto simp: text_ok_ascii)

lemma text_ok_digest: "IsDigest s \<Longrightarrow> text_ok 64 True s"
  by (rule text_ok_alnum) (auto simp: IsDigest_def list_all_iff intro: is_lower_hex_alnum)

lemma text_ok_optional_digest: "isOptionalDigest s \<Longrightarrow> text_ok 64 True s"
  by (auto simp: isOptionalDigest_def text_ok_digest) (simp add: text_ok_ascii)

lemma text_ok_nonce: "IsBirthNonce s \<Longrightarrow> text_ok 64 True s"
proof -
  assume "IsBirthNonce s"
  then obtain w h where s: "s = ''birth:'' @ w @ CHR '':'' # h" and p: "nonce_parts w h"
    by (auto simp: IsBirthNonce_def birthNonce_match_Some)
  from p have "list_all is_lower_alnum w" "list_all is_lower_alnum h" "length w \<le> 18" "length h = 32"
    by (auto simp: nonce_parts_def list_all_iff intro: is_lower_hex_alnum is_digit_lower_hex)
  then have wh: "text_ok 18 True w" "text_ok 32 True h" by (simp_all add: text_ok_alnum)
  have "text_ok 6 True ''birth:''" "text_ok 1 True '':''"
    by (simp_all add: text_ok_ascii is_ascii_def of_char_def)
  from text_ok_append [OF text_ok_append [OF this(1) wh(1)] text_ok_append [OF this(2) wh(2)]]
  show ?thesis by (simp add: s text_ok_ascii)
qed

lemma text_ok_kind: "text_ok 3 True (kind_str k)"
  by (cases k) (auto simp: text_ok_ascii is_ascii_def of_char_def)

lemma text_ok_authority: "text_ok 9 True (authority_str a)"
  by (cases a) (auto simp: text_ok_ascii is_ascii_def of_char_def)

lemma length_canonical_signature: "IsCanonicalSignature d \<Longrightarrow> length d \<le> MaxSignatureDER"
  by (auto simp: IsCanonicalSignature_def parseDER_def split: option.splits if_splits)

text \<open>What the v2 validation says of each field.\<close>

lemma checkV2_fields:
  assumes "checkV2 e = None"
  shows "text_ok 64 True (e_identityRef e)" "0 \<le> e_sequence e" "0 \<le> e_epochMillis e"
    "text_ok 64 True (e_prior e)" "text_ok 64 True (e_newKey e)" "text_ok 64 True (e_next e)"
    "text_ok 64 True (e_priorCustody e)" "text_ok 64 True (e_bindNonce e)"
    "length (e_signature e) \<le> MaxSignatureDER"
    "Allows (e_kind e) (e_authority e)"
proof -
  note c = assms [unfolded checkV2_def Let_def]
  have "IsIdentityRef (e_identityRef e)" using c by (simp split: if_splits)
  then show "text_ok 64 True (e_identityRef e)" by (simp add: text_ok_alnum IsIdentityRef_def)
  show "0 \<le> e_sequence e" "0 \<le> e_epochMillis e" using c by (simp_all split: if_splits)
  have "IsDigest (e_prior e)" "IsDigest (e_newKey e)" using c by (simp_all split: if_splits)
  then show "text_ok 64 True (e_prior e)" "text_ok 64 True (e_newKey e)" by (simp_all add: text_ok_digest)
  have "isOptionalDigest (e_next e)" "isOptionalDigest (e_priorCustody e)"
    using c by (simp_all split: if_splits)
  then show "text_ok 64 True (e_next e)" "text_ok 64 True (e_priorCustody e)"
    by (simp_all add: text_ok_optional_digest)
  show "Allows (e_kind e) (e_authority e)" using c by (simp split: if_splits)
  have "IsBirthNonce (e_bindNonce e) \<or> e_bindNonce e = []" using c by (simp split: if_splits) blast+
  then show "text_ok 64 True (e_bindNonce e)" by (auto simp: text_ok_nonce) (simp add: text_ok_ascii)
  have "e_signature e = [] \<or> IsCanonicalSignature (e_signature e)"
    using c by (simp split: if_splits)
  then show "length (e_signature e) \<le> MaxSignatureDER" by (auto simp: length_canonical_signature)
qed

lemma length_writeLP [simp]: "length (writeLP f) = 4 + length f"
  by (simp add: writeLP_def)

lemma length_writeU64 [simp]: "length (writeU64 v) = 8"
  by (simp add: writeU64_def)

lemma length_eventMagic [simp]: "length eventMagic = 10"
  by (simp add: eventMagic_def)

lemma length_Canonical_v2: "checkV2 e = None \<Longrightarrow> e_version e = V2 \<Longrightarrow> length (Canonical e) \<le> MaxCanonical"
proof -
  assume c: "checkV2 e = None" and v: "e_version e = V2"
  have "length s \<le> mx" if "text_ok mx a s" for mx a s using that by (simp add: text_ok_def)
  note l = this [OF checkV2_fields(1) [OF c]] this [OF checkV2_fields(4) [OF c]]
    this [OF checkV2_fields(5) [OF c]] this [OF checkV2_fields(6) [OF c]]
    this [OF checkV2_fields(7) [OF c]] this [OF checkV2_fields(8) [OF c]]
    this [OF text_ok_kind [of "e_kind e"]] this [OF text_ok_authority [of "e_authority e"]]
    checkV2_fields(9) [OF c]
  then show ?thesis
    by (simp add: Canonical_def Unsigned_def IsV2_def v MaxCanonical_def MaxSignatureDER_def)
qed

lemma event_wf_length: "event_wf e \<Longrightarrow> length (Canonical e) \<le> MaxCanonical"
  by (auto simp: event_wf_def check_def intro: length_Canonical_v2 split: if_splits)

lemma reads_v2_fields:
  assumes "text_ok 64 True pc" and "text_ok 64 True bn" and "length sg \<le> MaxSignatureDER"
  shows "reads (parse_v2_fields e)
     (writeLP (bytes_of (kind_str k)) @ writeLP (bytes_of (authority_str a)) @ be128 ad @
      writeLP (bytes_of pc) @ writeLP (bytes_of bn) @ writeLP sg)
     (e\<lparr>e_kind := k, e_authority := a, e_addr := ad, e_priorCustody := pc, e_bindNonce := bn,
        e_signature := sg\<rparr>)"
proof -
  have sg: "reads (reader_bytes MaxSignatureDER) (writeLP sg) sg"
    using assms(3) by (intro reads_bytes) (simp_all add: MaxSignatureDER_def)
  let ?e = "\<lambda>sg. e\<lparr>e_kind := k, e_authority := a, e_addr := ad, e_priorCustody := pc,
    e_bindNonce := bn, e_signature := sg\<rparr>"
  have "reads (read_then (reader_bytes MaxSignatureDER) (\<lambda>sg. read_return (?e sg))) (writeLP sg) (?e sg)"
    by (rule reads_then_return [OF sg])
  then show ?thesis
    unfolding parse_v2_fields_def
    by (intro reads_walk text_ok_kind text_ok_authority assms(1,2)) simp_all
qed

text \<open>The bytes after the magic and the version, as the parser walks them.\<close>

definition event_rest :: "event \<Rightarrow> bytes" where
  "event_rest e =
     be64 (word_of_int (e_sequence e)) @
     writeLP (bytes_of (e_identityRef e)) @ writeLP (bytes_of (e_prior e)) @
     writeLP (bytes_of (e_newKey e)) @ writeLP (bytes_of (e_next e)) @
     be64 (word_of_int (e_epochMillis e)) @
     (if IsV2 e then
        writeLP (bytes_of (kind_str (e_kind e))) @ writeLP (bytes_of (authority_str (e_authority e))) @
        be128 (e_addr e) @ writeLP (bytes_of (e_priorCustody e)) @ writeLP (bytes_of (e_bindNonce e)) @
        writeLP (e_signature e)
      else [])"

lemma Canonical_rest: "Canonical e = eventMagic @ [word_of_int (e_version e)] @ event_rest e"
  by (simp add: event_rest_def Canonical_def Unsigned_def writeU64_def)

lemma uint_sequence: "0 \<le> s \<Longrightarrow> is_i64 s \<Longrightarrow> uint (word_of_int s :: 64 word) = s"
  by (simp add: is_i64_def uint_word_of_int)

lemma sint_epoch: "is_i64 s \<Longrightarrow> sint (word_of_int s :: 64 word) = s"
  using i64_id [of s] by (simp add: i64_def sint_sbintrunc')

lemma sequence_in_range: "is_i64 s \<Longrightarrow> 0 \<le> s \<Longrightarrow> \<not> uint (word_of_int s :: 64 word) > 2 ^ 63 - 1"
  by (simp add: uint_sequence) (simp add: is_i64_def)

lemma reads_rest_v2:
  assumes c: "checkV2 e = None" and v: "e_version e = V2"
    and i: "is_i64 (e_sequence e)" "is_i64 (e_epochMillis e)"
  shows "reads (parse_versioned V2) (event_rest e) e"
proof -
  note f = checkV2_fields [OF c]
  note sq = uint_sequence [OF f(2) i(1)] and ep = sint_epoch [OF i(2)]
  let ?e0 = "\<lparr>e_identityRef = e_identityRef e, e_sequence = e_sequence e,
        e_prior = e_prior e, e_newKey = e_newKey e, e_next = e_next e, e_epochMillis = e_epochMillis e,
        e_version = V2, e_kind = NoKind, e_authority = NoAuthority, e_addr = 0, e_priorCustody = [],
        e_bindNonce = [], e_signature = []\<rparr>"
  have "?e0\<lparr>e_kind := e_kind e, e_authority := e_authority e, e_addr := e_addr e,
      e_priorCustody := e_priorCustody e, e_bindNonce := e_bindNonce e, e_signature := e_signature e\<rparr> = e"
    using v by (intro event.equality) simp_all
  with reads_v2_fields [OF f(7,8,9), of ?e0 "e_kind e" "e_authority e" "e_addr e"]
  have "reads (parse_v2_fields ?e0) (writeLP (bytes_of (kind_str (e_kind e))) @
      writeLP (bytes_of (authority_str (e_authority e))) @ be128 (e_addr e) @
      writeLP (bytes_of (e_priorCustody e)) @ writeLP (bytes_of (e_bindNonce e)) @
      writeLP (e_signature e)) e" by simp
  then show ?thesis
    unfolding event_rest_def parse_versioned_def Let_def IsV2_def v simp_thms if_True
    by (intro reads_walk reads_else sequence_in_range i(1) f(1-6) [unfolded MaxIdentityRef_def])
      (simp_all add: MaxIdentityRef_def sq ep f)
qed

lemma reads_rest_v1:
  assumes c: "check e = None" and v: "e_version e = V1"
    and i: "is_i64 (e_sequence e)" "is_i64 (e_epochMillis e)"
    and t: "v1_text (e_identityRef e)" "v1_text (e_prior e)" "v1_text (e_newKey e)" "v1_text (e_next e)"
    and p: "trim_space (e_prior e) \<noteq> []"
  shows "reads (parse_versioned V1) (event_rest e) e"
proof -
  have s: "0 \<le> e_sequence e" using c v by (simp add: check_def split: if_splits)
  note sq = uint_sequence [OF s i(1)] and ep = sint_epoch [OF i(2)]
  have e: "\<lparr>e_identityRef = e_identityRef e, e_sequence = e_sequence e, e_prior = e_prior e,
      e_newKey = e_newKey e, e_next = e_next e, e_epochMillis = e_epochMillis e, e_version = V1,
      e_kind = NoKind, e_authority = NoAuthority, e_addr = 0, e_priorCustody = [], e_bindNonce = [],
      e_signature = []\<rparr> = e"
    using c v by (intro event.equality) (simp_all add: check_def split: if_splits)
  have n: "(V1 = V2) = False" by (simp add: V1_def V2_def)
  from p have p': "\<not> (e_prior e = [] \<or> trim_space (e_prior e) = [])" by auto
  show ?thesis
    unfolding event_rest_def parse_versioned_def Let_def IsV2_def v n if_False
    by (intro reads_walk reads_else sequence_in_range i(1) s p' t [unfolded v1_text_def])
      (simp_all add: maxV1Field_def sq ep e)
qed

text \<open>What every parsed event satisfies, whatever the bytes.\<close>

definition parsed_ranges :: "event \<Rightarrow> bool" where
  "parsed_ranges e \<longleftrightarrow> is_i64 (e_sequence e) \<and> is_i64 (e_epochMillis e) \<and>
     (e_version e = V1 \<longrightarrow> v1_text (e_identityRef e) \<and> v1_text (e_prior e) \<and>
        v1_text (e_newKey e) \<and> v1_text (e_next e) \<and> trim_space (e_prior e) \<noteq> [])"

lemma digest_graph: "IsDigest s \<Longrightarrow> list_all is_graph s"
proof -
  have "is_lower_hex c \<Longrightarrow> is_graph c" for c
    by (auto simp: is_lower_hex_def is_graph_def)
  then show "IsDigest s \<Longrightarrow> ?thesis" by (simp add: IsDigest_def list_all_iff)
qed

lemma v1_text_ascii: "text_ok 64 True s \<Longrightarrow> v1_text s"
proof -
  assume "text_ok 64 True s"
  then have "\<forall>x \<in> set (bytes_of s). x \<noteq> 0 \<and> x < 0x80" "length s \<le> 64"
    by (simp_all add: text_ok_def text_scan_True)
  then show "v1_text s"
    by (auto simp: v1_text_def text_ok_def maxV1Field_def text_scan_False intro: valid_utf8_ascii)
qed

lemma v1_text_Genesis: "v1_text Genesis"
  by (simp add: v1_text_ascii text_ok_digest)

lemma trim_digest: "IsDigest s \<Longrightarrow> trim_space s = s"
  by (simp add: digest_graph)

lemma trim_Genesis: "trim_space Genesis \<noteq> []"
  using IsDigest_nonempty [OF IsDigest_Genesis] by (simp add: trim_digest)

lemma is_i64_sint [simp]: "is_i64 (sint (w :: 64 word))"
proof -
  have "sint w = i64 (uint w)" by (simp add: i64_def sint_uint)
  then show ?thesis by simp
qed

lemma ensures_v2_fields:
  "parsed_ranges e \<Longrightarrow> e_version e = V2 \<Longrightarrow> ensures (parse_v2_fields e) parsed_ranges"
  unfolding parse_v2_fields_def
  by (intro ensures_then [OF ensures_any] ensures_return) (simp add: parsed_ranges_def V1_def V2_def)

lemma ensures_versioned: "ver = V1 \<or> ver = V2 \<Longrightarrow> ensures (parse_versioned ver) parsed_ranges"
proof -
  assume ver: "ver = V1 \<or> ver = V2"
  have i: "is_i64 (uint sq)" if "\<not> uint sq > 2 ^ 63 - 1" for sq :: "64 word"
    using that uint_nat [of sq] unfolding is_i64_def by linarith
  have t: "v1_text s" if "text_ok (if ver = V2 then m else maxV1Field) (ver = V2) s" "ver = V1" for s m
    using that by (simp add: v1_text_def V1_def V2_def)
  show ?thesis
    unfolding parse_versioned_def Let_def
    apply (rule ensures_then [OF ensures_any])
    apply (rule ensures_if, rule ensures_fail)
    apply (rule ensures_then [OF ensures_text])+
    apply (rule ensures_then [OF ensures_any])
    using ver
    by (intro ensures_if ensures_v2_fields ensures_return)
      (auto simp: parsed_ranges_def V1_def V2_def v1_text_Genesis trim_Genesis intro: i t)
qed

lemma ensures_fields: "ensures parse_fields parsed_ranges"
  unfolding parse_fields_def
  by (intro ensures_then [OF ensures_any] ensures_if ensures_fail ensures_versioned) auto

lemma ParseEvent_iff:
  "ParseEvent b = Inr e \<longleftrightarrow> event_wf e \<and> b = Canonical e"
proof
  assume p: "ParseEvent b = Inr e"
  then obtain r r' where "parse_fields r = Inr (e, r')" and c: "check e = None"
    and b: "Canonical e = b" and l: "length b \<le> MaxCanonical"
    by (auto simp: ParseEvent_def split: if_splits sum.splits option.splits)
  then have "parsed_ranges e" using ensures_fields by (auto simp: ensures_def)
  with c b l show "event_wf e \<and> b = Canonical e" by (simp add: event_wf_def parsed_ranges_def)
next
  assume "event_wf e \<and> b = Canonical e"
  then have wf: "event_wf e" and b: "b = eventMagic @ [word_of_int (e_version e)] @ event_rest e"
    by (simp_all add: Canonical_rest)
  have c: "check e = None" using wf by (simp add: event_wf_def)
  then have v: "e_version e = V1 \<or> e_version e = V2" by (auto simp: check_def split: if_splits)
  have rest: "reads (parse_versioned (e_version e)) (event_rest e) e"
    using wf c v by (auto simp: event_wf_def check_def V1_def V2_def
        intro: reads_rest_v1 [unfolded V1_def] reads_rest_v2 [unfolded V2_def] split: if_splits)
  then have fields: "reads parse_fields ([word_of_int (e_version e)] @ event_rest e) e"
    unfolding parse_fields_def using v
    by (intro reads_u8_then reads_else) (auto simp: V1_def V2_def)
  let ?r = "\<lparr>r_b = b, r_i = 0\<rparr>"
  have "reader_take (length eventMagic) ?r = Inr (eventMagic, ?r\<lparr>r_i := 10\<rparr>)"
    using reads_take [OF refl, of eventMagic] unfolding reads_def b by force
  moreover have "parse_fields (?r\<lparr>r_i := 10\<rparr>) = Inr (e, ?r\<lparr>r_i := length b\<rparr>)"
    using fields [unfolded reads_def, rule_format, of "?r\<lparr>r_i := 10\<rparr>" "[]"]
    by (simp add: b)
  moreover have "length b \<noteq> 0" "length b \<le> MaxCanonical" "Canonical e = b"
    using event_wf_length [OF wf] b by (simp_all add: Canonical_rest)
  ultimately show "ParseEvent b = Inr e" using c by (simp add: ParseEvent_def)
qed

text \<open>
  C32. The parser accepts exactly the canonical encodings of the well-formed events: parsing
  an encoding gives the event back, and whatever it accepts is the one encoding of what it
  returns.
\<close>

theorem ParseEvent_Canonical:
  "ParseEvent b = Inr e \<longleftrightarrow> event_wf e \<and> b = Canonical e"
  by (rule ParseEvent_iff)

interpretation event_codec: strict_codec event_wf Canonical "\<lambda>b e. ParseEvent b = Inr e"
  by unfold_locales (rule ParseEvent_iff, simp)

lemma isOptionalDigest_Nil [simp]: "isOptionalDigest []"
  by (simp add: isOptionalDigest_def)

lemma checkV2_unsigned: "checkV2 e = None \<Longrightarrow> checkV2 (e\<lparr>e_signature := []\<rparr>) = None"
  unfolding checkV2_def Let_def guard_None
  by (cases "e_kind e = REC") (auto simp: guard_None split del: if_split)

lemma check_unsigned: "check e = None \<Longrightarrow> check (e\<lparr>e_signature := []\<rparr>) = None"
  by (cases "e_version e = V1"; cases "e_version e = V2")
    (simp_all add: check_def checkV2_unsigned guard_None split del: if_split)

lemma Unsigned_unsigned [simp]: "Unsigned (e\<lparr>e_signature := s\<rparr>) = Unsigned e"
  by (simp add: Unsigned_def IsV2_def)

lemma event_wf_unsigned: "event_wf e \<Longrightarrow> event_wf (e\<lparr>e_signature := []\<rparr>)"
  by (simp add: event_wf_def check_unsigned Canonical_def IsV2_def V1_def V2_def)

lemma unsigned_eq:
  assumes "event_wf e" and "event_wf f" and "Unsigned e = Unsigned f"
  shows "e\<lparr>e_signature := []\<rparr> = f\<lparr>e_signature := []\<rparr>"
proof -
  have "take 11 (Unsigned g) = eventMagic @ [word_of_int (e_version g)]" for g
    by (simp add: Unsigned_def)
  with assms(3) have "(word_of_int (e_version e) :: byte) = word_of_int (e_version f)"
    by (metis last_snoc)
  with assms(1,2) have "e_version e = e_version f"
    by (auto simp: event_wf_def check_def V1_def V2_def split: if_splits)
  with assms(3) have "Canonical (e\<lparr>e_signature := []\<rparr>) = Canonical (f\<lparr>e_signature := []\<rparr>)"
    by (simp add: Canonical_def IsV2_def)
  then show ?thesis
    using event_codec.enc_inject event_wf_unsigned assms(1,2) by blast
qed

text \<open>
  The hashed bytes determine the event: two well-formed events with the same unsigned
  bytes differ at most in their signature, so an event digest commits to every other field.
\<close>

theorem Unsigned_determines_event:
  assumes "event_wf e" and "event_wf f" and "Unsigned e = Unsigned f"
  shows "e\<lparr>e_signature := []\<rparr> = f\<lparr>e_signature := []\<rparr>"
  using assms by (rule unsigned_eq)

definition example_event :: "bytes \<Rightarrow> event" where
  "example_event sg = \<lparr>e_identityRef = ''ref1'', e_sequence = 0, e_prior = Genesis,
     e_newKey = KeyDigest [1, 2, 3], e_next = [], e_epochMillis = 1700000000000, e_version = V2,
     e_kind = ICP, e_authority = Birth, e_addr = 1, e_priorCustody = [],
     e_bindNonce = ''birth:5:00112233445566778899aabbccddeeff'', e_signature = sg\<rparr>"

lemma example_event_wf: "sg = [] \<or> IsCanonicalSignature sg \<Longrightarrow> event_wf (example_event sg)"
proof -
  assume sg: "sg = [] \<or> IsCanonicalSignature sg"
  have "IsBirthNonce ''birth:5:00112233445566778899aabbccddeeff''" by code_simp
  moreover have "IsIdentityRef ''ref1''" by code_simp
  ultimately have "checkV2 (example_event sg) = None"
    using sg by (auto simp: checkV2_def example_event_def KeyDigest_def)
  then show ?thesis
    using length_Canonical_v2 [of "example_event sg"]
    by (simp add: event_wf_def check_def V1_def V2_def is_i64_def example_event_def)
qed

theorem Unsigned_determines_event_witness:
  "(example_event [])\<lparr>e_signature := []\<rparr> = (example_event [0x30, 6, 2, 1, 1, 2, 1, 1])\<lparr>e_signature := []\<rparr>"
proof (rule Unsigned_determines_event)
  have "IsCanonicalSignature [0x30, 6, 2, 1, 1, 2, 1, 1]" by code_simp
  then show "event_wf (example_event [0x30, 6, 2, 1, 1, 2, 1, 1])" by (simp add: example_event_wf)
qed (simp_all add: example_event_wf, simp add: Unsigned_def example_event_def IsV2_def)

end
