(* ===== verification/KelChain.thy ===== *)
theory KelChain
  imports KelEvent
begin

text \<open>
  \<open>internal/kel/chain.go\<close>: walking a key-event chain from its inception. The walk is the
  loop of \<open>WalkChain\<close> over an explicit state (the previous event, whether a v2 event was
  seen, the address, the breaks so far); \<open>step\<close>, \<open>revealed\<close> and \<open>signature\<close>
  are the code's helpers, with every refusal in the code's order. \<open>chain_ok\<close> states what
  a chain must be by its positions, without a loop; the lemmas show that the walk decides it
  and what follows for a verifier. The text of a walk's reason is not modelled.
\<close>

subsection \<open>Walk failures, links and results\<close>

datatype WalkFailure =
    FailEmpty | FailNullEvent | FailNotGenesis | FailIdentitySplice | FailAddressSplice
  | FailSequenceBreak | FailHashChainBreak | FailV1AfterV2 | FailAfterSealed
  | FailCommitmentMismatch | FailKindNotAllowed | FailRicKeyChanged | FailMissingSPKI
  | FailSPKIMismatch | FailUnsigned | FailMalformedKey | FailMalformedSignature | FailHighS
  | FailBadSignature

text \<open>A nil event is \<open>None\<close>; an SPKI not supplied is the empty list, as \<open>len\<close> reads it.\<close>

record link =
  l_event :: "event option"
  l_spki :: bytes

record authority_break =
  ab_sequence :: int
  ab_what :: string
  ab_epochMillis :: int

record walk =
  w_valid :: bool
  w_failure :: "WalkFailure option"
  w_failedIndex :: int
  w_head :: "event option"
  w_breaks :: "authority_break list"

definition KeyAuthorised :: "walk \<Rightarrow> bool" where
  "KeyAuthorised w \<longleftrightarrow> w_valid w \<and> w_breaks w = []"

definition walkFail :: "WalkFailure \<Rightarrow> int \<Rightarrow> walk" where
  "walkFail f i = \<lparr>w_valid = False, w_failure = Some f, w_failedIndex = i, w_head = None, w_breaks = []\<rparr>"

subsection \<open>One step\<close>

text \<open>\<open>Some w\<close> is Go's \<open>(w, true)\<close>: the walk stops with \<open>w\<close>.\<close>

definition revealed :: "event \<Rightarrow> event \<Rightarrow> int \<Rightarrow> walk option" where
  "revealed prev cur i =
     (if Sealed prev then Some (walkFail FailAfterSealed i)
      else if sha256Hex (bytes_of (e_newKey cur)) \<noteq> e_next prev
        then Some (walkFail FailCommitmentMismatch i)
      else None)"

definition step :: "event \<Rightarrow> event \<Rightarrow> bool \<Rightarrow> int \<Rightarrow> walk option" where
  "step prev cur seenV2 i =
     (if e_identityRef cur \<noteq> e_identityRef prev then Some (walkFail FailIdentitySplice i)
      else if e_sequence cur \<noteq> i64 (e_sequence prev + 1) then Some (walkFail FailSequenceBreak i)
      else if e_prior cur \<noteq> Digest prev then Some (walkFail FailHashChainBreak i)
      else if \<not> IsV2 cur then
        (if seenV2 then Some (walkFail FailV1AfterV2 i) else revealed prev cur i)
      else
        (case e_kind cur of
           ICP \<Rightarrow> Some (walkFail FailKindNotAllowed i)
         | ROT \<Rightarrow> revealed prev cur i
         | RIC \<Rightarrow>
             (if \<not> Sealed prev then Some (walkFail FailKindNotAllowed i)
              else if e_newKey cur \<noteq> e_newKey prev then Some (walkFail FailRicKeyChanged i)
              else None)
         | REC \<Rightarrow>
             (if IsV2 prev \<or> \<not> Sealed prev then Some (walkFail FailKindNotAllowed i) else None)
         | _ \<Rightarrow> None))"

definition signature :: "x509_p256 \<Rightarrow> event \<Rightarrow> bytes \<Rightarrow> int \<Rightarrow> walk option" where
  "signature x509 cur spki i =
     (if \<not> Signed (e_kind cur) then
        (if spki \<noteq> [] \<and> KeyDigest spki \<noteq> e_newKey cur then Some (walkFail FailSPKIMismatch i)
         else None)
      else if spki = [] then Some (walkFail FailMissingSPKI i)
      else if KeyDigest spki \<noteq> e_newKey cur then Some (walkFail FailSPKIMismatch i)
      else if e_signature cur = [] then Some (walkFail FailUnsigned i)
      else
        (case event_Statement cur of
           Inl _ \<Rightarrow> Some (walkFail FailBadSignature i)
         | Inr st \<Rightarrow>
             (case VerifySignature x509 spki (Some st) (e_signature cur) of
                SigValid \<Rightarrow> None
              | SigMalformedKey \<Rightarrow> Some (walkFail FailMalformedKey i)
              | SigMalformedSignature \<Rightarrow> Some (walkFail FailMalformedSignature i)
              | SigHighS \<Rightarrow> Some (walkFail FailHighS i)
              | SigBad \<Rightarrow> Some (walkFail FailBadSignature i))))"

subsection \<open>The loop\<close>

record walk_state =
  ws_breaks :: "authority_break list"
  ws_prev :: "event option"
  ws_seenV2 :: bool
  ws_addr :: "128 word option"

definition walk_init :: walk_state where
  "walk_init = \<lparr>ws_breaks = [], ws_prev = None, ws_seenV2 = False, ws_addr = None\<rparr>"

text \<open>How the event joins the one before it, or begins the chain.\<close>

definition walk_join :: "walk_state \<Rightarrow> event \<Rightarrow> int \<Rightarrow> walk option" where
  "walk_join s cur i =
     (case ws_prev s of
        None \<Rightarrow>
          (if e_sequence cur \<noteq> 0 \<or> e_prior cur \<noteq> Genesis then Some (walkFail FailNotGenesis i)
           else None)
      | Some prev \<Rightarrow> step prev cur (ws_seenV2 s) i)"

text \<open>What the event itself must show, and the break it adds.\<close>

definition walk_own :: "x509_p256 \<Rightarrow> walk_state \<Rightarrow> event \<Rightarrow> bytes \<Rightarrow> int \<Rightarrow> walk + walk_state" where
  "walk_own x509 s cur spki i =
     (if IsV2 cur then
        (if ws_addr s \<noteq> None \<and> ws_addr s \<noteq> Some (e_addr cur)
           then Inl (walkFail FailAddressSplice i)
         else
           (case signature x509 cur spki i of
              Some w \<Rightarrow> Inl w
            | None \<Rightarrow>
                Inr \<lparr>ws_breaks =
                       (if e_kind cur = RCV \<or> e_kind cur = REC
                        then ws_breaks s @ [\<lparr>ab_sequence = e_sequence cur,
                          ab_what = kind_str (e_kind cur), ab_epochMillis = e_epochMillis cur\<rparr>]
                        else ws_breaks s),
                     ws_prev = Some cur, ws_seenV2 = True, ws_addr = Some (e_addr cur)\<rparr>))
      else if spki \<noteq> [] \<and> KeyDigest spki \<noteq> e_newKey cur then Inl (walkFail FailSPKIMismatch i)
      else
        Inr (s\<lparr>ws_breaks := ws_breaks s @ [\<lparr>ab_sequence = e_sequence cur, ab_what = ''v1'',
               ab_epochMillis = e_epochMillis cur\<rparr>],
             ws_prev := Some cur\<rparr>))"

definition walk_link :: "x509_p256 \<Rightarrow> walk_state \<Rightarrow> nat \<Rightarrow> link \<Rightarrow> walk + walk_state" where
  "walk_link x509 s i l =
     (case l_event l of
        None \<Rightarrow> Inl (walkFail FailNullEvent (int i))
      | Some cur \<Rightarrow>
          (case walk_join s cur (int i) of
             Some w \<Rightarrow> Inl w
           | None \<Rightarrow> walk_own x509 s cur (l_spki l) (int i)))"

fun walk_links :: "x509_p256 \<Rightarrow> walk_state \<Rightarrow> nat \<Rightarrow> link list \<Rightarrow> walk + walk_state" where
  "walk_links x509 s i [] = Inr s"
| "walk_links x509 s i (l # ls) =
     (case walk_link x509 s i l of Inl w \<Rightarrow> Inl w | Inr s' \<Rightarrow> walk_links x509 s' (Suc i) ls)"

definition WalkChain :: "x509_p256 \<Rightarrow> link list \<Rightarrow> walk" where
  "WalkChain x509 links =
     (if links = [] then walkFail FailEmpty (-1)
      else
        (case walk_links x509 walk_init 0 links of
           Inl w \<Rightarrow> w
         | Inr s \<Rightarrow> \<lparr>w_valid = True, w_failure = None, w_failedIndex = -1, w_head = ws_prev s,
                     w_breaks = ws_breaks s\<rparr>))"

subsection \<open>What a chain must be\<close>

text \<open>
  Stated on the list of events, with no loop state. \<open>may_follow\<close> is the pre-rotation
  rule, \<open>joined\<close> adds the hash chain, and \<open>proven\<close> is what an event shows on its own.
\<close>

definition may_follow :: "event \<Rightarrow> event \<Rightarrow> bool" where
  "may_follow p c \<longleftrightarrow>
     (if \<not> IsV2 c \<or> e_kind c = ROT then \<not> Sealed p \<and> e_next p = sha256Hex (bytes_of (e_newKey c))
      else if e_kind c = RIC then Sealed p \<and> e_newKey c = e_newKey p
      else if e_kind c = REC then Sealed p \<and> \<not> IsV2 p
      else e_kind c \<noteq> ICP)"

definition joined :: "event \<Rightarrow> event \<Rightarrow> bool" where
  "joined p c \<longleftrightarrow> e_identityRef c = e_identityRef p \<and> e_sequence c = i64 (e_sequence p + 1) \<and>
     e_prior c = Digest p \<and> may_follow p c"

definition proven :: "x509_p256 \<Rightarrow> event \<Rightarrow> bytes \<Rightarrow> bool" where
  "proven x509 e spki \<longleftrightarrow>
     (if IsV2 e \<and> Signed (e_kind e) then
        spki \<noteq> [] \<and> KeyDigest spki = e_newKey e \<and> e_signature e \<noteq> [] \<and>
        (\<exists>st. event_Statement e = Inr st \<and> VerifySignature x509 spki (Some st) (e_signature e) = SigValid)
      else spki = [] \<or> KeyDigest spki = e_newKey e)"

definition events :: "link list \<Rightarrow> event list" where
  "events links = map (\<lambda>l. the (l_event l)) links"

definition chain_ok :: "x509_p256 \<Rightarrow> link list \<Rightarrow> bool" where
  "chain_ok x509 links \<longleftrightarrow>
     links \<noteq> [] \<and> (\<forall>l \<in> set links. l_event l \<noteq> None) \<and>
     e_sequence (hd (events links)) = 0 \<and> e_prior (hd (events links)) = Genesis \<and>
     successively joined (events links) \<and>
     sorted_wrt (\<lambda>a b. IsV2 a \<longrightarrow> IsV2 b) (events links) \<and>
     (\<forall>a \<in> set (events links). \<forall>b \<in> set (events links). IsV2 a \<and> IsV2 b \<longrightarrow> e_addr a = e_addr b) \<and>
     (\<forall>l \<in> set links. proven x509 (the (l_event l)) (l_spki l))"

text \<open>The authority break an event makes, if any.\<close>

definition break_of :: "event \<Rightarrow> authority_break list" where
  "break_of e =
     (if \<not> IsV2 e then [\<lparr>ab_sequence = e_sequence e, ab_what = ''v1'', ab_epochMillis = e_epochMillis e\<rparr>]
      else if e_kind e = RCV \<or> e_kind e = REC
        then [\<lparr>ab_sequence = e_sequence e, ab_what = kind_str (e_kind e), ab_epochMillis = e_epochMillis e\<rparr>]
      else [])"

text \<open>The loop state after a prefix, said without the loop.\<close>

definition state_of :: "link list \<Rightarrow> walk_state" where
  "state_of links =
     \<lparr>ws_breaks = concat (map break_of (events links)),
      ws_prev = (if links = [] then None else Some (last (events links))),
      ws_seenV2 = list_ex IsV2 (events links),
      ws_addr = map_option e_addr (find IsV2 (events links))\<rparr>"

subsection \<open>The walk decides it\<close>

lemma events_simps [simp]:
  "events [] = []" "events (l # ls) = the (l_event l) # events ls"
  "events (ls @ ms) = events ls @ events ms" "events ls = [] \<longleftrightarrow> ls = []"
  "length (events ls) = length ls"
  by (simp_all add: events_def)

lemma revealed_None:
  "revealed p c i = None \<longleftrightarrow> \<not> Sealed p \<and> e_next p = sha256Hex (bytes_of (e_newKey c))"
  by (auto simp: revealed_def)

lemma step_None: "step p c v i = None \<longleftrightarrow> joined p c \<and> (v \<longrightarrow> IsV2 c)"
  unfolding step_def joined_def may_follow_def guard_None
  by (cases "e_kind c"; cases "IsV2 c") (simp_all add: revealed_None guard_None, argo+)

lemma signature_None: "IsV2 e \<Longrightarrow> signature x e spki i = None \<longleftrightarrow> proven x e spki"
  unfolding signature_def proven_def
  by (cases "Signed (e_kind e)") (auto simp: guard_None split: sum.splits SignatureCheck.splits)

lemma walk_own_Inr:
  "walk_own x s c spki i = Inr s' \<longleftrightarrow>
     proven x c spki \<and> (IsV2 c \<longrightarrow> ws_addr s = None \<or> ws_addr s = Some (e_addr c)) \<and>
     s' = \<lparr>ws_breaks = ws_breaks s @ break_of c, ws_prev = Some c, ws_seenV2 = ws_seenV2 s \<or> IsV2 c,
           ws_addr = (if IsV2 c then Some (e_addr c) else ws_addr s)\<rparr>"
proof (cases "IsV2 c")
  case True
  note sig = signature_None [OF True, of x spki i, symmetric]
  from True show ?thesis
    by (cases "signature x c spki i") (auto simp: walk_own_def guard_Inr break_of_def sig)
next
  case False
  then show ?thesis by (auto simp: walk_own_def guard_Inr break_of_def proven_def)
qed

lemma walk_links_append:
  "walk_links x s i (xs @ ys) =
     (case walk_links x s i xs of Inl w \<Rightarrow> Inl w | Inr s' \<Rightarrow> walk_links x s' (i + length xs) ys)"
  by (induction xs arbitrary: s i) (auto split: sum.splits)

lemma walk_links_snoc:
  "walk_links x s i (xs @ [l]) =
     (case walk_links x s i xs of Inl w \<Rightarrow> Inl w | Inr s' \<Rightarrow> walk_link x s' (i + length xs) l)"
  by (auto simp: walk_links_append split: sum.splits)

lemma walk_link_Inr:
  "walk_link x s i l = Inr s' \<longleftrightarrow>
     (\<exists>c. l_event l = Some c \<and> walk_join s c (int i) = None \<and> walk_own x s c (l_spki l) (int i) = Inr s')"
  by (auto simp: walk_link_def split: option.splits)

text \<open>Whenever the loop has not failed, its state is the prefix's.\<close>

lemma find_snoc: "find P (xs @ [y]) = (case find P xs of None \<Rightarrow> (if P y then Some y else None) | Some z \<Rightarrow> Some z)"
  by (induction xs) auto

lemma walk_state_of: "walk_links x walk_init 0 ls = Inr s \<Longrightarrow> s = state_of ls"
proof (induction ls arbitrary: s rule: rev_induct)
  case Nil
  then show ?case by (simp add: walk_init_def state_of_def)
next
  case (snoc l ls)
  then obtain s' c where "walk_links x walk_init 0 ls = Inr s'" and c: "l_event l = Some c"
    and o: "walk_own x s' c (l_spki l) (int (length ls)) = Inr s"
    by (auto simp: walk_links_snoc walk_link_Inr split: sum.splits)
  with snoc.IH have "s' = state_of ls" by simp
  with o c show ?case
    by (auto simp: walk_own_Inr state_of_def find_snoc split: option.splits)
qed

text \<open>One more link: what it must show against the chain before it.\<close>

lemma chain_ok_single:
  "chain_ok x [l] \<longleftrightarrow> (\<exists>c. l_event l = Some c \<and> e_sequence c = 0 \<and> e_prior c = Genesis \<and> proven x c (l_spki l))"
  by (auto simp: chain_ok_def)

lemma all_pairs_snoc:
  "(\<forall>a \<in> set (es @ [c]). \<forall>b \<in> set (es @ [c]). P a \<and> P b \<longrightarrow> f a = f b) \<longleftrightarrow>
     (\<forall>a \<in> set es. \<forall>b \<in> set es. P a \<and> P b \<longrightarrow> f a = f b) \<and> (P c \<longrightarrow> (\<forall>a \<in> set es. P a \<longrightarrow> f a = f c))"
  by auto

lemma find_pairs:
  "\<forall>a \<in> set es. \<forall>b \<in> set es. P a \<and> P b \<longrightarrow> f a = f b \<Longrightarrow>
     (\<forall>a \<in> set es. P a \<longrightarrow> f a = v) \<longleftrightarrow> map_option f (find P es) = None \<or> map_option f (find P es) = Some v"
proof (cases "find P es")
  case None
  then show ?thesis by (simp add: find_None_iff)
next
  case (Some z)
  then have "z \<in> set es" "P z" by (auto simp: find_Some_iff)
  moreover assume "\<forall>a \<in> set es. \<forall>b \<in> set es. P a \<and> P b \<longrightarrow> f a = f b"
  ultimately have "(\<forall>a \<in> set es. P a \<longrightarrow> f a = v) \<longleftrightarrow> f z = v" by blast
  with Some show ?thesis by simp
qed

lemma chain_ok_snoc:
  assumes "ls \<noteq> []" and c: "l_event l = Some c"
  shows "chain_ok x (ls @ [l]) \<longleftrightarrow> chain_ok x ls \<and> joined (last (events ls)) c \<and>
     (list_ex IsV2 (events ls) \<longrightarrow> IsV2 c) \<and>
     (IsV2 c \<longrightarrow> (\<forall>a \<in> set (events ls). IsV2 a \<longrightarrow> e_addr a = e_addr c)) \<and> proven x c (l_spki l)"
proof -
  have 1: "successively joined (events (ls @ [l])) \<longleftrightarrow> successively joined (events ls) \<and> joined (last (events ls)) c"
    using assms by (simp add: successively_append_iff)
  have 2: "sorted_wrt (\<lambda>a b. IsV2 a \<longrightarrow> IsV2 b) (events (ls @ [l])) \<longleftrightarrow>
      sorted_wrt (\<lambda>a b. IsV2 a \<longrightarrow> IsV2 b) (events ls) \<and> (list_ex IsV2 (events ls) \<longrightarrow> IsV2 c)"
    by (auto simp: sorted_wrt_append list_ex_iff c)
  have 3: "hd (events (ls @ [l])) = hd (events ls)" using assms by simp
  have 4: "(\<forall>l \<in> set (ls @ [l]). l_event l \<noteq> None) \<longleftrightarrow> (\<forall>l \<in> set ls. l_event l \<noteq> None)"
    by (simp add: c)
  have 5: "(\<forall>l \<in> set (ls @ [l]). proven x (the (l_event l)) (l_spki l)) \<longleftrightarrow>
      (\<forall>l \<in> set ls. proven x (the (l_event l)) (l_spki l)) \<and> proven x c (l_spki l)"
    by (auto simp: c)
  have 6: "events (ls @ [l]) = events ls @ [c]" by (simp add: c)
  have 7: "ls @ [l] \<noteq> []" by simp
  show ?thesis
    unfolding chain_ok_def 1 2 3 4 5 unfolding 6 all_pairs_snoc [where f = e_addr]
    by (insert assms(1) 7, rule iffI; elim conjE; intro conjI; assumption)
qed

lemma chain_ok_null: "l_event l = None \<Longrightarrow> \<not> chain_ok x (ls @ [l])"
  by (auto simp: chain_ok_def)

lemma walk_link_state_of:
  assumes "chain_ok x ls" and c: "l_event l = Some c"
  shows "(\<exists>s. walk_link x (state_of ls) (length ls) l = Inr s) \<longleftrightarrow> chain_ok x (ls @ [l])"
proof -
  have ne: "ls \<noteq> []" and pairs:
      "\<forall>a \<in> set (events ls). \<forall>b \<in> set (events ls). IsV2 a \<and> IsV2 b \<longrightarrow> e_addr a = e_addr b"
    using assms(1) unfolding chain_ok_def by blast+
  have "walk_join (state_of ls) c i = None \<longleftrightarrow>
      joined (last (events ls)) c \<and> (list_ex IsV2 (events ls) \<longrightarrow> IsV2 c)" for i
    using ne by (simp add: walk_join_def state_of_def step_None)
  moreover have "(\<exists>s. walk_own x (state_of ls) c (l_spki l) i = Inr s) \<longleftrightarrow> proven x c (l_spki l) \<and>
      (IsV2 c \<longrightarrow> (\<forall>a \<in> set (events ls). IsV2 a \<longrightarrow> e_addr a = e_addr c))" for i
    unfolding walk_own_Inr find_pairs [OF pairs] by (simp add: state_of_def)
  ultimately show ?thesis
    unfolding chain_ok_snoc [OF ne c] using assms(1) by (simp add: walk_link_Inr c conj_comms)
qed

lemma walk_accepts: "(\<exists>s. walk_links x walk_init 0 ls = Inr s) \<longleftrightarrow> ls = [] \<or> chain_ok x ls"
proof (induction ls rule: rev_induct)
  case Nil
  then show ?case by simp
next
  case (snoc l ls)
  have split: "(\<exists>s. walk_links x walk_init 0 (ls @ [l]) = Inr s) \<longleftrightarrow>
      (\<exists>s'. walk_links x walk_init 0 ls = Inr s') \<and> (\<exists>s. walk_link x (state_of ls) (length ls) l = Inr s)"
    by (auto simp: walk_links_snoc dest: walk_state_of split: sum.splits)
  show ?case
  proof (cases "l_event l")
    case None
    then show ?thesis unfolding split by (simp add: walk_link_def chain_ok_null)
  next
    case (Some c)
    show ?thesis
    proof (cases "ls = []")
      case True
      with Some show ?thesis
        unfolding split
        by (simp add: walk_link_Inr walk_own_Inr chain_ok_single walk_join_def state_of_def guard_None)
    next
      case False
      with Some show ?thesis
        unfolding split snoc.IH by (metis chain_ok_snoc snoc_eq_iff_butlast walk_link_state_of)
    qed
  qed
qed

text \<open>Where and how it fails.\<close>

lemma revealed_Some: "revealed p c i = Some w \<Longrightarrow> \<exists>f. w = walkFail f i"
  by (auto simp: revealed_def split: if_splits)

lemma step_Some: "step p c v i = Some w \<Longrightarrow> \<exists>f. w = walkFail f i"
  by (auto simp: step_def dest: revealed_Some split: if_splits kind.splits)

lemma signature_Some: "signature x c spki i = Some w \<Longrightarrow> \<exists>f. w = walkFail f i"
  by (auto simp: signature_def split: if_splits sum.splits SignatureCheck.splits)

lemma walk_link_Inl: "walk_link x s i l = Inl w \<Longrightarrow> \<exists>f. w = walkFail f (int i)"
  by (auto simp: walk_link_def walk_join_def walk_own_def
      dest: step_Some signature_Some split: option.splits if_splits)

lemma walk_links_Inl:
  "walk_links x s i ls = Inl w \<Longrightarrow>
     \<exists>k f s'. k < length ls \<and> walk_links x s i (take k ls) = Inr s' \<and>
       walk_link x s' (i + k) (ls ! k) = Inl w \<and> w = walkFail f (int (i + k))"
proof (induction ls arbitrary: s i)
  case Nil
  then show ?case by simp
next
  case (Cons l ls)
  show ?case
  proof (cases "walk_link x s i l")
    case (Inl v)
    with Cons.prems have "walk_link x s i l = Inl w" by simp
    with walk_link_Inl [OF this] show ?thesis by (intro exI [of _ 0]) auto
  next
    case (Inr t)
    with Cons.prems have "walk_links x t (Suc i) ls = Inl w" by simp
    from Cons.IH [OF this] obtain k f s' where "k < length ls" "walk_links x t (Suc i) (take k ls) = Inr s'"
      "walk_link x s' (Suc i + k) (ls ! k) = Inl w" "w = walkFail f (int (Suc i + k))" by blast
    with Inr show ?thesis by (intro exI [of _ "Suc k"]) auto
  qed
qed

lemma WalkChain_valid: "w_valid (WalkChain x ls) \<longleftrightarrow> chain_ok x ls"
proof (cases "walk_links x walk_init 0 ls")
  case (Inl w)
  with walk_links_Inl [OF this] walk_accepts [of x ls] show ?thesis
    by (auto simp: WalkChain_def walkFail_def)
next
  case (Inr s)
  then have "ls = [] \<or> chain_ok x ls" using walk_accepts by blast
  moreover have "\<not> chain_ok x []" by (simp add: chain_ok_def)
  ultimately show ?thesis using Inr by (auto simp: WalkChain_def walkFail_def)
qed

lemma chain_okD:
  assumes "chain_ok x ls"
  shows "ls \<noteq> []" "successively joined (events ls)" "e_sequence (hd (events ls)) = 0"
    "e_prior (hd (events ls)) = Genesis"
    "l \<in> set ls \<Longrightarrow> \<exists>e. l_event l = Some e"
    "l \<in> set ls \<Longrightarrow> proven x (the (l_event l)) (l_spki l)"
  using assms unfolding chain_ok_def by blast+

lemma WalkChain_Inr:
  "chain_ok x ls \<Longrightarrow> WalkChain x ls = \<lparr>w_valid = True, w_failure = None, w_failedIndex = -1,
     w_head = Some (last (events ls)), w_breaks = concat (map break_of (events ls))\<rparr>"
  using walk_accepts [of x ls] walk_state_of [of x ls]
  by (cases "walk_links x walk_init 0 ls") (auto simp: WalkChain_def state_of_def dest: chain_okD(1))

lemma WalkChain_head: "chain_ok x ls \<Longrightarrow> w_head (WalkChain x ls) = Some (last (events ls))"
  and WalkChain_breaks: "chain_ok x ls \<Longrightarrow> w_breaks (WalkChain x ls) = concat (map break_of (events ls))"
  by (simp_all add: WalkChain_Inr)

text \<open>
  C8. Walking a chain decides \<open>chain_ok\<close>: it accepts exactly the non-empty chains that begin
  at sequence 0 with the genesis prior, whose every event joins the one before it, whose v1
  events come first, whose v2 events name one address, and whose every event proves its key;
  an accepted chain's head is its last event and its breaks are those of its events, in order.
\<close>

theorem WalkChain_decides_chain_ok:
  "w_valid (WalkChain x ls) \<and> w_head (WalkChain x ls) = h \<and> w_breaks (WalkChain x ls) = bs \<longleftrightarrow>
   chain_ok x ls \<and> h = Some (last (events ls)) \<and> bs = concat (map break_of (events ls))"
  by (auto simp: WalkChain_valid WalkChain_head WalkChain_breaks)

subsection \<open>What a walked chain means\<close>

text \<open>The positions of a walked chain.\<close>

lemma chain_ok_take: "chain_ok x ls \<Longrightarrow> 0 < n \<Longrightarrow> chain_ok x (take n ls)"
proof (induction ls rule: rev_induct)
  case Nil
  then show ?case by simp
next
  case (snoc l ls)
  show ?case
  proof (cases "n \<le> length ls")
    case True
    with snoc.prems have "ls \<noteq> []" by auto
    moreover obtain c where "l_event l = Some c"
      using snoc.prems chain_ok_null by (cases "l_event l") auto
    ultimately have "chain_ok x ls" using snoc.prems chain_ok_snoc by blast
    with snoc True show ?thesis by simp
  next
    case False
    with snoc.prems show ?thesis by simp
  qed
qed

lemma chain_ok_joined: "chain_ok x ls \<Longrightarrow> Suc i < length ls \<Longrightarrow> joined (events ls ! i) (events ls ! Suc i)"
  using chain_okD(2) [of x ls] by (simp add: successively_conv_nth)

lemma chain_ok_sequence:
  "chain_ok x ls \<Longrightarrow> length ls \<le> 2 ^ 63 \<Longrightarrow> i < length ls \<Longrightarrow> e_sequence (events ls ! i) = int i"
proof (induction i)
  case 0
  then show ?case using chain_okD(1,3) [of x ls] by (simp add: hd_conv_nth)
next
  case (Suc i)
  then have "e_sequence (events ls ! Suc i) = i64 (int i + 1)"
    using chain_ok_joined [of x ls i] by (simp add: joined_def)
  moreover have "is_i64 (int i + 1)"
    using Suc.prems by (simp add: is_i64_def)
  ultimately show ?case by simp
qed

lemma chain_ok_identity: "chain_ok x ls \<Longrightarrow> i < length ls \<Longrightarrow> e_identityRef (events ls ! i) = e_identityRef (events ls ! 0)"
proof (induction i)
  case (Suc i)
  then show ?case using chain_ok_joined [of x ls i] by (simp add: joined_def)
qed simp

text \<open>
  The walk stops at the first event that breaks the chain: when it refuses with index
  \<open>k\<close>, the links before \<open>k\<close> walk on their own (or \<open>k\<close> is the first), and every
  history that begins with the links up to \<open>k\<close> is refused with the same result.
\<close>

theorem WalkChain_first_failure:
  assumes "\<not> w_valid (WalkChain x ls)" and "ls \<noteq> []"
  shows "\<exists>k < length ls. w_failedIndex (WalkChain x ls) = int k \<and>
           (0 < k \<longrightarrow> w_valid (WalkChain x (take k ls))) \<and>
           (\<forall>more. WalkChain x (take (Suc k) ls @ more) = WalkChain x ls)"
proof -
  obtain w where w: "walk_links x walk_init 0 ls = Inl w"
    using assms by (auto simp: WalkChain_def split: sum.splits)
  with assms(2) have W: "WalkChain x ls = w" by (simp add: WalkChain_def)
  from walk_links_Inl [OF w] obtain k f s where k: "k < length ls"
    and s: "walk_links x walk_init 0 (take k ls) = Inr s" and l: "walk_link x s k (ls ! k) = Inl w"
    and f: "w = walkFail f (int k)" by auto
  have "chain_ok x (take k ls)" if "0 < k"
    using walk_accepts [of x "take k ls"] s k that by auto
  moreover have "walk_links x walk_init 0 (take (Suc k) ls @ more) = Inl w" for more
    using s l k by (simp add: take_Suc_conv_app_nth walk_links_append)
  then have "WalkChain x (take (Suc k) ls @ more) = w" for more
    using assms(2) by (simp add: WalkChain_def)
  ultimately show ?thesis
    using k f W by (auto simp: WalkChain_valid walkFail_def)
qed

lemma unsigned_fields:
  "a\<lparr>e_signature := []\<rparr> = b\<lparr>e_signature := []\<rparr> \<Longrightarrow> e_sequence a = e_sequence b \<and> e_prior a = e_prior b"
  by (metis event.select_convs(2,3) event.surjective event.update_convs(13))

text \<open>Backwards from the head: each prior names the digest before it.\<close>

lemma history_from_end:
  assumes ls: "chain_ok x ls" and ms: "chain_ok y ms" and len: "length ls = length ms"
    and hd: "Digest (last (events ls)) = Digest (last (events ms))"
    and eq: "\<And>a b. a \<in> set (events ls) \<Longrightarrow> b \<in> set (events ms) \<Longrightarrow> Digest a = Digest b \<Longrightarrow>
      a\<lparr>e_signature := []\<rparr> = b\<lparr>e_signature := []\<rparr>"
    and d: "d < length ls"
  shows "(events ls ! (length ls - Suc d))\<lparr>e_signature := []\<rparr> = (events ms ! (length ls - Suc d))\<lparr>e_signature := []\<rparr>"
  using d
proof (induction d)
  case 0
  have "events ls \<noteq> []" "events ms \<noteq> []" using chain_okD(1) [OF ls] chain_okD(1) [OF ms] by simp_all
  then show ?case using eq [OF last_in_set last_in_set hd] len by (simp add: last_conv_nth)
next
  case (Suc d)
  let ?i = "length ls - Suc (Suc d)"
  have i: "Suc ?i = length ls - Suc d" "Suc ?i < length ls" "?i < length ls" using Suc.prems by simp_all
  then have "Digest (events ls ! ?i) = e_prior (events ls ! Suc ?i)"
    "Digest (events ms ! ?i) = e_prior (events ms ! Suc ?i)"
    using chain_ok_joined [OF ls, of ?i] chain_ok_joined [OF ms, of ?i] len by (simp_all add: joined_def)
  moreover have "e_prior (events ls ! Suc ?i) = e_prior (events ms ! Suc ?i)"
    unfolding i(1) using Suc.prems by (intro unsigned_fields [THEN conjunct2] Suc.IH) simp
  ultimately show ?case using i(3) len by (intro eq nth_mem) simp_all
qed

lemma same_length:
  assumes "chain_ok x ls" "chain_ok y ms" "length ls \<le> 2 ^ 63" "length ms \<le> 2 ^ 63"
    and "e_sequence (last (events ls)) = e_sequence (last (events ms))"
  shows "length ls = length ms"
proof -
  have "e_sequence (last (events ks)) = int (length ks - 1)" "ks \<noteq> []"
    if "chain_ok z ks" "length ks \<le> 2 ^ 63" for z ks
    using chain_ok_sequence [OF that, of "length ks - 1"] chain_okD(1) [OF that(1)]
    by (simp_all add: last_conv_nth)
  from this [OF assms(1,3)] this [OF assms(2,4)] assms(5) show ?thesis
    by (simp add: eq_diff_iff Suc_leI)
qed

definition example_v1 :: event where
  "example_v1 = (example_event [])\<lparr>e_version := V1, e_kind := NoKind, e_authority := NoAuthority,
     e_addr := 0, e_bindNonce := []\<rparr>"

lemma example_v1_ok: "spki = [] \<or> spki = [1, 2, 3] \<Longrightarrow> chain_ok x [\<lparr>l_event = Some example_v1, l_spki = spki\<rparr>]"
  by (auto simp: chain_ok_single example_v1_def example_event_def proven_def IsV2_def V1_def V2_def)

theorem WalkChain_first_failure_witness:
  "let ls = [\<lparr>l_event = Some example_v1, l_spki = []\<rparr>, \<lparr>l_event = None, l_spki = []\<rparr>];
       x = (\<lambda>_. None)
   in \<exists>k < length ls. w_failedIndex (WalkChain x ls) = int k \<and>
           (0 < k \<longrightarrow> w_valid (WalkChain x (take k ls))) \<and>
           (\<forall>more. WalkChain x (take (Suc k) ls @ more) = WalkChain x ls)"
  unfolding Let_def
  by (rule WalkChain_first_failure) (simp_all add: WalkChain_valid chain_ok_def)

lemma digest_binds_history:
  assumes "w_valid (WalkChain x ls)" and "w_valid (WalkChain y ms)"
    and "length ls \<le> 2 ^ 63" and "length ms \<le> 2 ^ 63"
    and "\<forall>e \<in> set (events ls) \<union> set (events ms). event_wf e"
    and "Digest (last (events ls)) = Digest (last (events ms))"
  shows "map (\<lambda>e. e\<lparr>e_signature := []\<rparr>) (events ls) = map (\<lambda>e. e\<lparr>e_signature := []\<rparr>) (events ms) \<or>
         (\<exists>a \<in> set (events ls). \<exists>b \<in> set (events ms).
            Unsigned a \<noteq> Unsigned b \<and> sha256 (Unsigned a) = sha256 (Unsigned b))"
proof (rule disjCI)
  assume no: "\<not> (\<exists>a \<in> set (events ls). \<exists>b \<in> set (events ms).
            Unsigned a \<noteq> Unsigned b \<and> sha256 (Unsigned a) = sha256 (Unsigned b))"
  have eq: "a\<lparr>e_signature := []\<rparr> = b\<lparr>e_signature := []\<rparr>"
    if "a \<in> set (events ls)" "b \<in> set (events ms)" "Digest a = Digest b" for a b
    using that no assms(5) by (intro unsigned_eq) (auto simp: Digest_def sha256Hex_eq)
  have ls: "chain_ok x ls" and ms: "chain_ok y ms" using assms by (simp_all add: WalkChain_valid)
  have ne: "events ls \<noteq> []" "events ms \<noteq> []" using chain_okD(1) [OF ls] chain_okD(1) [OF ms] by simp_all
  have "e_sequence (last (events ls)) = e_sequence (last (events ms))"
    using unsigned_fields [OF eq [OF last_in_set [OF ne(1)] last_in_set [OF ne(2)] assms(6)]] by (rule conjunct1)
  then have len: "length ls = length ms" using same_length [OF ls ms assms(3,4)] by simp
  show "map (\<lambda>e. e\<lparr>e_signature := []\<rparr>) (events ls) = map (\<lambda>e. e\<lparr>e_signature := []\<rparr>) (events ms)"
  proof (rule nth_equalityI)
    fix i assume "i < length (map (\<lambda>e. e\<lparr>e_signature := []\<rparr>) (events ls))"
    then have i: "i < length ls" "length ls - Suc i < length ls" "length ls - Suc (length ls - Suc i) = i"
      by simp_all
    have "(events ls ! i)\<lparr>e_signature := []\<rparr> = (events ms ! i)\<lparr>e_signature := []\<rparr>"
      using history_from_end [OF ls ms len assms(6) eq i(2)] unfolding i(3) .
    moreover have "i < length (events ls)" "i < length (events ms)" using i(1) len by simp_all
    ultimately show "map (\<lambda>e. e\<lparr>e_signature := []\<rparr>) (events ls) ! i = map (\<lambda>e. e\<lparr>e_signature := []\<rparr>) (events ms) ! i"
      by (simp only: nth_map)
  qed (simp add: len)
qed

text \<open>
  C14. The head commits to the whole history: two walked histories of well-formed events whose
  last events have the same digest agree on every event, signatures aside, unless two events
  among them are an explicit SHA-256 collision.
\<close>

theorem head_digest_binds_history:
  assumes "w_valid (WalkChain x ls)" and "w_valid (WalkChain y ms)"
    and "length ls \<le> 2 ^ 63" and "length ms \<le> 2 ^ 63"
    and "\<forall>e \<in> set (events ls) \<union> set (events ms). event_wf e"
    and "Digest (last (events ls)) = Digest (last (events ms))"
  shows "map (\<lambda>e. e\<lparr>e_signature := []\<rparr>) (events ls) = map (\<lambda>e. e\<lparr>e_signature := []\<rparr>) (events ms) \<or>
         (\<exists>a \<in> set (events ls). \<exists>b \<in> set (events ms).
            Unsigned a \<noteq> Unsigned b \<and> sha256 (Unsigned a) = sha256 (Unsigned b))"
  using assms by (rule digest_binds_history)

lemma break_of_Nil: "break_of e = [] \<longleftrightarrow> IsV2 e \<and> e_kind e \<noteq> RCV \<and> e_kind e \<noteq> REC"
  by (simp add: break_of_def)

lemma example_v1_wf: "event_wf example_v1"
proof -
  have ref: "trim_space ''ref1'' \<noteq> []" "v1_text ''ref1''"
    by (code_simp, rule v1_text_ascii, simp add: text_ok_alnum list_all_iff is_lower_alnum_def)
  have "IsDigest (KeyDigest [1, 2, 3])" by (simp add: KeyDigest_def)
  then have key: "v1_text (KeyDigest [1, 2, 3])" "length (KeyDigest [1, 2, 3]) = 64"
    "trim_space (KeyDigest [1, 2, 3]) \<noteq> []"
    using IsDigest_nonempty by (simp_all add: v1_text_ascii text_ok_digest trim_digest) (simp add: IsDigest_def)
  have "v1_text []" by (rule v1_text_ascii) (simp add: text_ok_ascii)
  moreover have "length Genesis = 64" using IsDigest_Genesis by (simp add: IsDigest_def)
  ultimately show ?thesis
    using ref key v1_text_Genesis trim_Genesis
    by (simp add: example_v1_def example_event_def event_wf_def check_def is_i64_def V1_def V2_def
        Canonical_def Unsigned_def IsV2_def MaxCanonical_def)
qed

theorem head_digest_binds_history_witness:
  "let ls = [\<lparr>l_event = Some example_v1, l_spki = []\<rparr>];
       ms = [\<lparr>l_event = Some example_v1, l_spki = [1, 2, 3]\<rparr>]
   in map (\<lambda>e. e\<lparr>e_signature := []\<rparr>) (events ls) = map (\<lambda>e. e\<lparr>e_signature := []\<rparr>) (events ms) \<or>
         (\<exists>a \<in> set (events ls). \<exists>b \<in> set (events ms).
            Unsigned a \<noteq> Unsigned b \<and> sha256 (Unsigned a) = sha256 (Unsigned b))"
  unfolding Let_def
  by (rule head_digest_binds_history [of "\<lambda>_. None" _ "\<lambda>_. None"])
    (simp_all add: WalkChain_valid example_v1_ok example_v1_wf)

text \<open>A walked v2 event has one of the five kinds, because its statement builds.\<close>

lemma statement_kind: "event_Statement e = Inr st \<Longrightarrow> e_kind e \<noteq> NoKind"
  by (auto simp: event_Statement_def Let_def Statement_Bytes_def split: if_splits sum.splits)

lemma chain_kind: "chain_ok x ls \<Longrightarrow> i < length ls \<Longrightarrow> IsV2 (events ls ! i) \<Longrightarrow> e_kind (events ls ! i) \<noteq> NoKind"
  using chain_okD(6) [of x ls "ls ! i"]
  by (auto simp: proven_def events_def Signed_def dest: statement_kind split: if_splits)

text \<open>
  C13. Pre-rotation: in a key-authorised chain every event is a signed v2 event whose
  signature the key it introduces verifies, and every key after the first was either committed
  to, as the hash of its digest, by the event before, or is the unchanged key of a sealed one.
\<close>

theorem key_authorised_pre_rotation:
  assumes "KeyAuthorised (WalkChain x ls)" and "i < length ls"
  shows "IsV2 (events ls ! i) \<and> KeyDigest (l_spki (ls ! i)) = e_newKey (events ls ! i) \<and>
     (\<exists>st. event_Statement (events ls ! i) = Inr st \<and>
        VerifySignature x (l_spki (ls ! i)) (Some st) (e_signature (events ls ! i)) = SigValid) \<and>
     (0 < i \<longrightarrow>
        e_next (events ls ! (i - 1)) = sha256Hex (bytes_of (e_newKey (events ls ! i))) \<or>
        e_next (events ls ! (i - 1)) = [] \<and> e_newKey (events ls ! i) = e_newKey (events ls ! (i - 1)))"
proof -
  have ok: "chain_ok x ls" and "w_breaks (WalkChain x ls) = []"
    using assms(1) by (simp_all add: KeyAuthorised_def WalkChain_valid)
  then have "break_of (events ls ! j) = []" if "j < length ls" for j
    using that by (simp add: WalkChain_breaks)
  then have v2: "IsV2 (events ls ! j)" "e_kind (events ls ! j) \<noteq> RCV" "e_kind (events ls ! j) \<noteq> REC"
    if "j < length ls" for j
    using that by (simp_all add: break_of_Nil)
  have pr: "proven x (events ls ! i) (l_spki (ls ! i))"
    using chain_okD(6) [OF ok, of "ls ! i"] assms(2) by (simp add: events_def)
  have "may_follow (events ls ! (i - 1)) (events ls ! i)" if "0 < i"
    using chain_ok_joined [OF ok, of "i - 1"] assms(2) that by (simp add: joined_def)
  then have "0 < i \<longrightarrow> e_next (events ls ! (i - 1)) = sha256Hex (bytes_of (e_newKey (events ls ! i))) \<or>
        e_next (events ls ! (i - 1)) = [] \<and> e_newKey (events ls ! i) = e_newKey (events ls ! (i - 1))"
    using v2 [OF assms(2)] chain_kind [OF ok assms(2)]
    by (cases "e_kind (events ls ! i)") (auto simp: may_follow_def Sealed_def)
  with pr v2 [OF assms(2)] show ?thesis by (auto simp: proven_def Signed_def)
qed

definition example_chain :: "link list" where
  "example_chain =
     (let sg = [0x30, 6, 2, 1, 1, 2, 1, 1];
          e0 = (example_event sg)\<lparr>e_next := sha256Hex (bytes_of (KeyDigest [4]))\<rparr>;
          e1 = e0\<lparr>e_sequence := 1, e_prior := Digest e0, e_newKey := KeyDigest [4], e_next := [],
                 e_kind := ROT, e_authority := ByKey, e_bindNonce := []\<rparr>
      in [\<lparr>l_event = Some e0, l_spki = [1, 2, 3]\<rparr>, \<lparr>l_event = Some e1, l_spki = [4]\<rparr>])"

definition any_key :: x509_p256 where
  "any_key = (\<lambda>_. Some (\<lambda>_ _ _. True))"

lemma example_chain_walks: "KeyAuthorised (WalkChain any_key example_chain)"
proof -
  have d: "parseDER [0x30, 6, 2, 1, 1, 2, 1, 1] = Some (1, 1)" by code_simp
  have "IsBirthNonce ''birth:5:00112233445566778899aabbccddeeff''" "IsIdentityRef ''ref1''" by code_simp+
  moreover have "i64 1 = 1" by (simp add: is_i64_def)
  ultimately show "KeyAuthorised (WalkChain any_key example_chain)"
    by (simp add: d any_key_def example_chain_def WalkChain_def walk_links.simps walk_link_def walk_join_def walk_own_def
        KeyAuthorised_def walk_init_def IsV2_def V2_def example_event_def signature_def Signed_def
        event_Statement_def Statement_Bytes_def VerifySignature_def ParseSPKI_def MaxSPKIDER_def
        halfN_def p256N_def step_def revealed_def Sealed_def KeyDigest_def isOptionalDigest_def Let_def Digest_def
        IsDigest_nonempty [OF IsDigest_sha256Hex])
qed

theorem key_authorised_pre_rotation_witness:
  "let x = any_key; ls = example_chain; i = 1
   in IsV2 (events ls ! i) \<and> KeyDigest (l_spki (ls ! i)) = e_newKey (events ls ! i) \<and>
     (\<exists>st. event_Statement (events ls ! i) = Inr st \<and>
        VerifySignature x (l_spki (ls ! i)) (Some st) (e_signature (events ls ! i)) = SigValid) \<and>
     (0 < i \<longrightarrow>
        e_next (events ls ! (i - 1)) = sha256Hex (bytes_of (e_newKey (events ls ! i))) \<or>
        e_next (events ls ! (i - 1)) = [] \<and> e_newKey (events ls ! i) = e_newKey (events ls ! (i - 1)))"
  unfolding Let_def
  by (rule key_authorised_pre_rotation [OF example_chain_walks]) (simp add: example_chain_def Let_def)

end
