(* ===== verification/KelHead.thy ===== *)
theory KelHead
  imports KelChain
begin

text \<open>
  \<open>internal/kel/head.go\<close>: the chain head record published in DNS, its parser, its
  rendering, and the comparison of a history with it. A \<open>[]byte\<close> that may be nil is an
  \<open>option\<close>; the text of an error's reason is not modelled. The lemmas characterise the
  parser by its rendering, and each accepted verdict by what the history then is.
\<close>

subsection \<open>Constants\<close>

definition HeadVersion :: string where "HeadVersion = ''v=wkel1''"
definition maxHeadStrings :: nat where "maxHeadStrings = 32"
definition maxHeadRDATA :: nat where "maxHeadRDATA = 1024"

definition headOrder :: "string list" where
  "headOrder = [''v'', ''i'', ''s'', ''k'', ''a'', ''c'', ''n'', ''e'', ''p'', ''x'']"

definition decimalRE :: "string \<Rightarrow> bool" where
  "decimalRE s \<longleftrightarrow> is_decimal s \<and> length s \<le> 19"

definition otherVersion :: "string \<Rightarrow> bool" where
  "otherVersion s \<longleftrightarrow> prefix ''v=wkel'' s \<and> drop 6 s \<noteq> [] \<and> list_all is_digit (drop 6 s)"

subsection \<open>The head\<close>

record head =
  h_identityRef :: string
  h_sequence :: int
  h_kind :: kind
  h_authority :: authority
  h_current :: string
  h_next :: string
  h_event :: string
  h_previous :: string
  h_recovery :: "int option"

definition head_Sealed :: "head \<Rightarrow> bool" where
  "head_Sealed h \<longleftrightarrow> h_next h = []"

datatype HeadProblem =
    HeadEmpty | HeadTooManyRecords | HeadOversized | HeadNotVersionFirst | HeadUnsupportedVersion
  | HeadMalformedField | HeadDuplicateField | HeadOutOfOrder | HeadMissingField | HeadBadValue

definition indexOfField :: "string \<Rightarrow> nat option" where
  "indexOfField key = find (\<lambda>i. headOrder ! i = key) [0..<length headOrder]"

text \<open>\<open>Head.invalid\<close>: \<open>True\<close> when the code returns a problem.\<close>

definition invalid :: "head \<Rightarrow> bool \<Rightarrow> bool" where
  "invalid h hasP =
     (if \<not> IsIdentityRef (h_identityRef h) then True
      else if h_sequence h < 0 then True
      else if h_kind h = NoKind \<or> \<not> Allows (h_kind h) (h_authority h) then True
      else if \<not> IsDigest (h_current h) \<or> \<not> IsDigest (h_event h) then True
      else if \<not> isOptionalDigest (h_next h) then True
      else if hasP \<and> (\<not> IsDigest (h_previous h) \<or> h_previous h = h_current h) then True
      else if hasP \<and> h_kind h \<noteq> ROT then True
      else if (case h_recovery h of None \<Rightarrow> False | Some x \<Rightarrow> x < 0 \<or> h_next h = []) then True
      else if ((h_kind h = ICP) \<noteq> (h_sequence h = 0)) \<and> h_kind h \<noteq> REC then True
      else if h_kind h = REC \<and> h_next h \<noteq> [] then True
      else h_kind h = RIC \<and> h_next h = [])"

subsection \<open>Parsing\<close>

text \<open>A string's field position and value: \<open>None\<close> for the code's \<open>pos < 0\<close>.\<close>

definition head_field :: "string \<Rightarrow> (nat \<times> string) option" where
  "head_field str =
     (case cut_at (CHR ''='') str of
        None \<Rightarrow> None
      | Some (key, v) \<Rightarrow> map_option (\<lambda>pos. (pos, v)) (indexOfField key))"

text \<open>The size checks over the strings, with the octets counted so far.\<close>

fun head_octets :: "bytes option list \<Rightarrow> nat \<Rightarrow> HeadProblem + nat" where
  "head_octets [] octets = Inr octets"
| "head_octets (None # strs) octets = Inl HeadMalformedField"
| "head_octets (Some s # strs) octets =
     (if length s > 255 then Inl HeadOversized else head_octets strs (octets + length s + 1))"

text \<open>One turn of the field loop: the values by position, and the last position filled.\<close>

definition head_string ::
  "nat \<Rightarrow> string \<Rightarrow> string option list \<Rightarrow> int \<Rightarrow> HeadProblem + string option list \<times> int" where
  "head_string idx str value prv =
     (let f = head_field str in
      if idx = 0 \<and> (case f of Some (0, _) \<Rightarrow> False | _ \<Rightarrow> True) then Inl HeadNotVersionFirst
      else if idx = 0 \<and> str \<noteq> HeadVersion then Inl HeadUnsupportedVersion
      else
        (case f of
           None \<Rightarrow> Inr (value, prv)
         | Some (pos, v) \<Rightarrow>
             if value ! pos \<noteq> None then Inl HeadDuplicateField
             else if int pos < prv then Inl HeadOutOfOrder
             else Inr (value[pos := Some v], int pos)))"

fun head_strings ::
  "nat \<Rightarrow> string list \<Rightarrow> string option list \<Rightarrow> int \<Rightarrow> HeadProblem + string option list" where
  "head_strings idx [] value prv = Inr value"
| "head_strings idx (str # strs) value prv =
     (case head_string idx str value prv of
        Inl p \<Rightarrow> Inl p
      | Inr (value', prv') \<Rightarrow> head_strings (Suc idx) strs value' prv')"

text \<open>The values, once every string is read.\<close>

definition head_values :: "string option list \<Rightarrow> HeadProblem + head" where
  "head_values value =
     (if \<exists>pos \<in> {1..7}. value ! pos = None then Inl HeadMissingField
      else if \<not> decimalRE (the (value ! 2)) \<or> (value ! 9 \<noteq> None \<and> \<not> decimalRE (the (value ! 9)))
        then Inl HeadBadValue
      else
        (case parse_int (the (value ! 2)) of
           None \<Rightarrow> Inl HeadBadValue
         | Some seq \<Rightarrow>
             if value ! 9 \<noteq> None \<and> parse_int (the (value ! 9)) = None then Inl HeadBadValue
             else
               (let x = (case value ! 9 of None \<Rightarrow> None | Some s \<Rightarrow> parse_int s);
                    n = the (value ! 6)
                in if n = [] then Inl HeadBadValue
                   else
                     (let h = \<lparr>h_identityRef = the (value ! 1), h_sequence = seq,
                          h_kind = kindOf (the (value ! 3)), h_authority = authorityOf (the (value ! 4)),
                          h_current = the (value ! 5), h_next = (if n = ''-'' then [] else n),
                          h_event = the (value ! 7),
                          h_previous = (case value ! 8 of None \<Rightarrow> [] | Some p \<Rightarrow> p), h_recovery = x\<rparr>
                      in if invalid h (value ! 8 \<noteq> None) then Inl HeadBadValue else Inr h))))"

definition ParseHead :: "bytes option list \<Rightarrow> HeadProblem + head" where
  "ParseHead strs =
     (if length strs = 0 then Inl HeadEmpty
      else if length strs > maxHeadStrings then Inl HeadOversized
      else
        (case head_octets strs 0 of
           Inl p \<Rightarrow> Inl p
         | Inr octets \<Rightarrow>
             if octets > maxHeadRDATA then Inl HeadOversized
             else
               (case head_strings 0 (map (string_of \<circ> the) strs) (replicate (length headOrder) None) (-1) of
                  Inl p \<Rightarrow> Inl p
                | Inr value \<Rightarrow> head_values value)))"

text \<open>\<open>string(b)\<close> of a slice that may be nil.\<close>

definition go_string :: "bytes option \<Rightarrow> string" where
  "go_string b = (case b of None \<Rightarrow> [] | Some s \<Rightarrow> string_of s)"

fun rrset_scan ::
  "bytes option list list \<Rightarrow> bytes option list option \<Rightarrow> bool \<Rightarrow> HeadProblem + bytes option list option \<times> bool" where
  "rrset_scan [] found other = Inr (found, other)"
| "rrset_scan (rr # rrs) found other =
     (if rr = [] then rrset_scan rrs found other
      else if go_string (hd rr) = HeadVersion then
        (if found \<noteq> None then Inl HeadTooManyRecords else rrset_scan rrs (Some rr) other)
      else if otherVersion (go_string (hd rr)) then rrset_scan rrs found True
      else rrset_scan rrs found other)"

definition ParseHeadRRset :: "bytes option list list \<Rightarrow> HeadProblem + head" where
  "ParseHeadRRset rrset =
     (case rrset_scan rrset None False of
        Inl p \<Rightarrow> Inl p
      | Inr (found, other) \<Rightarrow>
          (case found of
             Some rr \<Rightarrow> ParseHead rr
           | None \<Rightarrow> if other then Inl HeadUnsupportedVersion else Inl HeadEmpty))"

definition head_Strings :: "head \<Rightarrow> string list" where
  "head_Strings h =
     [HeadVersion, ''i='' @ h_identityRef h, ''s='' @ format_int (h_sequence h),
      ''k='' @ kind_str (h_kind h), ''a='' @ authority_str (h_authority h), ''c='' @ h_current h,
      ''n='' @ (if h_next h = [] then ''-'' else h_next h), ''e='' @ h_event h] @
     (if h_previous h \<noteq> [] then [''p='' @ h_previous h] else []) @
     (case h_recovery h of None \<Rightarrow> [] | Some x \<Rightarrow> [''x='' @ format_int x])"

subsection \<open>Verdicts\<close>

datatype Verdict =
    VerdictMatch | VerdictLagging | VerdictStale | VerdictBehind | VerdictAhead | VerdictFork
  | VerdictInvalidChain | VerdictFieldMismatch | VerdictIdentityMismatch

definition Accepted :: "Verdict \<Rightarrow> bool" where
  "Accepted v \<longleftrightarrow> v = VerdictMatch \<or> v = VerdictLagging"

definition lagged :: "int \<Rightarrow> int \<Rightarrow> int \<Rightarrow> Verdict" where
  "lagged now seen window =
     (if i64 (now - seen) \<le> window \<and> now \<ge> seen then VerdictLagging else VerdictStale)"

definition Describes :: "head \<Rightarrow> event \<Rightarrow> bool" where
  "Describes h e \<longleftrightarrow> IsV2 e \<and> h_identityRef h = e_identityRef e \<and> h_sequence h = e_sequence e \<and>
     h_kind h = e_kind e \<and> h_authority h = e_authority e \<and> h_current h = e_newKey e \<and>
     h_next h = e_next e \<and> h_event h = Digest e"

text \<open>
  \<open>Head.Check\<close>. \<open>None\<close> is the panic of an index outside the history, which a head from
  the parser never reaches (below). A walked link's event is not nil.
\<close>

definition link_at :: "link list \<Rightarrow> int \<Rightarrow> event option" where
  "link_at ls i = (if 0 \<le> i \<and> i < int (length ls) then l_event (ls ! nat i) else None)"

definition head_Check :: "x509_p256 \<Rightarrow> head \<Rightarrow> link list \<Rightarrow> int \<Rightarrow> int \<Rightarrow> int \<Rightarrow> Verdict option" where
  "head_Check x509 h history nowMillis headSeenMillis lagWindowMillis =
     (if history = [] then Some VerdictBehind
      else
        (let walked = WalkChain x509 history in
         if \<not> w_valid walked then Some VerdictInvalidChain
         else
           (case w_head walked of
              None \<Rightarrow> None
            | Some lst \<Rightarrow>
                if h_identityRef h \<noteq> e_identityRef lst then Some VerdictIdentityMismatch
                else if e_sequence lst < h_sequence h then Some VerdictBehind
                else if i64 (e_sequence lst - h_sequence h) > 1 then Some VerdictAhead
                else
                  (case link_at history (h_sequence h) of
                     None \<Rightarrow> None
                   | Some at \<Rightarrow>
                       if Digest at \<noteq> h_event h then Some VerdictFork
                       else if \<not> Describes h at then Some VerdictFieldMismatch
                       else if h_previous h \<noteq> [] \<and> h_sequence h = 0 then Some VerdictFieldMismatch
                       else if h_previous h \<noteq> [] \<and> link_at history (h_sequence h - 1) = None then None
                       else if h_previous h \<noteq> [] \<and>
                           e_newKey (the (link_at history (h_sequence h - 1))) \<noteq> h_previous h
                         then Some VerdictFieldMismatch
                       else if e_sequence lst = h_sequence h then Some VerdictMatch
                       else Some (lagged nowMillis headSeenMillis lagWindowMillis)))))"

definition CheckAbsent :: "x509_p256 \<Rightarrow> link list \<Rightarrow> int \<Rightarrow> int \<Rightarrow> int \<Rightarrow> Verdict" where
  "CheckAbsent x509 history nowMillis headSeenMillis lagWindowMillis =
     (if \<not> w_valid (WalkChain x509 history) then VerdictInvalidChain
      else
        (let v2 = length (filter (\<lambda>l. IsV2 (the (l_event l))) history) in
         if v2 = 0 then VerdictMatch
         else if v2 > 1 then VerdictAhead
         else lagged nowMillis headSeenMillis lagWindowMillis))"

subsection \<open>The field loop\<close>

text \<open>A known string is a field name, an equals sign and a value.\<close>

definition render :: "nat \<times> string \<Rightarrow> string" where
  "render f = headOrder ! fst f @ CHR ''='' # snd f"

definition fields :: "string list \<Rightarrow> (nat \<times> string) list" where
  "fields strs = List.map_filter head_field strs"

definition known :: "string list \<Rightarrow> string list" where
  "known strs = filter (\<lambda>s. head_field s \<noteq> None) strs"

lemma headOrder_facts: "length headOrder = 10" "distinct headOrder"
  "\<forall>k \<in> set headOrder. CHR ''='' \<notin> set k"
  by (simp_all add: headOrder_def)

lemma indexOfField_Some: "indexOfField k = Some p \<longleftrightarrow> p < 10 \<and> headOrder ! p = k"
proof -
  have d: "headOrder ! i = headOrder ! j \<longleftrightarrow> i = j" if "i < 10" "j < 10" for i j
    using nth_eq_iff_index_eq [OF headOrder_facts(2)] that headOrder_facts(1) by simp
  have "indexOfField k = Some p \<longleftrightarrow>
      p < 10 \<and> headOrder ! p = k \<and> (\<forall>j<p. headOrder ! j \<noteq> k)"
    by (auto simp: indexOfField_def find_Some_iff headOrder_facts(1))
  also have "\<dots> \<longleftrightarrow> p < 10 \<and> headOrder ! p = k" using d by fastforce
  finally show ?thesis .
qed

lemma head_field_Some: "head_field s = Some (p, v) \<longleftrightarrow> p < 10 \<and> s = render (p, v)"
proof -
  have "CHR ''='' \<notin> set (headOrder ! p)" if "p < 10"
    using headOrder_facts(3) that by (simp add: headOrder_facts(1))
  moreover have "head_field s = Some (p, v) \<longleftrightarrow>
      (\<exists>k. cut_at (CHR ''='') s = Some (k, v) \<and> indexOfField k = Some p)"
    by (auto simp: head_field_def split: option.splits)
  ultimately show ?thesis by (auto simp: render_def indexOfField_Some cut_at_Some)
qed

lemma head_field_render: "head_field s = Some f \<Longrightarrow> render f = s \<and> fst f < 10"
  by (cases f) (simp add: head_field_Some)

lemma known_fields: "known strs = map render (fields strs)"
proof (induction strs)
  case (Cons s strs)
  then show ?case
    by (cases "head_field s") (auto simp: known_def fields_def map_filter_simps dest: head_field_render)
qed (simp add: known_def fields_def map_filter_simps)

lemma fields_bound: "f \<in> set (fields strs) \<Longrightarrow> fst f < 10"
proof -
  assume "f \<in> set (fields strs)"
  then obtain s where "head_field s = Some f" by (auto simp: fields_def map_filter_def)
  then show ?thesis by (simp add: head_field_render)
qed

lemma render_inject: "p < 10 \<Longrightarrow> q < 10 \<Longrightarrow> render (p, v) = render (q, w) \<longleftrightarrow> p = q \<and> v = w"
  by (metis head_field_Some option.inject prod.inject)

lemma map_render_inject:
  assumes "\<forall>f \<in> set fs. fst f < 10" and "\<forall>f \<in> set gs. fst f < 10"
  shows "map render fs = map render gs \<longleftrightarrow> fs = gs"
proof (rule inj_on_map_eq_map)
  show "inj_on render (set fs \<union> set gs)"
  proof (rule inj_onI)
    fix f g assume "f \<in> set fs \<union> set gs" "g \<in> set fs \<union> set gs" "render f = render g"
    moreover have "fst f < 10" "fst g < 10" using assms calculation by blast+
    ultimately show "f = g" by (cases f; cases g) (simp add: render_inject)
  qed
qed

text \<open>The loop writes the fields one by one, and accepts strictly increasing positions.\<close>

definition write_fields :: "string option list \<Rightarrow> (nat \<times> string) list \<Rightarrow> string option list" where
  "write_fields value fs = foldl (\<lambda>val (p, v). val[p := Some v]) value fs"

definition filled_to :: "string option list \<Rightarrow> int \<Rightarrow> bool" where
  "filled_to value prv \<longleftrightarrow> length value = 10 \<and> (\<forall>p < 10. value ! p \<noteq> None \<longrightarrow> int p \<le> prv) \<and>
     0 \<le> prv \<and> prv < 10 \<and> value ! nat prv \<noteq> None"

lemma head_string_later:
  assumes "filled_to value prv"
  shows "head_string (Suc idx) str value prv = Inr (value', prv') \<longleftrightarrow>
     (case head_field str of
        None \<Rightarrow> value' = value \<and> prv' = prv
      | Some (p, v) \<Rightarrow> prv < int p \<and> value' = value[p := Some v] \<and> prv' = int p)"
proof (cases "head_field str")
  case None
  then show ?thesis by (auto simp: head_string_def)
next
  case (Some f)
  obtain p v where f: "f = (p, v)" by (cases f)
  have p: "p < 10" using Some f by (simp add: head_field_Some)
  have "value ! p = None \<and> \<not> int p < prv \<longleftrightarrow> prv < int p"
    using assms p by (cases "int p = prv") (auto simp: filled_to_def)
  then show ?thesis using Some f by (auto simp: head_string_def)
qed

lemma filled_to_write:
  "filled_to value prv \<Longrightarrow> p < 10 \<Longrightarrow> prv < int p \<Longrightarrow> filled_to (value[p := Some v]) (int p)"
  by (auto simp: filled_to_def nth_list_update)

lemma head_strings_later:
  assumes "filled_to value prv"
  shows "head_strings (Suc idx) strs value prv = Inr value' \<longleftrightarrow>
     sorted_wrt (<) (map fst (fields strs)) \<and> (\<forall>(p, v) \<in> set (fields strs). prv < int p) \<and>
     value' = write_fields value (fields strs)"
  using assms
proof (induction strs arbitrary: idx "value" prv)
  case Nil
  then show ?case by (auto simp: fields_def map_filter_simps write_fields_def)
next
  case (Cons str strs)
  show ?case
  proof (cases "head_field str")
    case None
    then have "fields (str # strs) = fields strs" by (simp add: fields_def map_filter_simps)
    moreover have "head_string (Suc idx) str value prv = Inr (value, prv)"
      using None by (simp add: head_string_def)
    ultimately show ?thesis using Cons.IH [OF Cons.prems] by simp
  next
    case (Some f)
    obtain p v where f: "f = (p, v)" by (cases f)
    have fs: "fields (str # strs) = (p, v) # fields strs"
      using Some f by (simp add: fields_def map_filter_simps)
    have p: "p < 10" using Some f by (simp add: head_field_Some)
    show ?thesis
    proof (cases "prv < int p")
      case True
      with Some f have "head_string (Suc idx) str value prv = Inr (value[p := Some v], int p)"
        by (simp add: head_string_later [OF Cons.prems])
      with Cons.IH [OF filled_to_write [OF Cons.prems p True]] True show ?thesis
        by (auto simp: fs write_fields_def)
    next
      case False
      have "\<exists>e. head_string (Suc idx) str value prv = Inl e"
      proof (cases "head_string (Suc idx) str value prv")
        case (Inr r)
        then show ?thesis
          using head_string_later [OF Cons.prems, of idx str "fst r" "snd r"] Some f False by simp
      qed simp
      with False show ?thesis by (auto simp: fs)
    qed
  qed
qed

text \<open>From the empty values: the first string is the version.\<close>

lemma head_field_version: "head_field HeadVersion = Some (0, ''wkel1'')"
  by (simp add: head_field_Some HeadVersion_def render_def headOrder_def)

lemma head_strings_all:
  "head_strings 0 strs (replicate 10 None) (-1) = Inr value \<longleftrightarrow>
     strs = [] \<and> value = replicate 10 None \<or>
     strs \<noteq> [] \<and> hd strs = HeadVersion \<and> sorted_wrt (<) (map fst (fields strs)) \<and>
     value = write_fields (replicate 10 None) (fields strs)"
proof (cases strs)
  case Nil
  then show ?thesis by auto
next
  case (Cons s rest)
  let ?v0 = "(replicate 10 None)[0 := Some ''wkel1'']"
  have f: "filled_to ?v0 0" by (auto simp: filled_to_def nth_list_update)
  have pat: "(case f of Some (0, _) \<Rightarrow> False | _ \<Rightarrow> True) \<longleftrightarrow> \<not> (\<exists>v. f = Some (0, v))" for f :: "(nat \<times> string) option"
    by (auto split: option.splits nat.splits)
  have one: "head_string 0 s (replicate 10 None) (-1) =
      (if s = HeadVersion then Inr (?v0, 0)
       else if \<exists>v. head_field s = Some (0, v) then Inl HeadUnsupportedVersion else Inl HeadNotVersionFirst)"
    unfolding head_string_def Let_def pat by (auto simp: head_field_version)
  show ?thesis
  proof (cases "s = HeadVersion")
    case True
    have fs: "fields (HeadVersion # rest) = (0, ''wkel1'') # fields rest"
      by (simp add: fields_def map_filter_simps head_field_version)
    show ?thesis
      using True Cons head_strings_later [OF f, of 0 rest "value"] one
      by (auto simp: fs write_fields_def)
  next
    case False
    then show ?thesis using Cons one by auto
  qed
qed

text \<open>What the values written are, and that the fields are read back off them.\<close>

definition field_list :: "string option list \<Rightarrow> (nat \<times> string) list" where
  "field_list value = List.map_filter (\<lambda>p. map_option (Pair p) (value ! p)) [0..<10]"

lemma length_write_fields [simp]: "length (write_fields value fs) = length value"
  by (induction fs arbitrary: "value") (auto simp: write_fields_def)

lemma nth_write_fields:
  "distinct (map fst fs) \<Longrightarrow> p < length value \<Longrightarrow>
   write_fields value fs ! p = (case map_of fs p of None \<Rightarrow> value ! p | Some v \<Rightarrow> Some v)"
proof (induction fs arbitrary: "value")
  case Nil
  then show ?case by (simp add: write_fields_def)
next
  case (Cons f fs)
  obtain q v where f: "f = (q, v)" by (cases f)
  have "write_fields value (f # fs) = write_fields (value[q := Some v]) fs"
    by (simp add: write_fields_def f)
  moreover have "map_of fs q = None" using Cons.prems(1) f by (simp add: map_of_eq_None_iff)
  ultimately show ?case
    using Cons f by (auto simp: nth_list_update split: option.splits)
qed

lemma map_filter_sorted:
  "sorted_wrt (<) xs \<Longrightarrow> (\<And>x f. g x = Some f \<Longrightarrow> fst f = x) \<Longrightarrow> sorted_wrt (<) (map fst (List.map_filter g xs))"
  by (induction xs) (auto simp: map_filter_simps map_filter_def split: option.splits)

lemma sorted_fields_unique:
  assumes "sorted_wrt (<) (map fst (fs :: (nat \<times> string) list))" and "sorted_wrt (<) (map fst gs)"
    and "set fs = set gs"
  shows "fs = gs"
proof -
  have "inj_on fst (set fs)"
    using assms(1) by (metis distinct_map strict_sorted_iff)
  then show ?thesis
    using assms by (intro map_sorted_distinct_set_unique [where f = fst]) (simp_all add: strict_sorted_iff distinct_map)
qed

lemma sorted_field_list: "sorted_wrt (<) (map fst (field_list value))"
  unfolding field_list_def by (rule map_filter_sorted) auto

lemma in_field_list: "(p, v) \<in> set (field_list value) \<longleftrightarrow> p < 10 \<and> value ! p = Some v"
  by (force simp: field_list_def map_filter_def)

lemma field_list_write:
  assumes "sorted_wrt (<) (map fst fs)" and "\<forall>f \<in> set fs. fst f < 10"
  shows "field_list (write_fields (replicate 10 None) fs) = fs"
proof (rule sorted_fields_unique [OF sorted_field_list assms(1)])
  have d: "distinct (map fst fs)" using assms(1) by (metis strict_sorted_iff)
  show "set (field_list (write_fields (replicate 10 None) fs)) = set fs"
    using assms(2) d by (auto simp: in_field_list nth_write_fields map_of_eq_Some_iff split: option.splits)
qed

lemma write_field_list:
  assumes "length value = 10"
  shows "write_fields (replicate 10 None) (field_list value) = value"
proof (rule nth_equalityI)
  fix p assume p: "p < length (write_fields (replicate 10 None) (field_list value))"
  have d: "distinct (map fst (field_list value))" by (metis sorted_field_list strict_sorted_iff)
  have "map_of (field_list value) p = value ! p"
  proof (cases "value ! p")
    case None
    then show ?thesis by (auto simp: map_of_eq_None_iff in_field_list)
  next
    case (Some v)
    with p have "(p, v) \<in> set (field_list value)" by (simp add: in_field_list)
    with d Some show ?thesis by (simp add: map_of_eq_Some_iff)
  qed
  then show "write_fields (replicate 10 None) (field_list value) ! p = value ! p"
    using d p by (simp add: nth_write_fields split: option.split)
qed (simp add: assms)

text \<open>The whole loop: it accepts the strings whose known ones are the field list of a value list.\<close>

lemma head_strings_iff:
  assumes "length value = 10"
  shows "strs \<noteq> [] \<and> head_strings 0 strs (replicate 10 None) (-1) = Inr value \<longleftrightarrow>
     strs \<noteq> [] \<and> hd strs = HeadVersion \<and> fields strs = field_list value"
  using assms field_list_write [of "fields strs"] write_field_list [OF assms] sorted_field_list [of "value"]
    fields_bound [of _ strs]
  by (auto simp: head_strings_all)

subsection \<open>The parser and the rendering\<close>

text \<open>
  The heads the service can publish: \<open>invalid\<close> finds nothing, and the two numbers are
  int64 values. The values their fields have in the record:
\<close>

definition head_wf :: "head \<Rightarrow> bool" where
  "head_wf h \<longleftrightarrow> \<not> invalid h (h_previous h \<noteq> []) \<and> h_sequence h < 2 ^ 63 \<and>
     (case h_recovery h of None \<Rightarrow> True | Some x \<Rightarrow> x < 2 ^ 63)"

definition values_of :: "head \<Rightarrow> string option list" where
  "values_of h =
     [Some ''wkel1'', Some (h_identityRef h), Some (format_int (h_sequence h)), Some (kind_str (h_kind h)),
      Some (authority_str (h_authority h)), Some (h_current h),
      Some (if h_next h = [] then ''-'' else h_next h), Some (h_event h),
      (if h_previous h = [] then None else Some (h_previous h)), map_option format_int (h_recovery h)]"

lemma render_values_of: "map render (field_list (values_of h)) = head_Strings h"
  by (simp add: field_list_def values_of_def head_Strings_def render_def headOrder_def HeadVersion_def
      upt_rec map_filter_simps split: option.split)

lemma decimalRE_parse:
  "decimalRE s \<and> parse_int s = Some n \<longleftrightarrow> 0 \<le> n \<and> n < 2 ^ 63 \<and> s = format_int n"
  using decimal_parse_int [of s n] length_format_int [of n] by (auto simp: decimalRE_def)

lemma invalid_facts:
  assumes "\<not> invalid h p"
  shows "0 \<le> h_sequence h" "isOptionalDigest (h_next h)" "IsDigest (h_current h)"
    "p \<longrightarrow> IsDigest (h_previous h)" "h_recovery h = Some x \<Longrightarrow> 0 \<le> x"
    "h_kind h \<noteq> NoKind" "Allows (h_kind h) (h_authority h)" "IsIdentityRef (h_identityRef h)"
  using assms by (auto simp: invalid_def split: if_splits)

lemma dash_not_digest: "\<not> IsDigest ''-''"
  by (simp add: IsDigest_def)

lemma kindOf_str: "kindOf s = k \<Longrightarrow> k \<noteq> NoKind \<Longrightarrow> s = kind_str k"
  by (auto simp: kindOf_def split: if_splits)

lemma authorityOf_str: "authorityOf s = a \<Longrightarrow> a \<noteq> NoAuthority \<Longrightarrow> s = authority_str a"
  by (auto simp: authorityOf_def split: if_splits)

lemma Allows_authority: "Allows k a \<Longrightarrow> a \<noteq> NoAuthority"
  by (cases k) auto

lemma head_values_values_of:
  assumes "head_wf h"
  shows "head_values (values_of h) = Inr h"
proof -
  have ni: "\<not> invalid h (h_previous h \<noteq> [])" and r: "h_sequence h < 2 ^ 63"
    using assms by (simp_all add: head_wf_def)
  note f = invalid_facts [OF ni]
  have s: "decimalRE (format_int (h_sequence h))" "parse_int (format_int (h_sequence h)) = Some (h_sequence h)"
    using decimalRE_parse [of "format_int (h_sequence h)" "h_sequence h"] f(1) r by blast+
  have x: "decimalRE (format_int y) \<and> parse_int (format_int y) = Some y" if "h_recovery h = Some y" for y
    using decimalRE_parse [of "format_int y" y] f(5) [OF that] assms that by (simp add: head_wf_def)
  have n: "h_next h \<noteq> ''-''" using f(2) dash_not_digest by (auto simp: isOptionalDigest_def)
  have m: "\<not> (\<exists>pos \<in> {1..7}. values_of h ! pos = None)"
  proof -
    have "{1..7} = {1, 2, 3, 4, 5, 6, 7 :: nat}" by auto
    then show ?thesis by (simp add: values_of_def)
  qed
  show ?thesis
    unfolding head_values_def if_not_P [OF m]
    using s x n ni
    by (cases h; cases "h_recovery h"; cases "h_next h = []"; cases "h_previous h = []")
      (simp_all add: values_of_def Let_def)
qed

lemma head_values_Inr:
  assumes l: "length value = 10" and v: "value ! 0 = Some ''wkel1''" and h: "head_values value = Inr h"
  shows "head_wf h \<and> value = values_of h"
proof -
  have "map (\<lambda>p. value ! p) [0..<10] = [value ! 0, value ! 1, value ! 2, value ! 3, value ! 4, value ! 5,
      value ! 6, value ! 7, value ! 8, value ! 9]" by (simp add: upt_rec eval_nat_numeral)
  then have len: "value = [value ! 0, value ! 1, value ! 2, value ! 3, value ! 4, value ! 5,
      value ! 6, value ! 7, value ! 8, value ! 9]" using l by (metis map_nth)
  have m: "\<forall>pos \<in> {1..7}. value ! pos \<noteq> None"
    using h by (auto simp: head_values_def split: if_splits)
  have "\<exists>s. value ! p = Some s" if "p \<in> {1, 2, 3, 4, 5, 6, 7}" for p
    using m that by auto
  then obtain ref sq k a c n e where vals: "value ! 1 = Some ref" "value ! 2 = Some sq" "value ! 3 = Some k"
    "value ! 4 = Some a" "value ! 5 = Some c" "value ! 6 = Some n" "value ! 7 = Some e" by (meson insertCI)
  let ?h = "\<lambda>seq x. \<lparr>h_identityRef = ref, h_sequence = seq, h_kind = kindOf k, h_authority = authorityOf a,
     h_current = c, h_next = (if n = ''-'' then [] else n), h_event = e,
     h_previous = (case value ! 8 of None \<Rightarrow> [] | Some p \<Rightarrow> p), h_recovery = x\<rparr>"
  from h m vals obtain seq where d: "decimalRE sq" "parse_int sq = Some seq"
      "value ! 9 \<noteq> None \<longrightarrow> decimalRE (the (value ! 9)) \<and> parse_int (the (value ! 9)) \<noteq> None"
    and n: "n \<noteq> []" and hh: "h = ?h seq (case value ! 9 of None \<Rightarrow> None | Some s \<Rightarrow> parse_int s)"
    and ni: "\<not> invalid h (value ! 8 \<noteq> None)"
    by (auto simp: head_values_def Let_def split: if_splits option.splits)
  have sq: "0 \<le> seq" "seq < 2 ^ 63" "sq = format_int seq"
    using decimalRE_parse [of sq seq] d by blast+
  have x: "value ! 9 = map_option format_int (h_recovery h) \<and> (case h_recovery h of None \<Rightarrow> True | Some x \<Rightarrow> x < 2 ^ 63)"
  proof (cases "value ! 9")
    case (Some s)
    then obtain y where "decimalRE s" "parse_int s = Some y" using d(3) by auto
    with Some show ?thesis using decimalRE_parse [of s y] by (simp add: hh)
  qed (simp add: hh)
  note f = invalid_facts [OF ni]
  have p: "value ! 8 = (if h_previous h = [] then None else Some (h_previous h))"
    using f(4) IsDigest_nonempty by (auto simp: hh split: option.splits)
  then have "(value ! 8 \<noteq> None) = (h_previous h \<noteq> [])" by simp
  then have "\<not> invalid h (h_previous h \<noteq> [])" using ni by simp
  moreover have "h_sequence h < 2 ^ 63" using sq(2) by (simp add: hh)
  ultimately have wf: "head_wf h" using x unfolding head_wf_def by blast
  have ka: "k = kind_str (h_kind h)" "a = authority_str (h_authority h)"
    using kindOf_str [of k "h_kind h"] authorityOf_str [of a "h_authority h"] f(6) Allows_authority [OF f(7)]
    by (simp_all add: hh)
  have "h_identityRef h = ref" "h_sequence h = seq" "h_current h = c" "h_event h = e"
      "(if h_next h = [] then ''-'' else h_next h) = n"
    using n by (simp_all add: hh)
  then have "values_of h = [value ! 0, value ! 1, value ! 2, value ! 3, value ! 4, value ! 5,
      value ! 6, value ! 7, value ! 8, value ! 9]"
    unfolding values_of_def v vals p x [THEN conjunct1] ka [symmetric] sq(3) by simp
  with len have "value = values_of h" by (rule trans [OF _ sym])
  with wf show ?thesis by blast
qed

text \<open>The strings a record may consist of.\<close>

definition head_sizes :: "bytes list \<Rightarrow> bool" where
  "head_sizes strs \<longleftrightarrow> length strs \<le> maxHeadStrings \<and> (\<forall>s \<in> set strs. length s \<le> 255) \<and>
     sum_list (map (\<lambda>s. length s + 1) strs) \<le> maxHeadRDATA"

lemma head_octets_Inr:
  "head_octets strs n = Inr m \<longleftrightarrow>
     (\<exists>ss. strs = map Some ss \<and> (\<forall>s \<in> set ss. length s \<le> 255) \<and> m = n + sum_list (map (\<lambda>s. length s + 1) ss))"
proof (induction strs arbitrary: n)
  case (Cons s strs)
  show ?case
  proof (cases s)
    case (Some b)
    show ?thesis
      unfolding Some head_octets.simps guard_Inr Cons.IH by (auto simp: Cons_eq_map_conv)
  qed auto
qed auto

lemma known_version: "strs \<noteq> [] \<Longrightarrow> hd strs = HeadVersion \<Longrightarrow> (0, ''wkel1'') \<in> set (fields strs)"
  by (cases strs) (auto simp: fields_def map_filter_simps head_field_version)

lemma head_values_of_strings:
  assumes "strs \<noteq> []"
  shows "(\<exists>value. head_strings 0 strs (replicate 10 None) (-1) = Inr value \<and> head_values value = Inr h) \<longleftrightarrow>
     hd strs = HeadVersion \<and> head_wf h \<and> known strs = head_Strings h"
proof
  assume "\<exists>value. head_strings 0 strs (replicate 10 None) (-1) = Inr value \<and> head_values value = Inr h"
  then obtain vs where vs: "head_strings 0 strs (replicate 10 None) (-1) = Inr vs" "head_values vs = Inr h"
    by blast
  then have l: "length vs = 10" using assms by (auto simp: head_strings_all)
  then have f: "hd strs = HeadVersion" "fields strs = field_list vs"
    using head_strings_iff [OF l, of strs] vs(1) assms by blast+
  then have "vs ! 0 = Some ''wkel1''" using known_version [OF assms] by (simp add: in_field_list)
  from head_values_Inr [OF l this vs(2)] f
  show "hd strs = HeadVersion \<and> head_wf h \<and> known strs = head_Strings h"
    by (simp add: known_fields render_values_of)
next
  assume a: "hd strs = HeadVersion \<and> head_wf h \<and> known strs = head_Strings h"
  then have "map render (fields strs) = map render (field_list (values_of h))"
    by (simp add: known_fields render_values_of)
  then have "fields strs = field_list (values_of h)"
    using fields_bound by (subst (asm) map_render_inject) (auto simp: in_field_list)
  moreover have "length (values_of h) = 10" by (simp add: values_of_def)
  ultimately show "\<exists>value. head_strings 0 strs (replicate 10 None) (-1) = Inr value \<and> head_values value = Inr h"
    using a assms head_strings_iff [of "values_of h" strs] head_values_values_of by blast
qed

lemma ParseHead_iff:
  "ParseHead strs = Inr h \<longleftrightarrow>
     (\<exists>ss. strs = map Some ss \<and> ss \<noteq> [] \<and> head_sizes ss \<and> string_of (hd ss) = HeadVersion \<and>
        head_wf h \<and> known (map string_of ss) = head_Strings h)"
proof -
  have "ParseHead strs = Inr h \<longleftrightarrow> strs \<noteq> [] \<and> length strs \<le> maxHeadStrings \<and>
      (\<exists>m. head_octets strs 0 = Inr m \<and> m \<le> maxHeadRDATA \<and>
        (\<exists>value. head_strings 0 (map (string_of \<circ> the) strs) (replicate 10 None) (-1) = Inr value \<and>
           head_values value = Inr h))"
    by (auto simp: ParseHead_def headOrder_facts not_le not_less split: sum.splits if_splits)
  also have "\<dots> \<longleftrightarrow> (\<exists>ss. strs = map Some ss \<and> ss \<noteq> [] \<and> head_sizes ss \<and>
        (\<exists>value. head_strings 0 (map string_of ss) (replicate 10 None) (-1) = Inr value \<and>
           head_values value = Inr h))"
    by (auto simp: head_octets_Inr head_sizes_def comp_def)
  also have "\<dots> \<longleftrightarrow> (\<exists>ss. strs = map Some ss \<and> ss \<noteq> [] \<and> head_sizes ss \<and> string_of (hd ss) = HeadVersion \<and>
        head_wf h \<and> known (map string_of ss) = head_Strings h)"
    by (intro ex_cong1 conj_cong refl) (simp add: head_values_of_strings hd_map)
  finally show ?thesis .
qed

text \<open>
  The head parser accepts exactly the records of at most 32 strings and 1024 octets that
  begin with the version and whose known strings, the unknown ones skipped, are the rendering of
  a valid head: no field can be missing, repeated, out of order or spelled differently.
\<close>

theorem ParseHead_Strings:
  "ParseHead strs = Inr h \<longleftrightarrow>
     (\<exists>ss. strs = map Some ss \<and> ss \<noteq> [] \<and> head_sizes ss \<and> string_of (hd ss) = HeadVersion \<and>
        head_wf h \<and> known (map string_of ss) = head_Strings h)"
  by (rule ParseHead_iff)

text \<open>Which record of the set is read.\<close>

definition head_records :: "bytes option list list \<Rightarrow> bytes option list list" where
  "head_records rrset = filter (\<lambda>rr. rr \<noteq> [] \<and> go_string (hd rr) = HeadVersion) rrset"

lemma rrset_scan_result:
  "rrset_scan rrs found other =
     (let n = (case found of None \<Rightarrow> [] | Some rr \<Rightarrow> [rr]) @ head_records rrs in
      if length n \<ge> 2 \<and> head_records rrs \<noteq> [] then Inl HeadTooManyRecords
      else Inr (if n = [] then None else Some (hd n),
                other \<or> (\<exists>rr \<in> set rrs. rr \<noteq> [] \<and> go_string (hd rr) \<noteq> HeadVersion \<and> otherVersion (go_string (hd rr)))))"
proof (induction rrs arbitrary: found other)
  case Nil
  then show ?case by (simp add: head_records_def split: option.split)
next
  case (Cons rr rrs)
  have h: "head_records (rr # rrs) = (if rr \<noteq> [] \<and> go_string (hd rr) = HeadVersion then [rr] else []) @ head_records rrs"
    by (simp add: head_records_def)
  show ?case
    by (cases found) (simp_all add: Cons.IH h Let_def)
qed

text \<open>
  Of a TXT record set the parser reads the one record that begins with this version: two
  such records are refused, other records are skipped, and a set whose only heads are of another
  version is refused as unsupported, not read as empty.
\<close>

theorem ParseHeadRRset_selects:
  "ParseHeadRRset rrset =
     (case head_records rrset of
        [rr] \<Rightarrow> ParseHead rr
      | [] \<Rightarrow> Inl (if \<exists>rr \<in> set rrset. rr \<noteq> [] \<and> otherVersion (go_string (hd rr)) then HeadUnsupportedVersion
                  else HeadEmpty)
      | _ \<Rightarrow> Inl HeadTooManyRecords)"
proof (cases "head_records rrset")
  case Nil
  then have "rr \<noteq> [] \<Longrightarrow> go_string (hd rr) \<noteq> HeadVersion" if "rr \<in> set rrset" for rr
    using that by (auto simp: head_records_def filter_empty_conv)
  then show ?thesis using Nil by (auto simp: ParseHeadRRset_def rrset_scan_result)
next
  case (Cons rr rrs)
  then show ?thesis by (cases rrs) (simp_all add: ParseHeadRRset_def rrset_scan_result Let_def)
qed

subsection \<open>What the verdicts mean\<close>

lemma link_at_walked:
  "chain_ok x ls \<Longrightarrow> 0 \<le> i \<Longrightarrow> i < int (length ls) \<Longrightarrow> link_at ls i = Some (events ls ! nat i)"
  using chain_okD(5) [of x ls "ls ! nat i"] by (auto simp: link_at_def events_def nat_less_iff)

text \<open>The sequence of the last event, and the difference the code takes, without wrap-around.\<close>

lemma last_sequence:
  "chain_ok x ls \<Longrightarrow> length ls \<le> 2 ^ 63 \<Longrightarrow> e_sequence (last (events ls)) = int (length ls) - 1"
  using chain_ok_sequence [of x ls "length ls - 1"] chain_okD(1) [of x ls]
  by (simp add: last_conv_nth of_nat_diff Suc_leI)

lemma ahead_one:
  assumes "0 \<le> s" and "s \<le> l" and "l < 2 ^ 63"
  shows "i64 (l - s) = l - s"
  using assms by (intro i64_id) (simp add: is_i64_def)

definition previous_ok :: "head \<Rightarrow> link list \<Rightarrow> bool" where
  "previous_ok h ls \<longleftrightarrow> h_previous h = [] \<or>
     0 < h_sequence h \<and> e_newKey (events ls ! nat (h_sequence h - 1)) = h_previous h"

lemma head_Check_walked:
  assumes ok: "chain_ok x ls" and len: "length ls \<le> 2 ^ 63" and s: "0 \<le> h_sequence h"
  shows "head_Check x h ls now seen window =
     Some (if h_identityRef h \<noteq> e_identityRef (last (events ls)) then VerdictIdentityMismatch
      else if int (length ls) \<le> h_sequence h then VerdictBehind
      else if int (length ls) > h_sequence h + 2 then VerdictAhead
      else
        (let at = events ls ! nat (h_sequence h) in
         if Digest at \<noteq> h_event h then VerdictFork
         else if \<not> Describes h at \<or> \<not> previous_ok h ls then VerdictFieldMismatch
         else if int (length ls) = h_sequence h + 1 then VerdictMatch
         else lagged now seen window))"
proof -
  have ne: "ls \<noteq> []" using chain_okD(1) [OF ok] .
  have l: "e_sequence (last (events ls)) = int (length ls) - 1" by (rule last_sequence [OF ok len])
  have diff: "i64 (int (length ls) - 1 - h_sequence h) = int (length ls) - 1 - h_sequence h"
    if "h_sequence h < int (length ls)"
    using that s len by (intro ahead_one) simp_all
  have at: "link_at ls (h_sequence h) = Some (events ls ! nat (h_sequence h))"
    if "h_sequence h < int (length ls)" using link_at_walked [OF ok s that] .
  have prev: "link_at ls (h_sequence h - 1) = Some (events ls ! nat (h_sequence h - 1))"
    if "h_sequence h < int (length ls)" "h_sequence h \<noteq> 0"
    using link_at_walked [OF ok, of "h_sequence h - 1"] that s by simp
  show ?thesis
  proof (cases "h_sequence h < int (length ls)")
    case True
    show ?thesis
      unfolding head_Check_def Let_def WalkChain_head [OF ok] option.case l diff [OF True] at [OF True]
      using True s ne prev [OF True]
      by (cases "h_sequence h = 0") (simp_all add: WalkChain_valid ok previous_ok_def)
  next
    case False
    then show ?thesis
      using ne by (simp add: head_Check_def WalkChain_valid ok WalkChain_head Let_def l)
  qed
qed

lemma Describes_identity: "Describes h e \<Longrightarrow> h_identityRef h = e_identityRef e"
  by (simp add: Describes_def)

lemma same_identity:
  "chain_ok x ls \<Longrightarrow> i < length ls \<Longrightarrow> e_identityRef (last (events ls)) = e_identityRef (events ls ! i)"
  using chain_ok_identity [of x ls i] chain_ok_identity [of x ls "length ls - 1"] chain_okD(1) [of x ls]
  by (simp add: last_conv_nth)

text \<open>When the named event is the history's, at the head's own position.\<close>

definition names_event :: "head \<Rightarrow> link list \<Rightarrow> bool" where
  "names_event h ls \<longleftrightarrow> h_sequence h < int (length ls) \<and> Describes h (events ls ! nat (h_sequence h)) \<and>
     previous_ok h ls"

lemma head_Check_accepts:
  assumes "length ls \<le> 2 ^ 63" and s: "0 \<le> h_sequence h"
  shows "head_Check x h ls now seen window = Some VerdictMatch \<longleftrightarrow>
       chain_ok x ls \<and> int (length ls) = h_sequence h + 1 \<and> names_event h ls"
    and "head_Check x h ls now seen window = Some VerdictLagging \<longleftrightarrow>
       chain_ok x ls \<and> int (length ls) = h_sequence h + 2 \<and> names_event h ls \<and>
       i64 (now - seen) \<le> window \<and> seen \<le> now"
proof -
  have id: "h_identityRef h = e_identityRef (last (events ls))"
    if "chain_ok x ls" "h_sequence h < int (length ls)" "Describes h (events ls ! nat (h_sequence h))"
    using same_identity [OF that(1), of "nat (h_sequence h)"] that(2) s Describes_identity [OF that(3)]
    by (simp add: nat_less_iff)
  have dig: "Describes h e \<Longrightarrow> Digest e = h_event h" for e by (simp add: Describes_def)
  have bad: "head_Check x h ls now seen window \<noteq> Some VerdictMatch \<and>
      head_Check x h ls now seen window \<noteq> Some VerdictLagging" if "\<not> chain_ok x ls"
    using that by (simp add: head_Check_def WalkChain_valid Let_def)
  show "head_Check x h ls now seen window = Some VerdictMatch \<longleftrightarrow>
       chain_ok x ls \<and> int (length ls) = h_sequence h + 1 \<and> names_event h ls"
  proof (cases "chain_ok x ls")
    case True
    show ?thesis
      using id [OF True] dig
      by (auto simp: True head_Check_walked [OF True assms] names_event_def lagged_def Let_def split: if_splits)
  qed (use bad in simp)
  show "head_Check x h ls now seen window = Some VerdictLagging \<longleftrightarrow>
       chain_ok x ls \<and> int (length ls) = h_sequence h + 2 \<and> names_event h ls \<and>
       i64 (now - seen) \<le> window \<and> seen \<le> now"
  proof (cases "chain_ok x ls")
    case True
    show ?thesis
      using id [OF True] dig
      by (auto simp: True head_Check_walked [OF True assms] names_event_def lagged_def Let_def split: if_splits)
  qed (use bad in simp)
qed

text \<open>
  C38. Comparing a history with a published head never reads outside the history. It matches
  exactly when the history walks, ends at the head's sequence, and its last event is the one the
  head describes (with the previous key it names); it lags exactly when the history is one event
  longer and the verifier saw the head within the window.
\<close>

theorem head_Check_verdicts:
  assumes "length ls \<le> 2 ^ 63" and "0 \<le> h_sequence h"
  shows "head_Check x h ls now seen window \<noteq> None \<and>
     (head_Check x h ls now seen window = Some VerdictMatch \<longleftrightarrow>
       chain_ok x ls \<and> int (length ls) = h_sequence h + 1 \<and> names_event h ls) \<and>
     (head_Check x h ls now seen window = Some VerdictLagging \<longleftrightarrow>
       chain_ok x ls \<and> int (length ls) = h_sequence h + 2 \<and> names_event h ls \<and>
       i64 (now - seen) \<le> window \<and> seen \<le> now)"
proof (intro conjI)
  show "head_Check x h ls now seen window \<noteq> None"
    using head_Check_walked [OF _ assms]
    by (cases "chain_ok x ls") (simp_all add: head_Check_def WalkChain_valid Let_def)
qed (rule head_Check_accepts [OF assms])+

definition example_head :: head where
  "example_head =
     (let e = last (events example_chain)
      in \<lparr>h_identityRef = e_identityRef e, h_sequence = 1, h_kind = e_kind e, h_authority = e_authority e,
          h_current = e_newKey e, h_next = e_next e, h_event = Digest e, h_previous = KeyDigest [1, 2, 3],
          h_recovery = None\<rparr>)"

lemma example_head_names: "chain_ok any_key example_chain \<and> length example_chain = 2 \<and>
  h_sequence example_head = 1 \<and> names_event example_head example_chain"
proof (intro conjI)
  show "chain_ok any_key example_chain"
    using example_chain_walks by (simp add: KeyAuthorised_def WalkChain_valid)
  show "names_event example_head example_chain"
    by (simp add: names_event_def previous_ok_def Describes_def example_head_def example_chain_def Let_def
        IsV2_def example_event_def)
qed (simp_all add: example_chain_def example_head_def Let_def)

lemma example_head_matches: "head_Check any_key example_head example_chain 5 2 10 = Some VerdictMatch"
  using head_Check_accepts(1) [of example_chain example_head any_key 5 2 10] example_head_names by simp

theorem head_Check_verdicts_witness:
  "head_Check any_key example_head example_chain 5 2 10 = Some VerdictMatch"
  using head_Check_verdicts [of example_chain example_head any_key 5 2 10] example_head_names by simp

text \<open>
  C34. One head, one history: two histories that both match the same published head agree on
  every event, signatures aside, unless two of their events are an explicit SHA-256 collision.
\<close>

theorem head_pins_history:
  assumes "head_Check x h ls now seen window = Some VerdictMatch"
    and "head_Check y h ms now' seen' window' = Some VerdictMatch"
    and "length ls \<le> 2 ^ 63" and "length ms \<le> 2 ^ 63" and "0 \<le> h_sequence h"
    and "\<forall>e \<in> set (events ls) \<union> set (events ms). event_wf e"
  shows "map (\<lambda>e. e\<lparr>e_signature := []\<rparr>) (events ls) = map (\<lambda>e. e\<lparr>e_signature := []\<rparr>) (events ms) \<or>
         (\<exists>a \<in> set (events ls). \<exists>b \<in> set (events ms).
            Unsigned a \<noteq> Unsigned b \<and> sha256 (Unsigned a) = sha256 (Unsigned b))"
proof -
  have last: "Digest (last (events ks)) = h_event h" "w_valid (WalkChain z ks)"
    if "head_Check z h ks n s w = Some VerdictMatch" "length ks \<le> 2 ^ 63" for z ks n s w
  proof -
    have k: "chain_ok z ks" "int (length ks) = h_sequence h + 1" "names_event h ks"
      using that head_Check_accepts(1) [OF that(2) assms(5)] by simp_all
    then have "nat (h_sequence h) = length ks - 1" by linarith
    then have "last (events ks) = events ks ! nat (h_sequence h)"
      using chain_okD(1) [OF k(1)] by (simp add: last_conv_nth)
    with k show "Digest (last (events ks)) = h_event h" "w_valid (WalkChain z ks)"
      by (simp_all add: names_event_def Describes_def WalkChain_valid)
  qed
  show ?thesis
    using last [OF assms(1,3)] last [OF assms(2,4)] assms(3,4,6)
    by (intro digest_binds_history [of x ls y ms]) simp_all
qed

lemma example_chain_wf: "\<forall>e \<in> set (events example_chain). event_wf e"
proof -
  have "IsBirthNonce ''birth:5:00112233445566778899aabbccddeeff''" "IsIdentityRef ''ref1''"
    "IsCanonicalSignature [0x30, 6, 2, 1, 1, 2, 1, 1]" by code_simp+
  then show ?thesis
    by (simp add: example_chain_def Let_def event_wf_def check_def checkV2_def example_event_def KeyDigest_def
        V1_def V2_def is_i64_def isOptionalDigest_def Digest_def IsDigest_nonempty [OF IsDigest_sha256Hex])
qed

theorem head_pins_history_witness:
  "map (\<lambda>e. e\<lparr>e_signature := []\<rparr>) (events example_chain) = map (\<lambda>e. e\<lparr>e_signature := []\<rparr>) (events example_chain) \<or>
         (\<exists>a \<in> set (events example_chain). \<exists>b \<in> set (events example_chain).
            Unsigned a \<noteq> Unsigned b \<and> sha256 (Unsigned a) = sha256 (Unsigned b))"
proof (rule head_pins_history)
  show "head_Check any_key example_head example_chain 5 2 10 = Some VerdictMatch"
    "head_Check any_key example_head example_chain 5 2 10 = Some VerdictMatch"
    by (rule example_head_matches)+
  show "\<forall>e \<in> set (events example_chain) \<union> set (events example_chain). event_wf e"
    using example_chain_wf by blast
qed (simp_all add: example_chain_def example_head_def Let_def)

text \<open>
  Against a proven absence of the head record a history matches exactly when it walks and
  has no v2 event, and lags exactly when it walks, its only v2 event is its last, and the absence
  was seen within the window: every other history is refused.
\<close>

theorem CheckAbsent_verdicts:
  "(CheckAbsent x ls now seen window = VerdictMatch \<longleftrightarrow>
      chain_ok x ls \<and> filter IsV2 (events ls) = []) \<and>
   (CheckAbsent x ls now seen window = VerdictLagging \<longleftrightarrow>
      chain_ok x ls \<and> filter IsV2 (events ls) = [last (events ls)] \<and> i64 (now - seen) \<le> window \<and> seen \<le> now)"
proof -
  have n: "length (filter (\<lambda>l. IsV2 (the (l_event l))) ls) = length (filter IsV2 (events ls))"
    by (simp add: events_def filter_map comp_def)
  have one: "length (filter IsV2 (events ls)) = 1 \<longleftrightarrow> filter IsV2 (events ls) = [last (events ls)]"
    if "chain_ok x ls"
  proof -
    have "events ls \<noteq> []" using chain_okD(1) [OF that] by simp
    then obtain es e where es: "events ls = es @ [e]" by (metis rev_exhaust)
    have "\<forall>a \<in> set es. IsV2 a \<longrightarrow> IsV2 e"
      using that unfolding chain_ok_def es by (auto simp: sorted_wrt_append)
    then have "filter IsV2 es = [] \<or> IsV2 e" by (auto simp: filter_empty_conv)
    then show ?thesis by (auto simp: es)
  qed
  show ?thesis
    using one by (auto simp: CheckAbsent_def Let_def n WalkChain_valid lagged_def not_less le_Suc_eq)
qed

end
