(* ===== verification/KelCheckpoint.thy ===== *)
theory KelCheckpoint
  imports KelEvent
begin

text \<open>
  \<open>internal/kel/checkpoint.go\<close>: transparency-log checkpoints (signed notes), and the
  inclusion check of an RFC 6962 audit path. Ed25519 verification and the X.509 parser are
  parameters. The lemmas relate the iterative index walk of \<open>VerifyInclusion\<close> to the
  recursive Merkle tree of the RFC.
\<close>

subsection \<open>Tree heads and log keys\<close>

definition sigPrefix :: string where
  "sigPrefix = [CHR 0xE2, CHR 0x80, CHR 0x94, CHR 0x20]"

definition newline :: char where "newline = CHR 0x0A"

record tree_head =
  th_origin :: string
  th_treeSize :: nat
  th_root :: bytes

record log_key =
  lk_name :: string
  lk_public :: bytes
  lk_keyID :: "32 word"

datatype checkpoint_error =
    BadKeyName | BadKeyLength | NotEd25519 | TooFewLines | SizeEmpty | SizeNotDigits
  | SizeLeadingZero | SizeTooLarge | BadRoot | NoOrigin | NoLogKey | NotSigned
  | SignatureMalformed | SignatureRefused | NoSignatureByKey

definition NewLogKey :: "string \<Rightarrow> bytes \<Rightarrow> checkpoint_error + log_key" where
  "NewLogKey name raw =
     (if name = [] \<or> CHR '' '' \<in> set name \<or> newline \<in> set name \<or> CHR ''+'' \<in> set name
        then Inl BadKeyName
      else if length raw \<noteq> 32 then Inl BadKeyLength
      else Inr \<lparr>lk_name = name, lk_public = raw,
             lk_keyID = be_val (take 4 (sha256 (bytes_of name @ [0x0A, 0x01] @ raw)))\<rparr>)"

text \<open>\<open>x509_ed25519\<close>: what the X.509 parser reads as an Ed25519 key.\<close>

definition LogKeyFromSPKI ::
  "(bytes \<Rightarrow> bytes option) \<Rightarrow> string \<Rightarrow> bytes \<Rightarrow> checkpoint_error + log_key" where
  "LogKeyFromSPKI x509_ed25519 name spki =
     (case x509_ed25519 spki of None \<Rightarrow> Inl NotEd25519 | Some ed \<Rightarrow> NewLogKey name ed)"

subsection \<open>The note's body\<close>

definition parseTreeSize :: "string \<Rightarrow> checkpoint_error + nat" where
  "parseTreeSize line =
     (if line = [] then Inl SizeEmpty
      else if \<not> list_all is_digit line then Inl SizeNotDigits
      else if length line > 1 \<and> hd line = CHR ''0'' then Inl SizeLeadingZero
      else (case parse_int line of None \<Rightarrow> Inl SizeTooLarge | Some v \<Rightarrow> Inr (nat v)))"

definition parseCheckpointBody :: "string \<Rightarrow> checkpoint_error + tree_head" where
  "parseCheckpointBody body =
     (let lines = split_on newline body in
      if length lines < 3 then Inl TooFewLines
      else
        (case parseTreeSize (lines ! 1) of
           Inl x \<Rightarrow> Inl x
         | Inr n \<Rightarrow>
             (case b64_decode (lines ! 2) of
                None \<Rightarrow> Inl BadRoot
              | Some root \<Rightarrow>
                  if b64_encode root \<noteq> lines ! 2 \<or> length root \<noteq> 32 then Inl BadRoot
                  else if lines ! 0 = [] then Inl NoOrigin
                  else Inr \<lparr>th_origin = lines ! 0, th_treeSize = n, th_root = root\<rparr>)))"

definition ParseCheckpointNote :: "string \<Rightarrow> checkpoint_error + tree_head" where
  "ParseCheckpointNote note =
     (let body = (case index_of ([newline, newline] @ sigPrefix) note of
                    None \<Rightarrow> note | Some sep \<Rightarrow> take (sep + 1) note)
      in parseCheckpointBody body)"

subsection \<open>The note's signatures\<close>

text \<open>
  A line under the key's name and id: \<open>None\<close> when the loop of the code skips it, else the
  base64 text and the bytes it decodes to.
\<close>

definition key_line :: "log_key \<Rightarrow> string \<Rightarrow> (string \<times> bytes) option" where
  "key_line key line =
     (if \<not> prefix sigPrefix line then None
      else
        (case cut_at (CHR '' '') (drop (length sigPrefix) line) of
           None \<Rightarrow> None
         | Some (name, rest) \<Rightarrow>
             if name \<noteq> lk_name key then None
             else
               (let b64 = trim_space rest in
                case b64_decode b64 of
                  None \<Rightarrow> None
                | Some blob \<Rightarrow>
                    if length blob < 4 then None
                    else if be_val (take 4 blob) \<noteq> lk_keyID key then None
                    else Some (b64, blob))))"

text \<open>\<open>ed25519\<close>: the library's verification of a message and a signature under a key.\<close>

type_synonym ed25519 = "bytes \<Rightarrow> bytes \<Rightarrow> bytes \<Rightarrow> bool"

fun verify_lines ::
  "ed25519 \<Rightarrow> log_key \<Rightarrow> string \<Rightarrow> string list \<Rightarrow> tree_head option \<Rightarrow> checkpoint_error + tree_head option" where
  "verify_lines ed25519 key body [] verified = Inr verified"
| "verify_lines ed25519 key body (line # lines) verified =
     (case key_line key line of
        None \<Rightarrow> verify_lines ed25519 key body lines verified
      | Some (b64, blob) \<Rightarrow>
          if b64_encode blob \<noteq> b64 \<or> length blob \<noteq> 4 + 64 then Inl SignatureMalformed
          else if \<not> ed25519 (lk_public key) (bytes_of body) (drop 4 blob) then Inl SignatureRefused
          else
            (case verified of
               Some cp \<Rightarrow> verify_lines ed25519 key body lines (Some cp)
             | None \<Rightarrow>
                 (case parseCheckpointBody body of
                    Inl x \<Rightarrow> Inl x
                  | Inr cp \<Rightarrow> verify_lines ed25519 key body lines (Some cp))))"

definition VerifyCheckpoint :: "ed25519 \<Rightarrow> string \<Rightarrow> log_key option \<Rightarrow> checkpoint_error + tree_head" where
  "VerifyCheckpoint ed25519 note key =
     (case key of
        None \<Rightarrow> Inl NoLogKey
      | Some k \<Rightarrow>
          (case index_of ([newline, newline] @ sigPrefix) note of
             None \<Rightarrow> Inl NotSigned
           | Some sep \<Rightarrow>
               (case verify_lines ed25519 k (take (sep + 1) note)
                       (split_on newline (drop (sep + 2) note)) None of
                  Inl x \<Rightarrow> Inl x
                | Inr None \<Rightarrow> Inl NoSignatureByKey
                | Inr (Some cp) \<Rightarrow> Inr cp)))"

subsection \<open>Inclusion\<close>

definition nodeHash :: "bytes \<Rightarrow> bytes \<Rightarrow> bytes" where
  "nodeHash left right = sha256 ([0x01] @ left @ right)"

definition LeafHash :: "bytes \<Rightarrow> bytes \<Rightarrow> bytes" where
  "LeafHash salt canonicalEvent = sha256 ([0x00] @ sha256 (salt @ canonicalEvent))"

datatype inclusion_error =
    NotHashes | IndexOutOfRange | SiblingNotHash | TooManySiblings | PathTooShort | NotTheRoot

text \<open>
  The inner loop \<open>for fn&1 == 0\<close>: it has no bound of its own, and \<open>None\<close> is that it
  does not return. The indices are \<open>uint64\<close> that are only halved, so they are naturals.
\<close>

partial_function (option) shift_out :: "nat \<Rightarrow> nat \<Rightarrow> (nat \<times> nat) option" where
  "shift_out fn sn = (if fn mod 2 = 0 then shift_out (fn div 2) (sn div 2) else Some (fn, sn))"

text \<open>The loop over the path; the result is what is left of \<open>sn\<close> and the hash reached.\<close>

fun fold_path :: "nat \<Rightarrow> nat \<Rightarrow> bytes \<Rightarrow> bytes list \<Rightarrow> (inclusion_error + nat \<times> bytes) option" where
  "fold_path fn sn r [] = Some (Inr (sn, r))"
| "fold_path fn sn r (sib # path) =
     (if length sib \<noteq> 32 then Some (Inl SiblingNotHash)
      else if sn = 0 then Some (Inl TooManySiblings)
      else if fn mod 2 = 1 \<or> fn = sn then
        (case shift_out fn sn of
           None \<Rightarrow> None
         | Some (fn', sn') \<Rightarrow> fold_path (fn' div 2) (sn' div 2) (nodeHash sib r) path)
      else fold_path (fn div 2) (sn div 2) (nodeHash r sib) path)"

text \<open>\<open>Some None\<close> is the nil error.\<close>

definition VerifyInclusion ::
  "bytes \<Rightarrow> nat \<Rightarrow> nat \<Rightarrow> bytes list \<Rightarrow> bytes \<Rightarrow> inclusion_error option option" where
  "VerifyInclusion leafHash index treeSize path root =
     (if length leafHash \<noteq> 32 \<or> length root \<noteq> 32 then Some (Some NotHashes)
      else if index \<ge> treeSize then Some (Some IndexOutOfRange)
      else
        (case fold_path index (treeSize - 1) leafHash path of
           None \<Rightarrow> None
         | Some (Inl x) \<Rightarrow> Some (Some x)
         | Some (Inr (sn, r)) \<Rightarrow>
             if sn \<noteq> 0 then Some (Some PathTooShort)
             else if r \<noteq> root then Some (Some NotTheRoot)
             else Some None))"

subsection \<open>What a note says\<close>

lemma parseTreeSize_Inr: "parseTreeSize line = Inr n \<longleftrightarrow> n < 2 ^ 63 \<and> line = dec_nat n"
proof
  assume p: "parseTreeSize line = Inr n"
  then obtain v where v: "parse_int line = Some v" "n = nat v"
    and d: "line \<noteq> []" "list_all is_digit line" "\<not> (length line > 1 \<and> hd line = CHR ''0'')"
    by (auto simp: parseTreeSize_def split: if_splits option.splits)
  then have "is_decimal line"
    by (cases line) (auto simp: is_decimal_def no_leading_zero_def)
  with v(1) have "0 \<le> v \<and> v < 2 ^ 63 \<and> line = format_int v" using decimal_parse_int by blast
  with v(2) show "n < 2 ^ 63 \<and> line = dec_nat n" by (simp add: format_int_def nat_less_iff)
next
  assume n: "n < 2 ^ 63 \<and> line = dec_nat n"
  then have "line = format_int (int n)" "int n < 2 ^ 63" by (simp_all add: format_int_def)
  then have "is_decimal line" "parse_int line = Some (int n)"
    using decimal_parse_int [of line "int n"] by simp_all
  then show "parseTreeSize line = Inr n"
    by (cases line) (auto simp: parseTreeSize_def is_decimal_def no_leading_zero_def)
qed

text \<open>The lines of a body that states a tree head.\<close>

definition states_head :: "string \<Rightarrow> tree_head \<Rightarrow> bool" where
  "states_head body cp \<longleftrightarrow>
     take 3 (split_on newline body) = [th_origin cp, dec_nat (th_treeSize cp), b64_encode (th_root cp)] \<and>
     th_origin cp \<noteq> [] \<and> th_treeSize cp < 2 ^ 63 \<and> length (th_root cp) = 32"

lemma take3: "take 3 ls = [a, b, c] \<longleftrightarrow> \<not> length ls < 3 \<and> ls ! 0 = a \<and> ls ! 1 = b \<and> ls ! 2 = c"
proof -
  have "ls = [] \<or> (\<exists>p. ls = [p]) \<or> (\<exists>p q. ls = [p, q]) \<or> (\<exists>p q r l. ls = p # q # r # l)"
    by (metis list.exhaust)
  then show ?thesis by auto
qed

lemma parseCheckpointBody_Inr: "parseCheckpointBody body = Inr cp \<longleftrightarrow> states_head body cp"
proof -
  let ?l = "split_on newline body"
  have "parseCheckpointBody body = Inr cp \<longleftrightarrow>
      \<not> length ?l < 3 \<and> (\<exists>n. parseTreeSize (?l ! 1) = Inr n \<and>
        (\<exists>r. b64_decode (?l ! 2) = Some r \<and> b64_encode r = ?l ! 2 \<and> length r = 32 \<and> ?l ! 0 \<noteq> [] \<and>
           cp = \<lparr>th_origin = ?l ! 0, th_treeSize = n, th_root = r\<rparr>))"
    by (auto simp: parseCheckpointBody_def Let_def guard_Inr split: sum.splits option.splits)
  also have "\<dots> \<longleftrightarrow> states_head body cp"
    unfolding states_head_def take3
    by (cases cp) (auto simp: parseTreeSize_Inr)
  finally show ?thesis .
qed

definition signature_ok :: "ed25519 \<Rightarrow> log_key \<Rightarrow> string \<Rightarrow> string \<times> bytes \<Rightarrow> bool" where
  "signature_ok ed25519 key body s \<longleftrightarrow>
     b64_encode (snd s) = fst s \<and> length (snd s) = 68 \<and>
     ed25519 (lk_public key) (bytes_of body) (drop 4 (snd s))"

lemma verify_lines_Inr:
  "verify_lines ed key body lines verified = Inr v \<longleftrightarrow>
     list_all (signature_ok ed key body) (List.map_filter (key_line key) lines) \<and>
     (if List.map_filter (key_line key) lines = [] \<or> verified \<noteq> None then v = verified
      else \<exists>cp. parseCheckpointBody body = Inr cp \<and> v = Some cp)"
proof (induction lines arbitrary: verified)
  case Nil
  then show ?case by (auto simp: map_filter_simps)
next
  case (Cons line lines)
  show ?case
  proof (cases "key_line key line")
    case None
    then show ?thesis by (simp add: map_filter_simps Cons.IH)
  next
    case (Some s)
    obtain b64 blob where s: "s = (b64, blob)" by (cases s)
    show ?thesis
      using Some s
      by (cases "parseCheckpointBody body"; cases verified)
        (auto simp: map_filter_simps Cons.IH signature_ok_def guard_Inr)
  qed
qed

lemma VerifyCheckpoint_Inr:
  "VerifyCheckpoint ed note (Some key) = Inr cp \<longleftrightarrow>
     (\<exists>sep. index_of ([newline, newline] @ sigPrefix) note = Some sep \<and>
       (let body = take (sep + 1) note;
            sigs = List.map_filter (key_line key) (split_on newline (drop (sep + 2) note))
        in sigs \<noteq> [] \<and> list_all (signature_ok ed key body) sigs \<and> states_head body cp))"
proof (cases "index_of ([newline, newline] @ sigPrefix) note")
  case None
  then show ?thesis by (simp add: VerifyCheckpoint_def)
next
  case (Some sep)
  let ?body = "take (sep + 1) note" and ?lines = "split_on newline (drop (sep + 2) note)"
  have "VerifyCheckpoint ed note (Some key) = Inr cp \<longleftrightarrow> verify_lines ed key ?body ?lines None = Inr (Some cp)"
    using Some by (auto simp: VerifyCheckpoint_def split: sum.splits option.splits)
  also have "\<dots> \<longleftrightarrow> List.map_filter (key_line key) ?lines \<noteq> [] \<and>
      list_all (signature_ok ed key ?body) (List.map_filter (key_line key) ?lines) \<and> states_head ?body cp"
    unfolding verify_lines_Inr by (auto simp: parseCheckpointBody_Inr)
  finally show ?thesis using Some by (simp add: Let_def)
qed

text \<open>
  A checkpoint is returned exactly when the note has a signature line under the key's name
  and id, every such line is canonical, 68 bytes and verifies over the body, and the body states
  the checkpoint in its first three lines, spelled the one accepted way: one bad line under the
  log's key condemns the note wherever it sits.
\<close>

theorem VerifyCheckpoint_decides:
  "VerifyCheckpoint ed note (Some key) = Inr cp \<longleftrightarrow>
     (\<exists>sep. index_of ([newline, newline] @ sigPrefix) note = Some sep \<and>
       (let body = take (sep + 1) note;
            sigs = List.map_filter (key_line key) (split_on newline (drop (sep + 2) note))
        in sigs \<noteq> [] \<and> list_all (signature_ok ed key body) sigs \<and> states_head body cp))"
  by (rule VerifyCheckpoint_Inr)

subsection \<open>The RFC 6962 tree\<close>

text \<open>
  The largest power of two below \<open>n\<close>, the tree hash of a list of leaf hashes and the audit
  path of the leaf at \<open>m\<close>, as RFC 6962 defines them.
\<close>

fun split_point :: "nat \<Rightarrow> nat" where
  "split_point n = (if n \<le> 2 then 1 else 2 * split_point ((n + 1) div 2))"

declare split_point.simps [simp del]

lemma split_point_bounds: "2 \<le> n \<Longrightarrow> \<exists>j. split_point n = 2 ^ j \<and> 2 ^ j < n \<and> n \<le> 2 * 2 ^ j"
proof (induction n rule: split_point.induct)
  case (1 n)
  show ?case
  proof (cases "n \<le> 2")
    case True
    with 1 show ?thesis by (intro exI [of _ 0]) (simp add: split_point.simps)
  next
    case False
    then have "2 \<le> (n + 1) div 2" by linarith
    then obtain j where j: "split_point ((n + 1) div 2) = 2 ^ j" "2 ^ j < (n + 1) div 2" "(n + 1) div 2 \<le> 2 * 2 ^ j"
      using "1.IH" [OF False] by blast
    have "split_point n = 2 * split_point ((n + 1) div 2)" using False by (subst split_point.simps) simp
    moreover have "2 * 2 ^ j < n" "n \<le> 2 * (2 * 2 ^ j)" using j(2,3) by linarith+
    ultimately show ?thesis using j(1) by (intro exI [of _ "Suc j"]) simp
  qed
qed

lemma split_point_less: "Suc 0 < n \<Longrightarrow> 0 < split_point n \<and> split_point n < n"
  using split_point_bounds [of n] by force

function mth :: "bytes list \<Rightarrow> bytes" where
  "mth hs =
     (if length hs \<le> 1 then hd hs
      else nodeHash (mth (take (split_point (length hs)) hs)) (mth (drop (split_point (length hs)) hs)))"
  by auto
termination
  by (relation "measure length") (auto simp: not_le dest: split_point_less)

declare mth.simps [simp del]

function audit_path :: "nat \<Rightarrow> bytes list \<Rightarrow> bytes list" where
  "audit_path m hs =
     (if length hs \<le> 1 then []
      else
        (let k = split_point (length hs) in
         if m < k then audit_path m (take k hs) @ [mth (drop k hs)]
         else audit_path (m - k) (drop k hs) @ [mth (take k hs)]))"
  by auto
termination
  by (relation "measure (length \<circ> snd)") (auto simp: not_le dest: split_point_less)

declare audit_path.simps [simp del]

text \<open>Every pair of nodes the tree hashes.\<close>

function node_pairs :: "bytes list \<Rightarrow> (bytes \<times> bytes) set" where
  "node_pairs hs =
     (if length hs \<le> 1 then {}
      else
        (let k = split_point (length hs) in
         insert (mth (take k hs), mth (drop k hs)) (node_pairs (take k hs) \<union> node_pairs (drop k hs))))"
  by auto
termination
  by (relation "measure length") (auto simp: not_le dest: split_point_less)

declare node_pairs.simps [simp del]

text \<open>
  The sides of the siblings from the leaf up, \<open>True\<close> for a sibling on the left: read off the
  tree, and read off the bits of the index.
\<close>

function tree_sides :: "nat \<Rightarrow> nat \<Rightarrow> bool list" where
  "tree_sides m n =
     (if n \<le> 1 then []
      else
        (let k = split_point n in
         if m < k then tree_sides m k @ [False] else tree_sides (m - k) (n - k) @ [True]))"
  by auto
termination
  by (relation "measure snd") (auto simp: not_le dest: split_point_less)

declare tree_sides.simps [simp del]

fun bit_sides :: "nat \<Rightarrow> nat \<Rightarrow> bool list" where
  "bit_sides fn sn =
     (if sn = 0 then []
      else if fn mod 2 = 1 then True # bit_sides (fn div 2) (sn div 2)
      else if fn = sn then bit_sides (fn div 2) (sn div 2)
      else False # bit_sides (fn div 2) (sn div 2))"

declare bit_sides.simps [simp del]

lemma bit_sides_0 [simp]: "bit_sides fn 0 = []"
  by (subst bit_sides.simps) simp

lemma bit_sides_top:
  "fn \<le> sn \<Longrightarrow> 2 ^ j \<le> sn \<Longrightarrow> sn < 2 * 2 ^ j \<Longrightarrow>
   bit_sides fn sn =
     (if fn < 2 ^ j then bit_sides fn (2 ^ j - 1) @ [False]
      else bit_sides (fn - 2 ^ j) (sn - 2 ^ j) @ [True])"
proof (induction j arbitrary: fn sn)
  case 0
  then have "sn = 1" "fn = 0 \<or> fn = 1" by auto
  then show ?case by (auto simp: bit_sides.simps)
next
  case (Suc j)
  let ?k = "2 ^ j :: nat"
  have sn: "sn \<noteq> 0" and half: "fn div 2 \<le> sn div 2" "?k \<le> sn div 2" "sn div 2 < 2 * ?k"
    using Suc.prems by (auto simp: div_le_mono)
  note IH = Suc.IH [OF half]
  show ?case
  proof (cases "fn < 2 * ?k")
    case True
    then have lt: "fn div 2 < ?k" by simp
    have "1 \<le> ?k" by simp
    then have "2 * ?k - 1 \<noteq> 0" by linarith
    then have ne: "fn \<noteq> sn" "2 * ?k - 1 \<noteq> 0" using True Suc.prems by auto
    have h: "(2 * ?k - Suc 0) div 2 = ?k - Suc 0" by simp
    have "fn mod 2 \<noteq> 1 \<Longrightarrow> 1 \<le> p \<Longrightarrow> fn \<noteq> 2 * p - 1" for p :: nat by presburger
    then have ne': "fn mod 2 \<noteq> 1 \<Longrightarrow> fn \<noteq> 2 * ?k - 1" using \<open>1 \<le> ?k\<close> by blast
    have "bit_sides fn sn = (fn mod 2 = 1) # bit_sides (fn div 2) (sn div 2)"
      using sn ne by (subst bit_sides.simps) auto
    moreover have "bit_sides fn (2 * ?k - 1) = (fn mod 2 = 1) # bit_sides (fn div 2) (?k - 1)"
      using ne ne' by (subst bit_sides.simps) (auto simp: h)
    ultimately show ?thesis using True IH lt by simp
  next
    case False
    then have ge: "\<not> fn div 2 < ?k" by simp
    have d: "(fn - 2 * ?k) div 2 = fn div 2 - ?k" "(sn - 2 * ?k) div 2 = sn div 2 - ?k"
      "(fn - 2 * ?k) mod 2 = fn mod 2" "fn - 2 * ?k = sn - 2 * ?k \<longleftrightarrow> fn = sn"
      using False Suc.prems by (auto, presburger+)
    show ?thesis
    proof (cases "sn = 2 * ?k")
      case True
      then have "fn = sn" "fn mod 2 = 0" using False Suc.prems(1) by auto
      then have "bit_sides fn sn = bit_sides (fn div 2) (sn div 2)"
        using sn by (subst bit_sides.simps) auto
      also have "\<dots> = [True]" using IH ge True by simp
      finally show ?thesis using False True by simp
    next
      case ne: False
      then have s: "sn - 2 * ?k \<noteq> 0" using Suc.prems by simp
      let ?X = "bit_sides (fn div 2) (sn div 2)" and ?Y = "bit_sides (fn div 2 - ?k) (sn div 2 - ?k)"
      have "bit_sides fn sn = (if fn mod 2 = 1 then True # ?X else if fn = sn then ?X else False # ?X)"
        using sn by (subst bit_sides.simps) simp
      moreover have "bit_sides (fn - 2 * ?k) (sn - 2 * ?k) =
          (if fn mod 2 = 1 then True # ?Y else if fn = sn then ?Y else False # ?Y)"
        using s by (subst bit_sides.simps) (simp only: d if_False)
      moreover have "?X = ?Y @ [True]" using IH ge by simp
      ultimately show ?thesis using False by (cases "fn = sn") auto
    qed
  qed
qed

lemma tree_sides_bits: "m < n \<Longrightarrow> tree_sides m n = bit_sides m (n - 1)"
proof (induction m n rule: tree_sides.induct)
  case (1 m n)
  show ?case
  proof (cases "n \<le> 1")
    case True
    with 1 show ?thesis by (simp add: tree_sides.simps)
  next
    case False
    let ?k = "split_point n"
    from False obtain j where j: "?k = 2 ^ j" "2 ^ j < n" "n \<le> 2 * 2 ^ j"
      using split_point_bounds [of n] by auto
    have b: "bit_sides m (n - 1) =
        (if m < ?k then bit_sides m (?k - 1) @ [False] else bit_sides (m - ?k) (n - 1 - ?k) @ [True])"
      unfolding j(1) by (rule bit_sides_top) (use 1 j in auto)
    show ?thesis
    proof (cases "m < ?k")
      case True
      show ?thesis
        using False b True 1(1) [OF False refl True True] by (subst tree_sides.simps) (simp add: Let_def)
    next
      case ge: False
      then have "m - ?k < n - ?k" using 1(3) by simp
      then show ?thesis
        using False b ge 1(2) [OF False refl ge] by (subst tree_sides.simps) (simp add: Let_def)
    qed
  qed
qed

subsection \<open>The walk of the code\<close>

text \<open>The hash reached from a leaf along siblings and their sides.\<close>

fun fold_sides :: "bool list \<Rightarrow> bytes list \<Rightarrow> bytes \<Rightarrow> bytes" where
  "fold_sides (d # ds) (s # ss) r = fold_sides ds ss (if d then nodeHash s r else nodeHash r s)"
| "fold_sides _ _ r = r"

text \<open>The inner loop ends on every positive index, at its odd part.\<close>

lemma shift_out_ends:
  "0 < fn \<Longrightarrow> fn \<le> sn \<Longrightarrow> \<exists>f s. shift_out fn sn = Some (f, s) \<and> f mod 2 = 1 \<and> f \<le> s \<and>
     (fn = sn \<longrightarrow> f = s \<and> bit_sides fn sn = bit_sides f s) \<and> (fn mod 2 = 1 \<longrightarrow> f = fn \<and> s = sn)"
proof (induction fn arbitrary: sn rule: less_induct)
  case (less fn)
  show ?case
  proof (cases "fn mod 2 = 0")
    case True
    then have h: "fn div 2 < fn" "0 < fn div 2" "fn div 2 \<le> sn div 2"
      using less.prems by (auto simp: div_le_mono)
    from less.IH [OF this] obtain f s where fs: "shift_out (fn div 2) (sn div 2) = Some (f, s)" "f mod 2 = 1"
      "f \<le> s" "fn div 2 = sn div 2 \<longrightarrow> f = s \<and> bit_sides (fn div 2) (sn div 2) = bit_sides f s" by blast
    have "shift_out fn sn = Some (f, s)" using True fs by (subst shift_out.simps) simp
    moreover have "bit_sides fn sn = bit_sides (fn div 2) (sn div 2)" if "fn = sn"
      using True that less.prems by (subst bit_sides.simps) simp
    ultimately show ?thesis using True fs by auto
  next
    case False
    then have "fn mod 2 = 1" by presburger
    then show ?thesis using less.prems by (subst shift_out.simps) auto
  qed
qed

lemma fold_path_sides:
  assumes "fn \<le> sn"
  shows "\<exists>res. fold_path fn sn r path = Some res \<and>
     (\<forall>r'. res = Inr (0, r') \<longleftrightarrow> length path = length (bit_sides fn sn) \<and>
        (\<forall>s \<in> set path. length s = 32) \<and> r' = fold_sides (bit_sides fn sn) path r)"
  using assms
proof (induction path arbitrary: fn sn r)
  case Nil
  have "bit_sides f s = [] \<longleftrightarrow> s = 0" if "f \<le> s" for f s
    using that
  proof (induction f s rule: bit_sides.induct)
    case (1 f s)
    have "s div 2 = 0 \<Longrightarrow> s \<noteq> 0 \<Longrightarrow> f = s \<Longrightarrow> f mod 2 = 1" by presburger
    with 1 show ?case by (subst bit_sides.simps) (auto simp: div_le_mono)
  qed
  with Nil show ?case by auto
next
  case (Cons sib path)
  show ?case
  proof (cases "length sib \<noteq> 32 \<or> sn = 0")
    case True
    then show ?thesis by auto
  next
    case False
    show ?thesis
    proof (cases "fn mod 2 = 1 \<or> fn = sn")
      case True
      then have "0 < fn" using False by (cases "fn = 0") auto
      from shift_out_ends [OF this Cons.prems] obtain f s where fs: "shift_out fn sn = Some (f, s)"
        "f mod 2 = 1" "f \<le> s" "fn = sn \<longrightarrow> f = s \<and> bit_sides fn sn = bit_sides f s"
        "fn mod 2 = 1 \<longrightarrow> f = fn \<and> s = sn" by blast
      have "s \<noteq> 0" using fs(2,3) by (cases "s = 0") auto
      then have "bit_sides f s = True # bit_sides (f div 2) (s div 2)"
        using fs(2) by (subst bit_sides.simps) simp
      then have b: "bit_sides fn sn = True # bit_sides (f div 2) (s div 2)"
        using True fs(4,5) by auto
      have "f div 2 \<le> s div 2" using fs(3) by (rule div_le_mono)
      from Cons.IH [OF this, of "nodeHash sib r"] False True fs(1) b show ?thesis by auto
    next
      case no: False
      then have "fn mod 2 \<noteq> 1" "fn \<noteq> sn" by auto
      then have b: "bit_sides fn sn = False # bit_sides (fn div 2) (sn div 2)"
        using False by (subst bit_sides.simps) simp
      have "fn div 2 \<le> sn div 2" using Cons.prems by (rule div_le_mono)
      from Cons.IH [OF this, of "nodeHash r sib"] False no b show ?thesis by auto
    qed
  qed
qed

lemma VerifyInclusion_iff:
  "(\<exists>res. VerifyInclusion leaf m n path root = Some res) \<and>
   (VerifyInclusion leaf m n path root = Some None \<longleftrightarrow>
      length leaf = 32 \<and> length root = 32 \<and> m < n \<and> length path = length (tree_sides m n) \<and>
      (\<forall>s \<in> set path. length s = 32) \<and> fold_sides (tree_sides m n) path leaf = root)"
proof (cases "length leaf = 32 \<and> length root = 32 \<and> m < n")
  case True
  then have "m \<le> n - 1" by auto
  from fold_path_sides [OF this, of leaf path] obtain res where
    res: "fold_path m (n - 1) leaf path = Some res"
      "\<And>r'. res = Inr (0, r') \<longleftrightarrow> length path = length (bit_sides m (n - 1)) \<and>
        (\<forall>s \<in> set path. length s = 32) \<and> r' = fold_sides (bit_sides m (n - 1)) path leaf" by blast
  have t: "tree_sides m n = bit_sides m (n - 1)" using True by (simp add: tree_sides_bits)
  show ?thesis
  proof (cases res)
    case (Inl e)
    with True res(1) res(2) [of "fold_sides (bit_sides m (n - 1)) path leaf"] t show ?thesis
      by (auto simp: VerifyInclusion_def)
  next
    case (Inr p)
    obtain sn r where p: "p = (sn, r)" by (cases p)
    with Inr True res(1) res(2) [of r] res(2) [of "fold_sides (bit_sides m (n - 1)) path leaf"] t show ?thesis
      by (auto simp: VerifyInclusion_def)
  qed
next
  case False
  then show ?thesis by (auto simp: VerifyInclusion_def)
qed

subsection \<open>Completeness and soundness\<close>

lemma length_nodeHash [simp]: "length (nodeHash l r) = 32"
  by (simp add: nodeHash_def)

text \<open>Leaf hashes of a tree: non-empty and 32 bytes each.\<close>

definition leaf_hashes :: "bytes list \<Rightarrow> bool" where
  "leaf_hashes hs \<longleftrightarrow> hs \<noteq> [] \<and> (\<forall>h \<in> set hs. length h = 32)"

lemma leaf_hashes_parts:
  assumes "leaf_hashes hs" and "\<not> length hs \<le> 1"
  shows "leaf_hashes (take (split_point (length hs)) hs)" "leaf_hashes (drop (split_point (length hs)) hs)"
  using assms split_point_less [of "length hs"]
  by (auto simp: leaf_hashes_def dest: in_set_takeD in_set_dropD)

lemma length_mth: "leaf_hashes hs \<Longrightarrow> length (mth hs) = 32"
  by (subst mth.simps) (auto simp: leaf_hashes_def)

lemma fold_sides_snoc:
  "length ds = length ss \<Longrightarrow>
   fold_sides (ds @ [d]) (ss @ [s]) r =
     (if d then nodeHash s (fold_sides ds ss r) else nodeHash (fold_sides ds ss r) s)"
  by (induction ds ss arbitrary: r rule: list_induct2) auto

lemma mth_node:
  "\<not> length hs \<le> 1 \<Longrightarrow>
   mth hs = nodeHash (mth (take (split_point (length hs)) hs)) (mth (drop (split_point (length hs)) hs))"
  by (subst mth.simps) simp

text \<open>The audit path of the tree has the tree's shape and folds to its hash.\<close>

lemma audit_path_folds:
  "leaf_hashes hs \<Longrightarrow> m < length hs \<Longrightarrow>
   length (audit_path m hs) = length (tree_sides m (length hs)) \<and>
   (\<forall>s \<in> set (audit_path m hs). length s = 32) \<and>
   fold_sides (tree_sides m (length hs)) (audit_path m hs) (hs ! m) = mth hs"
proof (induction m hs rule: audit_path.induct)
  case (1 m hs)
  show ?case
  proof (cases "length hs \<le> 1")
    case True
    with 1 have "length hs = 1" "m = 0" "hs \<noteq> []" by auto
    then show ?thesis by (simp add: audit_path.simps tree_sides.simps mth.simps hd_conv_nth)
  next
    case False
    let ?k = "split_point (length hs)"
    note parts = leaf_hashes_parts [OF 1(3) False]
    have k: "0 < ?k" "?k < length hs" using False split_point_less [of "length hs"] by auto
    then have lt: "length (take ?k hs) = ?k" by simp
    show ?thesis
    proof (cases "m < ?k")
      case True
      note IH = 1(1) [OF False refl True parts(1)]
      have p: "audit_path m hs = audit_path m (take ?k hs) @ [mth (drop ?k hs)]"
        "tree_sides m (length hs) = tree_sides m ?k @ [False]"
        using False True by (subst audit_path.simps tree_sides.simps, simp add: Let_def)+
      show ?thesis
        using IH True k length_mth [OF parts(2)]
        by (simp add: p lt fold_sides_snoc mth_node [OF False])
    next
      case ge: False
      note IH = 1(2) [OF False refl ge parts(2)]
      have p: "audit_path m hs = audit_path (m - ?k) (drop ?k hs) @ [mth (take ?k hs)]"
        "tree_sides m (length hs) = tree_sides (m - ?k) (length hs - ?k) @ [True]"
        using False ge by (subst audit_path.simps tree_sides.simps, simp add: Let_def)+
      have "m - ?k < length (drop ?k hs)" using 1(4) ge by simp
      then show ?thesis
        using IH ge k length_mth [OF parts(1)]
        by (simp add: p fold_sides_snoc mth_node [OF False])
    qed
  qed
qed

text \<open>The pairs a verification hashes.\<close>

fun fold_pairs :: "bool list \<Rightarrow> bytes list \<Rightarrow> bytes \<Rightarrow> (bytes \<times> bytes) set" where
  "fold_pairs (d # ds) (s # ss) r =
     (let p = (if d then (s, r) else (r, s)) in insert p (fold_pairs ds ss (nodeHash (fst p) (snd p))))"
| "fold_pairs _ _ r = {}"

lemma fold_pairs_snoc:
  "length ds = length ss \<Longrightarrow>
   fold_pairs (ds @ [d]) (ss @ [s]) r =
     insert (if d then (s, fold_sides ds ss r) else (fold_sides ds ss r, s)) (fold_pairs ds ss r)"
  by (induction ds ss arbitrary: r rule: list_induct2) (auto simp: Let_def)

definition node_collision :: "(bytes \<times> bytes) set \<Rightarrow> (bytes \<times> bytes) set \<Rightarrow> bool" where
  "node_collision P Q \<longleftrightarrow>
     (\<exists>p \<in> P. \<exists>q \<in> Q. p \<noteq> q \<and> nodeHash (fst p) (snd p) = nodeHash (fst q) (snd q))"

lemma fold_sides_sound:
  "m < length hs \<Longrightarrow> length path = length (tree_sides m (length hs)) \<Longrightarrow>
   fold_sides (tree_sides m (length hs)) path leaf = mth hs \<Longrightarrow>
   leaf = hs ! m \<or> node_collision (fold_pairs (tree_sides m (length hs)) path leaf) (node_pairs hs)"
proof (induction m hs arbitrary: path rule: audit_path.induct)
  case (1 m hs)
  show ?case
  proof (cases "length hs \<le> 1")
    case True
    with 1(3) have "length hs = 1" "m = 0" "hs \<noteq> []" by auto
    with 1(5) show ?thesis by (simp add: tree_sides.simps mth.simps hd_conv_nth)
  next
    case False
    let ?k = "split_point (length hs)"
    let ?L = "take ?k hs" and ?R = "drop ?k hs"
    have k: "0 < ?k" "?k < length hs" using False split_point_less [of "length hs"] by auto
    have np: "node_pairs hs = insert (mth ?L, mth ?R) (node_pairs ?L \<union> node_pairs ?R)"
      using False by (subst node_pairs.simps) (simp add: Let_def)
    have mono: "node_collision A B \<Longrightarrow> A \<subseteq> A' \<Longrightarrow> B \<subseteq> B' \<Longrightarrow> node_collision A' B'" for A B A' B'
      unfolding node_collision_def by blast
    show ?thesis
    proof (cases "m < ?k")
      case True
      have d: "tree_sides m (length hs) = tree_sides m ?k @ [False]"
        using False True by (subst tree_sides.simps) (simp add: Let_def)
      then obtain ss s where path: "path = ss @ [s]" "length ss = length (tree_sides m ?k)"
        using 1(4) by (cases path rule: rev_cases) auto
      let ?f = "fold_sides (tree_sides m ?k) ss leaf"
      have eq: "nodeHash ?f s = nodeHash (mth ?L) (mth ?R)"
        using 1(5) by (simp add: d path fold_sides_snoc mth_node [OF False])
      have fp: "fold_pairs (tree_sides m (length hs)) path leaf = insert (?f, s) (fold_pairs (tree_sides m ?k) ss leaf)"
        by (simp add: d path fold_pairs_snoc)
      show ?thesis
      proof (cases "(?f, s) = (mth ?L, mth ?R)")
        case same: True
        with 1(1) [OF False refl True, of ss] True k path(2)
        have "leaf = ?L ! m \<or> node_collision (fold_pairs (tree_sides m ?k) ss leaf) (node_pairs ?L)" by simp
        with True show ?thesis using mono fp np by (metis Un_upper1 nth_take subset_insertI2 subset_insertI)
      next
        case False
        with eq show ?thesis unfolding fp np node_collision_def by (metis fst_conv insertI1 snd_conv)
      qed
    next
      case ge: False
      have d: "tree_sides m (length hs) = tree_sides (m - ?k) (length hs - ?k) @ [True]"
        using False ge by (subst tree_sides.simps) (simp add: Let_def)
      then obtain ss s where path: "path = ss @ [s]" "length ss = length (tree_sides (m - ?k) (length hs - ?k))"
        using 1(4) by (cases path rule: rev_cases) auto
      let ?f = "fold_sides (tree_sides (m - ?k) (length hs - ?k)) ss leaf"
      have eq: "nodeHash s ?f = nodeHash (mth ?L) (mth ?R)"
        using 1(5) by (simp add: d path fold_sides_snoc mth_node [OF False])
      have fp: "fold_pairs (tree_sides m (length hs)) path leaf =
          insert (s, ?f) (fold_pairs (tree_sides (m - ?k) (length hs - ?k)) ss leaf)"
        by (simp add: d path fold_pairs_snoc)
      show ?thesis
      proof (cases "(s, ?f) = (mth ?L, mth ?R)")
        case same: True
        have "m - ?k < length ?R" "?R ! (m - ?k) = hs ! m" using 1(3) ge k by simp_all
        with 1(2) [OF False refl ge, of ss] same path(2)
        have "leaf = hs ! m \<or>
            node_collision (fold_pairs (tree_sides (m - ?k) (length hs - ?k)) ss leaf) (node_pairs ?R)" by simp
        then show ?thesis using mono fp np by (metis Un_upper2 subset_insertI2 subset_insertI)
      next
        case False
        with eq show ?thesis unfolding fp np node_collision_def by (metis fst_conv insertI1 snd_conv)
      qed
    qed
  qed
qed

text \<open>
  C33. The inclusion check always returns, and it accepts exactly the paths of the shape of the
  RFC 6962 tree: a 32-byte leaf and root, an index inside the tree, one 32-byte sibling per level
  above that leaf, and hashes that fold, each sibling on its side, to the root.
\<close>

theorem VerifyInclusion_decides:
  "(\<exists>res. VerifyInclusion leaf m n path root = Some res) \<and>
   (VerifyInclusion leaf m n path root = Some None \<longleftrightarrow>
      length leaf = 32 \<and> length root = 32 \<and> m < n \<and> length path = length (tree_sides m n) \<and>
      list_all (\<lambda>s. length s = 32) path \<and> fold_sides (tree_sides m n) path leaf = root)"
  using VerifyInclusion_iff [of leaf m n path root] by (simp add: list_all_iff)

text \<open>
  Completeness: for every tree of leaf hashes, the audit path of each leaf is accepted under
  the tree's root hash.
\<close>

theorem VerifyInclusion_complete:
  assumes "leaf_hashes hs" and "m < length hs"
  shows "VerifyInclusion (hs ! m) m (length hs) (audit_path m hs) (mth hs) = Some None"
proof -
  have "length (hs ! m) = 32" using assms by (simp add: leaf_hashes_def)
  with assms audit_path_folds [OF assms] length_mth [OF assms(1)] show ?thesis
    by (simp add: VerifyInclusion_iff)
qed

definition example_leaves :: "bytes list" where
  "example_leaves = map (\<lambda>n. LeafHash [n] [n, n]) [1, 2, 3, 4, 5]"

theorem VerifyInclusion_complete_witness:
  "VerifyInclusion (example_leaves ! 3) 3 (length example_leaves) (audit_path 3 example_leaves)
     (mth example_leaves) = Some None"
  by (rule VerifyInclusion_complete) (simp_all add: leaf_hashes_def example_leaves_def LeafHash_def)

lemma inclusion_sound:
  assumes "VerifyInclusion leaf m (length hs) path (mth hs) = Some None"
  shows "leaf = hs ! m \<or> node_collision (fold_pairs (tree_sides m (length hs)) path leaf) (node_pairs hs)"
  using VerifyInclusion_iff [of leaf m "length hs" path "mth hs"] assms
  by (intro fold_sides_sound) auto

text \<open>
  C15. Soundness: whatever is accepted at an index of a tree under the tree's root hash is the
  leaf hash of the tree at that index, unless the check and the tree hash two explicit different
  pairs of nodes to the same value.
\<close>

theorem VerifyInclusion_sound:
  assumes "VerifyInclusion leaf m (length hs) path (mth hs) = Some None"
  shows "leaf = hs ! m \<or> node_collision (fold_pairs (tree_sides m (length hs)) path leaf) (node_pairs hs)"
  using assms by (rule inclusion_sound)

theorem VerifyInclusion_sound_witness:
  "example_leaves ! 2 = example_leaves ! 2 \<or>
   node_collision (fold_pairs (tree_sides 2 (length example_leaves)) (audit_path 2 example_leaves) (example_leaves ! 2))
     (node_pairs example_leaves)"
proof (rule VerifyInclusion_sound)
  have "leaf_hashes example_leaves" "2 < length example_leaves"
    by (simp_all add: leaf_hashes_def example_leaves_def LeafHash_def)
  from audit_path_folds [OF this] length_mth [OF this(1)] this
  show "VerifyInclusion (example_leaves ! 2) 2 (length example_leaves) (audit_path 2 example_leaves) (mth example_leaves) = Some None"
    by (simp add: VerifyInclusion_iff leaf_hashes_def)
qed

end
