(* ===== verification/GoNetip.thy ===== *)
theory GoNetip
  imports GoText
begin

text \<open>
  What the sources use of Go's \<open>net/netip\<close>: an address is an IPv4 one, or an IPv6 one
  with its zone, and \<open>ParseAddr\<close> reads the textual forms.
\<close>

datatype ip_addr = Addr4 "32 word" | Addr6 "128 word" string

definition Is6 :: "ip_addr \<Rightarrow> bool" where
  "Is6 a \<longleftrightarrow> (case a of Addr4 _ \<Rightarrow> False | Addr6 _ _ \<Rightarrow> True)"

definition Zone :: "ip_addr \<Rightarrow> string" where
  "Zone a = (case a of Addr4 _ \<Rightarrow> [] | Addr6 _ z \<Rightarrow> z)"

definition As16 :: "ip_addr \<Rightarrow> 128 word" where
  "As16 a = (case a of Addr4 v \<Rightarrow> 0xFFFF00000000 OR ucast v | Addr6 v _ \<Rightarrow> v)"

text \<open>Four decimal fields of at most 255, with no leading zero.\<close>

definition ipv4_field :: "string \<Rightarrow> byte option" where
  "ipv4_field s =
     (if s \<noteq> [] \<and> list_all is_digit s \<and> no_leading_zero s \<and> length s \<le> 3 \<and> parse_nat s \<le> 255
      then Some (word_of_nat (parse_nat s)) else None)"

definition ipv4_fields :: "string \<Rightarrow> bytes option" where
  "ipv4_fields s =
     (let fs = map ipv4_field (split_on (CHR ''.'') s)
      in if length fs = 4 \<and> None \<notin> set fs then Some (map the fs) else None)"

definition hex_val :: "char \<Rightarrow> nat option" where
  "hex_val c =
     (let n = of_char c :: nat in
      if 48 \<le> n \<and> n \<le> 57 then Some (n - 48)
      else if 97 \<le> n \<and> n \<le> 102 then Some (n - 87)
      else if 65 \<le> n \<and> n \<le> 70 then Some (n - 55)
      else None)"

text \<open>A group of hexadecimal digits: how many there are and their value.\<close>

definition hex_group :: "string \<Rightarrow> nat \<times> int" where
  "hex_group s =
     (let ds = map (\<lambda>c. int (the (hex_val c))) (takeWhile (\<lambda>c. hex_val c \<noteq> None) s)
      in (length ds, foldl (\<lambda>a d. 16 * a + d) 0 ds))"

text \<open>
  The loop over the groups, at most eight: the bytes read so far, the place of the ellipsis,
  and the text that is left.
\<close>

function ipv6_groups :: "bytes \<Rightarrow> nat option \<Rightarrow> string \<Rightarrow> (bytes \<times> nat option \<times> string) option" where
  "ipv6_groups ip ell s =
     (if length ip \<ge> 16 then Some (ip, ell, s)
      else
        (let (off, acc) = hex_group s in
         if off = 0 \<or> off > 4 then None
         else if off < length s \<and> s ! off = CHR ''.'' then
           (if ell = None \<and> length ip \<noteq> 12 then None
            else if length ip + 4 > 16 then None
            else (case ipv4_fields s of None \<Rightarrow> None | Some f \<Rightarrow> Some (ip @ f, ell, [])))
         else
           (let ip' = ip @ [word_of_int (acc div 256), word_of_int (acc mod 256)];
                r = drop off s
            in if r = [] then Some (ip', ell, [])
               else if hd r \<noteq> CHR '':'' then None
               else if length r = 1 then None
               else if hd (tl r) = CHR '':'' then
                 (if ell \<noteq> None then None
                  else if length r = 2 then Some (ip', Some (length ip'), [])
                  else ipv6_groups ip' (Some (length ip')) (drop 2 r))
               else ipv6_groups ip' ell (tl r))))"
  by auto
termination
  by (relation "measure (\<lambda>(ip, _). 16 - length ip)") auto

definition parse_ipv6 :: "string \<Rightarrow> ip_addr option" where
  "parse_ipv6 s0 =
     (let (s, zone) = (case cut_at (CHR ''%'') s0 of None \<Rightarrow> (s0, None) | Some (a, z) \<Rightarrow> (a, Some z)) in
      if zone = Some [] then None
      else
        (let z = (case zone of None \<Rightarrow> [] | Some z \<Rightarrow> z) in
         if s = ''::'' then Some (Addr6 0 z)
         else
           (case (if prefix ''::'' s then ipv6_groups [] (Some 0) (drop 2 s) else ipv6_groups [] None s) of
              None \<Rightarrow> None
            | Some (ip, ell, r) \<Rightarrow>
                if r \<noteq> [] then None
                else if length ip < 16 then
                  (case ell of
                     None \<Rightarrow> None
                   | Some e \<Rightarrow>
                       Some (Addr6 (be_val (take e ip @ replicate (16 - length ip) 0 @ drop e ip)) z))
                else if ell \<noteq> None then None
                else Some (Addr6 (be_val ip) z))))"

text \<open>\<open>netip.ParseAddr\<close>: the first dot, colon or percent sign decides the form.\<close>

definition ParseAddr :: "string \<Rightarrow> ip_addr option" where
  "ParseAddr s =
     (case find (\<lambda>c. c = CHR ''.'' \<or> c = CHR '':'' \<or> c = CHR ''%'') s of
        None \<Rightarrow> None
      | Some c \<Rightarrow>
          if c = CHR ''.'' then map_option (\<lambda>f. Addr4 (be_val f)) (ipv4_fields s)
          else if c = CHR '':'' then parse_ipv6 s
          else None)"

end
