(* ===== verification/GoJson.thy ===== *)
theory GoJson
  imports GoNetip
begin

text \<open>
  What the sources use of Go's \<open>encoding/json\<close>: the token stream of a \<open>Decoder\<close> with
  \<open>UseNumber\<close>. \<open>Token\<close> and \<open>More\<close> are the library's state machine over the
  rest of the input; a scalar is scanned to the first byte that cannot extend it, and a string
  is unquoted with invalid UTF-8 and lone surrogates replaced by U+FFFD.
\<close>

datatype token = Delim char | TString string | TNumber string | TBool bool | TNull

datatype token_state =
    TopValue | ArrayStart | ArrayValue | ArrayComma | ObjectStart | ObjectKey | ObjectColon
  | ObjectValue | ObjectComma

record decoder =
  d_input :: string
  d_state :: token_state
  d_stack :: "token_state list"

definition NewDecoder :: "string \<Rightarrow> decoder" where
  "NewDecoder s = \<lparr>d_input = s, d_state = TopValue, d_stack = []\<rparr>"

datatype json_error = EndOfInput | SyntaxError

subsection \<open>Scalars\<close>

definition json_space :: "char \<Rightarrow> bool" where
  "json_space c \<longleftrightarrow> c = CHR 0x20 \<or> c = CHR 0x09 \<or> c = CHR 0x0D \<or> c = CHR 0x0A"

definition skip_space :: "string \<Rightarrow> string" where
  "skip_space s = dropWhile json_space s"

text \<open>The bytes of the rune a string begins with, 0 when they are not UTF-8.\<close>

definition rune_len :: "string \<Rightarrow> nat" where
  "rune_len s =
     (case find (\<lambda>n. n \<le> length s \<and> valid_utf8 (bytes_of (take n s))) [1, 2, 3, 4] of
        None \<Rightarrow> 0 | Some n \<Rightarrow> n)"

lemma rune_len_code [code]:
  "rune_len s =
     (case s of
        [] \<Rightarrow> 0
      | c # r \<Rightarrow>
          if byte_of c < 0x80 then 1
          else (case find (\<lambda>n. n \<le> length s \<and> valid_utf8 (bytes_of (take n s))) [2, 3, 4] of
                  None \<Rightarrow> 0 | Some n \<Rightarrow> n))"
proof (cases s)
  case (Cons c r)
  have "valid_utf8 (bytes_of [c]) \<longleftrightarrow> byte_of c < 0x80"
    by (simp add: bytes_of_def valid_utf8.simps(2))
  then show ?thesis by (simp add: rune_len_def Cons)
qed (simp add: rune_len_def)

definition encode_rune :: "nat \<Rightarrow> string" where
  "encode_rune r =
     (let b = (\<lambda>n. char_of (n :: nat) :: char) in
      if r < 0x80 then [b r]
      else if r < 0x800 then [b (0xC0 + r div 64), b (0x80 + r mod 64)]
      else if 0xD800 \<le> r \<and> r < 0xE000 \<or> 0x10FFFF < r then [CHR 0xEF, CHR 0xBF, CHR 0xBD]
      else if r < 0x10000 then [b (0xE0 + r div 4096), b (0x80 + r div 64 mod 64), b (0x80 + r mod 64)]
      else [b (0xF0 + r div 262144), b (0x80 + r div 4096 mod 64), b (0x80 + r div 64 mod 64), b (0x80 + r mod 64)])"

definition hex4 :: "string \<Rightarrow> nat option" where
  "hex4 s =
     (if length s < 4 \<or> hex_val (s ! 0) = None \<or> hex_val (s ! 1) = None \<or> hex_val (s ! 2) = None \<or>
         hex_val (s ! 3) = None then None
      else Some (the (hex_val (s ! 0)) * 4096 + the (hex_val (s ! 1)) * 256 + the (hex_val (s ! 2)) * 16 +
                 the (hex_val (s ! 3))))"

text \<open>One escape after its backslash: what it stands for and what follows it.\<close>

definition json_escape :: "string \<Rightarrow> (string \<times> string) option" where
  "json_escape s =
     (case s of
        [] \<Rightarrow> None
      | c # r \<Rightarrow>
          if c = CHR 0x22 \<or> c = CHR 0x5C \<or> c = CHR ''/'' then Some ([c], r)
          else if c = CHR ''b'' then Some ([CHR 0x08], r)
          else if c = CHR ''f'' then Some ([CHR 0x0C], r)
          else if c = CHR ''n'' then Some ([CHR 0x0A], r)
          else if c = CHR ''r'' then Some ([CHR 0x0D], r)
          else if c = CHR ''t'' then Some ([CHR 0x09], r)
          else if c = CHR ''u'' then
            (case hex4 r of
               None \<Rightarrow> None
             | Some h \<Rightarrow>
                 let r' = drop 4 r;
                     low = (if prefix [CHR 0x5C, CHR ''u''] r' then hex4 (drop 2 r') else None)
                 in (case low of
                       Some l \<Rightarrow>
                         if 0xD800 \<le> h \<and> h < 0xDC00 \<and> 0xDC00 \<le> l \<and> l < 0xE000
                         then Some (encode_rune (0x10000 + (h - 0xD800) * 1024 + (l - 0xDC00)), drop 6 r')
                         else Some (encode_rune h, r')
                     | None \<Rightarrow> Some (encode_rune h, r')))
          else None)"

text \<open>A string after its opening quote, with fuel for its bytes; the result and what follows.\<close>

fun json_string :: "nat \<Rightarrow> string \<Rightarrow> (string \<times> string) option" where
  "json_string 0 s = None"
| "json_string (Suc n) s =
     (case s of
        [] \<Rightarrow> None
      | c # r \<Rightarrow>
          if c = CHR 0x22 then Some ([], r)
          else if c < CHR 0x20 then None
          else if c = CHR 0x5C then
            (case json_escape r of
               None \<Rightarrow> None
             | Some (v, r') \<Rightarrow> map_option (\<lambda>(w, t). (v @ w, t)) (json_string n r'))
          else if rune_len s = 0 then
            map_option (\<lambda>(w, t). ([CHR 0xEF, CHR 0xBF, CHR 0xBD] @ w, t)) (json_string n r)
          else map_option (\<lambda>(w, t). (take (rune_len s) s @ w, t)) (json_string n (drop (rune_len s) s)))"

definition json_number :: "string \<Rightarrow> (string \<times> string) option" where
  "json_number s =
     (let sign = (if prefix ''-'' s then ''-'' else []); s1 = drop (length sign) s;
          int = (if prefix ''0'' s1 then ''0'' else takeWhile is_digit s1); s2 = drop (length int) s1;
          fd = (if prefix ''.'' s2 then takeWhile is_digit (tl s2) else []);
          frac = (if prefix ''.'' s2 then CHR ''.'' # fd else []); s3 = drop (length frac) s2;
          ex = (s3 \<noteq> [] \<and> (hd s3 = CHR ''e'' \<or> hd s3 = CHR ''E''));
          es = (if ex \<and> tl s3 \<noteq> [] \<and> (hd (tl s3) = CHR ''+'' \<or> hd (tl s3) = CHR ''-'') then take 2 s3
                else if ex then take 1 s3 else []);
          ed = (if ex then takeWhile is_digit (drop (length es) s3) else [])
      in if int = [] \<or> (prefix ''.'' s2 \<and> fd = []) \<or> (ex \<and> ed = []) then None
         else Some (sign @ int @ frac @ es @ ed, drop (length (es @ ed)) s3))"

text \<open>A scalar where a value may stand.\<close>

definition json_scalar :: "string \<Rightarrow> (token \<times> string) option" where
  "json_scalar s =
     (if prefix ''true'' s then Some (TBool True, drop 4 s)
      else if prefix ''false'' s then Some (TBool False, drop 5 s)
      else if prefix ''null'' s then Some (TNull, drop 4 s)
      else if prefix [CHR 0x22] s then map_option (\<lambda>(v, r). (TString v, r)) (json_string (length s) (tl s))
      else map_option (\<lambda>(v, r). (TNumber v, r)) (json_number s))"

subsection \<open>Tokens\<close>

definition value_allowed :: "token_state \<Rightarrow> bool" where
  "value_allowed st \<longleftrightarrow> st = TopValue \<or> st = ArrayStart \<or> st = ArrayValue \<or> st = ObjectValue"

definition value_end :: "token_state \<Rightarrow> token_state" where
  "value_end st =
     (if st = ArrayStart \<or> st = ArrayValue then ArrayComma
      else if st = ObjectValue then ObjectComma else st)"

text \<open>
  The library's loop passes at most one colon and one comma before it returns; the fuel of
  \<open>Token\<close> is one more than the input's length.
\<close>

fun token_loop :: "nat \<Rightarrow> decoder \<Rightarrow> json_error + token \<times> decoder" where
  "token_loop 0 d = Inl SyntaxError"
| "token_loop (Suc n) d =
     (let s = skip_space (d_input d); st = d_state d in
      case s of
        [] \<Rightarrow> Inl EndOfInput
      | c # r \<Rightarrow>
          if c = CHR ''['' \<or> c = CHR 0x7B then
            (if \<not> value_allowed st then Inl SyntaxError
             else Inr (Delim c, \<lparr>d_input = r, d_state = (if c = CHR ''['' then ArrayStart else ObjectStart),
                        d_stack = st # d_stack d\<rparr>))
          else if c = CHR '']'' \<or> c = CHR 0x7D then
            (if (c = CHR '']'' \<and> (st = ArrayStart \<or> st = ArrayComma) \<or>
                 c = CHR 0x7D \<and> (st = ObjectStart \<or> st = ObjectComma)) \<and> d_stack d \<noteq> []
             then Inr (Delim c, \<lparr>d_input = r, d_state = value_end (hd (d_stack d)), d_stack = tl (d_stack d)\<rparr>)
             else Inl SyntaxError)
          else if c = CHR '':'' then
            (if st = ObjectColon then token_loop n (d\<lparr>d_input := r, d_state := ObjectValue\<rparr>)
             else Inl SyntaxError)
          else if c = CHR '','' then
            (if st = ArrayComma then token_loop n (d\<lparr>d_input := r, d_state := ArrayValue\<rparr>)
             else if st = ObjectComma then token_loop n (d\<lparr>d_input := r, d_state := ObjectKey\<rparr>)
             else Inl SyntaxError)
          else if c = CHR 0x22 \<and> (st = ObjectStart \<or> st = ObjectKey) then
            (case json_string (length s) r of
               None \<Rightarrow> Inl SyntaxError
             | Some (v, r') \<Rightarrow> Inr (TString v, d\<lparr>d_input := r', d_state := ObjectColon\<rparr>))
          else if \<not> value_allowed st then Inl SyntaxError
          else
            (case json_scalar s of
               None \<Rightarrow> Inl SyntaxError
             | Some (v, r') \<Rightarrow> Inr (v, d\<lparr>d_input := r', d_state := value_end st\<rparr>)))"

definition Token :: "decoder \<Rightarrow> json_error + token \<times> decoder" where
  "Token d = token_loop (length (d_input d) + 1) d"

definition More :: "decoder \<Rightarrow> bool" where
  "More d =
     (case skip_space (d_input d) of [] \<Rightarrow> False | c # _ \<Rightarrow> c \<noteq> CHR '']'' \<and> c \<noteq> CHR 0x7D)"

end
