(* ===== verification/KelBundle.thy ===== *)
theory KelBundle
  imports KelChain GoJson
begin

text \<open>
  \<open>internal/kel/bundle.go\<close>: the pages of a key-history bundle, the strict JSON reader, the
  page parser with every invariant it holds, and the canonical rendering of a page. A nil salt or
  next_after_seq is \<open>None\<close>. The reader runs on the token machine of \<open>GoJson\<close>.
\<close>

subsection \<open>Pages\<close>

definition BundleFormat :: string where "BundleFormat = ''whisper-kel-bundle/1''"
definition MaxPageEvents :: nat where "MaxPageEvents = 64"
definition maxBundleChars :: nat where "maxBundleChars = 512 * 1024"
definition maxCheckpoint :: nat where "maxCheckpoint = 8192"
definition maxProofHashes :: nat where "maxProofHashes = 63"
definition saltLen :: nat where "saltLen = 32"
definition maxAddressChars :: nat where "maxAddressChars = 45"
definition maxFQDNChars :: nat where "maxFQDNChars = 255"

record bundle_event =
  be_event :: event
  be_spki :: bytes
  be_leaf :: int
  be_proven :: bool
  be_shredded :: bool
  be_salt :: "bytes option"
  be_proof :: "bytes list"

definition Sequenced :: "bundle_event \<Rightarrow> bool" where
  "Sequenced e \<longleftrightarrow> be_leaf e \<ge> 0"

definition be_Link :: "bundle_event \<Rightarrow> link" where
  "be_Link e =
     (if be_spki e = [] then \<lparr>l_event = Some (be_event e), l_spki = []\<rparr>
      else \<lparr>l_event = Some (be_event e), l_spki = be_spki e\<rparr>)"

record page =
  p_address :: string
  p_fqdn :: string
  p_identityRef :: string
  p_keyChain :: string
  p_checkpoint :: string
  p_afterSeq :: int
  p_nextAfterSeq :: "int option"
  p_events :: "bundle_event list"

datatype page_error =
    JsonRefused | PageEmpty | PageTooLong | NotAnObject | WrongFormat | EventsNotArray | TooManyEvents
  | Missing string | NotString string | NotInteger string | NotBoolean string
  | NotBase64 string | NotCanonicalBase64 string | FieldRequired string | FieldTooLarge string
  | NotPrintable string
  | EventNotObject | EventRefused event_error | SeqDiffers | LeafDisagrees | LeafNegative
  | ProofNotArray | ProofTooLong | ProofNotString | ProofNotHash | ProvenWithoutProof
  | SpkiTooLong | SaltLength | ProvenIncomplete | ProofUnexpected | ShreddedIncomplete | SaltUnexpected
  | BadKeyChain | CheckpointTooLong | BadAfterSeq | HostedWithChain | HeldWithoutRef
  | EventsOutOfOrder int | EventOtherRef int | ProvenWithoutCheckpoint int | BadNextAfterSeq

subsection \<open>Strict JSON\<close>

datatype json =
  JNull | JBool bool | JNumber string | JString string | JArray "json list" | JObject "(string \<times> json) list"

text \<open>
  \<open>readValue\<close> and its two loops, with fuel; every call reads a token, so twice the bytes of
  the text and two are enough.
\<close>

fun readValue :: "nat \<Rightarrow> decoder \<Rightarrow> page_error + json \<times> decoder"
  and read_members :: "nat \<Rightarrow> decoder \<Rightarrow> (string \<times> json) list \<Rightarrow> page_error + json \<times> decoder"
  and read_elements :: "nat \<Rightarrow> decoder \<Rightarrow> json list \<Rightarrow> page_error + json \<times> decoder" where
  "readValue 0 d = Inl JsonRefused"
| "readValue (Suc n) d =
     (case Token d of
        Inl _ \<Rightarrow> Inl JsonRefused
      | Inr (t, d) \<Rightarrow>
          (case t of
             Delim c \<Rightarrow>
               if c = CHR 0x7B then read_members n d []
               else if c = CHR ''['' then read_elements n d []
               else Inl JsonRefused
           | TString s \<Rightarrow> Inr (JString s, d)
           | TNumber s \<Rightarrow> Inr (JNumber s, d)
           | TBool b \<Rightarrow> Inr (JBool b, d)
           | TNull \<Rightarrow> Inr (JNull, d)))"
| "read_members 0 d m = Inl JsonRefused"
| "read_members (Suc n) d m =
     (if More d then
        (case Token d of
           Inl _ \<Rightarrow> Inl JsonRefused
         | Inr (kt, d) \<Rightarrow>
             (case kt of
                TString k \<Rightarrow>
                  if map_of m k \<noteq> None then Inl JsonRefused
                  else (case readValue n d of
                          Inl x \<Rightarrow> Inl x
                        | Inr (v, d) \<Rightarrow> read_members n d (m @ [(k, v)]))
              | _ \<Rightarrow> Inl JsonRefused))
      else (case Token d of Inl _ \<Rightarrow> Inl JsonRefused | Inr (_, d) \<Rightarrow> Inr (JObject m, d)))"
| "read_elements 0 d a = Inl JsonRefused"
| "read_elements (Suc n) d a =
     (if More d then
        (case readValue n d of Inl x \<Rightarrow> Inl x | Inr (v, d) \<Rightarrow> read_elements n d (a @ [v]))
      else (case Token d of Inl _ \<Rightarrow> Inl JsonRefused | Inr (_, d) \<Rightarrow> Inr (JArray a, d)))"

definition strictJSON :: "string \<Rightarrow> page_error + json" where
  "strictJSON text =
     (case readValue (2 * length text + 2) (NewDecoder text) of
        Inl x \<Rightarrow> Inl x
      | Inr (v, d) \<Rightarrow> (case Token d of Inl EndOfInput \<Rightarrow> Inr v | _ \<Rightarrow> Inl JsonRefused))"

subsection \<open>Typed fields\<close>

type_synonym json_object = "(string \<times> json) list"

text \<open>\<open>o[field]\<close>: nil for a field that is absent or null.\<close>

definition field :: "json_object \<Rightarrow> string \<Rightarrow> json" where
  "field obj f = (case map_of obj f of None \<Rightarrow> JNull | Some v \<Rightarrow> v)"

definition jText :: "json_object \<Rightarrow> string \<Rightarrow> bool \<Rightarrow> page_error + string" where
  "jText obj f required =
     (case field obj f of
        JNull \<Rightarrow> if required then Inl (Missing f) else Inr []
      | JString s \<Rightarrow> Inr s
      | _ \<Rightarrow> Inl (NotString f))"

definition jsonIntRE :: "string \<Rightarrow> bool" where
  "jsonIntRE s = is_decimal (if prefix ''-'' s then tl s else s)"

definition jInt :: "json_object \<Rightarrow> string \<Rightarrow> page_error + int" where
  "jInt obj f =
     (case field obj f of
        JNull \<Rightarrow> Inl (Missing f)
      | JNumber n \<Rightarrow>
          if \<not> jsonIntRE n then Inl (NotInteger f)
          else (case parse_int n of None \<Rightarrow> Inl (NotInteger f) | Some i \<Rightarrow> Inr i)
      | _ \<Rightarrow> Inl (NotInteger f))"

definition jBool :: "json_object \<Rightarrow> string \<Rightarrow> page_error + bool" where
  "jBool obj f = (case field obj f of JBool b \<Rightarrow> Inr b | _ \<Rightarrow> Inl (NotBoolean f))"

definition strictB64 :: "string \<Rightarrow> string \<Rightarrow> page_error + bytes" where
  "strictB64 s f =
     (if CHR 0x0D \<in> set s \<or> CHR 0x0A \<in> set s then Inl (NotBase64 f)
      else (case b64_decode s of
              None \<Rightarrow> Inl (NotBase64 f)
            | Some b \<Rightarrow> if b64_encode b \<noteq> s then Inl (NotCanonicalBase64 f) else Inr b))"

definition bounded :: "string \<Rightarrow> string \<Rightarrow> nat \<Rightarrow> page_error option" where
  "bounded s f mx =
     (if trim_space s = [] then Some (FieldRequired f)
      else if length s > mx then Some (FieldTooLarge f)
      else if list_ex (\<lambda>c. c \<le> CHR 0x20 \<or> c \<ge> CHR 0x7F) s then Some (NotPrintable f)
      else None)"

subsection \<open>One event\<close>

text \<open>Reading on, or stopping with the first error.\<close>

definition andThen :: "page_error + 'a \<Rightarrow> ('a \<Rightarrow> page_error + 'b) \<Rightarrow> page_error + 'b" where
  "andThen r f = (case r of Inl x \<Rightarrow> Inl x | Inr a \<Rightarrow> f a)"

fun proof_hashes :: "json list \<Rightarrow> page_error + bytes list" where
  "proof_hashes [] = Inr []"
| "proof_hashes (h # hs) =
     (case h of
        JString s \<Rightarrow>
          andThen (strictB64 s ''proof'') (\<lambda>b.
            if length b \<noteq> 32 then Inl ProofNotHash
            else andThen (proof_hashes hs) (\<lambda>bs. Inr (b # bs)))
      | _ \<Rightarrow> Inl ProofNotString)"

definition event_proof :: "json_object \<Rightarrow> bool \<Rightarrow> page_error + bytes list" where
  "event_proof obj prov =
     (case field obj ''proof'' of
        JNull \<Rightarrow> if prov then Inl ProvenWithoutProof else Inr []
      | JArray arr \<Rightarrow> if length arr > maxProofHashes then Inl ProofTooLong else proof_hashes arr
      | _ \<Rightarrow> Inl ProofNotArray)"

definition event_leaf :: "json_object \<Rightarrow> bool \<Rightarrow> page_error + int" where
  "event_leaf obj sequenced =
     (let hasLeaf = (field obj ''leaf'' \<noteq> JNull) in
      if sequenced \<noteq> hasLeaf then Inl LeafDisagrees
      else if hasLeaf then
        andThen (jInt obj ''leaf'') (\<lambda>l. if l < 0 then Inl LeafNegative else Inr l)
      else Inr (-1))"

definition event_salt :: "json_object \<Rightarrow> page_error + bytes option" where
  "event_salt obj =
     andThen (jText obj ''salt'' False) (\<lambda>salt.
       if salt \<noteq> [] \<or> field obj ''salt'' \<noteq> JNull then
         andThen (strictB64 salt ''salt'') (\<lambda>b.
           if length b \<noteq> saltLen then Inl SaltLength else Inr (Some b))
       else Inr None)"

text \<open>The last switch: what the proof state of an event must be consistent with.\<close>

definition event_state_error :: "bundle_event \<Rightarrow> page_error option" where
  "event_state_error e =
     (if be_proven e \<and> (be_leaf e < 0 \<or> be_shredded e \<or> be_salt e = None) then Some ProvenIncomplete
      else if \<not> be_proven e \<and> be_proof e \<noteq> [] then Some ProofUnexpected
      else if be_shredded e \<and> (be_salt e \<noteq> None \<or> be_leaf e < 0) then Some ShreddedIncomplete
      else if be_salt e \<noteq> None \<and> be_leaf e < 0 then Some SaltUnexpected
      else None)"

definition parseBundleEvent :: "json \<Rightarrow> page_error + bundle_event" where
  "parseBundleEvent raw =
     (case raw of
        JObject obj \<Rightarrow>
          andThen (jText obj ''event'' True) (\<lambda>evText.
          andThen (strictB64 evText ''event'') (\<lambda>evBytes.
          andThen (case ParseEvent evBytes of Inl x \<Rightarrow> Inl (EventRefused x) | Inr ev \<Rightarrow> Inr ev) (\<lambda>ev.
          andThen (jInt obj ''seq'') (\<lambda>seq.
          if seq \<noteq> e_sequence ev then Inl SeqDiffers else
          andThen (jBool obj ''sequenced'') (\<lambda>sequenced.
          andThen (event_leaf obj sequenced) (\<lambda>leaf.
          andThen (jBool obj ''proven'') (\<lambda>proven.
          andThen (event_proof obj proven) (\<lambda>prf.
          andThen (jText obj ''spki'' True) (\<lambda>spkiText.
          andThen (strictB64 spkiText ''spki'') (\<lambda>spki.
          if length spki > MaxSPKIDER then Inl SpkiTooLong else
          andThen (event_salt obj) (\<lambda>salt.
          andThen (jBool obj ''shredded'') (\<lambda>shredded.
            let e = \<lparr>be_event = ev, be_spki = spki, be_leaf = leaf, be_proven = proven,
                     be_shredded = shredded, be_salt = salt, be_proof = prf\<rparr>
            in (case event_state_error e of Some x \<Rightarrow> Inl x | None \<Rightarrow> Inr e)))))))))))))
      | _ \<Rightarrow> Inl EventNotObject)"

subsection \<open>One page\<close>

text \<open>The loop over the events of \<open>Page.check\<close>: the sequence the next one must have.\<close>

fun check_events :: "page \<Rightarrow> bundle_event list \<Rightarrow> int \<Rightarrow> page_error + int" where
  "check_events p [] want = Inr want"
| "check_events p (e # es) want =
     (if e_sequence (be_event e) \<noteq> want then Inl (EventsOutOfOrder want)
      else if e_identityRef (be_event e) \<noteq> p_identityRef p then Inl (EventOtherRef want)
      else if be_proven e \<and> p_checkpoint p = [] then Inl (ProvenWithoutCheckpoint want)
      else check_events p es (i64 (want + 1)))"

definition page_check :: "page \<Rightarrow> page_error option" where
  "page_check p =
     (case bounded (p_address p) ''address'' maxAddressChars of Some x \<Rightarrow> Some x | None \<Rightarrow>
      case bounded (p_fqdn p) ''fqdn'' maxFQDNChars of Some x \<Rightarrow> Some x | None \<Rightarrow>
        if length (p_identityRef p) > MaxIdentityRef then Some (FieldTooLarge ''identity_ref'')
        else if p_keyChain p \<noteq> ''committed'' \<and> p_keyChain p \<noteq> ''sealed'' \<and> p_keyChain p \<noteq> ''hosted''
          then Some BadKeyChain
        else if length (p_checkpoint p) > maxCheckpoint then Some CheckpointTooLong
        else if p_afterSeq p < -1 then Some BadAfterSeq
        else if p_keyChain p = ''hosted'' \<and>
            (p_events p \<noteq> [] \<or> p_nextAfterSeq p \<noteq> None \<or> p_identityRef p \<noteq> []) then Some HostedWithChain
        else if p_keyChain p \<noteq> ''hosted'' \<and> p_identityRef p = [] then Some HeldWithoutRef
        else
          (case check_events p (p_events p) (i64 (p_afterSeq p + 1)) of
             Inl x \<Rightarrow> Some x
           | Inr want \<Rightarrow>
               (case p_nextAfterSeq p of
                  None \<Rightarrow> None
                | Some n \<Rightarrow>
                    if p_events p = [] \<or> n \<noteq> i64 (want - 1) then Some BadNextAfterSeq else None)))"

fun parse_events :: "json list \<Rightarrow> page_error + bundle_event list" where
  "parse_events [] = Inr []"
| "parse_events (raw # raws) =
     andThen (parseBundleEvent raw) (\<lambda>e. andThen (parse_events raws) (\<lambda>es. Inr (e # es)))"

definition ParsePage :: "string \<Rightarrow> page_error + page" where
  "ParsePage text =
     (if text = [] then Inl PageEmpty
      else if length text > maxBundleChars then Inl PageTooLong
      else
        andThen (strictJSON text) (\<lambda>root.
          case root of
            JObject obj \<Rightarrow>
              andThen (jText obj ''format'' True) (\<lambda>format.
              if format \<noteq> BundleFormat then Inl WrongFormat else
              (case field obj ''events'' of
                 JArray evs \<Rightarrow>
                   if length evs > MaxPageEvents then Inl TooManyEvents else
                   andThen (parse_events evs) (\<lambda>events.
                   andThen (jText obj ''address'' True) (\<lambda>address.
                   andThen (jText obj ''fqdn'' True) (\<lambda>fqdn.
                   andThen (jText obj ''identity_ref'' True) (\<lambda>ref.
                   andThen (jText obj ''key_chain'' True) (\<lambda>chain.
                   andThen (jText obj ''checkpoint'' True) (\<lambda>checkpoint.
                   andThen (jInt obj ''after_seq'') (\<lambda>after.
                   andThen (if field obj ''next_after_seq'' = JNull then Inr None
                            else andThen (jInt obj ''next_after_seq'') (\<lambda>n. Inr (Some n))) (\<lambda>next_seq.
                     let p = \<lparr>p_address = address, p_fqdn = fqdn, p_identityRef = ref, p_keyChain = chain,
                              p_checkpoint = checkpoint, p_afterSeq = after, p_nextAfterSeq = next_seq,
                              p_events = events\<rparr>
                     in (case page_check p of Some x \<Rightarrow> Inl x | None \<Rightarrow> Inr p)))))))))
               | _ \<Rightarrow> Inl EventsNotArray))
          | _ \<Rightarrow> Inl NotAnObject))"

subsection \<open>What a parsed page is\<close>

lemma andThen_Inr: "andThen r f = Inr b \<longleftrightarrow> (\<exists>a. r = Inr a \<and> f a = Inr b)"
  by (auto simp: andThen_def split: sum.splits)

text \<open>An event as the service may publish it.\<close>

definition bundle_event_ok :: "bundle_event \<Rightarrow> bool" where
  "bundle_event_ok e \<longleftrightarrow>
     event_wf (be_event e) \<and> length (be_spki e) \<le> MaxSPKIDER \<and>
     length (be_proof e) \<le> maxProofHashes \<and> (\<forall>h \<in> set (be_proof e). length h = 32) \<and>
     (\<forall>salt. be_salt e = Some salt \<longrightarrow> length salt = saltLen \<and> 0 \<le> be_leaf e) \<and>
     -1 \<le> be_leaf e \<and> be_leaf e < 2 ^ 63 \<and>
     (be_proven e \<longrightarrow> 0 \<le> be_leaf e \<and> \<not> be_shredded e \<and> be_salt e \<noteq> None) \<and>
     (be_proof e \<noteq> [] \<longrightarrow> be_proven e) \<and>
     (be_shredded e \<longrightarrow> 0 \<le> be_leaf e \<and> be_salt e = None)"

lemma parse_int_range: "parse_int s = Some n \<Longrightarrow> is_i64 n"
  by (auto simp: parse_int_def Let_def is_i64_def split: if_splits)

lemma jInt_range: "jInt obj f = Inr n \<Longrightarrow> is_i64 n"
  by (auto simp: jInt_def dest: parse_int_range split: json.splits if_splits option.splits)

lemma proof_hashes_Inr:
  "proof_hashes hs = Inr bs \<Longrightarrow> length bs = length hs \<and> (\<forall>b \<in> set bs. length b = 32)"
proof (induction hs arbitrary: bs)
  case (Cons h hs)
  then show ?case by (auto simp: andThen_Inr split: json.splits if_splits)
qed simp

lemma event_proof_Inr:
  "event_proof obj prov = Inr bs \<Longrightarrow> length bs \<le> maxProofHashes \<and> (\<forall>b \<in> set bs. length b = 32)"
  by (auto simp: event_proof_def dest: proof_hashes_Inr split: json.splits if_splits)

lemma event_leaf_Inr: "event_leaf obj sq = Inr l \<Longrightarrow> -1 \<le> l \<and> l < 2 ^ 63"
  by (auto simp: event_leaf_def Let_def andThen_Inr is_i64_def dest: jInt_range split: if_splits)

lemma event_salt_Inr: "event_salt obj = Inr (Some salt) \<Longrightarrow> length salt = saltLen"
  by (auto simp: event_salt_def andThen_Inr split: if_splits)

lemma event_state_ok:
  "event_state_error e = None \<longleftrightarrow>
     (be_proven e \<longrightarrow> 0 \<le> be_leaf e \<and> \<not> be_shredded e \<and> be_salt e \<noteq> None) \<and>
     (be_proof e \<noteq> [] \<longrightarrow> be_proven e) \<and> (be_shredded e \<longrightarrow> 0 \<le> be_leaf e \<and> be_salt e = None) \<and>
     (be_salt e \<noteq> None \<longrightarrow> 0 \<le> be_leaf e)"
  by (auto simp: event_state_error_def)

lemma parseBundleEvent_ok: "parseBundleEvent raw = Inr e \<Longrightarrow> bundle_event_ok e"
proof (cases raw)
  case (JObject obj)
  assume "parseBundleEvent raw = Inr e"
  with JObject obtain b sq where "ParseEvent b = Inr (be_event e)" "length (be_spki e) \<le> MaxSPKIDER"
    "event_leaf obj sq = Inr (be_leaf e)"
    "event_proof obj (be_proven e) = Inr (be_proof e)" "event_salt obj = Inr (be_salt e)"
    "event_state_error e = None"
    by (auto simp: parseBundleEvent_def andThen_Inr guard_Inr Let_def split: option.splits sum.splits)
  then show ?thesis
    using event_proof_Inr [of obj "be_proven e" "be_proof e"] event_salt_Inr [of obj] event_leaf_Inr [of obj sq]
    by (auto simp: bundle_event_ok_def event_state_ok ParseEvent_iff)
qed (simp_all add: parseBundleEvent_def)

lemma parse_events_ok:
  "parse_events raws = Inr es \<Longrightarrow> length es = length raws \<and> (\<forall>e \<in> set es. bundle_event_ok e)"
proof (induction raws arbitrary: es)
  case (Cons raw raws)
  then show ?case by (auto simp: andThen_Inr dest: parseBundleEvent_ok)
qed simp

text \<open>A page: at most 64 such events, in sequence from after_seq + 1, of one chain.\<close>

definition page_ok :: "page \<Rightarrow> bool" where
  "page_ok p \<longleftrightarrow>
     page_check p = None \<and> is_i64 (p_afterSeq p) \<and> length (p_events p) \<le> MaxPageEvents \<and>
     (\<forall>n. p_nextAfterSeq p = Some n \<longrightarrow> is_i64 n) \<and> (\<forall>e \<in> set (p_events p). bundle_event_ok e)"

lemma check_events_Inr:
  assumes "check_events p es want = Inr w" and "is_i64 want"
  shows "(\<forall>i < length es. e_sequence (be_event (es ! i)) = i64 (want + int i)) \<and> w = i64 (want + int (length es)) \<and>
     (\<forall>e \<in> set es. e_identityRef (be_event e) = p_identityRef p \<and> (be_proven e \<longrightarrow> p_checkpoint p \<noteq> []))"
  using assms
proof (induction es arbitrary: want)
  case Nil
  then show ?case by simp
next
  case (Cons e es)
  then have c: "check_events p es (i64 (want + 1)) = Inr w" and h: "e_sequence (be_event e) = want"
      "e_identityRef (be_event e) = p_identityRef p" "be_proven e \<longrightarrow> p_checkpoint p \<noteq> []"
    by (auto simp: guard_Inr)
  from Cons.IH [OF c] have IH: "(\<forall>i < length es. e_sequence (be_event (es ! i)) = i64 (want + 1 + int i)) \<and>
     w = i64 (want + 1 + int (length es)) \<and>
     (\<forall>e \<in> set es. e_identityRef (be_event e) = p_identityRef p \<and> (be_proven e \<longrightarrow> p_checkpoint p \<noteq> []))"
    by simp
  have "e_sequence (be_event ((e # es) ! i)) = i64 (want + int i)" if "i < length (e # es)" for i
    using that IH h Cons.prems(2) by (cases i) (auto simp: algebra_simps)
  with IH h show ?case by (auto simp: algebra_simps)
qed

lemma ParsePage_ok: "ParsePage text = Inr p \<Longrightarrow> page_ok p"
proof -
  assume a: "ParsePage text = Inr p"
  then obtain root where "strictJSON text = Inr root" by (auto simp: ParsePage_def andThen_Inr guard_Inr)
  with a obtain obj where root: "strictJSON text = Inr (JObject obj)"
    by (cases root) (auto simp: ParsePage_def andThen_def guard_Inr split: if_splits)
  with a obtain evs where evs: "field obj ''events'' = JArray evs"
    by (cases "field obj ''events''") (auto simp: ParsePage_def andThen_Inr guard_Inr)
  from a root evs have n: "length evs \<le> MaxPageEvents"
    and e: "parse_events evs = Inr (p_events p)" and s: "jInt obj ''after_seq'' = Inr (p_afterSeq p)"
    and x: "p_nextAfterSeq p = None \<or> (\<exists>n. jInt obj ''next_after_seq'' = Inr n \<and> p_nextAfterSeq p = Some n)"
    and c: "page_check p = None"
    by (auto simp: ParsePage_def andThen_Inr guard_Inr Let_def split: option.splits if_splits)
  show ?thesis
    using n c x parse_events_ok [OF e] jInt_range [OF s] jInt_range [of obj "''next_after_seq''"]
    by (auto simp: page_ok_def)
qed

lemma page_check_events:
  "page_check p = None \<Longrightarrow> \<exists>w. check_events p (p_events p) (i64 (p_afterSeq p + 1)) = Inr w"
  by (auto simp: page_check_def guard_None split: option.splits sum.splits)

text \<open>
  C37. Whatever text it reads, an accepted page holds the service's invariants: at most 64
  events, each well formed, consistent in its proof state, with at most 63 proof hashes of 32
  bytes; their sequences run from after_seq + 1 one by one, they name the page's chain, and none
  is proven on a page without a checkpoint.
\<close>

theorem ParsePage_invariants:
  assumes "ParsePage text = Inr p"
  shows "page_ok p \<and>
     (\<forall>i < length (p_events p). e_sequence (be_event (p_events p ! i)) = i64 (p_afterSeq p + 1 + int i)) \<and>
     (\<forall>e \<in> set (p_events p). e_identityRef (be_event e) = p_identityRef p \<and>
        (be_proven e \<longrightarrow> p_checkpoint p \<noteq> []))"
proof -
  have ok: "page_ok p" by (rule ParsePage_ok [OF assms])
  then obtain w where w: "check_events p (p_events p) (i64 (p_afterSeq p + 1)) = Inr w"
    using page_check_events [of p] by (auto simp: page_ok_def)
  from check_events_Inr [OF w] ok show ?thesis by simp
qed

text \<open>A page as the service writes it for an agent whose key history it hosts itself.\<close>

definition hosted_page :: page where
  "hosted_page = \<lparr>p_address = ''::1'', p_fqdn = ''a.'', p_identityRef = [], p_keyChain = ''hosted'',
     p_checkpoint = [], p_afterSeq = -1, p_nextAfterSeq = None, p_events = []\<rparr>"

definition hosted_text :: string where
  "hosted_text = [CHR 0x7B] @ concat (map (\<lambda>(k, v). CHR 0x22 # k @ [CHR 0x22, CHR '':''] @ v @ '','')
     [(''address'', [CHR 0x22] @ ''::1'' @ [CHR 0x22]), (''after_seq'', ''-1''), (''checkpoint'', [CHR 0x22, CHR 0x22]),
      (''events'', ''[]''), (''format'', [CHR 0x22] @ BundleFormat @ [CHR 0x22]),
      (''fqdn'', [CHR 0x22] @ ''a.'' @ [CHR 0x22]), (''identity_ref'', [CHR 0x22, CHR 0x22])]) @
     [CHR 0x22] @ ''key_chain'' @ [CHR 0x22, CHR '':'', CHR 0x22] @ ''hosted'' @ [CHR 0x22, CHR 0x7D]"

definition hosted_object :: json_object where
  "hosted_object = [(''address'', JString ''::1''), (''after_seq'', JNumber ''-1''), (''checkpoint'', JString []),
     (''events'', JArray []), (''format'', JString BundleFormat), (''fqdn'', JString ''a.''),
     (''identity_ref'', JString []), (''key_chain'', JString ''hosted'')]"

lemma hosted_text_json: "strictJSON hosted_text = Inr (JObject hosted_object)"
  by code_simp

lemma hosted_text_parses: "ParsePage hosted_text = Inr hosted_page"
proof -
  have "length hosted_text \<le> 200 \<and> hosted_text \<noteq> []" by code_simp
  then have l: "hosted_text \<noteq> []" "length hosted_text \<le> maxBundleChars" by (simp_all add: maxBundleChars_def)
  have "parse_nat ''1'' = 1 \<and> list_all is_digit ''1'' \<and> jsonIntRE ''-1'' \<and> field hosted_object ''after_seq'' = JNumber ''-1''"
    by code_simp
  then have i: "jInt hosted_object ''after_seq'' = Inr (-1)" by (simp add: jInt_def parse_int_def)
  have b: "bounded ''::1'' ''address'' maxAddressChars = None" "bounded ''a.'' ''fqdn'' maxFQDNChars = None"
    by code_simp+
  have "field hosted_object ''format'' = JString BundleFormat" "field hosted_object ''events'' = JArray []"
    "field hosted_object ''address'' = JString ''::1''" "field hosted_object ''fqdn'' = JString ''a.''"
    "field hosted_object ''identity_ref'' = JString []" "field hosted_object ''key_chain'' = JString ''hosted''"
    "field hosted_object ''checkpoint'' = JString []" "field hosted_object ''next_after_seq'' = JNull"
    by (simp_all add: field_def hosted_object_def)
  then show ?thesis
    using l i by (simp add: ParsePage_def hosted_text_json andThen_def jText_def page_check_def b hosted_page_def)
qed

theorem ParsePage_invariants_witness: "page_ok hosted_page \<and> p_keyChain hosted_page = ''hosted''"
  using ParsePage_invariants [OF hosted_text_parses] by (simp add: hosted_page_def)

subsection \<open>The canonical rendering\<close>

text \<open>The runes of a string as \<open>range\<close> yields them, U+FFFD for a byte that is not UTF-8.\<close>

definition decode_rune :: "string \<Rightarrow> nat" where
  "decode_rune s =
     (let b = (\<lambda>i. of_char (s ! i) :: nat) in
      if length s = 1 then b 0
      else if length s = 2 then (b 0 - 0xC0) * 64 + (b 1 - 0x80)
      else if length s = 3 then (b 0 - 0xE0) * 4096 + (b 1 - 0x80) * 64 + (b 2 - 0x80)
      else (b 0 - 0xF0) * 262144 + (b 1 - 0x80) * 4096 + (b 2 - 0x80) * 64 + (b 3 - 0x80))"

function runes :: "string \<Rightarrow> nat list" where
  "runes s =
     (if s = [] then []
      else if rune_len s = 0 then 0xFFFD # runes (tl s)
      else decode_rune (take (rune_len s) s) # runes (drop (rune_len s) s))"
  by auto
termination
  by (relation "measure length") auto

declare runes.simps [simp del]

definition surrogates :: "nat \<Rightarrow> nat \<times> nat" where
  "surrogates r = (let r = r - 0x10000 in (0xD800 + r div 1024 mod 1024, 0xDC00 + r mod 1024))"

text \<open>The \<open>%04x\<close> of a value below 65536.\<close>

definition hex04 :: "nat \<Rightarrow> string" where
  "hex04 n = [hex_digit (n div 4096 mod 16), hex_digit (n div 256 mod 16), hex_digit (n div 16 mod 16), hex_digit (n mod 16)]"

definition json_rune :: "nat \<Rightarrow> string" where
  "json_rune r =
     (if r = 0x22 \<or> r = 0x5C then [CHR 0x5C, char_of r]
      else if r = 0x0A then [CHR 0x5C, CHR ''n'']
      else if r < 0x20 \<or> r > 0x7E then
        (if r > 0xFFFF then
           (let (hi, lo) = surrogates r
            in [CHR 0x5C, CHR ''u''] @ hex04 hi @ [CHR 0x5C, CHR ''u''] @ hex04 lo)
         else [CHR 0x5C, CHR ''u''] @ hex04 r)
      else [char_of r])"

definition jsonString :: "string \<Rightarrow> string" where
  "jsonString s = [CHR 0x22] @ concat (map json_rune (runes s)) @ [CHR 0x22]"

text \<open>A quoted member name and its colon, and the values between commas.\<close>

definition member :: "string \<Rightarrow> string" where
  "member name = [CHR 0x22] @ name @ [CHR 0x22, CHR '':'']"

fun commas :: "string list \<Rightarrow> string" where
  "commas [] = []"
| "commas [s] = s"
| "commas (s # ss) = s @ '','' @ commas ss"

definition format_bool :: "bool \<Rightarrow> string" where
  "format_bool b = (if b then ''true'' else ''false'')"

definition event_json :: "bundle_event \<Rightarrow> string" where
  "event_json e =
     [CHR 0x7B] @ member ''event'' @ jsonString (b64_encode (Canonical (be_event e))) @
     (if Sequenced e then '','' @ member ''leaf'' @ format_int (be_leaf e) else []) @
     (if be_proven e then
        '','' @ member ''proof'' @ ''['' @ commas (map (\<lambda>h. jsonString (b64_encode h)) (be_proof e)) @ '']''
      else []) @
     '','' @ member ''proven'' @ format_bool (be_proven e) @
     (case be_salt e of None \<Rightarrow> [] | Some salt \<Rightarrow> '','' @ member ''salt'' @ jsonString (b64_encode salt)) @
     '','' @ member ''seq'' @ format_int (e_sequence (be_event e)) @
     '','' @ member ''sequenced'' @ format_bool (Sequenced e) @
     '','' @ member ''shredded'' @ format_bool (be_shredded e) @
     '','' @ member ''spki'' @ jsonString (b64_encode (be_spki e)) @ [CHR 0x7D]"

definition PageJSON :: "page \<Rightarrow> string" where
  "PageJSON p =
     [CHR 0x7B] @ member ''address'' @ jsonString (p_address p) @
     '','' @ member ''after_seq'' @ format_int (p_afterSeq p) @
     '','' @ member ''checkpoint'' @ jsonString (p_checkpoint p) @
     '','' @ member ''events'' @ ''['' @ commas (map event_json (p_events p)) @
     '']'' @ '','' @ member ''format'' @ jsonString BundleFormat @
     '','' @ member ''fqdn'' @ jsonString (p_fqdn p) @
     '','' @ member ''identity_ref'' @ jsonString (p_identityRef p) @
     '','' @ member ''key_chain'' @ jsonString (p_keyChain p) @
     (case p_nextAfterSeq p of None \<Rightarrow> [] | Some n \<Rightarrow> '','' @ member ''next_after_seq'' @ format_int n) @
     [CHR 0x7D]"

end
