(* ===== verification/KelVerify.thy ===== *)
theory KelVerify
  imports KelHead KelCheckpoint KelBundle
begin

text \<open>
  \<open>internal/kel/verify.go\<close>: the owner's checks over a bundle's pages, in the code's order.
  Ed25519, P-256 and the lower-casing of non-ASCII text are parameters, as is \<open>Witnessed\<close>
  (a function the caller supplies). The text of a result's reason is not modelled. The lemmas say
  what a valid result means for the events, their proofs and the history.
\<close>

subsection \<open>Results and options\<close>

datatype BundleFailure =
    BundleNoPages | BundleSubjectMismatch | BundlePagesOutOfOrder | BundlePagesSpliced
  | BundleIncomplete | BundleCheckpointUnreadable | BundleCheckpointUnverified | BundleBadInclusion
  | BundleChainInvalid | BundleKeyChainMismatch | BundleHeadRejected

datatype InclusionState = ProofProven | ProofUnproven | ProofWithheld | ProofUnsequenced | ProofShredded

record event_proof_entry =
  ep_sequence :: int
  ep_leaf :: int
  ep_state :: InclusionState

record subject =
  s_address :: string
  s_fqdn :: string

record verify_options =
  vo_head :: "head option"
  vo_nowMillis :: int
  vo_headSeenMillis :: int
  vo_lagWindowMillis :: int
  vo_logKey :: "log_key option"
  vo_logKeys :: "log_key option list"
  vo_witnessed :: "(string \<Rightarrow> bool) option"

record bundle_result =
  br_valid :: bool
  br_failure :: "BundleFailure option"
  br_hosted :: bool
  br_walk :: "walk option"
  br_head :: "Verdict option"
  br_proofs :: "event_proof_entry list"
  br_checkpointsSigned :: bool
  br_checkpointsWitnessed :: bool

definition logKeys :: "verify_options \<Rightarrow> log_key option list" where
  "logKeys opts = (case vo_logKey opts of None \<Rightarrow> vo_logKeys opts | Some k \<Rightarrow> Some k # vo_logKeys opts)"

text \<open>\<open>Inl None\<close> is the nil error of an empty key list.\<close>

fun verifyUnder ::
  "ed25519 \<Rightarrow> string \<Rightarrow> log_key option list \<Rightarrow> checkpoint_error option \<Rightarrow> checkpoint_error option + tree_head" where
  "verifyUnder ed25519 note [] lst = Inl lst"
| "verifyUnder ed25519 note (k # ks) lst =
     (case VerifyCheckpoint ed25519 note k of
        Inr cp \<Rightarrow> Inr cp
      | Inl x \<Rightarrow> verifyUnder ed25519 note ks (Some x))"

definition FullyProven :: "bundle_result \<Rightarrow> bool" where
  "FullyProven r =
     (if \<not> br_valid r \<or> \<not> br_checkpointsSigned r then False
      else list_all (\<lambda>p. ep_state p = ProofProven) (br_proofs r))"

definition bundle_KeyAuthorised :: "bundle_result \<Rightarrow> bool" where
  "bundle_KeyAuthorised r \<longleftrightarrow>
     br_valid r \<and> (case br_walk r of None \<Rightarrow> False | Some w \<Rightarrow> KeyAuthorised w)"

definition Breaks :: "bundle_result \<Rightarrow> authority_break list" where
  "Breaks r = (case br_walk r of None \<Rightarrow> [] | Some w \<Rightarrow> if \<not> w_valid w then [] else w_breaks w)"

definition bundleFail :: "BundleFailure \<Rightarrow> bool \<Rightarrow> Verdict option \<Rightarrow> event_proof_entry list \<Rightarrow> bundle_result" where
  "bundleFail f hosted v proofs =
     \<lparr>br_valid = False, br_failure = Some f, br_hosted = hosted, br_walk = None, br_head = v,
      br_proofs = proofs, br_checkpointsSigned = False, br_checkpointsWitnessed = False\<rparr>"

subsection \<open>The subject and the pages\<close>

definition subjectAddr :: "string \<Rightarrow> ip_addr option" where
  "subjectAddr s =
     (case ParseAddr (trim_space s) of
        None \<Rightarrow> None
      | Some a \<Rightarrow> if \<not> Is6 a \<or> Zone a \<noteq> [] then None else Some a)"

definition trim_suffix_dot :: "string \<Rightarrow> string" where
  "trim_suffix_dot s = (if s \<noteq> [] \<and> last s = CHR ''.'' then butlast s else s)"

definition subjectName :: "(string \<Rightarrow> string) \<Rightarrow> string \<Rightarrow> string" where
  "subjectName uni s = trim_suffix_dot (to_lower uni (trim_space s))"

text \<open>One turn of the first loop: the failure of page \<open>p\<close>, if any.\<close>

definition page_failure ::
  "(string \<Rightarrow> string) \<Rightarrow> 128 word \<Rightarrow> string \<Rightarrow> page \<Rightarrow> bool \<Rightarrow> int \<Rightarrow> page \<Rightarrow> BundleFailure option" where
  "page_failure uni want16 fqdn first final expectAfter p =
     (if (case subjectAddr (p_address p) of None \<Rightarrow> True | Some pa \<Rightarrow> As16 pa \<noteq> want16) \<or>
         subjectName uni (p_fqdn p) \<noteq> fqdn then Some BundleSubjectMismatch
      else if p_identityRef p \<noteq> p_identityRef first \<or>
         (p_keyChain p = ''hosted'') \<noteq> (p_keyChain first = ''hosted'') then Some BundlePagesSpliced
      else if p_afterSeq p \<noteq> expectAfter then Some BundlePagesOutOfOrder
      else if p_nextAfterSeq p = None \<and> \<not> final then Some BundlePagesOutOfOrder
      else if list_ex (\<lambda>e. IsV2 (be_event e) \<and> e_addr (be_event e) \<noteq> want16) (p_events p)
        then Some BundleSubjectMismatch
      else None)"

fun check_pages ::
  "(string \<Rightarrow> string) \<Rightarrow> 128 word \<Rightarrow> string \<Rightarrow> page \<Rightarrow> int \<Rightarrow> page list \<Rightarrow> BundleFailure option" where
  "check_pages uni want16 fqdn first expectAfter [] = None"
| "check_pages uni want16 fqdn first expectAfter (p # ps) =
     (case page_failure uni want16 fqdn first (ps = []) expectAfter p of
        Some f \<Rightarrow> Some f
      | None \<Rightarrow>
          check_pages uni want16 fqdn first
            (case p_nextAfterSeq p of None \<Rightarrow> expectAfter | Some n \<Rightarrow> n) ps)"

subsection \<open>Proofs\<close>

definition included :: "bundle_event \<Rightarrow> tree_head option \<Rightarrow> bool" where
  "included e cp =
     (case (cp, be_salt e) of
        (Some cp, Some salt) \<Rightarrow>
          if be_leaf e < 0 \<or> be_leaf e \<ge> int (th_treeSize cp) then False
          else VerifyInclusion (LeafHash salt (Canonical (be_event e))) (nat (be_leaf e)) (th_treeSize cp)
                 (be_proof e) (th_root cp) = Some None
      | _ \<Rightarrow> False)"

text \<open>The proof state of one event under its page's checkpoint; \<open>None\<close> is a failed proof.\<close>

definition proof_state :: "tree_head option \<Rightarrow> bundle_event \<Rightarrow> event_proof_entry option" where
  "proof_state cp e =
     (let seq = e_sequence (be_event e) in
      if be_proven e then
        (if \<not> included e cp then None
         else Some \<lparr>ep_sequence = seq, ep_leaf = be_leaf e, ep_state = ProofProven\<rparr>)
      else if be_shredded e then Some \<lparr>ep_sequence = seq, ep_leaf = be_leaf e, ep_state = ProofShredded\<rparr>
      else if \<not> Sequenced e then Some \<lparr>ep_sequence = seq, ep_leaf = -1, ep_state = ProofUnsequenced\<rparr>
      else if (case cp of None \<Rightarrow> False | Some cp \<Rightarrow> be_leaf e < int (th_treeSize cp))
        then Some \<lparr>ep_sequence = seq, ep_leaf = be_leaf e, ep_state = ProofWithheld\<rparr>
      else Some \<lparr>ep_sequence = seq, ep_leaf = be_leaf e, ep_state = ProofUnproven\<rparr>)"

fun prove_events ::
  "tree_head option \<Rightarrow> bundle_event list \<Rightarrow> event_proof_entry list \<Rightarrow> event_proof_entry list + event_proof_entry list" where
  "prove_events cp [] proofs = Inr proofs"
| "prove_events cp (e # es) proofs =
     (case proof_state cp e of
        None \<Rightarrow> Inl proofs
      | Some ep \<Rightarrow> prove_events cp es (proofs @ [ep]))"

text \<open>The checkpoint of a page: \<open>Inl\<close> when keys are given and none signs it.\<close>

definition page_checkpoint ::
  "ed25519 \<Rightarrow> log_key option list \<Rightarrow> page \<Rightarrow> BundleFailure + tree_head option" where
  "page_checkpoint ed25519 keys p =
     (if p_checkpoint p = [] then Inr None
      else if keys = [] then
        (case ParseCheckpointNote (p_checkpoint p) of Inl _ \<Rightarrow> Inr None | Inr cp \<Rightarrow> Inr (Some cp))
      else
        (case verifyUnder ed25519 (p_checkpoint p) keys None of
           Inl _ \<Rightarrow> Inl BundleCheckpointUnverified
         | Inr cp \<Rightarrow> Inr (Some cp)))"

record prove_state =
  ps_proofs :: "event_proof_entry list"
  ps_links :: "link list"
  ps_witnessed :: bool
  ps_anyChecked :: bool

text \<open>One turn of the second loop: the state after the page, or the failure and the proofs so far.\<close>

definition prove_page ::
  "ed25519 \<Rightarrow> verify_options \<Rightarrow> prove_state \<Rightarrow> page \<Rightarrow> BundleFailure \<times> event_proof_entry list + prove_state" where
  "prove_page ed25519 opts s p =
     (case page_checkpoint ed25519 (logKeys opts) p of
        Inl f \<Rightarrow> Inl (f, ps_proofs s)
      | Inr cp \<Rightarrow>
          (let anyProven = list_ex be_proven (p_events p) in
           if anyProven \<and> cp = None then Inl (BundleCheckpointUnreadable, ps_proofs s)
           else
             (case prove_events cp (p_events p) (ps_proofs s) of
                Inl proofs \<Rightarrow> Inl (BundleBadInclusion, proofs)
              | Inr proofs \<Rightarrow>
                  Inr \<lparr>ps_proofs = proofs, ps_links = ps_links s @ map be_Link (p_events p),
                       ps_witnessed =
                         (if anyProven \<and> ps_witnessed s
                          then (case vo_witnessed opts of None \<Rightarrow> True | Some w \<Rightarrow> w (p_checkpoint p))
                          else ps_witnessed s),
                       ps_anyChecked = ps_anyChecked s \<or> anyProven\<rparr>)))"

fun prove_pages ::
  "ed25519 \<Rightarrow> verify_options \<Rightarrow> prove_state \<Rightarrow> page list \<Rightarrow> BundleFailure \<times> event_proof_entry list + prove_state" where
  "prove_pages ed25519 opts s [] = Inr s"
| "prove_pages ed25519 opts s (p # ps) =
     (case prove_page ed25519 opts s p of
        Inl x \<Rightarrow> Inl x
      | Inr s' \<Rightarrow> prove_pages ed25519 opts s' ps)"

subsection \<open>The bundle\<close>

text \<open>
  The last checks, on the links and proofs the pages gave. \<open>None\<close> is the panic of
  \<open>Head.Check\<close> on a head no parser returns.
\<close>

definition finish_bundle ::
  "x509_p256 \<Rightarrow> verify_options \<Rightarrow> page \<Rightarrow> prove_state \<Rightarrow> bundle_result option" where
  "finish_bundle x509 opts lst s =
     (let signed = (logKeys opts \<noteq> [] \<and> ps_anyChecked s);
          wit = (ps_witnessed s \<and> signed);
          walk = WalkChain x509 (ps_links s);
          res = \<lparr>br_valid = False, br_failure = None, br_hosted = False, br_walk = Some walk, br_head = None,
                 br_proofs = ps_proofs s, br_checkpointsSigned = signed, br_checkpointsWitnessed = wit\<rparr>
      in
      if \<not> w_valid walk then Some (res\<lparr>br_failure := Some BundleChainInvalid\<rparr>)
      else
        (case w_head walk of
           None \<Rightarrow> None
         | Some he \<Rightarrow>
             if (if Sealed he then ''sealed'' else ''committed'') \<noteq> p_keyChain lst
               then Some (res\<lparr>br_failure := Some BundleKeyChainMismatch\<rparr>)
             else
               (case (case vo_head opts of
                        None \<Rightarrow> Some (CheckAbsent x509 (ps_links s) (vo_nowMillis opts)
                                  (vo_headSeenMillis opts) (vo_lagWindowMillis opts))
                      | Some h \<Rightarrow> head_Check x509 h (ps_links s) (vo_nowMillis opts)
                                  (vo_headSeenMillis opts) (vo_lagWindowMillis opts)) of
                  None \<Rightarrow> None
                | Some v \<Rightarrow>
                    if \<not> Accepted v then
                      Some (res\<lparr>br_head := Some v, br_failure := Some BundleHeadRejected\<rparr>)
                    else Some (res\<lparr>br_head := Some v, br_valid := True\<rparr>))))"

definition VerifyBundle ::
  "ed25519 \<Rightarrow> x509_p256 \<Rightarrow> (string \<Rightarrow> string) \<Rightarrow> page option list \<Rightarrow> subject \<Rightarrow> verify_options \<Rightarrow>
   bundle_result option" where
  "VerifyBundle ed25519 x509 uni pages subj opts =
     (if pages = [] \<or> None \<in> set pages then Some (bundleFail BundleNoPages False None [])
      else
        (case subjectAddr (s_address subj) of
           None \<Rightarrow> Some (bundleFail BundleSubjectMismatch False None [])
         | Some addr \<Rightarrow>
             (let ps = map the pages; first = hd ps; lst = last ps;
                  hosted = (p_keyChain first = ''hosted'')
              in
              case check_pages uni (As16 addr) (subjectName uni (s_fqdn subj)) first (-1) ps of
                Some f \<Rightarrow> Some (bundleFail f hosted None [])
              | None \<Rightarrow>
                  if p_nextAfterSeq lst \<noteq> None then Some (bundleFail BundleIncomplete hosted None [])
                  else if hosted then
                    (if vo_head opts = None then
                       Some \<lparr>br_valid = True, br_failure = None, br_hosted = True, br_walk = None,
                             br_head = Some VerdictMatch, br_proofs = [], br_checkpointsSigned = False,
                             br_checkpointsWitnessed = False\<rparr>
                     else Some (bundleFail BundleHeadRejected True (Some VerdictBehind) []))
                  else
                    (case prove_pages ed25519 opts
                            \<lparr>ps_proofs = [], ps_links = [], ps_witnessed = vo_witnessed opts \<noteq> None,
                             ps_anyChecked = False\<rparr> ps of
                       Inl (f, proofs) \<Rightarrow> Some (bundleFail f False None proofs)
                     | Inr s \<Rightarrow> finish_bundle x509 opts lst s))))"

subsection \<open>What the loops establish\<close>

lemma prove_events_Inr:
  "prove_events cp es proofs = Inr proofs' \<longleftrightarrow>
     (\<exists>eps. map (proof_state cp) es = map Some eps \<and> proofs' = proofs @ eps)"
proof (induction es arbitrary: proofs)
  case (Cons e es)
  show ?case
  proof (cases "proof_state cp e")
    case (Some ep)
    then show ?thesis by (auto simp: Cons.IH Cons_eq_map_conv)
  qed (auto simp: Cons_eq_map_conv)
qed auto

lemma prove_page_Inr:
  "prove_page ed opts s p = Inr s' \<Longrightarrow>
   \<exists>cp eps. page_checkpoint ed (logKeys opts) p = Inr cp \<and> map (proof_state cp) (p_events p) = map Some eps \<and>
     ps_proofs s' = ps_proofs s @ eps \<and> ps_links s' = ps_links s @ map be_Link (p_events p)"
  by (auto simp: prove_page_def Let_def prove_events_Inr split: sum.splits if_splits)

definition all_links :: "page list \<Rightarrow> link list" where
  "all_links ps = concat (map (\<lambda>p. map be_Link (p_events p)) ps)"

definition all_events :: "page list \<Rightarrow> bundle_event list" where
  "all_events ps = concat (map p_events ps)"

text \<open>Each event, the checkpoint its page gives it, and its entry among the proofs.\<close>

definition proofs_ok :: "ed25519 \<Rightarrow> log_key option list \<Rightarrow> page list \<Rightarrow> event_proof_entry list \<Rightarrow> bool" where
  "proofs_ok ed keys ps proofs \<longleftrightarrow>
     map ep_sequence proofs = map (\<lambda>e. e_sequence (be_event e)) (all_events ps) \<and>
     (\<forall>p \<in> set ps. \<exists>cp. page_checkpoint ed keys p = Inr cp \<and>
        (\<forall>e \<in> set (p_events p). \<exists>ep \<in> set proofs. proof_state cp e = Some ep))"

lemma proof_state_sequence: "proof_state cp e = Some ep \<Longrightarrow> ep_sequence ep = e_sequence (be_event e)"
  by (auto simp: proof_state_def Let_def split: if_splits option.splits)

lemma map_Some_sequence:
  "map (proof_state cp) es = map Some eps \<Longrightarrow>
   map ep_sequence eps = map (\<lambda>e. e_sequence (be_event e)) es"
proof (induction es arbitrary: eps)
  case (Cons e es)
  then show ?case by (auto simp: Cons_eq_map_conv dest: proof_state_sequence)
qed simp

lemma map_Some_in:
  "map f es = map Some eps \<Longrightarrow> e \<in> set es \<Longrightarrow> \<exists>ep \<in> set eps. f e = Some ep"
  by (metis (no_types, lifting) imageE image_eqI list.set_map)

lemma prove_pages_Inr:
  "prove_pages ed opts s ps = Inr s' \<Longrightarrow>
   ps_links s' = ps_links s @ all_links ps \<and>
   (\<exists>eps. ps_proofs s' = ps_proofs s @ eps \<and> proofs_ok ed (logKeys opts) ps eps)"
proof (induction ps arbitrary: s)
  case Nil
  then show ?case by (simp add: all_links_def all_events_def proofs_ok_def)
next
  case (Cons p ps)
  then obtain t where t: "prove_page ed opts s p = Inr t" and ts: "prove_pages ed opts t ps = Inr s'"
    by (auto split: sum.splits)
  from prove_page_Inr [OF t] obtain cp eps where cp: "page_checkpoint ed (logKeys opts) p = Inr cp"
    and m: "map (proof_state cp) (p_events p) = map Some eps"
    and pr: "ps_proofs t = ps_proofs s @ eps" and li: "ps_links t = ps_links s @ map be_Link (p_events p)" by blast
  from Cons.IH [OF ts] obtain eps' where "ps_links s' = ps_links t @ all_links ps"
    and e: "ps_proofs s' = ps_proofs t @ eps'" "proofs_ok ed (logKeys opts) ps eps'" by blast
  moreover have "proofs_ok ed (logKeys opts) (p # ps) (eps @ eps')"
    unfolding proofs_ok_def
  proof (intro conjI)
    show "map ep_sequence (eps @ eps') = map (\<lambda>e. e_sequence (be_event e)) (all_events (p # ps))"
      using e(2) map_Some_sequence [OF m] by (simp add: proofs_ok_def all_events_def)
    show "\<forall>q \<in> set (p # ps). \<exists>cp. page_checkpoint ed (logKeys opts) q = Inr cp \<and>
        (\<forall>e \<in> set (p_events q). \<exists>ep \<in> set (eps @ eps'). proof_state cp e = Some ep)"
    proof
      fix q assume "q \<in> set (p # ps)"
      then consider "q = p" | "q \<in> set ps" by auto
      then show "\<exists>cp. page_checkpoint ed (logKeys opts) q = Inr cp \<and>
          (\<forall>e \<in> set (p_events q). \<exists>ep \<in> set (eps @ eps'). proof_state cp e = Some ep)"
      proof cases
        case 1
        then show ?thesis using cp map_Some_in [OF m] by auto
      next
        case 2
        then show ?thesis using e(2) unfolding proofs_ok_def by fastforce
      qed
    qed
  qed
  ultimately show ?case using pr li by (simp add: all_links_def)
qed


lemma finish_valid:
  assumes "finish_bundle x opts lst s = Some r" and "br_valid r"
  shows "chain_ok x (ps_links s) \<and> br_walk r = Some (WalkChain x (ps_links s)) \<and> br_proofs r = ps_proofs s \<and>
     br_checkpointsSigned r = (logKeys opts \<noteq> [] \<and> ps_anyChecked s) \<and>
     (\<exists>v. br_head r = Some v \<and> Accepted v \<and>
        (case vo_head opts of
           None \<Rightarrow> v = CheckAbsent x (ps_links s) (vo_nowMillis opts) (vo_headSeenMillis opts) (vo_lagWindowMillis opts)
         | Some h \<Rightarrow> head_Check x h (ps_links s) (vo_nowMillis opts) (vo_headSeenMillis opts)
              (vo_lagWindowMillis opts) = Some v))"
  using assms
  by (auto simp: finish_bundle_def Let_def WalkChain_valid split: if_splits option.splits)

lemma VerifyBundle_valid:
  assumes "VerifyBundle ed x uni (map Some ps) subj opts = Some r" and "br_valid r" and "\<not> br_hosted r"
  shows "\<exists>s addr. ps_links s = all_links ps \<and> proofs_ok ed (logKeys opts) ps (ps_proofs s) \<and>
     subjectAddr (s_address subj) = Some addr \<and>
     check_pages uni (As16 addr) (subjectName uni (s_fqdn subj)) (hd ps) (-1) ps = None \<and>
     finish_bundle x opts (last ps) s = Some r"
proof -
  have m: "map (the \<circ> Some) ps = ps" by (simp add: comp_def)
  from assms obtain addr where addr: "subjectAddr (s_address subj) = Some addr"
    by (auto simp: VerifyBundle_def bundleFail_def split: if_splits option.splits)
  from assms addr obtain s where
    c: "check_pages uni (As16 addr) (subjectName uni (s_fqdn subj)) (hd ps) (-1) ps = None"
    and p: "prove_pages ed opts \<lparr>ps_proofs = [], ps_links = [], ps_witnessed = vo_witnessed opts \<noteq> None,
              ps_anyChecked = False\<rparr> ps = Inr s"
    and f: "finish_bundle x opts (last ps) s = Some r"
    by (auto simp: VerifyBundle_def bundleFail_def Let_def m split: if_splits option.splits sum.splits)
  from prove_pages_Inr [OF p] c f addr show ?thesis by auto
qed

subsection \<open>What a valid bundle proves\<close>


lemma verifyUnder_Inr: "verifyUnder ed note keys lst = Inr cp \<Longrightarrow> \<exists>k. Some k \<in> set keys \<and> VerifyCheckpoint ed note (Some k) = Inr cp"
proof (induction keys arbitrary: lst)
  case (Cons k ks)
  show ?case
  proof (cases "VerifyCheckpoint ed note k")
    case (Inl e)
    then show ?thesis using Cons by auto
  next
    case (Inr c)
    then obtain k' where "k = Some k'" by (cases k) (auto simp: VerifyCheckpoint_def)
    then show ?thesis using Cons.prems Inr by auto
  qed
qed simp

lemma proof_state_proven:
  "proof_state cp e = Some ep \<Longrightarrow> ep_state ep = ProofProven \<Longrightarrow> be_proven e \<and> included e cp"
  by (auto simp: proof_state_def Let_def split: if_splits option.splits)

lemma included_Some:
  "included e cp \<longleftrightarrow> (\<exists>c salt. cp = Some c \<and> be_salt e = Some salt \<and> 0 \<le> be_leaf e \<and>
     be_leaf e < int (th_treeSize c) \<and>
     VerifyInclusion (LeafHash salt (Canonical (be_event e))) (nat (be_leaf e)) (th_treeSize c)
       (be_proof e) (th_root c) = Some None)"
  by (auto simp: included_def split: option.splits)

text \<open>
  C9. In a fully proven bundle every event is in the log: its page's checkpoint verifies under
  one of the log keys, its salted leaf hash is included in that checkpoint's tree at its leaf
  index, and for the tree the log really has under that root this is the hash of the leaf at that
  index, unless two node pairs of the check and the tree collide.
\<close>

theorem fully_proven_in_log:
  assumes "VerifyBundle ed x uni (map Some ps) subj opts = Some r" and "FullyProven r"
    and "p \<in> set ps" and "e \<in> set (p_events p)"
  shows "\<exists>k cp salt. Some k \<in> set (logKeys opts) \<and> VerifyCheckpoint ed (p_checkpoint p) (Some k) = Inr cp \<and>
     be_salt e = Some salt \<and> 0 \<le> be_leaf e \<and> be_leaf e < int (th_treeSize cp) \<and>
     VerifyInclusion (LeafHash salt (Canonical (be_event e))) (nat (be_leaf e)) (th_treeSize cp)
       (be_proof e) (th_root cp) = Some None \<and>
     (\<forall>hs. length hs = th_treeSize cp \<and> mth hs = th_root cp \<longrightarrow>
        LeafHash salt (Canonical (be_event e)) = hs ! nat (be_leaf e) \<or>
        node_collision (fold_pairs (tree_sides (nat (be_leaf e)) (th_treeSize cp)) (be_proof e)
            (LeafHash salt (Canonical (be_event e)))) (node_pairs hs))"
proof -
  have v: "br_valid r" "br_checkpointsSigned r" and all: "\<forall>q \<in> set (br_proofs r). ep_state q = ProofProven"
    using assms(2) by (auto simp: FullyProven_def list_all_iff split: if_splits)
  have "\<not> br_hosted r"
    using assms(1) v
    by (auto simp: VerifyBundle_def bundleFail_def finish_bundle_def Let_def split: if_splits option.splits sum.splits)
  from VerifyBundle_valid [OF assms(1) v(1) this] obtain s where
    pr: "proofs_ok ed (logKeys opts) ps (ps_proofs s)" and f: "finish_bundle x opts (last ps) s = Some r" by blast
  have keys: "logKeys opts \<noteq> []" and eq: "br_proofs r = ps_proofs s"
    using finish_valid [OF f v(1)] v(2) by simp_all
  from pr assms(3,4) obtain cp ep where cp: "page_checkpoint ed (logKeys opts) p = Inr cp"
    and ep: "ep \<in> set (ps_proofs s)" "proof_state cp e = Some ep" unfolding proofs_ok_def by blast
  have "included e cp" using proof_state_proven [OF ep(2)] all ep(1) eq by simp
  then obtain c salt where c: "cp = Some c" and inc: "be_salt e = Some salt" "0 \<le> be_leaf e" "be_leaf e < int (th_treeSize c)"
     "VerifyInclusion (LeafHash salt (Canonical (be_event e))) (nat (be_leaf e)) (th_treeSize c)
       (be_proof e) (th_root c) = Some None" by (auto simp: included_Some)
  from cp c keys have "verifyUnder ed (p_checkpoint p) (logKeys opts) None = Inr c"
    by (auto simp: page_checkpoint_def split: if_splits sum.splits)
  from verifyUnder_Inr [OF this] obtain k where "Some k \<in> set (logKeys opts)"
    "VerifyCheckpoint ed (p_checkpoint p) (Some k) = Inr c" by blast
  moreover have "LeafHash salt (Canonical (be_event e)) = hs ! nat (be_leaf e) \<or>
        node_collision (fold_pairs (tree_sides (nat (be_leaf e)) (th_treeSize c)) (be_proof e)
            (LeafHash salt (Canonical (be_event e)))) (node_pairs hs)"
    if "length hs = th_treeSize c \<and> mth hs = th_root c" for hs
    using inclusion_sound [of _ _ hs] inc(4) that by metis
  ultimately show ?thesis using inc by blast
qed

subsection \<open>A bundle that is fully proven\<close>

definition example_key :: log_key where
  "example_key = \<lparr>lk_name = ''k'', lk_public = [], lk_keyID = 0x01020304\<rparr>"

definition example_signature_line :: string where
  "example_signature_line = sigPrefix @ ''k '' @
     ''AQIDBAAAAAAAAAAAAAAAAAAAAAAAAAAAAAAAAAAAAAAAAAAAAAAAAAAAAAAAAAAAAAAAAAAAAAAAAAAAAAAAAAAAAAA=''"

definition signed_event :: event where
  "signed_event = example_event [0x30, 6, 2, 1, 1, 2, 1, 1]"

definition example_root :: bytes where
  "example_root = LeafHash (replicate 32 7) (Canonical signed_event)"

definition example_note :: string where
  "example_note = ''o'' @ newline # ''1'' @ newline # b64_encode example_root @ [newline, newline] @
     example_signature_line @ [newline]"

definition example_page :: page where
  "example_page = \<lparr>p_address = ''::1'', p_fqdn = ''a.'', p_identityRef = ''ref1'', p_keyChain = ''sealed'',
     p_checkpoint = example_note, p_afterSeq = -1, p_nextAfterSeq = None,
     p_events = [\<lparr>be_event = signed_event, be_spki = [1, 2, 3], be_leaf = 0, be_proven = True,
       be_shredded = False, be_salt = Some (replicate 32 7), be_proof = []\<rparr>]\<rparr>"

definition example_subject :: subject where
  "example_subject = \<lparr>s_address = ''0::1'', s_fqdn = ''A''\<rparr>"

definition example_options :: verify_options where
  "example_options = \<lparr>vo_head = None, vo_nowMillis = 5, vo_headSeenMillis = 2, vo_lagWindowMillis = 10,
     vo_logKey = Some example_key, vo_logKeys = [], vo_witnessed = None\<rparr>"

lemma index_of_skip:
  "c \<notin> set xs \<Longrightarrow> index_of (c # p) (xs @ s) = map_option (\<lambda>i. length xs + i) (index_of (c # p) s)"
  by (cases "index_of (c # p) s") (induction xs, auto)+

lemma b64_no_newline: "newline \<notin> set (b64_encode b)"
  using filter_newlines_encode [of b] by (auto simp: filter_id_conv newline_def)

lemma example_note_index:
  "index_of ([newline, newline] @ sigPrefix) example_note = Some (4 + length (b64_encode example_root))"
proof -
  have "b64_encode example_root \<noteq> []"
  proof
    assume "b64_encode example_root = []"
    then have "b64_decode [] = Some example_root" by (metis b64_decode_encode)
    then have "example_root = []" using b64_decode_encode [of "[]"] by simp
    then show False using length_sha256 by (metis LeafHash_def example_root_def list.size(3) zero_neq_numeral)
  qed
  then obtain c cs where b: "b64_encode example_root = c # cs" "c \<noteq> newline"
    using b64_no_newline [of example_root] by (cases "b64_encode example_root") auto
  have p: "index_of (newline # newline # sigPrefix) (newline # newline # sigPrefix @ t) = Some 0" for t
    by (simp add: prefix_def)
  have "newline \<notin> set (c # cs)" using b64_no_newline [of example_root] b by simp
  from index_of_skip [OF this, of "newline # sigPrefix" "newline # newline # sigPrefix @ t" for t] p
  have i: "index_of (newline # newline # sigPrefix) (c # cs @ newline # newline # sigPrefix @ t) = Some (Suc (length cs))" for t
    by simp
  have n: "CHR ''o'' \<noteq> newline" "CHR ''1'' \<noteq> newline" by (simp_all add: newline_def)
  show ?thesis
    using n n [symmetric] b(2) b(2) [symmetric]
    by (simp add: example_note_def example_signature_line_def b i del: index_of.simps add: index_of.simps(2) [of _ "CHR ''o''"]
        index_of.simps(2) [of _ newline] index_of.simps(2) [of _ "CHR ''1''"])
qed

lemma example_line: "key_line example_key example_signature_line =
    Some (''AQIDBAAAAAAAAAAAAAAAAAAAAAAAAAAAAAAAAAAAAAAAAAAAAAAAAAAAAAAAAAAAAAAAAAAAAAAAAAAAAAAAAAAAAAA='', [1, 2, 3, 4] @ replicate 64 0)"
  unfolding example_signature_line_def example_key_def by code_simp

definition accept_all :: ed25519 where "accept_all = (\<lambda>_ _ _. True)"

lemma example_checkpoint:
  "VerifyCheckpoint accept_all example_note (Some example_key) =
     Inr \<lparr>th_origin = ''o'', th_treeSize = 1, th_root = example_root\<rparr>"
proof -
  let ?b = "b64_encode example_root"
  let ?body = "''o'' @ newline # ''1'' @ newline # ?b @ [newline]"
  have split: "example_note = ?body @ newline # example_signature_line @ [newline]"
    and len: "length ?body = Suc (4 + length ?b)" by (simp_all add: example_note_def)
  have take: "take (Suc (4 + length ?b)) example_note = ?body"
    unfolding len [symmetric] split by (simp only: append_eq_conv_conj [THEN iffD1, OF refl, THEN conjunct1, symmetric])
  have drop: "drop (Suc (Suc (4 + length ?b))) example_note = example_signature_line @ [newline]"
  proof -
    have "drop (Suc (length ?body)) example_note = example_signature_line @ [newline]"
      unfolding split by (simp only: drop_append) simp
    then show ?thesis unfolding len .
  qed
  have n: "CHR ''o'' \<noteq> newline" "CHR ''1'' \<noteq> newline" by (simp_all add: newline_def)
  have "newline \<notin> set example_signature_line"
    by (simp add: example_signature_line_def sigPrefix_def newline_def)
  then have lines: "split_on newline (example_signature_line @ [newline]) = [example_signature_line, []]"
    by (simp add: split_on_append)
  have empty: "key_line example_key [] = None" by (simp add: key_line_def sigPrefix_def)
  have root: "length example_root = 32" by (simp add: example_root_def LeafHash_def)
  have "split_on newline (''o'' @ newline # ''1'' @ newline # ?b @ [newline]) = [''o'', ''1'', ?b, []]"
    using n b64_no_newline [of example_root] by (simp add: split_on_append [of newline "[_]"] split_on_append)
  moreover have "dec_nat 1 = ''1''" by (simp add: dec_nat.simps digit_char_def)
  ultimately have "states_head (''o'' @ newline # ''1'' @ newline # ?b @ [newline])
      \<lparr>th_origin = ''o'', th_treeSize = 1, th_root = example_root\<rparr>"
    using root by (simp add: states_head_def)
  moreover have "signature_ok accept_all example_key body
      (''AQIDBAAAAAAAAAAAAAAAAAAAAAAAAAAAAAAAAAAAAAAAAAAAAAAAAAAAAAAAAAAAAAAAAAAAAAAAAAAAAAAAAAAAAAA='', [1, 2, 3, 4] @ replicate 64 0)" for body
  proof -
    have "b64_encode ([1, 2, 3, 4] @ replicate 64 0) = ''AQIDBAAAAAAAAAAAAAAAAAAAAAAAAAAAAAAAAAAAAAAAAAAAAAAAAAAAAAAAAAAAAAAAAAAAAAAAAAAAAAAAAAAAAAA=''" by code_simp
    then show ?thesis by (simp add: signature_ok_def accept_all_def)
  qed
  moreover have "take (4 + length ?b + 1) example_note = ?body"
      "drop (4 + length ?b + 2) example_note = example_signature_line @ [newline]"
    using take drop by simp_all
  ultimately have "(let body = take (4 + length ?b + 1) example_note;
      sigs = List.map_filter (key_line example_key) (split_on newline (drop (4 + length ?b + 2) example_note))
    in sigs \<noteq> [] \<and> list_all (signature_ok accept_all example_key body) sigs \<and>
       states_head body \<lparr>th_origin = ''o'', th_treeSize = 1, th_root = example_root\<rparr>)"
    by (simp add: lines map_filter_simps example_line empty)
  then show ?thesis unfolding VerifyCheckpoint_Inr using example_note_index by blast
qed

text \<open>The parts of the run: the pages, the proof, the walk and the comparison.\<close>

lemma example_chain_ok: "chain_ok any_key [\<lparr>l_event = Some signed_event, l_spki = [1, 2, 3]\<rparr>]"
proof -
  have d: "parseDER [0x30, 6, 2, 1, 1, 2, 1, 1] = Some (1, 1)" by code_simp
  have "IsBirthNonce ''birth:5:00112233445566778899aabbccddeeff''" by code_simp
  with d show ?thesis
    by (auto simp: chain_ok_single signed_event_def example_event_def proven_def IsV2_def V2_def Signed_def
        event_Statement_def Statement_Bytes_def VerifySignature_def ParseSPKI_def any_key_def MaxSPKIDER_def
        halfN_def p256N_def KeyDigest_def isOptionalDigest_def Let_def)
qed

lemma example_pages: "check_pages uni 1 ''a'' example_page (-1) [example_page] = None"
proof -
  have "subjectAddr ''::1'' = Some (Addr6 1 [])" by code_simp
  moreover have "subjectName uni ''a.'' = ''a''"
  proof -
    have "trim_space ''a.'' = ''a.''" "list_all is_ascii ''a.''" "map lower_char ''a.'' = ''a.''" by code_simp+
    then show ?thesis by (simp add: subjectName_def to_lower_def trim_suffix_dot_def)
  qed
  ultimately show ?thesis
    by (simp add: page_failure_def example_page_def As16_def signed_event_def example_event_def)
qed

lemma example_included:
  "included \<lparr>be_event = signed_event, be_spki = [1, 2, 3], be_leaf = 0, be_proven = True,
       be_shredded = False, be_salt = Some (replicate 32 7), be_proof = []\<rparr>
     (Some \<lparr>th_origin = ''o'', th_treeSize = 1, th_root = example_root\<rparr>)"
  by (simp add: included_def example_root_def VerifyInclusion_def LeafHash_def)

lemma example_bundle:
  "\<exists>r. VerifyBundle accept_all any_key uni (map Some [example_page]) example_subject example_options = Some r \<and>
     FullyProven r \<and> \<not> br_hosted r"
proof -
  have a: "subjectAddr ''0::1'' = Some (Addr6 1 [])" by code_simp
  have n: "subjectName uni ''A'' = ''a''"
  proof -
    have "trim_space ''A'' = ''A''" "list_all is_ascii ''A''" "map lower_char ''A'' = ''a''" by code_simp+
    then show ?thesis by (simp add: subjectName_def to_lower_def trim_suffix_dot_def)
  qed
  have keys: "logKeys example_options = [Some example_key]"
    by (simp add: logKeys_def example_options_def)
  have cp: "page_checkpoint accept_all [Some example_key] example_page =
      Inr (Some \<lparr>th_origin = ''o'', th_treeSize = 1, th_root = example_root\<rparr>)"
    by (simp add: page_checkpoint_def example_page_def example_checkpoint) (simp add: example_note_def)
  have pr: "prove_pages accept_all example_options \<lparr>ps_proofs = [], ps_links = [], ps_witnessed = False, ps_anyChecked = False\<rparr>
      [example_page] = Inr \<lparr>ps_proofs = [\<lparr>ep_sequence = 0, ep_leaf = 0, ep_state = ProofProven\<rparr>],
        ps_links = [\<lparr>l_event = Some signed_event, l_spki = [1, 2, 3]\<rparr>], ps_witnessed = False, ps_anyChecked = True\<rparr>"
    using example_included
    by (simp add: prove_page_def keys cp)
      (simp add: example_page_def proof_state_def be_Link_def signed_event_def example_event_def)
  have ab: "CheckAbsent any_key [\<lparr>l_event = Some signed_event, l_spki = [1, 2, 3]\<rparr>] 5 2 10 = VerdictLagging"
  proof -
    have "i64 3 = 3" by (simp add: is_i64_def)
    then show ?thesis
      using example_chain_ok
      by (simp add: CheckAbsent_def WalkChain_valid lagged_def signed_event_def example_event_def IsV2_def)
  qed
  have sealed: "Sealed signed_event" by (simp add: Sealed_def signed_event_def example_event_def)
  let ?r = "\<lparr>br_valid = True, br_failure = None, br_hosted = False,
      br_walk = Some (WalkChain any_key [\<lparr>l_event = Some signed_event, l_spki = [1, 2, 3]\<rparr>]),
      br_head = Some VerdictLagging, br_proofs = [\<lparr>ep_sequence = 0, ep_leaf = 0, ep_state = ProofProven\<rparr>],
      br_checkpointsSigned = True, br_checkpointsWitnessed = False\<rparr>"
  have fp: "FullyProven ?r \<and> \<not> br_hosted ?r" by (simp add: FullyProven_def)
  from ab sealed have fin: "finish_bundle any_key example_options example_page
      \<lparr>ps_proofs = [\<lparr>ep_sequence = 0, ep_leaf = 0, ep_state = ProofProven\<rparr>],
        ps_links = [\<lparr>l_event = Some signed_event, l_spki = [1, 2, 3]\<rparr>], ps_witnessed = False,
        ps_anyChecked = True\<rparr> = Some ?r"
    by (simp add: finish_bundle_def Let_def WalkChain_Inr [OF example_chain_ok] keys)
      (simp add: example_options_def example_page_def Accepted_def)
  have "p_keyChain example_page \<noteq> ''hosted''" "p_nextAfterSeq example_page = None" by (simp_all add: example_page_def)
  moreover have "vo_witnessed example_options = None" by (simp add: example_options_def)
  ultimately have "VerifyBundle accept_all any_key uni (map Some [example_page]) example_subject example_options = Some ?r"
    using example_pages [of uni] a n pr fin by (simp add: VerifyBundle_def example_subject_def As16_def Let_def)
  with fp show ?thesis by blast
qed

theorem fully_proven_in_log_witness:
  "\<exists>k cp salt. Some k \<in> set (logKeys example_options) \<and>
     VerifyCheckpoint accept_all (p_checkpoint example_page) (Some k) = Inr cp \<and>
     be_salt (hd (p_events example_page)) = Some salt"
proof -
  obtain r where "VerifyBundle accept_all any_key id (map Some [example_page]) example_subject example_options = Some r"
    "FullyProven r" using example_bundle by blast
  from fully_proven_in_log [OF this, of example_page "hd (p_events example_page)"]
  show ?thesis by (auto simp: example_page_def)
qed


end
