(* ===== verification/EnfChecksum.thy ===== *)
theory EnfChecksum
  imports WPrelude
begin

text \<open>
  \<open>internal/enforce/checksum.go\<close>: the Internet checksum on 32-bit words as the code sums
  and folds it, the two pseudo-headers, and the two routines that write a checksum into a packet.
  The lemmas relate the wrapped words to the sum of the 16-bit groups and show that what was
  written is what a receiver accepts.
\<close>

subsection \<open>The sums\<close>

fun sum32 :: "32 word \<Rightarrow> bytes \<Rightarrow> 32 word" where
  "sum32 acc [] = acc"
| "sum32 acc [x] = acc + push_bit 8 (ucast x)"
| "sum32 acc (x # y # r) = sum32 (acc + (push_bit 8 (ucast x) OR ucast y)) r"

lemma fold_step_less:
  assumes "drop_bit 16 acc \<noteq> 0"
  shows "unat ((acc AND 0xFFFF) + drop_bit 16 (acc :: 32 word)) = unat acc mod 65536 + unat acc div 65536"
    and "unat ((acc AND 0xFFFF) + drop_bit 16 acc) < unat acc"
proof -
  have m: "acc AND 0xFFFF = take_bit 16 acc"
    by (simp add: take_bit_eq_mask mask_eq_exp_minus_1 del: take_bit_eq_mod)
  have t: "unat (take_bit 16 acc) = unat acc mod 65536" using unat_take_bit [of 16 acc] by simp
  have d: "unat (drop_bit 16 acc) = unat acc div 65536" using unat_drop_bit [of 16 acc] by simp
  have "unat acc mod 65536 + unat acc div 65536 < 2 ^ 32" using unat_bound [of acc] by simp
  then show e: "unat ((acc AND 0xFFFF) + drop_bit 16 acc) = unat acc mod 65536 + unat acc div 65536"
    unfolding m by (simp only: unat_word_ariths t d len_num1 len_num0 len_bit0 len_bit1) simp
  have "unat acc div 65536 \<noteq> 0" using assms d by (metis unat_eq_zero)
  moreover have "unat acc div 65536 * 65536 + unat acc mod 65536 = unat acc" by (rule div_mult_mod_eq)
  ultimately show "unat ((acc AND 0xFFFF) + drop_bit 16 acc) < unat acc" unfolding e by linarith
qed

function fold16 :: "32 word \<Rightarrow> 16 word" where
  "fold16 acc = (if drop_bit 16 acc \<noteq> 0 then fold16 ((acc AND 0xFFFF) + drop_bit 16 acc) else NOT (ucast acc))"
  by auto
termination
  by (relation "measure unat") (simp, simp only: in_measure, rule fold_step_less(2))

declare fold16.simps [simp del]

definition pseudo6 :: "bytes \<Rightarrow> bytes \<Rightarrow> byte \<Rightarrow> nat \<Rightarrow> 32 word" where
  "pseudo6 src dst proto len =
     sum32 (sum32 0 src) dst + (word_of_nat (len div 65536) + word_of_nat (len mod 65536)) + ucast proto"

definition pseudo4 :: "bytes \<Rightarrow> bytes \<Rightarrow> byte \<Rightarrow> nat \<Rightarrow> 32 word" where
  "pseudo4 src dst proto len = sum32 (sum32 0 src) dst + ucast proto + word_of_nat (len mod 65536)"

definition protoICMP :: byte where "protoICMP = 1"
definition protoTCP :: byte where "protoTCP = 6"
definition protoUDP :: byte where "protoUDP = 17"
definition protoFrag6 :: byte where "protoFrag6 = 44"
definition protoICMPv6 :: byte where "protoICMPv6 = 58"

lemmas proto_defs = protoICMP_def protoTCP_def protoUDP_def protoFrag6_def protoICMPv6_def

text \<open>The offset of the checksum and the shortest header that reaches it.\<close>

definition l4ChecksumOffset :: "byte \<Rightarrow> (nat \<times> nat) option" where
  "l4ChecksumOffset proto =
     (if proto = protoTCP then Some (16, 20)
      else if proto = protoUDP then Some (6, 8)
      else if proto = protoICMP \<or> proto = protoICMPv6 then Some (2, 8)
      else None)"

definition put16 :: "nat \<Rightarrow> 16 word \<Rightarrow> bytes \<Rightarrow> bytes" where
  "put16 off w b = b[off := ucast (drop_bit 8 w), off + 1 := ucast w]"

definition setL4Checksum :: "bytes \<Rightarrow> byte \<Rightarrow> 32 word \<Rightarrow> bytes \<times> bool" where
  "setL4Checksum seg proto pseudo =
     (case l4ChecksumOffset proto of
        None \<Rightarrow> (seg, False)
      | Some (off, mn) \<Rightarrow>
          if length seg < mn then (seg, False)
          else
            (let seg0 = put16 off 0 seg; c = fold16 (sum32 pseudo seg0);
                 c' = (if proto = protoUDP \<and> c = 0 then 0xFFFF else c)
             in (put16 off c' seg0, True)))"

definition setIPv4HeaderChecksum :: "bytes \<Rightarrow> nat \<Rightarrow> bytes" where
  "setIPv4HeaderChecksum h hlen =
     (let h0 = put16 10 0 h in put16 10 (fold16 (sum32 0 (take hlen h0))) h0)"

subsection \<open>The sum of the groups\<close>

text \<open>The 16-bit groups of a byte string, the last one padded, added without a bound.\<close>

fun groups16 :: "bytes \<Rightarrow> nat" where
  "groups16 [] = 0"
| "groups16 [x] = 256 * unat x"
| "groups16 (x # y # r) = 256 * unat x + unat y + groups16 r"

lemma unat_group: "unat (push_bit 8 (ucast (x :: byte)) OR ucast (y :: byte) :: 32 word) = 256 * unat x + unat y"
proof -
  have "push_bit 8 (ucast x) OR ucast y = push_bit 8 (ucast x) + (ucast y :: 32 word)"
    by (rule disjunctive_add [symmetric]) (auto simp: bit_simps dest: bit_imp_le_length)
  moreover have "unat x < 256" "unat y < 256" using unat_bound [of x] unat_bound [of y] by simp_all
  moreover from this have "unat (push_bit 8 (ucast x) :: 32 word) = 256 * unat x" "unat (ucast y :: 32 word) = unat y"
    unfolding unat_push_bit unat_ucast by simp_all
  ultimately show ?thesis by (simp only: unat_word_ariths) simp
qed

lemma unat_sum32:
  "unat acc + groups16 b < 2 ^ 32 \<Longrightarrow> unat (sum32 acc b) = unat acc + groups16 b"
proof (induction acc b rule: sum32.induct)
  case (2 acc x)
  then show ?case using unat_group [of x 0] by (simp add: unat_word_ariths)
next
  case (3 acc x y r)
  from 3(2) have u: "unat (acc + (push_bit 8 (ucast x) OR ucast y)) = unat acc + (256 * unat x + unat y)"
    by (simp add: unat_word_ariths unat_group)
  with 3 show ?case by simp
qed simp

lemma groups16_append: "even (length a) \<Longrightarrow> groups16 (a @ b) = groups16 a + groups16 b"
  by (induction a rule: groups16.induct) simp_all

lemma groups16_bound: "groups16 b \<le> 65535 * ((length b + 1) div 2)"
proof (induction b rule: groups16.induct)
  case (2 x)
  have "unat x < 2 ^ LENGTH(8)" by (rule unsigned_less)
  then show ?case by simp
next
  case (3 x y r)
  have "unat x < 2 ^ LENGTH(8)" "unat y < 2 ^ LENGTH(8)" by (rule unsigned_less)+
  with 3 show ?case by simp
qed simp

text \<open>What folding leaves: the one's complement of the sum modulo 65535, zero only for zero.\<close>

definition ones_sum :: "nat \<Rightarrow> nat" where
  "ones_sum n = (if n = 0 then 0 else Suc ((n - 1) mod 65535))"

lemma ones_sum_small: "n < 65536 \<Longrightarrow> ones_sum n = n"
  by (cases n) (simp_all add: ones_sum_def)

lemma ones_sum_step: "ones_sum (n mod 65536 + n div 65536) = ones_sum n"
proof (cases "n = 0")
  case False
  define q r where "q = n div 65536" "r = n mod 65536"
  have "q * 65536 + r = n" unfolding q_r_def by (rule div_mult_mod_eq)
  then have n: "n = r + q + 65535 * q" by simp
  with False have "0 < r + q" by (cases "r + q") auto
  with n have "n - 1 = (r + q - 1) + 65535 * q" by simp
  then have "(n - 1) mod 65535 = (r + q - 1) mod 65535" by (metis mod_mult_self2)
  with False \<open>0 < r + q\<close> show ?thesis unfolding q_r_def [symmetric] by (simp add: ones_sum_def)
qed simp

lemma ones_sum_le: "ones_sum n \<le> 65535"
proof (cases "n = 0")
  case False
  have "Suc ((n - 1) mod 65535) \<le> 65535" by (rule Suc_leI, rule mod_less_divisor) simp
  with False show ?thesis unfolding ones_sum_def by (simp only: if_False)
qed (simp add: ones_sum_def)

lemma ones_sum_period: "0 < n \<Longrightarrow> ones_sum (n + 65535) = ones_sum n"
proof -
  assume "0 < n"
  then have "n + 65535 - 1 = (n - 1) + 65535" by simp
  then have "(n + 65535 - 1) mod 65535 = (n - 1) mod 65535" by (metis mod_add_self2)
  with \<open>0 < n\<close> show ?thesis by (simp add: ones_sum_def)
qed

lemma ones_sum_multiple: "ones_sum (65535 * Suc k) = 65535"
proof (induction k)
  case (Suc k)
  have "65535 * Suc (Suc k) = 65535 * Suc k + 65535" by simp
  moreover have "0 < 65535 * Suc k" by simp
  ultimately show ?case using ones_sum_period [of "65535 * Suc k"] Suc by (simp only:)
qed (use ones_sum_small [of 65535] in simp)

lemma ones_sum_complement: "ones_sum (n + (65535 - ones_sum n)) = 65535"
proof (cases "n = 0")
  case False
  define k r where "k = (n - 1) div 65535" "r = (n - 1) mod 65535"
  have "k * 65535 + r = n - 1" unfolding k_r_def by (rule div_mult_mod_eq)
  with False have n: "n = 65535 * k + Suc r" by simp
  have o: "ones_sum n = Suc r" using False by (simp add: ones_sum_def k_r_def)
  have "Suc r \<le> 65535" using ones_sum_le [of n] o by simp
  with n o have "n + (65535 - ones_sum n) = 65535 * Suc k" by simp
  then show ?thesis by (simp only: ones_sum_multiple)
qed (simp add: ones_sum_def)

lemma unat_NOT16: "unat (NOT w) = 65535 - unat (w :: 16 word)"
proof -
  have "NOT w = - 1 - w" by (simp add: not_eq_complement)
  moreover have "w \<le> - 1" by simp
  ultimately have "unat (NOT w) = unat (- 1 :: 16 word) - unat w" by (simp only: unat_sub)
  then show ?thesis by (simp add: unsigned_minus_1_eq_mask mask_eq_exp_minus_1)
qed

lemma unat_fold16: "unat (fold16 acc) = 65535 - ones_sum (unat acc)"
proof (induction acc rule: fold16.induct)
  case (1 acc)
  show ?case
  proof (cases "drop_bit 16 acc \<noteq> 0")
    case True
    with 1 show ?thesis
      using fold_step_less(1) [OF True] ones_sum_step [of "unat acc"] by (simp add: fold16.simps [of acc])
  next
    case False
    then have "drop_bit 16 acc = 0" by simp
    then have a: "take_bit 16 acc = acc" by (simp add: take_bit_eq_self_iff_drop_bit_eq_0)
    then have n: "unat acc < 65536"
      using unat_take_bit [of 16 acc] mod_less_divisor [of 65536 "unat acc"] by simp
    with False show ?thesis
      by (simp add: fold16.simps [of acc] unat_NOT16 unat_ucast ones_sum_small)
  qed
qed

subsection \<open>What a receiver accepts\<close>

lemma length_put16 [simp]: "length (put16 off w b) = length b"
  by (simp add: put16_def)

lemma put16_split:
  "off + 2 \<le> length b \<Longrightarrow> put16 off w b = take off b @ [ucast (drop_bit 8 w), ucast w] @ drop (off + 2) b"
proof -
  assume l: "off + 2 \<le> length b"
  then have "drop off b = b ! off # b ! Suc off # drop (off + 2) b"
    by (metis Cons_nth_drop_Suc Suc_le_lessD add_2_eq_Suc' less_SucI less_Suc_eq_le)
  then obtain x y where "b = take off b @ x # y # drop (off + 2) b" by (metis append_take_drop_id)
  moreover have "length (take off b) = off" using l by simp
  ultimately obtain a r where b: "b = a @ x # y # r" "length a = off" by blast
  then show ?thesis by (simp add: put16_def list_update_append)
qed

lemma put16_put16: "put16 off w (put16 off v b) = put16 off w b"
  by (simp add: put16_def list_update_swap)

lemma unat_bytes16: "256 * unat (ucast (drop_bit 8 w) :: byte) + unat (ucast w :: byte) = unat (w :: 16 word)"
proof -
  have "unat w div 256 < 256" using unat_bound [of w] by simp
  then show ?thesis unfolding unat_ucast unat_drop_bit by simp
qed

lemma groups16_put16:
  "even off \<Longrightarrow> off + 2 \<le> length b \<Longrightarrow>
   groups16 (put16 off w b) = groups16 (put16 off 0 b) + unat w"
  using unat_bytes16 [of w] by (simp add: put16_split groups16_append)

text \<open>The sum over the written bytes, its pseudo-header included, folds to zero.\<close>

lemma checksum_closes:
  assumes off: "even off" "off + 2 \<le> length b" and bound: "unat acc + 65535 * length b < 2 ^ 32"
    and c: "c = fold16 (sum32 acc (put16 off 0 b)) \<or> c = 0xFFFF \<and> fold16 (sum32 acc (put16 off 0 b)) = 0"
  shows "fold16 (sum32 acc (put16 off c b)) = 0"
proof -
  let ?n = "unat acc + groups16 (put16 off 0 b)"
  have l: "(length b + 1) div 2 \<le> length b" using off by linarith
  have g: "unat acc + groups16 (put16 off w b) < 2 ^ 32" for w
    using groups16_bound [of "put16 off w b"] l bound mult_le_mono2 [OF l, of 65535] by simp
  have n: "unat (sum32 acc (put16 off 0 b)) = ?n" using g by (rule unat_sum32)
  have m: "unat (sum32 acc (put16 off c b)) = ?n + unat c"
    using unat_sum32 [OF g [of c]] groups16_put16 [OF off, of c] by simp
  have "ones_sum (?n + unat c) = 65535"
  proof (cases "c = fold16 (sum32 acc (put16 off 0 b))")
    case True
    then have "unat c = 65535 - ones_sum ?n" by (simp add: unat_fold16 n)
    then show ?thesis by (simp only: ones_sum_complement)
  next
    case False
    with c have z: "c = 0xFFFF" "fold16 (sum32 acc (put16 off 0 b)) = 0" by auto
    then have "65535 - ones_sum ?n = 0" using unat_fold16 [of "sum32 acc (put16 off 0 b)"] n by simp
    then have o: "ones_sum ?n = 65535" using ones_sum_le [of ?n] by simp
    then have "0 < ?n" by (cases "?n = 0") (simp_all add: ones_sum_def)
    from ones_sum_period [OF this] o z show ?thesis by simp
  qed
  then have "unat (fold16 (sum32 acc (put16 off c b))) = 0" by (simp add: unat_fold16 m)
  then show ?thesis by (simp add: unat_eq_zero)
qed

lemma setL4Checksum_closes:
  assumes "setL4Checksum seg proto pseudo = (seg', True)" and "unat pseudo + 65535 * length seg < 2 ^ 32"
  shows "fold16 (sum32 pseudo seg') = 0" "length seg' = length seg"
proof -
  from assms(1) obtain off mn where o: "l4ChecksumOffset proto = Some (off, mn)" "mn \<le> length seg"
    by (auto simp: setL4Checksum_def Let_def split: option.splits prod.splits if_splits)
  then have off: "even off" "off + 2 \<le> length seg"
    by (auto simp: l4ChecksumOffset_def split: if_splits)
  let ?c = "fold16 (sum32 pseudo (put16 off 0 seg))"
  have s: "seg' = put16 off (if proto = protoUDP \<and> ?c = 0 then 0xFFFF else ?c) seg"
    using assms(1) o by (simp add: setL4Checksum_def Let_def put16_put16 split: if_splits)
  show "fold16 (sum32 pseudo seg') = 0" unfolding s
    by (rule checksum_closes [OF off assms(2)]) simp
  show "length seg' = length seg" unfolding s by simp
qed

lemma setIPv4HeaderChecksum_closes:
  "length h = 20 \<Longrightarrow> fold16 (sum32 0 (setIPv4HeaderChecksum h 20)) = 0"
proof -
  assume h: "length h = 20"
  then have "fold16 (sum32 0 (put16 10 (fold16 (sum32 0 (put16 10 0 h))) h)) = 0"
    by (intro checksum_closes) simp_all
  with h show ?thesis by (simp add: setIPv4HeaderChecksum_def Let_def put16_put16)
qed

text \<open>
  The transport checksum the code writes is the one a receiver checks: the sum over the
  pseudo-header and the segment folds to zero, only the two checksum bytes change, and a UDP
  checksum is never the reserved zero. The pseudo-header sum and the segment are small enough
  for 32 bits.
\<close>

theorem setL4Checksum_verifies:
  assumes "setL4Checksum seg proto pseudo = (seg', True)" and "unat pseudo + 65535 * length seg < 2 ^ 32"
  shows "fold16 (sum32 pseudo seg') = 0 \<and> length seg' = length seg \<and>
     (\<exists>off mn. l4ChecksumOffset proto = Some (off, mn) \<and>
        take off seg' = take off seg \<and> drop (off + 2) seg' = drop (off + 2) seg \<and>
        (proto = protoUDP \<longrightarrow> (be_val (take 2 (drop off seg')) :: 16 word) \<noteq> 0))"
proof -
  from assms(1) obtain off mn where o: "l4ChecksumOffset proto = Some (off, mn)" "mn \<le> length seg"
    by (auto simp: setL4Checksum_def Let_def split: option.splits prod.splits if_splits)
  then have off: "off + 2 \<le> length seg" by (auto simp: l4ChecksumOffset_def split: if_splits)
  let ?c = "fold16 (sum32 pseudo (put16 off 0 seg))"
  let ?d = "if proto = protoUDP \<and> ?c = 0 then 0xFFFF else ?c"
  have s: "seg' = put16 off ?d seg"
    using assms(1) o by (simp add: setL4Checksum_def Let_def put16_put16 split: if_splits)
  have "take 2 (drop off seg') = be16 ?d"
    unfolding s using off by (simp add: put16_split be16_def)
  then have "(be_val (take 2 (drop off seg')) :: 16 word) = ?d" by simp
  moreover have "take off seg' = take off seg" "drop (off + 2) seg' = drop (off + 2) seg"
    unfolding s using off by (simp_all add: put16_def)
  ultimately show ?thesis using setL4Checksum_closes [OF assms] o by auto
qed

theorem setL4Checksum_verifies_witness:
  "fold16 (sum32 0x1234 [0, 53, 0x12, 0x34, 0, 9, 0x80, 0x59, 0x5B]) = 0"
proof -
  have "setL4Checksum [0, 53, 0x12, 0x34, 0, 9, 0xAB, 0xCD, 0x5B] protoUDP 0x1234 =
      ([0, 53, 0x12, 0x34, 0, 9, 0x80, 0x59, 0x5B], True)"
    by code_simp
  from setL4Checksum_verifies [OF this] show ?thesis by simp
qed

end
