(* ===== verification/GoNet.thy ===== *)
theory GoNet
  imports GoNetip
begin

text \<open>
  More of Go's \<open>net/netip\<close> and \<open>net\<close>: the classes of addresses, prefixes, the
  textual form of an address, and \<open>host:port\<close> pairs. The zero \<open>Addr\<close> and the zero
  \<open>Prefix\<close> are \<open>None\<close> wherever the sources can hold one.
\<close>

subsection \<open>Address families\<close>

definition Is4 :: "ip_addr \<Rightarrow> bool" where
  "Is4 a = (case a of Addr4 _ \<Rightarrow> True | Addr6 _ _ \<Rightarrow> False)"

definition Is4In6 :: "ip_addr \<Rightarrow> bool" where
  "Is4In6 a = (case a of Addr4 _ \<Rightarrow> False | Addr6 v _ \<Rightarrow> drop_bit 32 v = 0xFFFF)"

definition Unmap :: "ip_addr \<Rightarrow> ip_addr" where
  "Unmap a = (case a of Addr4 _ \<Rightarrow> a | Addr6 v _ \<Rightarrow> if Is4In6 a then Addr4 (ucast v) else a)"

text \<open>\<open>As4\<close> panics on an IPv6 address.\<close>

definition As4 :: "ip_addr \<Rightarrow> 32 word option" where
  "As4 a = (case Unmap a of Addr4 v \<Rightarrow> Some v | Addr6 _ _ \<Rightarrow> None)"

definition WithZone :: "string \<Rightarrow> ip_addr \<Rightarrow> ip_addr" where
  "WithZone z a = (case a of Addr4 _ \<Rightarrow> a | Addr6 v _ \<Rightarrow> Addr6 v z)"

lemma Is4_Addr [simp]: "Is4 (Addr4 v)" "\<not> Is4 (Addr6 w z)" "Is6 (Addr6 w z)" "\<not> Is6 (Addr4 v)"
  by (simp_all add: Is4_def Is6_def)

lemma Unmap_Addr4 [simp]: "Unmap (Addr4 v) = Addr4 v" "As4 (Addr4 v) = Some v" "\<not> Is4In6 (Addr4 v)"
  by (simp_all add: Unmap_def As4_def Is4In6_def)

lemma As4_Addr6: "As4 (Addr6 w z) = (if drop_bit 32 w = 0xFFFF then Some (ucast w) else None)"
  by (simp add: As4_def Unmap_def Is4In6_def)

text \<open>\<open>netip.AddrFromSlice\<close>: four bytes or sixteen, and no zone.\<close>

definition AddrFromSlice :: "bytes \<Rightarrow> ip_addr option" where
  "AddrFromSlice b =
     (if length b = 4 then Some (Addr4 (be_val b))
      else if length b = 16 then Some (Addr6 (be_val b) []) else None)"

subsection \<open>Classes of addresses\<close>

definition v4_octet :: "nat \<Rightarrow> 32 word \<Rightarrow> byte" where
  "v4_octet i v = ucast (drop_bit (24 - 8 * i) v)"

definition IsUnspecified :: "ip_addr \<Rightarrow> bool" where
  "IsUnspecified a \<longleftrightarrow> a = Addr4 0 \<or> a = Addr6 0 []"

definition IsLoopback :: "ip_addr \<Rightarrow> bool" where
  "IsLoopback a = (case Unmap a of Addr4 v \<Rightarrow> v4_octet 0 v = 127 | Addr6 w _ \<Rightarrow> w = 1)"

definition IsLinkLocalUnicast :: "ip_addr \<Rightarrow> bool" where
  "IsLinkLocalUnicast a =
     (case Unmap a of
        Addr4 v \<Rightarrow> v4_octet 0 v = 169 \<and> v4_octet 1 v = 254
      | Addr6 w _ \<Rightarrow> drop_bit 112 w AND 0xFFC0 = 0xFE80)"

definition IsMulticast :: "ip_addr \<Rightarrow> bool" where
  "IsMulticast a =
     (case Unmap a of
        Addr4 v \<Rightarrow> v4_octet 0 v AND 0xF0 = 0xE0
      | Addr6 w _ \<Rightarrow> drop_bit 120 w = 0xFF)"

definition IsPrivate :: "ip_addr \<Rightarrow> bool" where
  "IsPrivate a =
     (case Unmap a of
        Addr4 v \<Rightarrow>
          v4_octet 0 v = 10 \<or> v4_octet 0 v = 172 \<and> v4_octet 1 v AND 0xF0 = 16 \<or>
          v4_octet 0 v = 192 \<and> v4_octet 1 v = 168
      | Addr6 w _ \<Rightarrow> drop_bit 120 w AND 0xFE = 0xFC)"

subsection \<open>Prefixes\<close>

record ip_prefix =
  pfx_addr :: ip_addr
  pfx_bits :: nat

definition addr_bits :: "ip_addr \<Rightarrow> nat" where
  "addr_bits a = (case a of Addr4 _ \<Rightarrow> 32 | Addr6 _ _ \<Rightarrow> 128)"

text \<open>The top \<open>n\<close> bits of a word, the others cleared.\<close>

definition keep_top :: "nat \<Rightarrow> 'a::len word \<Rightarrow> 'a word" where
  "keep_top n w = push_bit (LENGTH('a) - n) (drop_bit (LENGTH('a) - n) w)"

definition Masked :: "ip_prefix \<Rightarrow> ip_prefix" where
  "Masked p =
     p\<lparr>pfx_addr := (case pfx_addr p of
        Addr4 v \<Rightarrow> Addr4 (keep_top (pfx_bits p) v)
      | Addr6 w _ \<Rightarrow> Addr6 (keep_top (pfx_bits p) w) [])\<rparr>"

definition Contains :: "ip_prefix \<Rightarrow> ip_addr \<Rightarrow> bool" where
  "Contains p a =
     (case (pfx_addr p, a) of
        (Addr4 v, Addr4 u) \<Rightarrow> keep_top (pfx_bits p) v = keep_top (pfx_bits p) u
      | (Addr6 v _, Addr6 u z) \<Rightarrow> z = [] \<and> keep_top (pfx_bits p) v = keep_top (pfx_bits p) u
      | _ \<Rightarrow> False)"

text \<open>\<open>strings.LastIndexByte\<close> and the two sides of the byte it finds.\<close>

fun cut_last :: "char \<Rightarrow> string \<Rightarrow> (string \<times> string) option" where
  "cut_last d [] = None"
| "cut_last d (c # s) =
     (case cut_last d s of
        Some (a, b) \<Rightarrow> Some (c # a, b)
      | None \<Rightarrow> if c = d then Some ([], s) else None)"

lemma cut_last_none: "d \<notin> set s \<Longrightarrow> cut_last d s = None"
  by (induction s) auto

lemma cut_last_append [simp]: "d \<notin> set b \<Longrightarrow> cut_last d (a @ d # b) = Some (a, b)"
  by (induction a) (simp_all add: cut_last_none)

definition ParsePrefix :: "string \<Rightarrow> ip_prefix option" where
  "ParsePrefix s =
     (case cut_last (CHR ''/'') s of
        None \<Rightarrow> None
      | Some (a, b) \<Rightarrow>
          (case ParseAddr a of
             None \<Rightarrow> None
           | Some ip \<Rightarrow>
               if Zone ip \<noteq> [] then None
               else if length b > 1 \<and> (\<not> is_digit (hd b) \<or> hd b = CHR ''0'') then None
               else
                 (case parse_int b of
                    None \<Rightarrow> None
                  | Some n \<Rightarrow>
                      if n < 0 \<or> n > int (addr_bits ip) then None
                      else Some \<lparr>pfx_addr = ip, pfx_bits = nat n\<rparr>)))"

lemma keep_top_top [simp]: "LENGTH('a) \<le> n \<Longrightarrow> keep_top n (w :: 'a::len word) = w"
  by (simp add: keep_top_def)

lemma keep_top_idem [simp]: "keep_top n (keep_top n w) = keep_top n w"
  unfolding keep_top_def by (rule bit_word_eqI) (auto simp: bit_simps)

lemma Masked_Contains [simp]: "Contains (Masked p) a = Contains p a"
  by (auto simp: Contains_def Masked_def split: ip_addr.splits)

subsection \<open>The textual form\<close>

definition v4_string :: "32 word \<Rightarrow> string" where
  "v4_string v = concat (map (\<lambda>i. (if i = 0 then [] else ''.'') @ dec_nat (unat (v4_octet i v))) [0, 1, 2, 3])"

text \<open>A number in hexadecimal with no leading zero.\<close>

fun hex_nat :: "nat \<Rightarrow> string" where
  "hex_nat n = (if n < 16 then [hex_digit n] else hex_nat (n div 16) @ [hex_digit (n mod 16)])"

declare hex_nat.simps [simp del]

definition v6_group :: "128 word \<Rightarrow> nat \<Rightarrow> nat" where
  "v6_group w i = unat (drop_bit (112 - 16 * i) w AND 0xFFFF)"

text \<open>The longest run of at least two zero groups, the leftmost of the longest.\<close>

definition zero_run :: "nat list \<Rightarrow> nat \<Rightarrow> nat" where
  "zero_run gs i = length (takeWhile (\<lambda>g. g = 0) (drop i gs))"

fun best_run :: "nat list \<Rightarrow> nat list \<Rightarrow> nat \<Rightarrow> nat \<Rightarrow> nat \<times> nat" where
  "best_run gs [] st ln = (st, ln)"
| "best_run gs (i # is) st ln =
     (if zero_run gs i \<ge> 2 \<and> zero_run gs i > ln then best_run gs is i (zero_run gs i)
      else best_run gs is st ln)"

text \<open>The groups from the \<open>i\<close>-th on, with fuel for their number; \<open>st\<close> to \<open>en\<close> is the run.\<close>

fun groups_from :: "nat list \<Rightarrow> nat \<Rightarrow> nat \<Rightarrow> nat \<Rightarrow> nat \<Rightarrow> string" where
  "groups_from gs st en 0 i = []"
| "groups_from gs st en (Suc n) i =
     (if i \<ge> 8 then []
      else if i = st then
        ''::'' @ (if en \<ge> 8 then [] else hex_nat (gs ! en) @ groups_from gs st en n (en + 1))
      else (if i > 0 then '':'' else []) @ hex_nat (gs ! i) @ groups_from gs st en n (i + 1))"

definition v6_string :: "128 word \<Rightarrow> string" where
  "v6_string w =
     (let gs = map (v6_group w) [0, 1, 2, 3, 4, 5, 6, 7]; (st, ln) = best_run gs [0, 1, 2, 3, 4, 5, 6, 7] 255 0
      in groups_from gs st (st + ln) 8 0)"

definition addr_String :: "ip_addr \<Rightarrow> string" where
  "addr_String a =
     (case a of
        Addr4 v \<Rightarrow> v4_string v
      | Addr6 w z \<Rightarrow>
          (if Is4In6 a then ''::ffff:'' @ v4_string (ucast w) else v6_string w) @
          (if z = [] then [] else CHR ''%'' # z))"

subsection \<open>Hosts and ports\<close>

definition SplitHostPort :: "string \<Rightarrow> (string \<times> string) option" where
  "SplitHostPort s =
     (case cut_last (CHR '':'') s of
        None \<Rightarrow> None
      | Some (front, port) \<Rightarrow>
          if hd s = CHR ''['' then
            (case cut_at (CHR '']'') s of
               None \<Rightarrow> None
             | Some (h, after) \<Rightarrow>
                 if after = [] \<or> length front \<noteq> length h + 1 then None
                 else if CHR ''['' \<in> set (tl s) \<or> CHR '']'' \<in> set after then None
                 else Some (tl h, port))
          else if CHR '':'' \<in> set front then None
          else if CHR ''['' \<in> set s \<or> CHR '']'' \<in> set s then None
          else Some (front, port))"

definition JoinHostPort :: "string \<Rightarrow> string \<Rightarrow> string" where
  "JoinHostPort host port =
     (if CHR '':'' \<in> set host then ''['' @ host @ '']:'' @ port else host @ '':'' @ port)"

text \<open>\<open>Prefix.String\<close>, of no prefix for \<open>None\<close>.\<close>

definition prefix_String :: "ip_prefix option \<Rightarrow> string" where
  "prefix_String p =
     (case p of
        None \<Rightarrow> ''invalid Prefix''
      | Some q \<Rightarrow> addr_String (pfx_addr q) @ ''/'' @ dec_nat (pfx_bits q))"

text \<open>\<open>strings.Trim\<close> with a set of ASCII bytes.\<close>

definition trim_chars :: "char list \<Rightarrow> string \<Rightarrow> string" where
  "trim_chars cs s = rev (dropWhile (\<lambda>c. c \<in> set cs) (rev (dropWhile (\<lambda>c. c \<in> set cs) s)))"

end
