(* ===== verification/EnfIcmp.thy ===== *)
theory EnfIcmp
  imports EnfChecksum GoNet
begin

text \<open>
  Packets as the filter reads and writes them: fields at byte offsets, the writes into a buffer,
  the IPv4 header of \<open>internal/enforce/filter.go\<close>, and the two refusals of
  \<open>internal/enforce/icmp.go\<close>.
\<close>

subsection \<open>Fields of a packet\<close>

definition bytes_at :: "nat \<Rightarrow> nat \<Rightarrow> bytes \<Rightarrow> bytes" where
  "bytes_at off n b = take n (drop off b)"

definition u16_at :: "nat \<Rightarrow> bytes \<Rightarrow> 16 word" where
  "u16_at off b = be_val (bytes_at off 2 b)"

definition u32_at :: "nat \<Rightarrow> bytes \<Rightarrow> 32 word" where
  "u32_at off b = be_val (bytes_at off 4 b)"

definition addr16 :: "bytes \<Rightarrow> ip_addr" where
  "addr16 b = Addr6 (be_val b) []"

definition addr4 :: "bytes \<Rightarrow> ip_addr" where
  "addr4 b = Addr4 (be_val b)"

text \<open>\<open>copy(buf[off:], bs)\<close> where the bytes fit.\<close>

definition splice :: "nat \<Rightarrow> bytes \<Rightarrow> bytes \<Rightarrow> bytes" where
  "splice off bs buf = take off buf @ bs @ drop (off + length bs) buf"

lemma length_splice [simp]: "off + length bs \<le> length buf \<Longrightarrow> length (splice off bs buf) = length buf"
  by (simp add: splice_def)

lemma length_bytes_at [simp]: "off + n \<le> length b \<Longrightarrow> length (bytes_at off n b) = n"
  by (simp add: bytes_at_def)

definition ipv4HeaderMin :: nat where "ipv4HeaderMin = 20"
definition ipv6Header :: nat where "ipv6Header = 40"
definition minMTU :: nat where "minMTU = 1280"
definition icmp4Max :: nat where "icmp4Max = 576"

lemmas size_defs = ipv4HeaderMin_def ipv6Header_def minMTU_def icmp4Max_def

subsection \<open>The IPv4 header\<close>

definition writeIPv4Header ::
  "byte \<Rightarrow> nat \<Rightarrow> byte \<Rightarrow> byte \<Rightarrow> 32 word \<Rightarrow> 32 word \<Rightarrow> bytes" where
  "writeIPv4Header tos tot ttl proto src dst =
     setIPv4HeaderChecksum
       ([0x45, tos] @ be16 (word_of_nat tot) @ [0, 0, 0x40, 0, ttl, proto, 0, 0] @ be32 src @ be32 dst)
       ipv4HeaderMin"

subsection \<open>The refusals\<close>

definition icmp6Prohibited :: "bytes \<Rightarrow> bytes option" where
  "icmp6Prohibited pkt =
     (if length pkt < ipv6Header then None
      else
        (let quote = take (minMTU - ipv6Header - 8) pkt;
             plen = 8 + length quote;
             src = bytes_at 24 16 pkt; dst = bytes_at 8 16 pkt;
             hdr = [0x60, 0, 0, 0] @ be16 (word_of_nat plen) @ [protoICMPv6, 64] @ src @ dst;
             m = [1, 1, 0, 0, 0, 0, 0, 0] @ quote
         in Some (hdr @ fst (setL4Checksum m protoICMPv6 (pseudo6 src dst protoICMPv6 plen)))))"

definition icmp4Prohibited :: "bytes \<Rightarrow> bytes option" where
  "icmp4Prohibited pkt =
     (if length pkt < ipv4HeaderMin then None
      else
        (let quote = take (icmp4Max - ipv4HeaderMin - 8) pkt;
             tot = ipv4HeaderMin + 8 + length quote;
             hdr = [0x45, 0] @ be16 (word_of_nat tot) @ [0, 0, 0, 0, 64, protoICMP, 0, 0] @
               bytes_at 16 4 pkt @ bytes_at 12 4 pkt;
             m = [3, 13, 0, 0, 0, 0, 0, 0] @ quote
         in Some (setIPv4HeaderChecksum hdr ipv4HeaderMin @ fst (setL4Checksum m protoICMP 0))))"

end
