(* ===== verification/GoTime.thy ===== *)
theory GoTime
  imports Main
begin

text \<open>
  Package \<open>time\<close> as the models use it: a reading of the clock is an \<open>int\<close> of nanoseconds and a
  \<open>Duration\<close> is an \<open>int\<close> that \<open>Time.Sub\<close> saturates at the ends of an \<open>int64\<close>.
\<close>

definition Millisecond :: int where "Millisecond = 10 ^ 6"
definition Second :: int where "Second = 10 ^ 9"
definition Minute :: int where "Minute = 60 * Second"

definition time_sub :: "int \<Rightarrow> int \<Rightarrow> int" where
  "time_sub t u = max (- (2 ^ 63)) (min (2 ^ 63 - 1) (t - u))"

lemma time_sub_mono: "t \<le> t' \<Longrightarrow> time_sub t u \<le> time_sub t' u"
  by (auto simp: time_sub_def)

lemma time_sub_le: "t \<le> u + d \<Longrightarrow> 0 \<le> d \<Longrightarrow> time_sub t u \<le> d"
  by (auto simp: time_sub_def)

lemma time_sub_ge: "u + d \<le> t \<Longrightarrow> d < 2 ^ 63 \<Longrightarrow> d \<le> time_sub t u"
  by (auto simp: time_sub_def)

end
