(* ===== verification/EnfFlows.thy ===== *)
theory EnfFlows
  imports EnfChecksum GoTime "HOL-Library.Finite_Map"
begin

text \<open>
  \<open>internal/enforce/flows.go\<close>: the table of flows the translator keeps. The mutex makes each
  operation atomic; the clock's reading is an argument, in nanoseconds. The interface the filter
  relies on is the locale \<open>flow_store\<close>, interpreted on the table at the end.
\<close>

subsection \<open>The table\<close>

definition famV4 :: byte where "famV4 = 4"
definition famV6 :: byte where "famV6 = 6"
definition maxFlows :: nat where "maxFlows = 2 ^ 16"

record flow_key =
  fk_proto :: byte
  fk_lport :: "16 word"
  fk_remote :: "32 word"
  fk_rport :: "16 word"

record flow_entry =
  fe_fam :: byte
  fe_seen :: int

record flow_table =
  ft_m :: "(flow_key, flow_entry) fmap"
  ft_max :: nat

definition newFlowTable :: flow_table where
  "newFlowTable = \<lparr>ft_m = fmempty, ft_max = maxFlows\<rparr>"

definition idleTimeout :: "byte \<Rightarrow> int" where
  "idleTimeout proto =
     (if proto = protoTCP then (2 * 3600 + 4 * 60) * Second
      else if proto = protoUDP then 5 * 60 * Second
      else 60 * Second)"

definition flow_len :: "flow_table \<Rightarrow> nat" where
  "flow_len t = fcard (fmdom (ft_m t))"

definition expired :: "int \<Rightarrow> flow_key \<Rightarrow> flow_entry \<Rightarrow> bool" where
  "expired now k e \<longleftrightarrow> time_sub now (fe_seen e) > idleTimeout (fk_proto k)"

definition sweepLocked :: "flow_table \<Rightarrow> int \<Rightarrow> flow_table" where
  "sweepLocked t now =
     t\<lparr>ft_m := fmfilter (\<lambda>k. case fmlookup (ft_m t) k of None \<Rightarrow> False | Some e \<Rightarrow> \<not> expired now k e) (ft_m t)\<rparr>"

definition flow_put :: "flow_table \<Rightarrow> flow_key \<Rightarrow> flow_entry \<Rightarrow> flow_table" where
  "flow_put t k e = t\<lparr>ft_m := fmupd k e (ft_m t)\<rparr>"

definition claim :: "flow_table \<Rightarrow> int \<Rightarrow> flow_key \<Rightarrow> byte \<Rightarrow> flow_table \<times> bool" where
  "claim t now k fam =
     (let new = \<lparr>fe_fam = fam, fe_seen = now\<rparr> in
      case fmlookup (ft_m t) k of
        Some e \<Rightarrow>
          if time_sub now (fe_seen e) \<le> idleTimeout (fk_proto k) \<and> fe_fam e \<noteq> fam then (t, False)
          else (flow_put t k new, True)
      | None \<Rightarrow>
          if flow_len t \<ge> ft_max t then
            (let t' = sweepLocked t now in
             if flow_len t' \<ge> ft_max t' then (t', False) else (flow_put t' k new, True))
          else (flow_put t k new, True))"

definition flow_lookup :: "flow_table \<Rightarrow> int \<Rightarrow> flow_key \<Rightarrow> flow_table \<times> byte option" where
  "flow_lookup t now k =
     (case fmlookup (ft_m t) k of
        None \<Rightarrow> (t, None)
      | Some e \<Rightarrow>
          if time_sub now (fe_seen e) > idleTimeout (fk_proto k) then (t\<lparr>ft_m := fmdrop k (ft_m t)\<rparr>, None)
          else (flow_put t k (e\<lparr>fe_seen := now\<rparr>), Some (fe_fam e)))"

subsection \<open>What the table shows at an instant\<close>

text \<open>The abstract state: the live entry of each key.\<close>

definition flow_view :: "flow_table \<Rightarrow> int \<Rightarrow> flow_key \<Rightarrow> flow_entry option" where
  "flow_view t now k =
     (case fmlookup (ft_m t) k of None \<Rightarrow> None | Some e \<Rightarrow> if expired now k e then None else Some e)"

lemma expired_mono: "expired now k e \<Longrightarrow> now \<le> now' \<Longrightarrow> expired now' k e"
  using time_sub_mono [of now now' "fe_seen e"] by (simp add: expired_def)

lemma view_sweep: "now \<le> now' \<Longrightarrow> flow_view (sweepLocked t now) now' k = flow_view t now' k"
  by (auto simp: flow_view_def sweepLocked_def dest: expired_mono split: option.splits)

lemma view_put:
  "flow_view (flow_put t k e) now j =
     (if j = k then if expired now k e then None else Some e else flow_view t now j)"
  by (simp add: flow_view_def flow_put_def)

text \<open>
  The refinement: an operation at \<open>now\<close> changes what the table shows, then and later, at its
  own key only, and there as the abstract claim and lookup do.
\<close>

lemma claim_view:
  assumes "claim t now k fam = (t', ok)" and "now \<le> now'"
  shows "flow_view t' now' j =
     (if ok \<and> j = k then
        if expired now' k \<lparr>fe_fam = fam, fe_seen = now\<rparr> then None else Some \<lparr>fe_fam = fam, fe_seen = now\<rparr>
      else flow_view t now' j)"
  using assms
  by (auto simp: claim_def Let_def view_put view_sweep split: option.splits if_splits)

lemma lookup_view:
  assumes "flow_lookup t now k = (t', r)" and "now \<le> now'"
  shows "r = map_option fe_fam (flow_view t now k)"
    and "flow_view t' now' j =
      (case flow_view t now k of
         None \<Rightarrow> flow_view t now' j
       | Some e \<Rightarrow> if j = k then if expired now' k (e\<lparr>fe_seen := now\<rparr>) then None else Some (e\<lparr>fe_seen := now\<rparr>)
           else flow_view t now' j)"
proof -
  show "r = map_option fe_fam (flow_view t now k)"
    using assms(1) by (auto simp: flow_lookup_def flow_view_def expired_def split: option.splits if_splits)
  show "flow_view t' now' j =
      (case flow_view t now k of
         None \<Rightarrow> flow_view t now' j
       | Some e \<Rightarrow> if j = k then if expired now' k (e\<lparr>fe_seen := now\<rparr>) then None else Some (e\<lparr>fe_seen := now\<rparr>)
           else flow_view t now' j)"
  proof (cases "fmlookup (ft_m t) k")
    case None
    with assms show ?thesis by (simp add: flow_lookup_def flow_view_def)
  next
    case (Some e)
    show ?thesis
    proof (cases "expired now k e")
      case True
      with Some assms expired_mono [OF True assms(2)] show ?thesis
        by (auto simp: flow_lookup_def flow_view_def expired_def)
    next
      case False
      with Some assms have "t' = flow_put t k (e\<lparr>fe_seen := now\<rparr>)"
        by (simp add: flow_lookup_def expired_def)
      with Some False show ?thesis by (simp add: view_put) (simp add: flow_view_def)
    qed
  qed
qed

text \<open>A refused claim: another family holds the flow, or the table is full of live ones.\<close>

lemma claim_refused:
  assumes "claim t now k fam = (t', False)"
  shows "(\<exists>e. flow_view t now k = Some e \<and> fe_fam e \<noteq> fam) \<or>
     flow_view t now k = None \<and> ft_max t \<le> fcard (ffilter (\<lambda>j. flow_view t now j \<noteq> None) (fmdom (ft_m t)))"
proof (cases "fmlookup (ft_m t) k")
  case (Some e)
  with assms have "time_sub now (fe_seen e) \<le> idleTimeout (fk_proto k) \<and> fe_fam e \<noteq> fam"
    by (auto simp: claim_def Let_def split: if_splits)
  with Some show ?thesis by (auto simp: flow_view_def expired_def)
next
  case None
  with assms have "ft_max t \<le> flow_len (sweepLocked t now)"
    by (auto simp: claim_def Let_def sweepLocked_def split: if_splits)
  moreover have "fmdom (ft_m (sweepLocked t now)) = ffilter (\<lambda>j. flow_view t now j \<noteq> None) (fmdom (ft_m t))"
    by (auto simp: sweepLocked_def flow_view_def split: option.splits)
  ultimately show ?thesis using None by (simp add: flow_len_def flow_view_def)
qed

subsection \<open>The bound\<close>

lemma flow_len_put: "flow_len (flow_put t k e) = (if k |\<in>| fmdom (ft_m t) then flow_len t else Suc (flow_len t))"
  by (auto simp: flow_len_def flow_put_def finsert_absorb fcard_finsert_disjoint)

lemma flow_len_sweep: "flow_len (sweepLocked t now) \<le> flow_len t"
  by (auto simp: flow_len_def sweepLocked_def intro!: fcard_mono)

lemma ft_max_simps [simp]: "ft_max (flow_put t k e) = ft_max t" "ft_max (sweepLocked t now) = ft_max t"
  by (simp_all add: flow_put_def sweepLocked_def)

lemma claim_bounded:
  assumes "claim t now k fam = (t', ok)" and "flow_len t \<le> ft_max t"
  shows "flow_len t' \<le> ft_max t' \<and> ft_max t' = ft_max t"
proof (cases "fmlookup (ft_m t) k")
  case (Some e)
  then have "k |\<in>| fmdom (ft_m t)" by (rule fmdomI)
  with Some assms show ?thesis by (auto simp: claim_def Let_def flow_len_put split: if_splits)
next
  case None
  then have "k |\<notin>| fmdom (ft_m t)" by (simp add: fmdom_notI)
  moreover from this have "k |\<notin>| fmdom (ft_m (sweepLocked t now))" by (simp add: sweepLocked_def)
  ultimately show ?thesis
    using None assms flow_len_sweep [of t now] by (auto simp: claim_def Let_def flow_len_put split: if_splits)
qed

lemma lookup_bounded:
  assumes "flow_lookup t now k = (t', r)" and "flow_len t \<le> ft_max t"
  shows "flow_len t' \<le> ft_max t' \<and> ft_max t' = ft_max t"
proof (cases "fmlookup (ft_m t) k")
  case (Some e)
  then have k: "k |\<in>| fmdom (ft_m t)" by (rule fmdomI)
  have "flow_len (t\<lparr>ft_m := fmdrop k (ft_m t)\<rparr>) \<le> flow_len t"
    by (auto simp: flow_len_def intro!: fcard_mono)
  with Some k assms show ?thesis by (auto simp: flow_lookup_def flow_len_put split: if_splits)
qed (use assms in \<open>simp add: flow_lookup_def\<close>)

subsection \<open>The interface the filter relies on\<close>

text \<open>
  A store of claims: who owns a key at an instant. A successful claim owns its key for the idle
  time, nothing else moves, a claim against another owner fails, and a lookup tells the owner.
\<close>

locale flow_store =
  fixes claims :: "'t \<Rightarrow> int \<Rightarrow> 'k \<Rightarrow> 'f \<Rightarrow> 't \<times> bool"
    and look :: "'t \<Rightarrow> int \<Rightarrow> 'k \<Rightarrow> 't \<times> 'f option"
    and owner :: "'t \<Rightarrow> int \<Rightarrow> 'k \<Rightarrow> 'f option"
    and idle :: "'k \<Rightarrow> int"
  assumes claim_owns: "claims t now k f = (t', True) \<Longrightarrow> now \<le> e \<Longrightarrow> e \<le> now + idle k \<Longrightarrow> owner t' e k = Some f"
    and claim_frame: "claims t now k f = (t', ok) \<Longrightarrow> now \<le> e \<Longrightarrow> \<not> ok \<or> j \<noteq> k \<Longrightarrow> owner t' e j = owner t e j"
    and claim_conflict: "claims t now k f = (t', True) \<Longrightarrow> owner t now k = Some g \<Longrightarrow> f = g"
    and owner_earlier: "owner t e k = Some f \<Longrightarrow> now \<le> e \<Longrightarrow> owner t now k = Some f"
    and look_tells: "look t now k = (t', r) \<Longrightarrow> r = owner t now k"
    and look_keeps: "look t now k = (t', r) \<Longrightarrow> now \<le> e \<Longrightarrow> e \<le> now + idle j \<Longrightarrow>
      owner t e j = Some f \<Longrightarrow> owner t' e j = Some f"
begin

lemma claim_keeps:
  assumes "claims t now j g = (t', ok)" "now \<le> e" "e \<le> now + idle k" "owner t e k = Some f"
  shows "owner t' e k = Some f"
proof (cases "ok \<and> j = k")
  case True
  with assms claim_conflict [of t now k g t' f] owner_earlier [of t e k f now] have "g = f" by simp
  with True assms show ?thesis using claim_owns [of t now k g t' e] by simp
next
  case False
  with assms show ?thesis using claim_frame by metis
qed

lemma no_second_owner:
  "owner t now k = Some f \<Longrightarrow> g \<noteq> f \<Longrightarrow> \<not> snd (claims t now k g)"
  using claim_conflict by (metis (full_types) prod.collapse)

end

definition flow_owner :: "flow_table \<Rightarrow> int \<Rightarrow> flow_key \<Rightarrow> byte option" where
  "flow_owner t now k = map_option fe_fam (flow_view t now k)"

lemma idleTimeout_pos: "0 \<le> idleTimeout p"
  by (simp add: idleTimeout_def Second_def)

lemma fresh_not_expired: "e \<le> fe_seen x + idleTimeout (fk_proto k) \<Longrightarrow> \<not> expired e k x"
  using time_sub_le [of e "fe_seen x" "idleTimeout (fk_proto k)"] idleTimeout_pos by (simp add: expired_def not_less)

lemma view_same: "flow_view t now k = Some a \<Longrightarrow> flow_view t e k = Some b \<Longrightarrow> a = b"
  by (auto simp: flow_view_def split: option.splits if_splits)

interpretation flows: flow_store claim flow_lookup flow_owner "\<lambda>k. idleTimeout (fk_proto k)"
proof (unfold_locales)
  show "claim t now k f = (t', True) \<Longrightarrow> now \<le> e \<Longrightarrow> e \<le> now + idleTimeout (fk_proto k) \<Longrightarrow>
      flow_owner t' e k = Some f" for t now k f t' e
    using claim_view [of t now k f t' True e k] by (simp add: flow_owner_def fresh_not_expired)
  show "claim t now k f = (t', ok) \<Longrightarrow> now \<le> e \<Longrightarrow> \<not> ok \<or> j \<noteq> k \<Longrightarrow> flow_owner t' e j = flow_owner t e j" for t now k f t' ok e j
    using claim_view [of t now k f t' ok e j] by (auto simp: flow_owner_def)
  show "claim t now k f = (t', True) \<Longrightarrow> flow_owner t now k = Some g \<Longrightarrow> f = g" for t now k f t' g
    by (auto simp: claim_def flow_owner_def flow_view_def expired_def split: option.splits if_splits)
  show "flow_owner t e k = Some f \<Longrightarrow> now \<le> e \<Longrightarrow> flow_owner t now k = Some f" for t e k f now
    by (auto simp: flow_owner_def flow_view_def dest: expired_mono split: option.splits if_splits)
  show "flow_lookup t now k = (t', r) \<Longrightarrow> r = flow_owner t now k" for t now k t' r
    using lookup_view(1) [of t now k t' r now] by (simp add: flow_owner_def)
  show "flow_lookup t now k = (t', r) \<Longrightarrow> now \<le> e \<Longrightarrow> e \<le> now + idleTimeout (fk_proto j) \<Longrightarrow>
      flow_owner t e j = Some f \<Longrightarrow> flow_owner t' e j = Some f" for t now k t' r e j f
    using lookup_view(2) [of t now k t' r e j] view_same [of t now k _ e]
    by (fastforce simp: flow_owner_def fresh_not_expired split: option.splits if_splits)
qed

subsection \<open>Runs of the table\<close>

text \<open>One operation at a reading of the clock that is not earlier than the last one.\<close>

inductive flow_step :: "flow_table \<times> int \<Rightarrow> flow_table \<times> int \<Rightarrow> bool" where
  claimed: "now \<le> now' \<Longrightarrow> claim t now' k fam = (t', ok) \<Longrightarrow> flow_step (t, now) (t', now')"
| looked: "now \<le> now' \<Longrightarrow> flow_lookup t now' k = (t', r) \<Longrightarrow> flow_step (t, now) (t', now')"

inductive_cases flow_step_cases: "flow_step (t, now) (t', now')"

abbreviation flow_run :: "flow_table \<times> int \<Rightarrow> flow_table \<times> int \<Rightarrow> bool" where
  "flow_run \<equiv> flow_step\<^sup>*\<^sup>*"

lemma flow_step_time: "flow_step s s' \<Longrightarrow> snd s \<le> snd s'"
  by (induction rule: flow_step.induct) simp_all

lemma flow_run_time: "flow_run s s' \<Longrightarrow> snd s \<le> snd s'"
  by (induction rule: rtranclp_induct) (auto dest: flow_step_time)

lemma flow_step_bounded:
  "flow_step s s' \<Longrightarrow> flow_len (fst s) \<le> ft_max (fst s) \<Longrightarrow>
   flow_len (fst s') \<le> ft_max (fst s') \<and> ft_max (fst s') = ft_max (fst s)"
  by (induction rule: flow_step.induct) (auto dest: claim_bounded lookup_bounded)

lemma flow_step_keeps:
  assumes "flow_step (t, now) (t', now')" "flow_owner t e k = Some f"
    and "now' \<le> e" "e \<le> now' + idleTimeout (fk_proto k)"
  shows "flow_owner t' e k = Some f"
  using assms by (auto elim!: flow_step_cases dest: flows.claim_keeps flows.look_keeps)

lemma flow_run_keeps:
  assumes "flow_run (t, now) (t', now')" "flow_owner t e k = Some f"
    and "now' \<le> e" "e \<le> now + idleTimeout (fk_proto k)"
  shows "flow_owner t' e k = Some f"
  using assms
proof (induction "(t', now')" arbitrary: t' now' rule: rtranclp_induct)
  case base
  then show ?case by simp
next
  case (step s)
  obtain u m where s: "s = (u, m)" by fastforce
  have m: "now \<le> m" using flow_run_time [OF step.hyps(1)] s by simp
  have "m \<le> now'" using flow_step_time [OF step.hyps(2)] s by simp
  then have "flow_owner u e k = Some f" using step.hyps(3) [OF s] step.prems by simp
  then show ?case using flow_step_keeps [of u m t' now' e k f] step.hyps(2) step.prems s \<open>m \<le> now'\<close> m by simp
qed

text \<open>
  However the table is used from its creation on, it never holds more than 65536 flows.
\<close>

theorem flow_table_bounded:
  assumes "flow_run (newFlowTable, now) (t, later)"
  shows "flow_len t \<le> maxFlows"
proof -
  have "flow_len (fst s) \<le> ft_max (fst s) \<and> ft_max (fst s) = maxFlows" if "flow_run (newFlowTable, now) s" for s
    using that
  proof (induction rule: rtranclp_induct)
    case base
    show ?case by (simp add: newFlowTable_def flow_len_def fcard_fempty)
  next
    case (step s s')
    then show ?case using flow_step_bounded [OF step.hyps(2)] by simp
  qed
  from this [OF assms] show ?thesis by simp
qed

definition example_flow :: flow_key where
  "example_flow = \<lparr>fk_proto = protoTCP, fk_lport = 40000, fk_remote = 0x01010101, fk_rport = 443\<rparr>"

lemma example_claim:
  "claim newFlowTable 5 example_flow famV4 = (flow_put newFlowTable example_flow \<lparr>fe_fam = famV4, fe_seen = 5\<rparr>, True)"
  by (simp add: claim_def newFlowTable_def flow_len_def maxFlows_def fcard_fempty)

theorem flow_table_bounded_witness:
  "flow_len (flow_put newFlowTable example_flow \<lparr>fe_fam = famV4, fe_seen = 5\<rparr>) \<le> maxFlows"
proof -
  have "flow_run (newFlowTable, 0) (flow_put newFlowTable example_flow \<lparr>fe_fam = famV4, fe_seen = 5\<rparr>, 5)"
    by (rule r_into_rtranclp, rule flow_step.claimed [OF _ example_claim]) simp
  then show ?thesis by (rule flow_table_bounded)
qed

text \<open>
  A flow claimed for a family answers with that family for its idle time, whatever the table
  is used for in between: other claims, lookups, sweeps of a full table. In that time no claim of
  the other family on it succeeds.
\<close>

theorem claimed_flow_is_kept:
  assumes "claim t now k fam = (t1, True)" and "flow_run (t1, now) (t2, mid)"
    and "mid \<le> later" and "later \<le> now + idleTimeout (fk_proto k)"
  shows "snd (flow_lookup t2 later k) = Some fam \<and> (snd (claim t2 later k g) \<longrightarrow> g = fam)"
proof -
  have "now \<le> mid" using flow_run_time [OF assms(2)] by simp
  then have "flow_owner t1 later k = Some fam"
    using flows.claim_owns [OF assms(1), of later] assms(3,4) by simp
  then have o: "flow_owner t2 later k = Some fam" using flow_run_keeps [OF assms(2)] assms(3,4) by blast
  have "snd (flow_lookup t2 later k) = Some fam"
    using flows.look_tells [of t2 later k] o by (metis prod.collapse)
  then show ?thesis using flows.no_second_owner [OF o, of g] by auto
qed

theorem claimed_flow_is_kept_witness:
  "snd (flow_lookup (flow_put newFlowTable example_flow \<lparr>fe_fam = famV4, fe_seen = 5\<rparr>) (7440 * 10 ^ 9) example_flow) = Some famV4"
proof -
  have "(7440 :: int) * 10 ^ 9 \<le> 5 + idleTimeout (fk_proto example_flow)"
    by (simp add: example_flow_def idleTimeout_def Second_def)
  from claimed_flow_is_kept [OF example_claim rtranclp.rtrancl_refl _ this] show ?thesis by simp
qed

end
