(* ===== verification/WgNat64.thy ===== *)
theory WgNat64
  imports GoNet
begin

text \<open>
  \<open>internal/wgtun/nat64.go\<close>: an IPv4 address inside a NAT64 /96, the IPv4 addresses no
  translator can carry, and the prefix the process uses. The environment variable is an argument;
  the sentences of the errors are constructors.
\<close>

subsection \<open>What a translator cannot carry\<close>

datatype uncarriable =
    NotADestination | OwnLoopback | LinkLocalOnly | NoMulticast | OwnLAN | SharedSpace | ReservedSpace

definition inPrefix :: "ip_addr \<Rightarrow> ip_prefix \<Rightarrow> bool" where
  "inPrefix a p = Contains p a"

definition carriable :: "ip_addr \<Rightarrow> uncarriable option" where
  "carriable v4 =
     (if IsUnspecified v4 then Some NotADestination
      else if IsLoopback v4 then Some OwnLoopback
      else if IsLinkLocalUnicast v4 then Some LinkLocalOnly
      else if IsMulticast v4 then Some NoMulticast
      else if IsPrivate v4 then Some OwnLAN
      else if inPrefix v4 \<lparr>pfx_addr = Addr4 0x64400000, pfx_bits = 10\<rparr> then Some SharedSpace
      else if inPrefix v4 \<lparr>pfx_addr = Addr4 0, pfx_bits = 8\<rparr> \<or>
              inPrefix v4 \<lparr>pfx_addr = Addr4 0xF0000000, pfx_bits = 4\<rparr> then Some ReservedSpace
      else None)"

subsection \<open>The prefix\<close>

datatype prefix_error = EmptyPrefix | NotAPrefix | NotIPv6Prefix | NotSlash96 nat

definition ParseNAT64Prefix :: "string \<Rightarrow> prefix_error + ip_prefix" where
  "ParseNAT64Prefix raw =
     (let s = trim_space raw in
      if s = [] then Inl EmptyPrefix
      else
        (case ParsePrefix (if CHR ''/'' \<in> set s then s else s @ ''/96'') of
           None \<Rightarrow> Inl NotAPrefix
         | Some p \<Rightarrow>
             if \<not> Is6 (pfx_addr p) \<or> Is4In6 (pfx_addr p) then Inl NotIPv6Prefix
             else if pfx_bits p \<noteq> 96 then Inl (NotSlash96 (pfx_bits p))
             else Inr (Masked p)))"

definition WellKnownNAT64Prefix :: string where
  "WellKnownNAT64Prefix = ''64:ff9b::/96''"

datatype nat64_source = TheWellKnown | TheWellKnownIgnoring string prefix_error | TheEnvironment

text \<open>The prefix and where it came from; \<open>None\<close> is the panic of \<open>MustParsePrefix\<close>.\<close>

definition NAT64Prefix :: "string \<Rightarrow> (ip_prefix \<times> nat64_source) option" where
  "NAT64Prefix env =
     (let raw = trim_space env in
      if raw = [] then map_option (\<lambda>p. (p, TheWellKnown)) (ParsePrefix WellKnownNAT64Prefix)
      else
        (case ParseNAT64Prefix raw of
           Inl x \<Rightarrow> map_option (\<lambda>p. (p, TheWellKnownIgnoring raw x)) (ParsePrefix WellKnownNAT64Prefix)
         | Inr p \<Rightarrow> Some (p, TheEnvironment)))"

definition nat64PrefixOverride :: "string \<Rightarrow> ip_prefix option" where
  "nat64PrefixOverride env =
     (let raw = trim_space env in
      if raw = [] then None
      else (case ParseNAT64Prefix raw of Inl _ \<Rightarrow> None | Inr p \<Rightarrow> Some p))"

subsection \<open>Wrapping and unwrapping\<close>

datatype synth_error = BadNAT64Prefix | NotIPv4 | Uncarriable uncarriable

text \<open>The last four bytes of a 16-byte address replaced.\<close>

definition put4 :: "128 word \<Rightarrow> 32 word \<Rightarrow> 128 word" where
  "put4 w v = push_bit 32 (drop_bit 32 w) OR ucast v"

definition Synthesize :: "ip_prefix option \<Rightarrow> ip_addr \<Rightarrow> synth_error + ip_addr" where
  "Synthesize pfx a =
     (case pfx of
        None \<Rightarrow> Inl BadNAT64Prefix
      | Some p \<Rightarrow>
          if pfx_bits p \<noteq> 96 \<or> \<not> Is6 (pfx_addr p) then Inl BadNAT64Prefix
          else
            (case Unmap a of
               Addr6 _ _ \<Rightarrow> Inl NotIPv4
             | Addr4 v \<Rightarrow>
                 (case carriable (Addr4 v) of
                    Some x \<Rightarrow> Inl (Uncarriable x)
                  | None \<Rightarrow> Inr (Addr6 (put4 (As16 (pfx_addr (Masked p))) v) []))))"

definition EmbeddedIPv4 :: "ip_prefix option \<Rightarrow> ip_addr \<Rightarrow> ip_addr option" where
  "EmbeddedIPv4 pfx a =
     (case pfx of
        None \<Rightarrow> None
      | Some p \<Rightarrow>
          if pfx_bits p \<noteq> 96 \<or> \<not> Is6 a \<or> Is4In6 a \<or> \<not> Contains p a then None
          else Some (Addr4 (ucast (As16 a))))"

text \<open>The target, whether it was rewritten, or the refusal the user sees.\<close>

definition TranslateTarget :: "ip_prefix option \<Rightarrow> string \<Rightarrow> synth_error + string \<times> bool" where
  "TranslateTarget pfx target =
     (case SplitHostPort target of
        None \<Rightarrow> Inr (target, False)
      | Some (host, port) \<Rightarrow>
          (case ParseAddr (trim_chars ''[]'' host) of
             None \<Rightarrow> Inr (target, False)
           | Some ip \<Rightarrow>
               if \<not> Is4 (Unmap ip) then Inr (target, False)
               else
                 (case Synthesize pfx (Unmap ip) of
                    Inl x \<Rightarrow> Inl x
                  | Inr v6 \<Rightarrow> Inr (JoinHostPort (addr_String v6) port, True))))"

subsection \<open>The ranges a translator cannot carry\<close>

lemma keep_top_eq:
  "keep_top n v = keep_top n (u :: 'a::len word) \<longleftrightarrow> drop_bit (LENGTH('a) - n) v = drop_bit (LENGTH('a) - n) u"
proof
  let ?k = "LENGTH('a) - n"
  have drop_push: "drop_bit ?k (push_bit ?k (drop_bit ?k w)) = drop_bit ?k w" for w :: "'a word"
    by (rule bit_word_eqI) (auto simp: bit_simps dest: bit_imp_le_length)
  assume "keep_top n v = keep_top n u"
  then show "drop_bit ?k v = drop_bit ?k u" unfolding keep_top_def by (metis drop_push)
qed (simp add: keep_top_def)

lemma div_eq_range: "n div d = k \<longleftrightarrow> k * d \<le> n \<and> n < Suc k * d" if "0 < d" for n d k :: nat
proof
  assume "n div d = k"
  with that show "k * d \<le> n \<and> n < Suc k * d" using dividend_less_times_div [of d n] by (auto simp: mult.commute)
next
  assume "k * d \<le> n \<and> n < Suc k * d"
  then show "n div d = k" by (intro div_nat_eqI) (simp_all add: mult.commute)
qed

lemma two_digits: "m div d = a \<and> m mod d = b \<longleftrightarrow> m = d * a + b \<and> b < d" if "0 < d" for a b d m :: nat
  using that by auto

lemma v4_octets:
  "v4_octet 0 v = w \<longleftrightarrow> unat v div 2 ^ 24 = unat w"
  "v4_octet 1 v = w \<longleftrightarrow> unat v div 2 ^ 16 mod 256 = unat w"
proof -
  have "unat v < 2 ^ LENGTH(32)" by (rule unsigned_less)
  then have v: "unat v div 2 ^ 24 < 256" by simp
  have u: "unat (ucast (x :: 32 word) :: byte) = unat x mod 256" for x
    by (simp add: unsigned_ucast_eq take_bit_eq_mod)
  show "v4_octet 0 v = w \<longleftrightarrow> unat v div 2 ^ 24 = unat w"
    using v by (simp add: v4_octet_def word_unat_eq_iff u unat_drop_bit)
  show "v4_octet 1 v = w \<longleftrightarrow> unat v div 2 ^ 16 mod 256 = unat w"
    by (simp add: v4_octet_def word_unat_eq_iff u unat_drop_bit)
qed

lemma high_nibble:
  "b AND 0xF0 = 0xE0 \<longleftrightarrow> unat b div 16 = 14" "b AND 0xF0 = 16 \<longleftrightarrow> unat b div 16 = 1" for b :: byte
proof -
  have "list_all (\<lambda>n. ((word_of_nat n :: byte) AND 0xF0 = 0xE0 \<longleftrightarrow> n div 16 = 14) \<and>
      ((word_of_nat n :: byte) AND 0xF0 = 16 \<longleftrightarrow> n div 16 = 1)) [0..<256]"
    by code_simp
  then have "\<forall>n < 256. ((word_of_nat n :: byte) AND 0xF0 = 0xE0 \<longleftrightarrow> n div 16 = 14) \<and>
      ((word_of_nat n :: byte) AND 0xF0 = 16 \<longleftrightarrow> n div 16 = 1)"
    by (simp add: list_all_iff)
  from this [rule_format, of "unat b"]
  show "b AND 0xF0 = 0xE0 \<longleftrightarrow> unat b div 16 = 14" "b AND 0xF0 = 16 \<longleftrightarrow> unat b div 16 = 1" by simp_all
qed

text \<open>The reserved ranges, as closed intervals of addresses.\<close>

definition reserved_ranges :: "(32 word \<times> 32 word) list" where
  "reserved_ranges =
     [(0, 0x00FFFFFF), (0x0A000000, 0x0AFFFFFF), (0x64400000, 0x647FFFFF), (0x7F000000, 0x7FFFFFFF),
      (0xA9FE0000, 0xA9FEFFFF), (0xAC100000, 0xAC1FFFFF), (0xC0A80000, 0xC0A8FFFF), (0xE0000000, 0xFFFFFFFF)]"

lemma unat_le_iff: "v \<le> w \<longleftrightarrow> unat v \<le> unat w" "v < w \<longleftrightarrow> unat v < unat w"
  by (simp_all add: word_le_nat_alt word_less_nat_alt)

lemma oct0: "v4_octet 0 v = w \<longleftrightarrow> unat w * 0x1000000 \<le> unat v \<and> unat v < Suc (unat w) * 0x1000000"
  unfolding v4_octets by (subst div_eq_range) simp_all

lemma oct01:
  "v4_octet 0 v = a \<and> v4_octet 1 v = b \<longleftrightarrow>
     (256 * unat a + unat b) * 0x10000 \<le> unat v \<and> unat v < Suc (256 * unat a + unat b) * 0x10000"
proof -
  have d: "unat v div 2 ^ 24 = unat v div 2 ^ 16 div 256" by (simp add: div_mult2_eq [symmetric])
  have "v4_octet 0 v = a \<and> v4_octet 1 v = b \<longleftrightarrow> unat v div 2 ^ 16 = 256 * unat a + unat b"
    unfolding v4_octets d two_digits [of 256, simplified] by simp
  then show ?thesis by (subst (asm) div_eq_range) simp_all
qed

lemma oct0_nibble:
  "unat (v4_octet 0 v) div 16 = k \<longleftrightarrow> k * 0x10000000 \<le> unat v \<and> unat v < Suc k * 0x10000000"
proof -
  have "unat (v4_octet 0 v) = unat v div 2 ^ 24" using v4_octets(1) [of v "v4_octet 0 v"] by simp
  then have "unat (v4_octet 0 v) div 16 = unat v div 0x10000000" by (simp add: div_mult2_eq [symmetric])
  then show ?thesis by (simp only: div_eq_range [of "0x10000000"])
qed

lemma oct01_nibble:
  "v4_octet 0 v = a \<and> unat (v4_octet 1 v) div 16 = k \<longleftrightarrow>
     (16 * unat a + k) * 0x100000 \<le> unat v \<and> unat v < Suc (16 * unat a + k) * 0x100000 \<and> k < 16"
proof -
  have "unat (v4_octet 1 v) = unat v div 2 ^ 16 mod 256" using v4_octets(2) [of v "v4_octet 1 v"] by simp
  then have "unat (v4_octet 1 v) div 16 = unat v div 2 ^ 16 mod (16 * 16) div 16" by simp
  also have "\<dots> = unat v div 0x100000 mod 16" by (simp only: div_mult2_eq [symmetric] mod_mult2_eq) (simp add: div_mult2_eq [symmetric])
  finally have k: "unat (v4_octet 1 v) div 16 = unat v div 0x100000 mod 16" .
  have a: "v4_octet 0 v = a \<longleftrightarrow> unat v div 0x100000 div 16 = unat a"
    unfolding v4_octets by (simp add: div_mult2_eq [symmetric])
  have "v4_octet 0 v = a \<and> unat (v4_octet 1 v) div 16 = k \<longleftrightarrow> unat v div 0x100000 = 16 * unat a + k \<and> k < 16"
    unfolding a k using two_digits [of 16 "unat v div 0x100000" "unat a" k] by simp
  then show ?thesis by (simp only: div_eq_range [of "0x100000"]) auto
qed

lemma carriable_classes:
  "IsUnspecified (Addr4 v) \<longleftrightarrow> unat v = 0"
  "IsLoopback (Addr4 v) \<longleftrightarrow> 0x7F000000 \<le> unat v \<and> unat v \<le> 0x7FFFFFFF"
  "IsLinkLocalUnicast (Addr4 v) \<longleftrightarrow> 0xA9FE0000 \<le> unat v \<and> unat v \<le> 0xA9FEFFFF"
  "IsMulticast (Addr4 v) \<longleftrightarrow> 0xE0000000 \<le> unat v \<and> unat v \<le> 0xEFFFFFFF"
  unfolding IsUnspecified_def IsLoopback_def IsLinkLocalUnicast_def IsMulticast_def Unmap_Addr4 ip_addr.case
    high_nibble oct01 oct0_nibble
  unfolding oct0 by (auto simp: word_unat_eq_iff [of v])

lemma IsPrivate_ranges:
  "IsPrivate (Addr4 v) \<longleftrightarrow>
     0x0A000000 \<le> unat v \<and> unat v \<le> 0x0AFFFFFF \<or> 0xAC100000 \<le> unat v \<and> unat v \<le> 0xAC1FFFFF \<or>
     0xC0A80000 \<le> unat v \<and> unat v \<le> 0xC0A8FFFF"
  unfolding IsPrivate_def Unmap_Addr4 ip_addr.case high_nibble oct01 oct01_nibble
  unfolding oct0 by auto

lemma inPrefix_range:
  "inPrefix (Addr4 v) \<lparr>pfx_addr = Addr4 b, pfx_bits = n\<rparr> \<longleftrightarrow>
     unat b div 2 ^ (32 - n) * 2 ^ (32 - n) \<le> unat v \<and>
     unat v < Suc (unat b div 2 ^ (32 - n)) * 2 ^ (32 - n)"
proof -
  have "inPrefix (Addr4 v) \<lparr>pfx_addr = Addr4 b, pfx_bits = n\<rparr> \<longleftrightarrow>
      unat v div 2 ^ (32 - n) = unat b div 2 ^ (32 - n)"
    unfolding inPrefix_def Contains_def
    by (simp add: keep_top_eq) (auto simp: word_unat_eq_iff unat_drop_bit)
  then show ?thesis by (subst (asm) div_eq_range) simp_all
qed

lemma reserved_prefixes:
  "inPrefix (Addr4 v) \<lparr>pfx_addr = Addr4 0x64400000, pfx_bits = 10\<rparr> \<longleftrightarrow> 0x64400000 \<le> unat v \<and> unat v \<le> 0x647FFFFF"
  "inPrefix (Addr4 v) \<lparr>pfx_addr = Addr4 0, pfx_bits = 8\<rparr> \<longleftrightarrow> unat v \<le> 0x00FFFFFF"
  "inPrefix (Addr4 v) \<lparr>pfx_addr = Addr4 0xF0000000, pfx_bits = 4\<rparr> \<longleftrightarrow> 0xF0000000 \<le> unat v"
proof -
  have "unat v < 2 ^ LENGTH(32)" by (rule unsigned_less)
  then show
    "inPrefix (Addr4 v) \<lparr>pfx_addr = Addr4 0x64400000, pfx_bits = 10\<rparr> \<longleftrightarrow> 0x64400000 \<le> unat v \<and> unat v \<le> 0x647FFFFF"
    "inPrefix (Addr4 v) \<lparr>pfx_addr = Addr4 0, pfx_bits = 8\<rparr> \<longleftrightarrow> unat v \<le> 0x00FFFFFF"
    "inPrefix (Addr4 v) \<lparr>pfx_addr = Addr4 0xF0000000, pfx_bits = 4\<rparr> \<longleftrightarrow> 0xF0000000 \<le> unat v"
    unfolding inPrefix_range by auto
qed

lemma outside_ranges:
  "list_all (\<lambda>(lo, hi). v < lo \<or> hi < v) reserved_ranges \<longleftrightarrow>
     0x00FFFFFF < unat v \<and> (unat v < 0x0A000000 \<or> 0x0AFFFFFF < unat v) \<and>
     (unat v < 0x64400000 \<or> 0x647FFFFF < unat v) \<and> (unat v < 0x7F000000 \<or> 0x7FFFFFFF < unat v) \<and>
     (unat v < 0xA9FE0000 \<or> 0xA9FEFFFF < unat v) \<and> (unat v < 0xAC100000 \<or> 0xAC1FFFFF < unat v) \<and>
     (unat v < 0xC0A80000 \<or> 0xC0A8FFFF < unat v) \<and> unat v < 0xE0000000"
proof -
  have "unat v < 2 ^ LENGTH(32)" by (rule unsigned_less)
  then show ?thesis by (simp add: reserved_ranges_def unat_le_iff)
qed

text \<open>
  The IPv4 addresses the translator refuses are exactly the reserved ranges: this network,
  the private, shared, loopback and link-local ones, and everything from multicast up.
\<close>

theorem carriable_ranges:
  "carriable (Addr4 v) = None \<longleftrightarrow> list_all (\<lambda>(lo, hi). v < lo \<or> hi < v) reserved_ranges"
proof -
  have "unat v < 2 ^ LENGTH(32)" by (rule unsigned_less)
  then show ?thesis
    unfolding carriable_def guard_None carriable_classes IsPrivate_ranges reserved_prefixes outside_ranges
    by (simp add: not_le) arith
qed

subsection \<open>The round trip\<close>

lemma put4_bits:
  "drop_bit 32 (put4 w v) = drop_bit 32 w" "ucast (put4 w v) = v"
proof -
  show "drop_bit 32 (put4 w v) = drop_bit 32 w"
    unfolding put4_def by (rule bit_word_eqI) (auto simp: bit_simps dest: bit_imp_le_length)
  show "ucast (put4 w v) = v"
    unfolding put4_def by (rule bit_word_eqI) (auto simp: bit_simps)
qed

lemma put4_eq: "x = put4 w v \<longleftrightarrow> drop_bit 32 x = drop_bit 32 w \<and> ucast x = v"
proof
  assume e: "drop_bit 32 x = drop_bit 32 w \<and> ucast x = v"
  show "x = put4 w v"
  proof (rule bit_word_eqI)
    fix n assume n: "n < LENGTH(128)"
    show "bit x n = bit (put4 w v) n"
    proof (cases "n < 32")
      case True
      have "bit (ucast x :: 32 word) n = bit v n" using e by simp
      with True n show ?thesis by (simp add: put4_def bit_simps)
    next
      case False
      have "bit (drop_bit 32 x) (n - 32) = bit (drop_bit 32 w) (n - 32)" using e by simp
      with False n show ?thesis by (auto simp: put4_def bit_simps dest: bit_imp_le_length)
    qed
  qed
qed (auto simp: put4_bits)

text \<open>What every caller passes: a /96 of IPv6 that is not the IPv4-mapped one.\<close>

definition nat64_prefix :: "ip_prefix \<Rightarrow> bool" where
  "nat64_prefix p \<longleftrightarrow> pfx_bits p = 96 \<and> Is6 (pfx_addr p) \<and> \<not> Is4In6 (pfx_addr p)"

definition prefix_word :: "ip_prefix \<Rightarrow> 128 word" where
  "prefix_word p = As16 (pfx_addr (Masked p))"

lemma nat64_Contains:
  assumes "nat64_prefix p"
  shows "Contains p (Addr6 x z) \<longleftrightarrow> z = [] \<and> drop_bit 32 x = drop_bit 32 (prefix_word p)"
    and "drop_bit 32 (prefix_word p) \<noteq> 0xFFFF"
proof -
  obtain w y where p: "pfx_addr p = Addr6 w y" "pfx_bits p = 96" "drop_bit 32 w \<noteq> 0xFFFF"
    using assms by (cases "pfx_addr p") (auto simp: nat64_prefix_def Is4In6_def)
  then have "drop_bit 32 (prefix_word p) = drop_bit 32 w"
    unfolding prefix_word_def Masked_def As16_def keep_top_def
    by (simp, intro bit_word_eqI) (auto simp: bit_simps dest: bit_imp_le_length)
  with p show "Contains p (Addr6 x z) \<longleftrightarrow> z = [] \<and> drop_bit 32 x = drop_bit 32 (prefix_word p)"
    and "drop_bit 32 (prefix_word p) \<noteq> 0xFFFF"
    by (auto simp: Contains_def keep_top_eq)
qed

lemma Synthesize_Inr:
  "nat64_prefix p \<Longrightarrow> Synthesize (Some p) a = Inr x \<longleftrightarrow>
     (\<exists>v. Unmap a = Addr4 v \<and> carriable (Addr4 v) = None \<and> x = Addr6 (put4 (prefix_word p) v) [])"
  by (auto simp: Synthesize_def nat64_prefix_def prefix_word_def guard_Inr split: ip_addr.splits option.splits)

lemma EmbeddedIPv4_Some:
  "nat64_prefix p \<Longrightarrow> EmbeddedIPv4 (Some p) x = Some b \<longleftrightarrow>
     (\<exists>v. b = Addr4 v \<and> x = Addr6 (put4 (prefix_word p) v) [])"
proof -
  assume p: "nat64_prefix p"
  note c = nat64_Contains [OF p]
  show ?thesis
  proof (cases x)
    case (Addr6 w z)
    have "EmbeddedIPv4 (Some p) x = Some b \<longleftrightarrow>
        z = [] \<and> drop_bit 32 w = drop_bit 32 (prefix_word p) \<and> b = Addr4 (ucast w)"
      using p c by (auto simp: EmbeddedIPv4_def nat64_prefix_def Addr6 Is4In6_def As16_def)
    then show ?thesis by (auto simp: Addr6 put4_eq)
  qed (simp add: EmbeddedIPv4_def)
qed

lemma ParseNAT64Prefix_ok: "ParseNAT64Prefix raw = Inr p \<Longrightarrow> nat64_prefix p \<and> p = Masked p"
proof -
  assume "ParseNAT64Prefix raw = Inr p"
  then obtain q where q: "Is6 (pfx_addr q)" "\<not> Is4In6 (pfx_addr q)" "pfx_bits q = 96" "p = Masked q"
    by (auto simp: ParseNAT64Prefix_def Let_def guard_Inr split: option.splits if_splits)
  then obtain w y where w: "pfx_addr q = Addr6 w y" "drop_bit 32 w \<noteq> 0xFFFF"
    by (cases "pfx_addr q") (auto simp: Is4In6_def)
  have "drop_bit 32 (keep_top 96 w) = drop_bit 32 w"
    unfolding keep_top_def by (rule bit_word_eqI) (auto simp: bit_simps dest: bit_imp_le_length)
  with q w show ?thesis by (simp add: nat64_prefix_def Masked_def Is4In6_def)
qed

text \<open>
  Under any prefix an operator can configure, an address is the NAT64 form of an IPv4 address
  exactly when that address is the one embedded in it and a translator can carry it: the reading
  and the writing of the form are inverse.
\<close>

theorem nat64_round_trip:
  assumes "ParseNAT64Prefix raw = Inr p"
  shows "Synthesize (Some p) a = Inr x \<longleftrightarrow>
     EmbeddedIPv4 (Some p) x = Some (Unmap a) \<and> carriable (Unmap a) = None"
proof -
  have p: "nat64_prefix p" using ParseNAT64Prefix_ok [OF assms] by simp
  show ?thesis unfolding Synthesize_Inr [OF p] EmbeddedIPv4_Some [OF p] by auto
qed

lemma well_known_parses:
  "ParseNAT64Prefix ''64:ff9b::'' = Inr \<lparr>pfx_addr = Addr6 0x0064FF9B000000000000000000000000 [], pfx_bits = 96\<rparr>"
  by code_simp

theorem nat64_round_trip_witness:
  "EmbeddedIPv4 (Some \<lparr>pfx_addr = Addr6 0x0064FF9B000000000000000000000000 [], pfx_bits = 96\<rparr>)
     (Addr6 0x0064FF9B000000000000000001020304 []) = Some (Addr4 0x01020304)"
proof -
  have "Synthesize (Some \<lparr>pfx_addr = Addr6 0x0064FF9B000000000000000000000000 [], pfx_bits = 96\<rparr>)
      (Addr4 0x01020304) = Inr (Addr6 0x0064FF9B000000000000000001020304 [])"
    by code_simp
  then show ?thesis using nat64_round_trip [OF well_known_parses] by simp
qed

end
