(* ===== verification/GoFloat.thy ===== *)
theory GoFloat
  imports Complex_Main "HOL-Library.Log_Nat"
begin

text \<open>
  Go's \<open>float64\<close> on the values the sources compute with: a rational rounded to 53
  significant bits, ties to even. None of them overflows or is subnormal, and no two operations
  are fused into one rounding, as on amd64.
\<close>

definition pow2 :: "int \<Rightarrow> rat" where
  "pow2 e = (if 0 \<le> e then 2 ^ nat e else inverse (2 ^ nat (- e)))"

text \<open>The exponent of the highest bit of a positive rational.\<close>

definition rat_log2 :: "rat \<Rightarrow> int" where
  "rat_log2 x =
     (let (p, q) = quotient_of x; e = bitlen p - bitlen q
      in if pow2 e \<le> x then e else e - 1)"

definition round_even :: "rat \<Rightarrow> int" where
  "round_even x =
     (let n = \<lfloor>x\<rfloor>; r = x - of_int n
      in if r < 1 / 2 then n else if r > 1 / 2 then n + 1 else if even n then n else n + 1)"

definition f64 :: "rat \<Rightarrow> rat" where
  "f64 x =
     (if x = 0 then 0
      else
        (let u = pow2 (rat_log2 \<bar>x\<bar> - 52)
         in of_int (round_even (x / u)) * u))"

text \<open>\<open>Duration.Seconds\<close>: the division truncates towards zero.\<close>

definition Seconds :: "int \<Rightarrow> rat" where
  "Seconds d =
     (let s = sgn d * (\<bar>d\<bar> div 10 ^ 9); ns = d - s * 10 ^ 9
      in f64 (of_int s + f64 (of_int ns / 10 ^ 9)))"

lemma pow2_pos [simp]: "0 < pow2 e"
  by (simp add: pow2_def)

lemma round_even_nonneg: "0 \<le> x \<Longrightarrow> 0 \<le> round_even x"
  by (simp add: round_even_def Let_def)

lemma f64_nonneg: "0 \<le> x \<Longrightarrow> 0 \<le> f64 x"
proof -
  assume "0 \<le> x"
  then have "0 \<le> round_even (x / u)" if "0 < u" for u
    using that by (intro round_even_nonneg) simp
  then show ?thesis unfolding f64_def Let_def by (simp add: zero_le_mult_iff less_imp_le)
qed

lemma Seconds_nonneg: "0 \<le> d \<Longrightarrow> 0 \<le> Seconds d"
proof -
  assume d: "0 \<le> d"
  then have "0 \<le> sgn d * (\<bar>d\<bar> div 10 ^ 9)" by (simp add: sgn_if pos_imp_zdiv_nonneg_iff)
  moreover have "0 \<le> d - sgn d * (\<bar>d\<bar> div 10 ^ 9) * 10 ^ 9"
    using d by (cases "d = 0") (simp_all add: sgn_if minus_div_mult_eq_mod)
  ultimately show ?thesis unfolding Seconds_def Let_def
    by (intro f64_nonneg add_nonneg_nonneg divide_nonneg_pos) (simp_all only: of_int_0_le_iff, simp)
qed

subsection \<open>The rounding error\<close>

lemma pow2_powi: "pow2 e = power_int 2 e"
  by (simp add: pow2_def power_int_def power_one_over inverse_eq_divide)

lemma pow2_diff: "pow2 (a - b) = pow2 a / pow2 b"
  by (simp add: pow2_powi power_int_diff)

lemma rat_log2_le:
  assumes "0 < x"
  shows "pow2 (rat_log2 x) \<le> x"
proof -
  obtain p q where pq: "quotient_of x = (p, q)" by fastforce
  then have q: "0 < q" and x: "x = of_int p / of_int q" by (simp_all add: quotient_of_denom_pos quotient_of_div)
  with assms have p: "0 < p" by (simp add: zero_less_divide_iff)
  have "2 ^ nat (bitlen p - 1) \<le> p" using bitlen_bounds [OF p] by simp
  then have "(2 :: rat) ^ nat (bitlen p - 1) \<le> of_int p" by (metis of_int_le_iff of_int_numeral of_int_power)
  moreover have "0 < bitlen p" using p by (simp add: bitlen_eq_zero_iff order.not_eq_order_implies_strict bitlen_nonneg)
  ultimately have lp: "pow2 (bitlen p - 1) \<le> of_int p" by (simp add: pow2_def)
  have "q < 2 ^ nat (bitlen q)" using bitlen_bounds [OF q] by simp
  then have "of_int q < (2 :: rat) ^ nat (bitlen q)" by (metis of_int_less_iff of_int_numeral of_int_power)
  then have lq: "of_int q \<le> pow2 (bitlen q)" by (simp add: pow2_def bitlen_nonneg)
  have "pow2 (bitlen p - 1 - bitlen q) \<le> x"
    unfolding pow2_diff [of _ "bitlen q"] x using lp lq p q by (intro frac_le) simp_all
  then have "pow2 (bitlen p - bitlen q - 1) \<le> x" by (simp add: algebra_simps)
  then show ?thesis by (simp add: rat_log2_def pq Let_def)
qed

lemma round_even_le: "of_int (round_even x) \<le> x + 1"
  by (simp add: round_even_def Let_def) linarith

lemma f64_upper: "0 < x \<Longrightarrow> f64 x \<le> x + x / 2 ^ 52"
proof -
  assume x: "0 < x"
  define u where "u = pow2 (rat_log2 x - 52)"
  have u: "0 < u" by (simp add: u_def)
  have "pow2 52 = 2 ^ 52" by (simp add: pow2_def)
  then have "u = pow2 (rat_log2 x) / 2 ^ 52" by (simp only: u_def pow2_diff)
  then have ux: "u \<le> x / 2 ^ 52" using rat_log2_le [OF x] by (simp add: divide_right_mono)
  have "of_int (round_even (x / u)) * u \<le> (x / u + 1) * u"
    using round_even_le [of "x / u"] u by (intro mult_right_mono) simp_all
  also have "\<dots> = x + u" using u by (simp add: distrib_right)
  finally show ?thesis using x ux by (simp add: f64_def u_def Let_def)
qed

end
