(* ===== verification/EnfFilter.thy ===== *)
theory EnfFilter
  imports EnfIcmp EnfFlows WgNat64 GoFloat
begin

text \<open>
  \<open>internal/enforce/filter.go\<close>: the filter between an enforced namespace and the tunnel. Each
  operation is a function of the filter's state, two readings of the clock (the flow table's and
  the limiter's) and the packet's buffer; it returns the state, the buffer as it leaves it, the
  length to send and the refusal to write back. \<open>None\<close> is the panic of \<open>As4\<close> on an address
  that is not IPv4.
\<close>

subsection \<open>State\<close>

record policy =
  pol_self :: "ip_addr option"
  pol_resolvers :: "ip_addr list"
  pol_nat64 :: "ip_prefix option"

record stats =
  st_passed :: "64 word"
  st_translated :: "64 word"
  st_refused :: "64 word"
  st_dropped :: "64 word"

record pfilter =
  f_policy :: policy
  f_dead :: bool
  f_flows :: flow_table
  f_stats :: stats
  f_tokens :: rat
  f_last :: "int option"

definition CLATv4 :: "32 word" where "CLATv4 = 0xC0000002"
definition icmpDummy4 :: "32 word" where "icmpDummy4 = 0xC0000008"

definition notGlobal4 :: "ip_prefix list" where
  "notGlobal4 =
     [\<lparr>pfx_addr = Addr4 0xC0000000, pfx_bits = 24\<rparr>, \<lparr>pfx_addr = Addr4 0xC0000200, pfx_bits = 24\<rparr>,
      \<lparr>pfx_addr = Addr4 0xC6120000, pfx_bits = 15\<rparr>, \<lparr>pfx_addr = Addr4 0xC6336400, pfx_bits = 24\<rparr>,
      \<lparr>pfx_addr = Addr4 0xCB007100, pfx_bits = 24\<rparr>]"

definition ula6 :: ip_prefix where
  "ula6 = \<lparr>pfx_addr = Addr6 (push_bit 120 0xFC) [], pfx_bits = 7\<rparr>"

definition refusalRate :: rat where "refusalRate = 200"
definition refusalBurst :: rat where "refusalBurst = 200"

definition NewFilter :: "policy \<Rightarrow> pfilter" where
  "NewFilter p =
     \<lparr>f_policy = p\<lparr>pol_nat64 := map_option Masked (pol_nat64 p)\<rparr>, f_dead = True, f_flows = newFlowTable,
      f_stats = \<lparr>st_passed = 0, st_translated = 0, st_refused = 0, st_dropped = 0\<rparr>,
      f_tokens = refusalBurst, f_last = None\<rparr>"

definition SetLive :: "bool \<Rightarrow> pfilter \<Rightarrow> pfilter" where
  "SetLive live f = f\<lparr>f_dead := \<not> live\<rparr>"

definition Live :: "pfilter \<Rightarrow> bool" where
  "Live f = (\<not> f_dead f)"

definition isResolver :: "pfilter \<Rightarrow> ip_addr \<Rightarrow> bool" where
  "isResolver f a = list_ex (\<lambda>r. r = a) (pol_resolvers (f_policy f))"

definition nat64_contains :: "pfilter \<Rightarrow> ip_addr \<Rightarrow> bool" where
  "nat64_contains f a = (case pol_nat64 (f_policy f) of None \<Rightarrow> False | Some p \<Rightarrow> Contains p a)"

definition count_passed :: "pfilter \<Rightarrow> pfilter" where
  "count_passed f = f\<lparr>f_stats := (f_stats f)\<lparr>st_passed := st_passed (f_stats f) + 1\<rparr>\<rparr>"

definition count_translated :: "pfilter \<Rightarrow> pfilter" where
  "count_translated f = f\<lparr>f_stats := (f_stats f)\<lparr>st_translated := st_translated (f_stats f) + 1\<rparr>\<rparr>"

definition count_refused :: "pfilter \<Rightarrow> pfilter" where
  "count_refused f = f\<lparr>f_stats := (f_stats f)\<lparr>st_refused := st_refused (f_stats f) + 1\<rparr>\<rparr>"

definition count_dropped :: "pfilter \<Rightarrow> pfilter" where
  "count_dropped f = f\<lparr>f_stats := (f_stats f)\<lparr>st_dropped := st_dropped (f_stats f) + 1\<rparr>\<rparr>"

subsection \<open>Refusals\<close>

text \<open>The token bucket over generated errors.\<close>

definition allowRefusal :: "pfilter \<Rightarrow> int \<Rightarrow> pfilter \<times> bool" where
  "allowRefusal f now =
     (let tokens =
        (case f_last f of
           None \<Rightarrow> f_tokens f
         | Some prev \<Rightarrow>
             let t = f64 (f_tokens f + f64 (Seconds (time_sub now prev) * refusalRate))
             in if t > refusalBurst then refusalBurst else t);
          f' = f\<lparr>f_tokens := tokens, f_last := Some now\<rparr>
      in if tokens < 1 then (f', False) else (f'\<lparr>f_tokens := f64 (tokens - 1)\<rparr>, True))"

type_synonym readings = "int \<times> int"
type_synonym outbound = "pfilter \<times> bytes \<times> nat \<times> bytes option"

definition drop_packet :: "pfilter \<Rightarrow> bytes \<Rightarrow> outbound" where
  "drop_packet f buf = (count_dropped f, buf, 0, None)"

definition refuse6 :: "pfilter \<Rightarrow> readings \<Rightarrow> bytes \<Rightarrow> bytes \<Rightarrow> outbound" where
  "refuse6 f ts buf pkt =
     (let (f', ok) = allowRefusal (count_refused f) (snd ts)
      in (f', buf, 0, if ok then icmp6Prohibited pkt else None))"

definition refuse4 :: "pfilter \<Rightarrow> readings \<Rightarrow> bytes \<Rightarrow> bytes \<Rightarrow> outbound" where
  "refuse4 f ts buf pkt =
     (let (f', ok) = allowRefusal (count_refused f) (snd ts)
      in (f', buf, 0, if ok then icmp4Prohibited pkt else None))"

subsection \<open>IPv6 out of the namespace\<close>

text \<open>
  The transport protocol and header; \<open>Some (proto, None)\<close> is a later fragment, which carries no
  header, and \<open>None\<close> is a packet the filter refuses to read.
\<close>

definition known_proto :: "byte \<Rightarrow> bool" where
  "known_proto proto \<longleftrightarrow> proto = protoTCP \<or> proto = protoUDP \<or> proto = protoICMPv6"

definition transport_header :: "byte \<Rightarrow> bytes \<Rightarrow> (byte \<times> bytes option) option" where
  "transport_header proto rest =
     (if \<not> known_proto proto then None
      else
        (case l4ChecksumOffset proto of
           None \<Rightarrow> None
         | Some (_, mn) \<Rightarrow> if length rest < mn then None else Some (proto, Some rest)))"

definition transport6 :: "bytes \<Rightarrow> (byte \<times> bytes option) option" where
  "transport6 pkt =
     (let proto = pkt ! 6; rest = drop ipv6Header pkt in
      if proto = protoFrag6 then
        (if length rest < 8 then None
         else
           (let nxt = rest ! 0; fragOff = u16_at 2 rest AND NOT 7
            in if fragOff \<noteq> 0 then (if known_proto nxt then Some (nxt, None) else None)
               else transport_header nxt (drop 8 rest)))
      else transport_header proto rest)"

definition isDNSPort :: "byte \<Rightarrow> bytes \<Rightarrow> bool" where
  "isDNSPort proto l4 =
     (if proto \<noteq> protoTCP \<and> proto \<noteq> protoUDP then False
      else (let p = u16_at 2 l4 in p = 53 \<or> p = 853))"

definition outboundKey6 :: "byte \<Rightarrow> bytes \<Rightarrow> ip_addr \<Rightarrow> flow_key option" where
  "outboundKey6 proto l4 dst =
     (let r = ucast (As16 dst) in
      if proto = protoTCP \<or> proto = protoUDP then
        Some \<lparr>fk_proto = proto, fk_lport = u16_at 0 l4, fk_remote = r, fk_rport = u16_at 2 l4\<rparr>
      else if proto = protoICMPv6 \<and> l4 ! 0 = 128 then
        Some \<lparr>fk_proto = protoICMP, fk_lport = u16_at 4 l4, fk_remote = r, fk_rport = 0\<rparr>
      else None)"

definition forged6 :: "pfilter \<Rightarrow> bytes \<Rightarrow> bool" where
  "forged6 f pkt \<longleftrightarrow>
     (let src = addr16 (bytes_at 8 16 pkt); dst = addr16 (bytes_at 24 16 pkt)
      in Some src \<noteq> pol_self (f_policy f) \<or> IsMulticast dst \<or> IsLinkLocalUnicast dst \<or> IsLoopback dst \<or>
         IsUnspecified dst)"

text \<open>The steering of a packet with a readable transport header: refuse, or the table to go on with.\<close>

definition steer6 :: "pfilter \<Rightarrow> int \<Rightarrow> byte \<Rightarrow> bytes option \<Rightarrow> ip_addr \<Rightarrow> pfilter \<times> bool" where
  "steer6 f now proto l4 dst =
     (if Contains ula6 dst then (f, False)
      else
        (case l4 of
           None \<Rightarrow> (f, True)
         | Some h \<Rightarrow>
             if isDNSPort proto h \<and> \<not> isResolver f dst then (f, False)
             else if nat64_contains f dst then
               (case outboundKey6 proto h dst of
                  None \<Rightarrow> (f, True)
                | Some k \<Rightarrow> (let (t, ok) = claim (f_flows f) now k famV6 in (f\<lparr>f_flows := t\<rparr>, ok)))
             else (f, True)))"

definition outbound6 :: "pfilter \<Rightarrow> readings \<Rightarrow> bytes \<Rightarrow> nat \<Rightarrow> outbound" where
  "outbound6 f ts buf n =
     (if n < ipv6Header then drop_packet f buf
      else
        (let plen = unat (u16_at 4 buf) in
         if ipv6Header + plen > n then drop_packet f buf
         else
           (let n = ipv6Header + plen; pkt = take n buf; dst = addr16 (bytes_at 24 16 pkt) in
            if forged6 f pkt then drop_packet f buf
            else
              (let tr = transport6 pkt;
                   isErr = (case tr of Some (proto, Some l4) \<Rightarrow> proto = protoICMPv6 \<and> l4 ! 0 < 128 | _ \<Rightarrow> False)
               in
               if f_dead f then (if isErr then drop_packet f buf else refuse6 f ts buf pkt)
               else
                 (case tr of
                    None \<Rightarrow> refuse6 f ts buf pkt
                  | Some (proto, l4) \<Rightarrow>
                      if isErr then (count_passed f, buf, n, None)
                      else
                        (let (f', ok) = steer6 f (fst ts) proto l4 dst in
                         if \<not> ok then refuse6 f' ts buf pkt
                         else (count_passed f', buf, n, None)))))))"

subsection \<open>IPv4 out of the namespace\<close>

definition carriable4 :: "pfilter \<Rightarrow> ip_addr \<Rightarrow> ip_addr option" where
  "carriable4 f dst =
     (if list_ex (\<lambda>p. Contains p dst) notGlobal4 then None
      else (case Synthesize (pol_nat64 (f_policy f)) dst of Inl _ \<Rightarrow> None | Inr d6 \<Rightarrow> Some d6))"

text \<open>The flow key of an IPv4 packet: drop it, refuse it, or go on.\<close>

datatype key4 = KeyDrop | KeyRefuse | Key flow_key

definition outboundKey4 :: "byte \<Rightarrow> bytes \<Rightarrow> 32 word \<Rightarrow> key4" where
  "outboundKey4 proto l4 r =
     (if proto = protoTCP \<or> proto = protoUDP then
        (case l4ChecksumOffset proto of
           None \<Rightarrow> KeyDrop
         | Some (_, mn) \<Rightarrow>
             if length l4 < mn then KeyDrop
             else if isDNSPort proto l4 then KeyRefuse
             else Key \<lparr>fk_proto = proto, fk_lport = u16_at 0 l4, fk_remote = r, fk_rport = u16_at 2 l4\<rparr>)
      else if proto = protoICMP then
        Key \<lparr>fk_proto = protoICMP, fk_lport = u16_at 4 l4, fk_remote = r, fk_rport = 0\<rparr>
      else KeyRefuse)"

text \<open>The rewriting of the accepted packet: the segment moves to its place, then the header.\<close>

definition translate4to6 :: "bytes \<Rightarrow> nat \<Rightarrow> nat \<Rightarrow> 128 word \<Rightarrow> 128 word \<Rightarrow> bytes" where
  "translate4to6 buf ihl tot s d =
     (let plen = tot - ihl; tos = buf ! 1; ttl = buf ! 8; proto = buf ! 9;
          nh = (if proto = protoICMP then protoICMPv6 else proto);
          seg = bytes_at ihl plen buf;
          seg = (if proto = protoICMP then seg[0 := 128] else seg);
          hdr = [0x60 OR drop_bit 4 tos, push_bit 4 tos, 0, 0] @ be16 (word_of_nat plen) @ [nh, ttl] @
            be128 s @ be128 d;
          seg = fst (setL4Checksum seg nh (pseudo6 (be128 s) (be128 d) nh plen))
      in splice 0 (hdr @ seg) buf)"

definition outbound4 :: "pfilter \<Rightarrow> readings \<Rightarrow> bytes \<Rightarrow> nat \<Rightarrow> outbound" where
  "outbound4 f ts buf n =
     (if n < ipv4HeaderMin then drop_packet f buf
      else
        (let ihl = unat (buf ! 0 AND 0x0F) * 4; tot = unat (u16_at 2 buf) in
         if ihl < ipv4HeaderMin \<or> tot < ihl \<or> tot > n then drop_packet f buf
         else
           (let pkt = take tot buf; src = addr4 (bytes_at 12 4 pkt); dst = u32_at 16 pkt; proto = pkt ! 9;
                l4 = drop ihl pkt; fl = u16_at 6 pkt
            in
            if src \<noteq> Addr4 CLATv4 \<or> IsMulticast (Addr4 dst) \<or> dst = 0xFFFFFFFF then drop_packet f buf
            else if proto = protoICMP \<and> (length l4 < 8 \<or> l4 ! 0 \<noteq> 8 \<or> l4 ! 1 \<noteq> 0) then drop_packet f buf
            else
              (case (pol_nat64 (f_policy f), pol_self (f_policy f)) of
                 (Some _, Some self) \<Rightarrow>
                   if f_dead f then refuse4 f ts buf pkt
                   else if fl AND 0x2000 \<noteq> 0 \<or> fl AND 0x1FFF \<noteq> 0 then refuse4 f ts buf pkt
                   else
                     (case outboundKey4 proto l4 dst of
                        KeyDrop \<Rightarrow> drop_packet f buf
                      | KeyRefuse \<Rightarrow> refuse4 f ts buf pkt
                      | Key key \<Rightarrow>
                          (case carriable4 f (Addr4 dst) of
                             None \<Rightarrow> refuse4 f ts buf pkt
                           | Some dst6 \<Rightarrow>
                               (let plen = tot - ihl in
                                if ipv6Header + plen > length buf \<or> ipv6Header + plen > minMTU
                                then refuse4 f ts buf pkt
                                else
                                  (let (t, ok) = claim (f_flows f) (fst ts) key famV4; f' = f\<lparr>f_flows := t\<rparr> in
                                   if \<not> ok then refuse4 f' ts buf pkt
                                   else (count_translated f', translate4to6 buf ihl tot (As16 self) (As16 dst6),
                                         ipv6Header + plen, None)))))
               | _ \<Rightarrow> refuse4 f ts buf pkt))))"

definition Outbound :: "pfilter \<Rightarrow> readings \<Rightarrow> bytes \<Rightarrow> nat \<Rightarrow> outbound" where
  "Outbound f ts buf n =
     (if n = 0 \<or> n > length buf then drop_packet f buf
      else if drop_bit 4 (buf ! 0) = 6 then outbound6 f ts buf n
      else if drop_bit 4 (buf ! 0) = 4 then outbound4 f ts buf n
      else drop_packet f buf)"

subsection \<open>Into the namespace\<close>

type_synonym inbound = "pfilter \<times> bytes \<times> nat"

definition inboundKey :: "byte \<Rightarrow> bytes \<Rightarrow> ip_addr \<Rightarrow> flow_key option" where
  "inboundKey proto seg src =
     (let r = ucast (As16 src) in
      if proto = protoTCP then
        (if length seg < 20 then None
         else Some \<lparr>fk_proto = proto, fk_lport = u16_at 2 seg, fk_remote = r, fk_rport = u16_at 0 seg\<rparr>)
      else if proto = protoUDP then
        (if length seg < 8 then None
         else Some \<lparr>fk_proto = proto, fk_lport = u16_at 2 seg, fk_remote = r, fk_rport = u16_at 0 seg\<rparr>)
      else if proto = protoICMPv6 \<and> length seg \<ge> 8 \<and> seg ! 0 = 129 then
        Some \<lparr>fk_proto = protoICMP, fk_lport = u16_at 4 seg, fk_remote = r, fk_rport = 0\<rparr>
      else None)"

text \<open>The ICMPv4 equivalent of an ICMPv6 error: type, code and the rest of the header.\<close>

definition icmpErr6to4 :: "byte \<Rightarrow> byte \<Rightarrow> 32 word \<Rightarrow> (byte \<times> byte \<times> 32 word) option" where
  "icmpErr6to4 typ code rest =
     (if typ = 1 then
        (if code = 0 \<or> code = 2 \<or> code = 3 then Some (3, 1, 0)
         else if code = 1 then Some (3, 10, 0)
         else if code = 4 then Some (3, 3, 0)
         else None)
      else if typ = 2 then
        (let mtu = (if rest > 0xFFFF + 20 then 0xFFFF + 20 else rest);
             mtu = (if mtu < 68 + 20 then 68 + 20 else mtu)
         in Some (3, 4, mtu - 20))
      else if typ = 3 then Some (11, code, 0)
      else None)"

definition traffic_class :: "bytes \<Rightarrow> byte" where
  "traffic_class h = push_bit 4 (h ! 0) OR drop_bit 4 (h ! 1)"

text \<open>The rewriting of a reply: the segment moves to its place behind an IPv4 header.\<close>

definition translate6to4 :: "bytes \<Rightarrow> nat \<Rightarrow> 32 word \<Rightarrow> bytes" where
  "translate6to4 buf plen v4src =
     (let proto = buf ! 6; np = (if proto = protoICMPv6 then protoICMP else proto);
          seg = bytes_at ipv6Header plen buf;
          seg = (if np = protoICMP then seg[0 := 0] else seg);
          hdr = writeIPv4Header (traffic_class buf) (ipv4HeaderMin + plen) (buf ! 7) np v4src CLATv4;
          ps = (if np = protoICMP then 0 else pseudo4 (bytes_at 12 4 hdr) (bytes_at 16 4 hdr) np plen)
      in splice 0 (hdr @ fst (setL4Checksum seg np ps)) buf)"

text \<open>The key of the packet an error quotes, when the quote is long enough.\<close>

definition quotedKey :: "byte \<Rightarrow> bytes \<Rightarrow> ip_addr \<Rightarrow> flow_key option" where
  "quotedKey proto il4 dst =
     (if proto = protoTCP \<or> proto = protoUDP then
        (if length il4 \<ge> 4 then outboundKey6 proto (take 4 il4 @ [0, 0, 0, 0]) dst else None)
      else if proto = protoICMPv6 then
        (if length il4 \<ge> 8 \<and> il4 ! 0 = 128 then outboundKey6 proto il4 dst else None)
      else None)"

text \<open>The rewriting of an error: IPv4 header, ICMP header, the quoted header, the quoted bytes.\<close>

definition translate_error ::
  "bytes \<Rightarrow> bytes \<Rightarrow> byte \<times> byte \<times> 32 word \<Rightarrow> 32 word \<Rightarrow> 32 word \<Rightarrow> bytes" where
  "translate_error buf inner err from innerDst4 =
     (let (typ, code, mtu) = err;
          innerProto = inner ! 6;
          il4 = drop ipv6Header inner;
          innerTotal = ipv4HeaderMin + unat (u16_at 4 inner);
          np = (if innerProto = protoICMPv6 then protoICMP else innerProto);
          il4 = (if innerProto = protoICMPv6 then il4[0 := 8] else il4);
          ip = writeIPv4Header (traffic_class inner) innerTotal (inner ! 7) np CLATv4 innerDst4;
          out = ipv4HeaderMin + 8 + ipv4HeaderMin + length il4;
          m = [typ, code, 0, 0] @ be32 mtu @ ip @ il4
      in splice 0 (writeIPv4Header 0 out (buf ! 7) protoICMP from CLATv4 @ fst (setL4Checksum m protoICMP 0)) buf)"

definition inboundError :: "pfilter \<Rightarrow> int \<Rightarrow> bytes \<Rightarrow> nat \<Rightarrow> inbound option" where
  "inboundError f now buf n =
     (let outerSrc = addr16 (bytes_at 8 16 buf); m = drop ipv6Header (take n buf); inner = drop 8 m;
          pass = Some (count_passed f, buf, n)
      in
      if length inner < ipv6Header \<or> drop_bit 4 (inner ! 0) \<noteq> 6 then pass
      else
        (let innerSrc = addr16 (bytes_at 8 16 inner); innerDst = addr16 (bytes_at 24 16 inner) in
         if Some innerSrc \<noteq> pol_self (f_policy f) \<or> \<not> nat64_contains f innerDst then pass
         else
           (case quotedKey (inner ! 6) (drop ipv6Header inner) innerDst of
              None \<Rightarrow> pass
            | Some key \<Rightarrow>
                (let (t, fam) = flow_lookup (f_flows f) now key; f' = f\<lparr>f_flows := t\<rparr> in
                 if fam \<noteq> Some famV4 then Some (count_passed f', buf, n)
                 else
                   (case icmpErr6to4 (m ! 0) (m ! 1) (u32_at 4 m) of
                      None \<Rightarrow> Some (count_dropped f', buf, 0)
                    | Some err \<Rightarrow>
                        (case (if nat64_contains f outerSrc
                               then EmbeddedIPv4 (pol_nat64 (f_policy f)) outerSrc else Some (Addr4 icmpDummy4),
                               EmbeddedIPv4 (pol_nat64 (f_policy f)) innerDst) of
                           (Some (Addr4 from), Some (Addr4 to)) \<Rightarrow>
                             Some (count_translated f', translate_error buf inner err from to,
                                   ipv4HeaderMin + 8 + length inner - ipv6Header + ipv4HeaderMin)
                         | _ \<Rightarrow> None))))))"

definition Inbound :: "pfilter \<Rightarrow> int \<Rightarrow> bytes \<Rightarrow> nat \<Rightarrow> inbound option" where
  "Inbound f now buf n =
     (if n < ipv6Header \<or> n > length buf \<or> drop_bit 4 (buf ! 0) \<noteq> 6 then Some (count_dropped f, buf, 0)
      else
        (let plen = unat (u16_at 4 buf) in
         if ipv6Header + plen > n then Some (count_dropped f, buf, 0)
         else
           (let n = ipv6Header + plen; src = addr16 (bytes_at 8 16 buf); dst = addr16 (bytes_at 24 16 buf) in
            if Some dst \<noteq> pol_self (f_policy f) then Some (count_dropped f, buf, 0)
            else
              (let proto = buf ! 6; seg = bytes_at ipv6Header plen buf in
               if proto = protoICMPv6 \<and> length seg \<ge> 8 \<and> seg ! 0 < 128 then inboundError f now buf n
               else if \<not> nat64_contains f src then Some (count_passed f, buf, n)
               else
                 (case inboundKey proto seg src of
                    None \<Rightarrow> Some (count_passed f, buf, n)
                  | Some key \<Rightarrow>
                      (let (t, fam) = flow_lookup (f_flows f) now key; f' = f\<lparr>f_flows := t\<rparr> in
                       if fam \<noteq> Some famV4 then Some (count_passed f', buf, n)
                       else
                         (case EmbeddedIPv4 (pol_nat64 (f_policy f)) src of
                            Some (Addr4 v4src) \<Rightarrow>
                              Some (count_translated f', translate6to4 buf plen v4src, ipv4HeaderMin + plen)
                          | _ \<Rightarrow> None)))))))"

end
