(* ===== verification/EnfSafety.thy ===== *)
theory EnfSafety
  imports EnfFilter
begin

text \<open>
  What the filter of \<open>internal/enforce/filter.go\<close> guarantees: nothing leaves through a closed
  filter, from another source or to a foreign resolver; what it translates carries valid
  checksums; what comes in is for the namespace only and never grows; the errors it writes are
  bounded in size and number.
\<close>

subsection \<open>What Outbound sends\<close>

lemma refuse_sends_nothing [simp]:
  "fst (snd (snd (refuse6 f ts buf pkt))) = 0" "fst (snd (refuse6 f ts buf pkt)) = buf"
  "fst (snd (snd (refuse4 f ts buf pkt))) = 0" "fst (snd (refuse4 f ts buf pkt)) = buf"
  by (simp_all add: refuse6_def refuse4_def split: prod.splits)

lemma not_refused:
  "refuse6 f ts buf pkt = (f', buf', k, r) \<Longrightarrow> k = 0 \<and> buf' = buf"
  "refuse4 f ts buf pkt = (f', buf', k, r) \<Longrightarrow> k = 0 \<and> buf' = buf"
  "drop_packet f buf = (f', buf', k, r) \<Longrightarrow> k = 0 \<and> buf' = buf \<and> r = None"
  by (auto simp: refuse6_def refuse4_def drop_packet_def split: prod.splits)

text \<open>The packet the rules are about: the bytes up to the length its header states.\<close>

definition packet6 :: "bytes \<Rightarrow> bytes" where
  "packet6 buf = take (ipv6Header + unat (u16_at 4 buf)) buf"

definition dst6_of :: "bytes \<Rightarrow> ip_addr" where
  "dst6_of pkt = addr16 (bytes_at 24 16 pkt)"

definition is_error6 :: "bytes \<Rightarrow> bool" where
  "is_error6 pkt =
     (case transport6 pkt of Some (proto, Some l4) \<Rightarrow> proto = protoICMPv6 \<and> l4 ! 0 < 128 | _ \<Rightarrow> False)"

lemma steer6_True:
  "steer6 f now proto l4 dst = (f', True) \<Longrightarrow>
     \<not> Contains ula6 dst \<and> (\<forall>h. l4 = Some h \<longrightarrow> isDNSPort proto h \<longrightarrow> isResolver f dst)"
  by (auto simp: steer6_def split: if_splits option.splits prod.splits)

lemma outbound6_sends:
  assumes "outbound6 f ts buf n = (f', buf', k, r)" and "0 < k"
  shows "buf' = buf \<and> \<not> f_dead f \<and> r = None \<and> k = ipv6Header + unat (u16_at 4 buf) \<and> k \<le> n \<and>
     \<not> forged6 f (packet6 buf) \<and>
     (is_error6 (packet6 buf) \<or>
      (\<exists>proto l4. transport6 (packet6 buf) = Some (proto, l4) \<and> \<not> Contains ula6 (dst6_of (packet6 buf)) \<and>
        (\<forall>h. l4 = Some h \<longrightarrow> isDNSPort proto h \<longrightarrow> isResolver f (dst6_of (packet6 buf)))))"
  using assms
  unfolding outbound6_def Let_def packet6_def [symmetric] is_error6_def [symmetric] dst6_of_def [symmetric]
  by (auto split: if_splits option.splits prod.splits dest!: not_refused steer6_True)

text \<open>The fields of an IPv4 packet in a buffer.\<close>

abbreviation hlen4 :: "bytes \<Rightarrow> nat" where "hlen4 buf \<equiv> unat (buf ! 0 AND 0x0F) * 4"
abbreviation total4 :: "bytes \<Rightarrow> nat" where "total4 buf \<equiv> unat (u16_at 2 buf)"
abbreviation seg4 :: "bytes \<Rightarrow> bytes" where "seg4 buf \<equiv> drop (hlen4 buf) (take (total4 buf) buf)"
abbreviation dst4 :: "bytes \<Rightarrow> 32 word" where "dst4 buf \<equiv> u32_at 16 (take (total4 buf) buf)"

lemma outbound4_sends:
  assumes "outbound4 f ts buf n = (f', buf', k, r)" and "0 < k"
  shows "\<exists>p self key d6 t.
    20 \<le> hlen4 buf \<and> hlen4 buf \<le> total4 buf \<and> total4 buf \<le> n \<and>
    pol_nat64 (f_policy f) = Some p \<and> pol_self (f_policy f) = Some self \<and> \<not> f_dead f \<and>
    outboundKey4 (buf ! 9) (seg4 buf) (dst4 buf) = Key key \<and> carriable4 f (Addr4 (dst4 buf)) = Some d6 \<and>
    k \<le> length buf \<and> k \<le> minMTU \<and> claim (f_flows f) (fst ts) key famV4 = (t, True) \<and>
    f' = count_translated (f\<lparr>f_flows := t\<rparr>) \<and> k = ipv6Header + (total4 buf - hlen4 buf) \<and> r = None \<and>
    buf' = translate4to6 buf (hlen4 buf) (total4 buf) (As16 self) (As16 d6) \<and>
    (buf ! 9 = protoICMP \<longrightarrow> 8 \<le> length (seg4 buf) \<and> seg4 buf ! 0 = 8 \<and> seg4 buf ! 1 = 0) \<and>
    addr4 (bytes_at 12 4 (take (total4 buf) buf)) = Addr4 CLATv4"
proof -
  from assms(2) have no: "refuse4 g ts buf pkt = (f', buf', k, r) \<longleftrightarrow> False"
    "drop_packet g buf = (f', buf', k, r) \<longleftrightarrow> False" for g pkt
    by (auto dest: not_refused)
  have "\<exists>p self. pol_nat64 (f_policy f) = Some p \<and> pol_self (f_policy f) = Some self"
    using assms(1) unfolding outbound4_def Let_def by (simp add: no split: if_splits option.splits)
  then obtain p self where ps: "pol_nat64 (f_policy f) = Some p" "pol_self (f_policy f) = Some self" by blast
  show ?thesis
    using assms(1) unfolding outbound4_def Let_def ps
    by (auto simp add: no size_defs not_less split: if_splits key4.splits option.splits prod.splits)
qed

subsection \<open>The rewritten packet\<close>

lemma length_setL4Checksum [simp]: "length (fst (setL4Checksum seg proto ps)) = length seg"
  by (simp add: setL4Checksum_def Let_def split: option.splits prod.splits)

lemma setL4Checksum_ports:
  "proto = protoTCP \<or> proto = protoUDP \<Longrightarrow> take 4 (fst (setL4Checksum seg proto ps)) = take 4 seg"
  by (auto simp: setL4Checksum_def l4ChecksumOffset_def put16_def Let_def proto_defs)

lemma setL4Checksum_ok:
  "l4ChecksumOffset proto = Some (off, mn) \<Longrightarrow> mn \<le> length seg \<Longrightarrow> snd (setL4Checksum seg proto ps)"
  by (simp add: setL4Checksum_def Let_def)

lemma u16_at_ports: "take 4 a = take 4 b \<Longrightarrow> u16_at 0 a = u16_at 0 b \<and> u16_at 2 a = u16_at 2 b"
proof -
  assume t: "take 4 a = take 4 b"
  have z: "take 2 (drop 0 x) = take 2 (take 4 x)" and o: "take 2 (drop 2 x) = drop 2 (take 4 x)" for x :: bytes
    by (simp_all add: take_drop)
  show ?thesis unfolding u16_at_def bytes_at_def z o t by simp
qed

lemma isDNSPort_ports: "take 4 a = take 4 b \<Longrightarrow> isDNSPort proto a = isDNSPort proto b"
  using u16_at_ports [of a b] by (simp add: isDNSPort_def)

lemma unat_add_le: "unat (x + y) \<le> unat x + unat (y :: 'a::len word)"
  by (simp add: unat_word_ariths)

lemma unat_sum32_le: "length b \<le> 64 \<Longrightarrow> unat (sum32 0 b) \<le> 65535 * ((length b + 1) div 2)"
proof -
  assume l: "length b \<le> 64"
  have "groups16 b \<le> 65535 * ((length b + 1) div 2)" by (rule groups16_bound)
  moreover have "(length b + 1) div 2 \<le> 32" using l by simp
  ultimately have "groups16 b \<le> 65535 * 32" by simp
  then have "unat (sum32 0 b) = groups16 b" using unat_sum32 [of 0 b] by simp
  with groups16_bound [of b] show ?thesis by simp
qed

lemma sum32_append: "even (length a) \<Longrightarrow> sum32 acc (a @ b) = sum32 (sum32 acc a) b"
  by (induction acc a rule: sum32.induct) simp_all

lemma unat_ucast_byte: "unat (ucast (b :: byte) :: 32 word) \<le> 255"
proof -
  have "unat b \<le> 255" using unat_byte_less [of b] by linarith
  then show ?thesis unfolding unat_ucast by (rule le_trans [OF mod_less_eq_dividend])
qed

lemma pseudo_bounds:
  assumes "length src = 16" "length dst = 16" "len < 65536"
  shows "unat (pseudo6 src dst proto len) < 2 ^ 21"
proof -
  have s: "sum32 (sum32 0 src) dst = sum32 0 (src @ dst)" using assms by (simp add: sum32_append)
  have "unat (sum32 0 (src @ dst)) \<le> 65535 * 16" using unat_sum32_le [of "src @ dst"] assms by simp
  moreover have "unat (ucast proto :: 32 word) \<le> 255" by (rule unat_ucast_byte)
  moreover have "unat (word_of_nat (len div 65536) + word_of_nat (len mod 65536) :: 32 word) \<le> 65535"
    using assms(3) by (simp add: unat_of_nat take_bit_eq_mod)
  ultimately have "unat (pseudo6 src dst proto len) \<le> 65535 * 16 + 65535 + 255"
    unfolding pseudo6_def s by (meson add_mono le_trans unat_add_le)
  then show ?thesis by simp
qed

lemma pseudo4_bounds:
  assumes "length src = 4" "length dst = 4" "len < 65536"
  shows "unat (pseudo4 src dst proto len) < 2 ^ 21"
proof -
  have s: "sum32 (sum32 0 src) dst = sum32 0 (src @ dst)" using assms by (simp add: sum32_append)
  have "unat (sum32 0 (src @ dst)) \<le> 65535 * 4" using unat_sum32_le [of "src @ dst"] assms by simp
  moreover have "unat (ucast proto :: 32 word) \<le> 255" by (rule unat_ucast_byte)
  moreover have "unat (word_of_nat (len mod 65536) :: 32 word) \<le> 65535"
    using assms(3) by (simp add: unat_of_nat take_bit_eq_mod)
  ultimately have "unat (pseudo4 src dst proto len) \<le> 65535 * 4 + 255 + 65535"
    unfolding pseudo4_def s by (meson add_mono le_trans unat_add_le)
  then show ?thesis by simp
qed

text \<open>A header of 40 bytes and a segment, at the start of a buffer.\<close>

definition header6 :: "byte \<Rightarrow> nat \<Rightarrow> byte \<Rightarrow> byte \<Rightarrow> 128 word \<Rightarrow> 128 word \<Rightarrow> bytes" where
  "header6 tos plen nh ttl s d =
     [0x60 OR drop_bit 4 tos, push_bit 4 tos, 0, 0] @ be16 (word_of_nat plen) @ [nh, ttl] @ be128 s @ be128 d"

lemma be16_list: "be16 w = [ucast (drop_bit 8 w), ucast w]"
  by (simp add: be16_def)

lemma header6_fields:
  shows "length (header6 tos plen nh ttl s d) = 40"
    and "drop_bit 4 ((header6 tos plen nh ttl s d @ seg) ! 0) = 6"
    and "(header6 tos plen nh ttl s d @ seg) ! 6 = nh"
    and "(header6 tos plen nh ttl s d @ seg) ! 7 = ttl"
    and "u16_at 4 (header6 tos plen nh ttl s d @ seg) = word_of_nat plen"
    and "bytes_at 8 16 (header6 tos plen nh ttl s d @ seg) = be128 s"
    and "bytes_at 24 16 (header6 tos plen nh ttl s d @ seg) = be128 d"
    and "drop 40 (header6 tos plen nh ttl s d @ seg) = seg"
proof -
  show "length (header6 tos plen nh ttl s d) = 40" by (simp add: header6_def)
  have "drop_bit 4 (0x60 OR drop_bit 4 tos) = 6"
  proof -
    have "drop_bit 4 (0x60 OR drop_bit 4 tos) = 6 OR drop_bit 8 tos" by (simp add: drop_bit_or)
    then show ?thesis by simp
  qed
  then show "drop_bit 4 ((header6 tos plen nh ttl s d @ seg) ! 0) = 6" by (simp add: header6_def)
  show "(header6 tos plen nh ttl s d @ seg) ! 6 = nh" "(header6 tos plen nh ttl s d @ seg) ! 7 = ttl"
    by (simp_all add: header6_def be16_list)
  show "u16_at 4 (header6 tos plen nh ttl s d @ seg) = word_of_nat plen"
    by (simp add: header6_def u16_at_def bytes_at_def)
  show "bytes_at 8 16 (header6 tos plen nh ttl s d @ seg) = be128 s"
    "bytes_at 24 16 (header6 tos plen nh ttl s d @ seg) = be128 d"
    by (simp_all add: header6_def bytes_at_def be16_list)
  show "drop 40 (header6 tos plen nh ttl s d @ seg) = seg" by (simp add: header6_def)
qed

lemma splice_start: "length xs \<le> length buf \<Longrightarrow> take (length xs) (splice 0 xs buf) = xs"
  by (simp add: splice_def)

text \<open>The protocol and the segment of a rewritten packet, before its checksum.\<close>

definition nh4 :: "bytes \<Rightarrow> byte" where
  "nh4 buf = (if buf ! 9 = protoICMP then protoICMPv6 else buf ! 9)"

definition moved4 :: "bytes \<Rightarrow> bytes" where
  "moved4 buf = (if buf ! 9 = protoICMP then (seg4 buf)[0 := 128] else seg4 buf)"

lemma translate4to6_packet:
  assumes "total4 buf \<le> length buf" "hlen4 buf \<le> total4 buf" "ipv6Header + (total4 buf - hlen4 buf) \<le> length buf"
  defines "plen \<equiv> total4 buf - hlen4 buf"
  shows "take (ipv6Header + plen) (translate4to6 buf (hlen4 buf) (total4 buf) s d) =
      header6 (buf ! 1) plen (nh4 buf) (buf ! 8) s d @
        fst (setL4Checksum (moved4 buf) (nh4 buf) (pseudo6 (be128 s) (be128 d) (nh4 buf) plen))"
    and "length (translate4to6 buf (hlen4 buf) (total4 buf) s d) = length buf"
    and "length (moved4 buf) = plen"
proof -
  let ?X = "header6 (buf ! 1) plen (nh4 buf) (buf ! 8) s d @
    fst (setL4Checksum (moved4 buf) (nh4 buf) (pseudo6 (be128 s) (be128 d) (nh4 buf) plen))"
  have b: "bytes_at (hlen4 buf) plen buf = seg4 buf"
    using assms by (simp add: bytes_at_def take_drop)
  have e: "translate4to6 buf (hlen4 buf) (total4 buf) s d = splice 0 ?X buf"
    by (simp add: translate4to6_def Let_def header6_def nh4_def moved4_def plen_def [symmetric] b)
  show m: "length (moved4 buf) = plen" using assms by (simp add: moved4_def)
  then have l: "length ?X = ipv6Header + plen" by (simp add: header6_fields(1) ipv6Header_def)
  with assms(3) show "length (translate4to6 buf (hlen4 buf) (total4 buf) s d) = length buf"
    unfolding e by (simp add: plen_def)
  show "take (ipv6Header + plen) (translate4to6 buf (hlen4 buf) (total4 buf) s d) = ?X"
    using splice_start [of ?X buf] assms(3) l unfolding e by (simp add: plen_def)
qed

subsection \<open>Containment\<close>

text \<open>A packet the tunnel may be given: whole, from the agent's address, its DNS for a resolver.\<close>

definition sent_ok :: "pfilter \<Rightarrow> bytes \<Rightarrow> bool" where
  "sent_ok f pkt \<longleftrightarrow>
     drop_bit 4 (pkt ! 0) = 6 \<and> length pkt = ipv6Header + unat (u16_at 4 pkt) \<and>
     (\<exists>self. pol_self (f_policy f) = Some self \<and> be_val (bytes_at 8 16 pkt) = As16 self) \<and>
     (\<forall>proto h. transport6 pkt = Some (proto, Some h) \<longrightarrow> isDNSPort proto h \<longrightarrow> isResolver f (dst6_of pkt))"

lemma outboundKey4_Key:
  "outboundKey4 proto l4 r = Key key \<Longrightarrow>
     (proto = protoTCP \<or> proto = protoUDP \<or> proto = protoICMP) \<and> \<not> isDNSPort proto l4 \<and>
     (proto \<noteq> protoICMP \<longrightarrow> (\<exists>off mn. l4ChecksumOffset proto = Some (off, mn) \<and> mn \<le> length l4))"
  by (auto simp: outboundKey4_def isDNSPort_def proto_defs split: if_splits option.splits)

lemma translated_dns:
  assumes "outboundKey4 (buf ! 9) (seg4 buf) r = Key key"
  shows "\<not> isDNSPort (nh4 buf) (fst (setL4Checksum (moved4 buf) (nh4 buf) ps))"
proof (cases "buf ! 9 = protoICMP")
  case True
  then show ?thesis by (simp add: nh4_def isDNSPort_def proto_defs)
next
  case False
  with outboundKey4_Key [OF assms] have p: "buf ! 9 = protoTCP \<or> buf ! 9 = protoUDP"
    and d: "\<not> isDNSPort (buf ! 9) (seg4 buf)" by auto
  have "nh4 buf = buf ! 9" "moved4 buf = seg4 buf" using False by (simp_all add: nh4_def moved4_def)
  then show ?thesis
    using isDNSPort_ports [OF setL4Checksum_ports [OF p, of "seg4 buf" ps]] d by simp
qed

lemma packet6_length:
  "ipv6Header + unat (u16_at 4 buf) \<le> length buf \<Longrightarrow>
   length (packet6 buf) = ipv6Header + unat (u16_at 4 (packet6 buf)) \<and> packet6 buf ! 0 = buf ! 0"
proof -
  assume l: "ipv6Header + unat (u16_at 4 buf) \<le> length buf"
  have "u16_at 4 (packet6 buf) = u16_at 4 buf"
    by (simp add: u16_at_def bytes_at_def packet6_def drop_take ipv6Header_def min_def)
  with l show ?thesis by (simp add: packet6_def ipv6Header_def)
qed

lemma error6_not_dns: "is_error6 pkt \<Longrightarrow> transport6 pkt = Some (proto, Some h) \<Longrightarrow> \<not> isDNSPort proto h"
  by (auto simp: is_error6_def isDNSPort_def proto_defs)

lemma outbound6_sent_ok:
  assumes "outbound6 f ts buf n = (f', buf', k, r)" "0 < k" "n \<le> length buf" "drop_bit 4 (buf ! 0) = 6"
  shows "sent_ok f (take k buf')"
proof -
  note s = outbound6_sends [OF assms(1,2)]
  then have k: "k = ipv6Header + unat (u16_at 4 buf)" "k \<le> length buf" "buf' = buf" using assms(3) by auto
  then have p: "take k buf' = packet6 buf" by (simp add: packet6_def)
  have "Some (addr16 (bytes_at 8 16 (packet6 buf))) = pol_self (f_policy f)"
    using s by (auto simp: forged6_def Let_def)
  then have self: "\<exists>self. pol_self (f_policy f) = Some self \<and> be_val (bytes_at 8 16 (packet6 buf)) = As16 self"
    by (intro exI [of _ "addr16 (bytes_at 8 16 (packet6 buf))"]) (simp add: addr16_def As16_def)
  show ?thesis
    using packet6_length [of buf] k(1,2) self s assms(4) error6_not_dns [of "packet6 buf"]
    unfolding p sent_ok_def by auto
qed

lemma outbound4_sent_ok:
  assumes "outbound4 f ts buf n = (f', buf', k, r)" "0 < k" "n \<le> length buf"
  shows "sent_ok f (take k buf')" "length buf' = length buf"
proof -
  from outbound4_sends [OF assms(1,2)] obtain p self key d6 where
    h: "hlen4 buf \<le> total4 buf" "total4 buf \<le> n" "pol_self (f_policy f) = Some self"
    "outboundKey4 (buf ! 9) (seg4 buf) (dst4 buf) = Key key" "k \<le> length buf" "k \<le> minMTU"
    "k = ipv6Header + (total4 buf - hlen4 buf)"
    "buf' = translate4to6 buf (hlen4 buf) (total4 buf) (As16 self) (As16 d6)"
    "buf ! 9 = protoICMP \<longrightarrow> 8 \<le> length (seg4 buf)" by blast
  define plen where "plen = total4 buf - hlen4 buf"
  note t = translate4to6_packet(1,2) [of buf "As16 self" "As16 d6", folded plen_def]
    translate4to6_packet(3) [of buf, folded plen_def]
  have pre: "total4 buf \<le> length buf" "hlen4 buf \<le> total4 buf" "ipv6Header + plen \<le> length buf" "plen < 65536"
    using h assms(3) by (auto simp: plen_def size_defs)
  let ?ps = "pseudo6 (be128 (As16 self)) (be128 (As16 d6)) (nh4 buf) plen"
  let ?seg = "fst (setL4Checksum (moved4 buf) (nh4 buf) ?ps)"
  let ?hdr = "header6 (buf ! 1) plen (nh4 buf) (buf ! 8) (As16 self) (As16 d6)"
  have pkt: "take k buf' = ?hdr @ ?seg" using t(1) pre h by (simp add: plen_def)
  show "length buf' = length buf" using t(2) pre h by simp
  have plen: "unat (word_of_nat plen :: 16 word) = plen" using pre(4) by (simp add: unat_of_nat take_bit_nat_eq_self)
  have "nh4 buf \<noteq> protoFrag6" using outboundKey4_Key [OF h(4)] by (auto simp: nh4_def proto_defs)
  then have tr: "transport6 (?hdr @ ?seg) = transport_header (nh4 buf) ?seg"
    using header6_fields(8) by (simp add: transport6_def header6_fields ipv6Header_def Let_def)
  have "\<not> isDNSPort (nh4 buf) ?seg" by (rule translated_dns [OF h(4)])
  then have dns: "\<not> isDNSPort proto l4" if "transport_header (nh4 buf) ?seg = Some (proto, Some l4)" for proto l4
    using that by (auto simp: transport_header_def split: if_splits option.splits)
  have l: "length (?hdr @ ?seg) = ipv6Header + plen" using t(3) pre by (simp add: header6_fields(1) ipv6Header_def)
  show "sent_ok f (take k buf')"
    unfolding pkt sent_ok_def tr using h(3) dns l by (auto simp: header6_fields plen)
qed

lemma Outbound_sends:
  assumes "Outbound f ts buf n = (f', buf', k, r)" and "0 < k"
  shows "Live f \<and> r = None \<and> k \<le> length buf' \<and> length buf' = length buf \<and> sent_ok f (take k buf')"
proof -
  consider (six) "n \<le> length buf" "drop_bit 4 (buf ! 0) = 6" "outbound6 f ts buf n = (f', buf', k, r)"
    | (four) "n \<le> length buf" "outbound4 f ts buf n = (f', buf', k, r)"
    using assms by (auto simp: Outbound_def drop_packet_def split: if_splits)
  then show ?thesis
  proof cases
    case six
    then show ?thesis
      using outbound6_sends [OF six(3) assms(2)] outbound6_sent_ok [OF six(3) assms(2) six(1,2)] by (auto simp: Live_def)
  next
    case four
    then show ?thesis
      using outbound4_sends [OF four(2) assms(2)] outbound4_sent_ok [OF four(2) assms(2) four(1)] by (auto simp: Live_def)
  qed
qed

text \<open>
  C3. Containment: whenever the filter gives the tunnel a packet, the kill switch is open, no
  refusal is written back, the packet is a whole IPv6 packet inside the buffer whose source is the
  agent's address, and if it carries a readable TCP or UDP header for port 53 or 853 its
  destination is one of the tunnel's resolvers.
\<close>

theorem outbound_contained:
  assumes "Outbound f ts buf n = (f', buf', k, r)" and "0 < k"
  shows "Live f \<and> r = None \<and> k \<le> length buf' \<and> length buf' = length buf \<and> sent_ok f (take k buf')"
  by (rule Outbound_sends [OF assms])

subsection \<open>What a translation keeps\<close>

lemma setL4Checksum_frame:
  assumes "l4ChecksumOffset proto = Some (off, mn)"
  shows "take off (fst (setL4Checksum seg proto ps)) = take off seg"
    and "drop (off + 2) (fst (setL4Checksum seg proto ps)) = drop (off + 2) seg"
  using assms by (simp_all add: setL4Checksum_def put16_def Let_def)

lemma segment_closes:
  assumes "l4ChecksumOffset proto = Some (off, mn)" "mn \<le> length seg" "length seg \<le> 65535" "unat ps < 2 ^ 21"
    and "length seg \<le> minMTU"
  shows "fold16 (sum32 ps (fst (setL4Checksum seg proto ps))) = 0"
proof -
  have "setL4Checksum seg proto ps = (fst (setL4Checksum seg proto ps), True)"
    using setL4Checksum_ok [OF assms(1,2)] by (metis prod.collapse)
  moreover have "unat ps + 65535 * length seg < 2 ^ 32" using assms(4,5) by (simp add: minMTU_def)
  ultimately show ?thesis by (rule setL4Checksum_closes(1))
qed

lemma Key_offset:
  assumes "outboundKey4 (buf ! 9) (seg4 buf) r = Key key" "buf ! 9 = protoICMP \<longrightarrow> 8 \<le> length (seg4 buf)"
  shows "\<exists>off mn. l4ChecksumOffset (nh4 buf) = Some (off, mn) \<and> mn \<le> length (moved4 buf)"
proof (cases "buf ! 9 = protoICMP")
  case True
  then have "nh4 buf = protoICMPv6" "8 \<le> length (moved4 buf)" using assms(2) by (simp_all add: nh4_def moved4_def)
  then show ?thesis by (auto simp: l4ChecksumOffset_def proto_defs)
next
  case False
  with outboundKey4_Key [OF assms(1)] show ?thesis by (auto simp: nh4_def moved4_def)
qed

lemma carriable4_Some:
  assumes "carriable4 f a = Some d6" "pol_nat64 (f_policy f) = Some p" "nat64_prefix p"
  shows "EmbeddedIPv4 (Some p) d6 = Some (Unmap a) \<and> carriable (Unmap a) = None"
proof -
  have "Synthesize (Some p) a = Inr d6"
    using assms by (auto simp: carriable4_def split: if_splits sum.splits)
  then show ?thesis
    unfolding Synthesize_Inr [OF assms(3)] EmbeddedIPv4_Some [OF assms(3)] by auto
qed

lemma translation_out_embedded:
  assumes "Outbound f ts buf n = (f', buf', k, r)" "0 < k" "drop_bit 4 (buf ! 0) = 4"
    and "pol_nat64 (f_policy f) = Some p" "nat64_prefix p"
  shows "EmbeddedIPv4 (Some p) (dst6_of (take k buf')) = Some (Addr4 (dst4 buf))"
proof -
  have n: "n \<le> length buf" "outbound4 f ts buf n = (f', buf', k, r)"
    using assms by (auto simp: Outbound_def drop_packet_def split: if_splits)
  from outbound4_sends [OF n(2) assms(2)] obtain self d6 where
    h: "hlen4 buf \<le> total4 buf" "total4 buf \<le> n" "k \<le> length buf"
    "k = ipv6Header + (total4 buf - hlen4 buf)" "carriable4 f (Addr4 (dst4 buf)) = Some d6"
    "buf' = translate4to6 buf (hlen4 buf) (total4 buf) (As16 self) (As16 d6)" by blast
  have "total4 buf \<le> length buf" using h(2) n(1) by simp
  then have "bytes_at 24 16 (take k buf') = be128 (As16 d6)"
    using translate4to6_packet(1) [of buf "As16 self" "As16 d6"] h by (simp add: header6_fields)
  moreover have emb: "EmbeddedIPv4 (Some p) d6 = Some (Addr4 (dst4 buf))"
    using carriable4_Some [OF h(5) assms(4,5)] by simp
  then obtain v where "d6 = Addr6 v []" unfolding EmbeddedIPv4_Some [OF assms(5)] by blast
  ultimately show ?thesis using emb by (simp add: dst6_of_def addr16_def As16_def)
qed

text \<open>
  Translation: an IPv4 packet that leaves does so as an IPv6 packet of the same payload length
  and hop limit from the agent's address to the NAT64 form of its destination, an address a
  translator can carry; its transport checksum is the one the far end will compute, and of its
  segment only the checksum changes, and the type of an echo request.
\<close>

theorem translation_out:
  assumes "Outbound f ts buf n = (f', buf', k, r)" "0 < k" "drop_bit 4 (buf ! 0) = 4"
    and "pol_nat64 (f_policy f) = Some p" "nat64_prefix p"
  shows "let pkt = take k buf'; plen = total4 buf - hlen4 buf in
    length pkt = ipv6Header + plen \<and> pkt ! 6 = nh4 buf \<and> pkt ! 7 = buf ! 8 \<and>
    (\<exists>self. pol_self (f_policy f) = Some self \<and> bytes_at 8 16 pkt = be128 (As16 self)) \<and>
    EmbeddedIPv4 (Some p) (dst6_of pkt) = Some (Addr4 (dst4 buf)) \<and> carriable (Addr4 (dst4 buf)) = None \<and>
    fold16 (sum32 (pseudo6 (bytes_at 8 16 pkt) (bytes_at 24 16 pkt) (nh4 buf) plen) (drop 40 pkt)) = 0 \<and>
    (\<exists>off mn. l4ChecksumOffset (nh4 buf) = Some (off, mn) \<and>
       take off (drop 40 pkt) = take off (moved4 buf) \<and> drop (off + 2) (drop 40 pkt) = drop (off + 2) (moved4 buf))"
proof -
  have n: "n \<le> length buf" "outbound4 f ts buf n = (f', buf', k, r)"
    using assms by (auto simp: Outbound_def drop_packet_def split: if_splits)
  from outbound4_sends [OF n(2) assms(2)] obtain self key d6 where
    h: "hlen4 buf \<le> total4 buf" "total4 buf \<le> n" "pol_self (f_policy f) = Some self"
    "outboundKey4 (buf ! 9) (seg4 buf) (dst4 buf) = Key key" "k \<le> length buf" "k \<le> minMTU"
    "k = ipv6Header + (total4 buf - hlen4 buf)" "carriable4 f (Addr4 (dst4 buf)) = Some d6"
    "buf' = translate4to6 buf (hlen4 buf) (total4 buf) (As16 self) (As16 d6)"
    "buf ! 9 = protoICMP \<longrightarrow> 8 \<le> length (seg4 buf)" by blast
  define plen where "plen = total4 buf - hlen4 buf"
  note t = translate4to6_packet(1,2) [of buf "As16 self" "As16 d6", folded plen_def]
    translate4to6_packet(3) [of buf, folded plen_def]
  have pre: "total4 buf \<le> length buf" "hlen4 buf \<le> total4 buf" "ipv6Header + plen \<le> length buf" "plen \<le> minMTU"
    using h n(1) by (auto simp: plen_def size_defs)
  let ?ps = "pseudo6 (be128 (As16 self)) (be128 (As16 d6)) (nh4 buf) plen"
  have pkt: "take k buf' = header6 (buf ! 1) plen (nh4 buf) (buf ! 8) (As16 self) (As16 d6) @
      fst (setL4Checksum (moved4 buf) (nh4 buf) ?ps)"
    using t(1) pre h by (simp add: plen_def)
  have m: "length (moved4 buf) = plen" using t(3) pre by simp
  obtain off mn where off: "l4ChecksumOffset (nh4 buf) = Some (off, mn)" "mn \<le> length (moved4 buf)"
    using Key_offset [OF h(4)] h(10) by blast
  have "unat ?ps < 2 ^ 21" using pre(4) by (intro pseudo_bounds) (simp_all add: minMTU_def)
  then have closes: "fold16 (sum32 ?ps (fst (setL4Checksum (moved4 buf) (nh4 buf) ?ps))) = 0"
    using segment_closes [OF off, of ?ps] m pre(4) by (simp add: minMTU_def)
  have emb: "EmbeddedIPv4 (Some p) d6 = Some (Addr4 (dst4 buf))" "carriable (Addr4 (dst4 buf)) = None"
    using carriable4_Some [OF h(8) assms(4,5)] by simp_all
  then obtain v where "d6 = Addr6 v []" unfolding EmbeddedIPv4_Some [OF assms(5)] by blast
  then have d6: "addr16 (be128 (As16 d6)) = d6" by (simp add: addr16_def As16_def)
  show ?thesis
    unfolding Let_def pkt plen_def [symmetric]
    using h(3) m off(1) closes emb setL4Checksum_frame [OF off(1)]
    by (auto simp: header6_fields dst6_of_def d6 ipv6Header_def)
qed

end
