(* ===== verification/EnfInbound.thy ===== *)
theory EnfInbound
  imports EnfSafety
begin

text \<open>
  The way in through the filter of \<open>internal/enforce/filter.go\<close>: what is delivered, when it is
  rewritten, and that the reply to a translated packet reaches the IPv4 socket that sent it.
\<close>

subsection \<open>The IPv4 header\<close>

lemma length_setIPv4HeaderChecksum [simp]: "length (setIPv4HeaderChecksum h l) = length h"
  by (simp add: setIPv4HeaderChecksum_def Let_def)

lemma length_writeIPv4Header [simp]: "length (writeIPv4Header tos tot ttl proto src dst) = 20"
  by (simp add: writeIPv4Header_def)

lemma header4_fields:
  fixes tos tot ttl proto src dst
  defines "h \<equiv> writeIPv4Header tos tot ttl proto src dst"
  shows "h ! 0 = 0x45" "h ! 1 = tos" "h ! 8 = ttl" "h ! 9 = proto" "u16_at 2 h = word_of_nat tot"
    "bytes_at 12 4 h = be32 src" "bytes_at 16 4 h = be32 dst" "fold16 (sum32 0 h) = 0"
proof -
  let ?b = "[0x45, tos] @ be16 (word_of_nat tot) @ [0, 0, 0x40, 0, ttl, proto, 0, 0] @ be32 src @ be32 dst"
  have b: "length ?b = 20" by simp
  obtain w where h: "h = put16 10 w ?b"
    unfolding h_def writeIPv4Header_def setIPv4HeaderChecksum_def Let_def put16_put16 by blast
  show "h ! 0 = 0x45" "h ! 1 = tos" "h ! 8 = ttl" "h ! 9 = proto"
    unfolding h by (simp_all add: put16_def be16_list)
  show "u16_at 2 h = word_of_nat tot"
  proof -
    have "bytes_at 2 2 h = be16 (word_of_nat tot)"
      unfolding h by (simp add: put16_def bytes_at_def be16_list)
    then show ?thesis by (simp add: u16_at_def)
  qed
  show "bytes_at 12 4 h = be32 src" "bytes_at 16 4 h = be32 dst"
    unfolding h by (simp_all add: put16_def bytes_at_def be16_list be32_def)
  show "fold16 (sum32 0 h) = 0"
    unfolding h_def writeIPv4Header_def ipv4HeaderMin_def by (rule setIPv4HeaderChecksum_closes [OF b])
qed

subsection \<open>What Inbound does\<close>


abbreviation plen6 :: "bytes \<Rightarrow> nat" where "plen6 buf \<equiv> unat (u16_at 4 buf)"
abbreviation src6 :: "bytes \<Rightarrow> ip_addr" where "src6 buf \<equiv> addr16 (bytes_at 8 16 buf)"
abbreviation dst6 :: "bytes \<Rightarrow> ip_addr" where "dst6 buf \<equiv> addr16 (bytes_at 24 16 buf)"
abbreviation seg6 :: "bytes \<Rightarrow> bytes" where "seg6 buf \<equiv> bytes_at ipv6Header (plen6 buf) buf"


text \<open>The rewritten buffer of a reply.\<close>

definition np6 :: "bytes \<Rightarrow> byte" where
  "np6 buf = (if buf ! 6 = protoICMPv6 then protoICMP else buf ! 6)"

definition moved6 :: "bytes \<Rightarrow> bytes" where
  "moved6 buf = (if np6 buf = protoICMP then (seg6 buf)[0 := 0] else seg6 buf)"

definition pseudo_in :: "bytes \<Rightarrow> 32 word \<Rightarrow> 32 word" where
  "pseudo_in buf v = (if np6 buf = protoICMP then 0 else pseudo4 (be32 v) (be32 CLATv4) (np6 buf) (plen6 buf))"

lemma translate6to4_packet:
  assumes "ipv6Header + plen6 buf \<le> length buf"
  shows "take (ipv4HeaderMin + plen6 buf) (translate6to4 buf (plen6 buf) v) =
      writeIPv4Header (traffic_class buf) (ipv4HeaderMin + plen6 buf) (buf ! 7) (np6 buf) v CLATv4 @
        fst (setL4Checksum (moved6 buf) (np6 buf) (pseudo_in buf v))"
    and "length (translate6to4 buf (plen6 buf) v) = length buf"
    and "translate6to4 buf (plen6 buf) v ! 0 = 0x45" and "length (moved6 buf) = plen6 buf"
proof -
  let ?h = "writeIPv4Header (traffic_class buf) (ipv4HeaderMin + plen6 buf) (buf ! 7) (np6 buf) v CLATv4"
  let ?X = "?h @ fst (setL4Checksum (moved6 buf) (np6 buf) (pseudo_in buf v))"
  have e: "translate6to4 buf (plen6 buf) v = splice 0 ?X buf"
    by (simp add: translate6to4_def Let_def np6_def moved6_def pseudo_in_def header4_fields(6,7))
  show m: "length (moved6 buf) = plen6 buf" using assms by (simp add: moved6_def)
  then have l: "length ?X = ipv4HeaderMin + plen6 buf" by (simp add: ipv4HeaderMin_def)
  then have le: "length ?X \<le> length buf" using assms by (simp add: size_defs)
  show "take (ipv4HeaderMin + plen6 buf) (translate6to4 buf (plen6 buf) v) = ?X"
    using splice_start [OF le] l unfolding e by simp
  show "length (translate6to4 buf (plen6 buf) v) = length buf"
    unfolding e using le by (intro length_splice) simp
  have "splice 0 ?X buf ! 0 = ?h ! 0" by (simp add: splice_def nth_append)
  then show "translate6to4 buf (plen6 buf) v ! 0 = 0x45" unfolding e by (simp add: header4_fields)
qed







subsection \<open>The reply to a translated packet\<close>

lemma inbound_translates:
  assumes "ipv6Header \<le> n" "n \<le> length buf" "drop_bit 4 (buf ! 0) = 6" "ipv6Header + plen6 buf \<le> n"
    "Some (dst6 buf) = pol_self (f_policy f)" "buf ! 6 \<noteq> protoICMPv6 \<or> 128 \<le> seg6 buf ! 0"
    "nat64_contains f (src6 buf)" "inboundKey (buf ! 6) (seg6 buf) (src6 buf) = Some key"
    "flow_lookup (f_flows f) now key = (t, Some famV4)"
    "EmbeddedIPv4 (pol_nat64 (f_policy f)) (src6 buf) = Some (Addr4 v)"
  shows "Inbound f now buf n =
    Some (count_translated (f\<lparr>f_flows := t\<rparr>), translate6to4 buf (plen6 buf) v, ipv4HeaderMin + plen6 buf)"
  using assms by (auto simp: Inbound_def Let_def)

text \<open>The flow key of a TCP or UDP packet from \<open>lport\<close> to \<open>rport\<close> of an IPv4 address.\<close>

definition flow4 :: "byte \<Rightarrow> 16 word \<Rightarrow> 32 word \<Rightarrow> 16 word \<Rightarrow> flow_key" where
  "flow4 proto lport r rport = \<lparr>fk_proto = proto, fk_lport = lport, fk_remote = r, fk_rport = rport\<rparr>"

lemma outbound_key_ports:
  "outboundKey4 proto l4 r = Key key \<Longrightarrow> proto = protoTCP \<or> proto = protoUDP \<Longrightarrow>
   key = flow4 proto (u16_at 0 l4) r (u16_at 2 l4)"
  by (auto simp: outboundKey4_def flow4_def split: option.splits if_splits)

lemma inbound_key_ports:
  "proto = protoTCP \<and> 20 \<le> length seg \<or> proto = protoUDP \<and> 8 \<le> length seg \<Longrightarrow>
   inboundKey proto seg src = Some (flow4 proto (u16_at 2 seg) (ucast (As16 src)) (u16_at 0 seg))"
  by (auto simp: inboundKey_def flow4_def proto_defs)

lemma EmbeddedIPv4_low:
  "nat64_prefix p \<Longrightarrow> EmbeddedIPv4 (Some p) a = Some (Addr4 v) \<Longrightarrow> Contains p a \<and> ucast (As16 a) = v"
  unfolding EmbeddedIPv4_Some by (auto simp: As16_def put4_bits nat64_Contains)

text \<open>A reply: whole, to the agent, from the address and port the packet went to.\<close>

definition replies_to :: "pfilter \<Rightarrow> bytes \<Rightarrow> bytes \<Rightarrow> bytes \<Rightarrow> nat \<Rightarrow> bool" where
  "replies_to f buf pkt rbuf rn \<longleftrightarrow>
     rn \<le> length rbuf \<and> drop_bit 4 (rbuf ! 0) = 6 \<and> ipv6Header + plen6 rbuf \<le> rn \<and>
     Some (dst6 rbuf) = pol_self (f_policy f) \<and> src6 rbuf = dst6_of pkt \<and> rbuf ! 6 = buf ! 9 \<and>
     (buf ! 9 = protoTCP \<and> 20 \<le> plen6 rbuf \<or> buf ! 9 = protoUDP \<and> 8 \<le> plen6 rbuf) \<and>
     plen6 rbuf \<le> minMTU \<and>
     u16_at 0 (seg6 rbuf) = u16_at 2 (seg4 buf) \<and> u16_at 2 (seg6 rbuf) = u16_at 0 (seg4 buf)"

lemma reply_arrives:
  assumes out: "Outbound f ts buf n = (f1, buf1, k, r)" "0 < k" "drop_bit 4 (buf ! 0) = 4"
    and p: "pol_nat64 (f_policy f) = Some p" "nat64_prefix p"
    and run: "flow_run (f_flows f1, fst ts) (f_flows f2, mid)" "f_policy f2 = f_policy f"
    and time: "mid \<le> now" "now \<le> fst ts + idleTimeout (buf ! 9)"
    and reply: "replies_to f buf (take k buf1) rbuf rn"
  shows "\<exists>f3. Inbound f2 now rbuf rn =
    Some (f3, translate6to4 rbuf (plen6 rbuf) (dst4 buf), ipv4HeaderMin + plen6 rbuf)"
proof -
  have o4: "n \<le> length buf" "outbound4 f ts buf n = (f1, buf1, k, r)"
    using out by (auto simp: Outbound_def drop_packet_def split: if_splits)
  from outbound4_sends [OF o4(2) out(2)] obtain key t where
    key: "outboundKey4 (buf ! 9) (seg4 buf) (dst4 buf) = Key key" "claim (f_flows f) (fst ts) key famV4 = (t, True)"
    "f1 = count_translated (f\<lparr>f_flows := t\<rparr>)" by blast
  have t: "f_flows f1 = t" by (simp add: key(3) count_translated_def)
  have proto: "buf ! 9 = protoTCP \<or> buf ! 9 = protoUDP" using reply by (auto simp: replies_to_def)
  have k4: "key = flow4 (buf ! 9) (u16_at 0 (seg4 buf)) (dst4 buf) (u16_at 2 (seg4 buf))"
    by (rule outbound_key_ports [OF key(1) proto])
  have emb: "EmbeddedIPv4 (Some p) (dst6_of (take k buf1)) = Some (Addr4 (dst4 buf))"
    using translation_out_embedded [OF out p] .
  note rep = reply [unfolded replies_to_def]
  have src: "Contains p (src6 rbuf)" "ucast (As16 (src6 rbuf)) = dst4 buf"
    using EmbeddedIPv4_low [OF p(2) emb] rep by auto
  have len: "length (seg6 rbuf) = plen6 rbuf" using rep by simp
  have ik: "inboundKey (rbuf ! 6) (seg6 rbuf) (src6 rbuf) = Some key"
    using inbound_key_ports [of "rbuf ! 6" "seg6 rbuf" "src6 rbuf"] rep len unfolding k4 src by auto
  have "now \<le> fst ts + idleTimeout (fk_proto key)" using time(2) by (simp add: k4 flow4_def)
  moreover have "fst ts \<le> mid" using flow_run_time [OF run(1)] by simp
  ultimately have "flow_owner t now key = Some famV4"
    using flows.claim_owns [OF key(2)] time(1) by simp
  then have "flow_owner (f_flows f2) now key = Some famV4"
    using flow_run_keeps [OF run(1) [unfolded t]] time(1) \<open>now \<le> fst ts + idleTimeout (fk_proto key)\<close> by blast
  then obtain t' where look: "flow_lookup (f_flows f2) now key = (t', Some famV4)"
    using flows.look_tells by (metis prod.collapse)
  have "nat64_contains f2 (src6 rbuf)" using run(2) p(1) src(1) by (simp add: nat64_contains_def)
  moreover have "EmbeddedIPv4 (pol_nat64 (f_policy f2)) (src6 rbuf) = Some (Addr4 (dst4 buf))"
    using run(2) p(1) emb rep by simp
  moreover have "rbuf ! 6 \<noteq> protoICMPv6" using rep proto by (auto simp: proto_defs)
  moreover have "ipv6Header \<le> rn" using rep by simp
  ultimately show ?thesis
    using inbound_translates [of rn rbuf f2 key now t' "dst4 buf"] ik look run(2) rep by auto
qed

text \<open>
  C23. Round trip: the reply to a translated TCP or UDP packet, arriving within the flow's idle
  time whatever else the table was used for in between, is handed to the namespace as an IPv4
  packet from the very address the program dialled to its own, with its payload, hop limit and
  ports, and with checksums that verify.
\<close>

theorem reply_returns:
  assumes "Outbound f ts buf n = (f1, buf1, k, r)" "0 < k" "drop_bit 4 (buf ! 0) = 4"
    and "pol_nat64 (f_policy f) = Some p" "nat64_prefix p"
    and "flow_run (f_flows f1, fst ts) (f_flows f2, mid)" "f_policy f2 = f_policy f"
    and "mid \<le> now" "now \<le> fst ts + idleTimeout (buf ! 9)"
    and "replies_to f buf (take k buf1) rbuf rn"
  shows "\<exists>f3 buf3. Inbound f2 now rbuf rn = Some (f3, buf3, ipv4HeaderMin + plen6 rbuf) \<and>
    (let pkt = take (ipv4HeaderMin + plen6 rbuf) buf3; hdr = take ipv4HeaderMin pkt; seg = drop ipv4HeaderMin pkt in
       bytes_at 12 4 hdr = be32 (dst4 buf) \<and> bytes_at 16 4 hdr = be32 CLATv4 \<and> hdr ! 9 = buf ! 9 \<and>
       hdr ! 8 = rbuf ! 7 \<and> fold16 (sum32 0 hdr) = 0 \<and>
       fold16 (sum32 (pseudo4 (be32 (dst4 buf)) (be32 CLATv4) (buf ! 9) (plen6 rbuf)) seg) = 0 \<and>
       take 4 seg = take 4 (seg6 rbuf) \<and> length seg = plen6 rbuf \<and>
       (\<exists>off mn. l4ChecksumOffset (buf ! 9) = Some (off, mn) \<and> take off seg = take off (seg6 rbuf) \<and>
          drop (off + 2) seg = drop (off + 2) (seg6 rbuf)))"
proof -
  from reply_arrives [OF assms] obtain f3 where
    r: "Inbound f2 now rbuf rn = Some (f3, translate6to4 rbuf (plen6 rbuf) (dst4 buf), ipv4HeaderMin + plen6 rbuf)" ..
  note rep = assms(10) [unfolded replies_to_def]
  have proto: "buf ! 9 = protoTCP \<or> buf ! 9 = protoUDP" using rep by auto
  then have np: "np6 rbuf = buf ! 9" "buf ! 9 \<noteq> protoICMP" using rep by (auto simp: np6_def proto_defs)
  have "ipv6Header + plen6 rbuf \<le> length rbuf" using rep by simp
  note t = translate6to4_packet [OF this]
  have m: "moved6 rbuf = seg6 rbuf" "length (seg6 rbuf) = plen6 rbuf" using np rep by (simp_all add: moved6_def)
  let ?ps = "pseudo4 (be32 (dst4 buf)) (be32 CLATv4) (buf ! 9) (plen6 rbuf)"
  let ?seg = "fst (setL4Checksum (seg6 rbuf) (buf ! 9) ?ps)"
  let ?h = "writeIPv4Header (traffic_class rbuf) (ipv4HeaderMin + plen6 rbuf) (rbuf ! 7) (buf ! 9) (dst4 buf) CLATv4"
  have pkt: "take (ipv4HeaderMin + plen6 rbuf) (translate6to4 rbuf (plen6 rbuf) (dst4 buf)) = ?h @ ?seg"
    using t(1) [of "dst4 buf"] np m by (simp add: pseudo_in_def)
  obtain off mn where off: "l4ChecksumOffset (buf ! 9) = Some (off, mn)" "mn \<le> length (seg6 rbuf)"
    using rep m(2) by (auto simp: l4ChecksumOffset_def proto_defs)
  have "unat ?ps < 2 ^ 21" using rep by (intro pseudo4_bounds) (simp_all add: minMTU_def)
  then have "fold16 (sum32 ?ps ?seg) = 0"
    using segment_closes [OF off] rep m(2) by (simp add: minMTU_def)
  moreover have "take 4 ?seg = take 4 (seg6 rbuf)" by (rule setL4Checksum_ports [OF proto])
  moreover note setL4Checksum_frame [OF off(1), of "seg6 rbuf" ?ps] off(1) m(2)
  ultimately have "let pkt = ?h @ ?seg; hdr = take ipv4HeaderMin pkt; seg = drop ipv4HeaderMin pkt in
       bytes_at 12 4 hdr = be32 (dst4 buf) \<and> bytes_at 16 4 hdr = be32 CLATv4 \<and> hdr ! 9 = buf ! 9 \<and>
       hdr ! 8 = rbuf ! 7 \<and> fold16 (sum32 0 hdr) = 0 \<and> fold16 (sum32 ?ps seg) = 0 \<and>
       take 4 seg = take 4 (seg6 rbuf) \<and> length seg = plen6 rbuf \<and>
       (\<exists>off mn. l4ChecksumOffset (buf ! 9) = Some (off, mn) \<and> take off seg = take off (seg6 rbuf) \<and>
          drop (off + 2) seg = drop (off + 2) (seg6 rbuf))"
    by (simp add: Let_def header4_fields ipv4HeaderMin_def nth_append)
  with r pkt show ?thesis by metis
qed

end
