(* ===== verification/EnfExamples.thy ===== *)
theory EnfExamples
  imports EnfInbound
begin

text \<open>
  A run of the filter on concrete packets: a UDP datagram of the namespace to 1.1.1.1 leaves
  translated, its reply comes back as IPv4, and a DNS query to the resolver passes.
\<close>

definition ex_prefix :: ip_prefix where
  "ex_prefix = \<lparr>pfx_addr = Addr6 0x0064FF9B000000000000000000000000 [], pfx_bits = 96\<rparr>"

definition ex_self :: "128 word" where "ex_self = 0x2A042A01000000010000000000000042"
definition ex_resolver :: "128 word" where "ex_resolver = 0x2A042A01000000530000000000000001"

definition ex_filter :: pfilter where
  "ex_filter = SetLive True (NewFilter \<lparr>pol_self = Some (Addr6 ex_self []),
     pol_resolvers = [Addr6 ex_resolver []], pol_nat64 = Some ex_prefix\<rparr>)"

text \<open>Port 40000 of the namespace to port 443 of 1.1.1.1, with two bytes of payload.\<close>

definition ex_segment :: bytes where
  "ex_segment = [0x9C, 0x40, 1, 0xBB, 0, 10, 0, 0, 0xAB, 0xCD]"

definition ex_packet4 :: bytes where
  "ex_packet4 = [0x45, 0x10, 0, 30, 0, 0, 0x40, 0, 64, 17, 0, 0, 192, 0, 0, 2, 1, 1, 1, 1] @ ex_segment @ replicate 40 0"

definition ex_query :: bytes where
  "ex_query = header6 0 8 protoUDP 64 ex_self ex_resolver @ [0x9C, 0x40, 0, 53, 0, 8, 0, 0]"

definition ex_source :: "128 word" where
  "ex_source = put4 (prefix_word ex_prefix) 0x01010101"

definition ex_reply :: bytes where
  "ex_reply = header6 0 9 protoUDP 55 ex_source ex_self @ [1, 0xBB, 0x9C, 0x40, 0, 9, 0, 0, 0x5A]"

lemma ex_filter_fields:
  "pol_self (f_policy ex_filter) = Some (Addr6 ex_self [])" "pol_nat64 (f_policy ex_filter) = Some (Masked ex_prefix)"
  "pol_resolvers (f_policy ex_filter) = [Addr6 ex_resolver []]" "\<not> f_dead ex_filter" "f_flows ex_filter = newFlowTable"
  by (simp_all add: ex_filter_def SetLive_def NewFilter_def)

lemma ex_masked: "Masked ex_prefix = ex_prefix"
  by (simp add: Masked_def ex_prefix_def keep_top_def)

lemma ex_prefix_ok: "nat64_prefix ex_prefix"
  by (simp add: nat64_prefix_def ex_prefix_def Is4In6_def)

lemma ex_packet_fields:
  "drop_bit 4 (ex_packet4 ! 0) = 4" "hlen4 ex_packet4 = 20" "total4 ex_packet4 = 30" "seg4 ex_packet4 = ex_segment"
  "dst4 ex_packet4 = 0x01010101" "ex_packet4 ! 9 = protoUDP" "length ex_packet4 = 70"
  "addr4 (bytes_at 12 4 (take 30 ex_packet4)) = Addr4 CLATv4" "u16_at 6 (take 30 ex_packet4) = 0x4000"
  "u32_at 16 (take 30 ex_packet4) = 0x01010101" "drop 20 (take 30 ex_packet4) = ex_segment"
  by (simp_all add: ex_packet4_def ex_segment_def u16_at_def u32_at_def addr4_def bytes_at_def be_val_def protoUDP_def CLATv4_def)

lemma ex_key:
  "outboundKey4 protoUDP ex_segment 0x01010101 = Key (flow4 protoUDP 40000 0x01010101 443)"
  by (simp add: outboundKey4_def ex_segment_def l4ChecksumOffset_def proto_defs isDNSPort_def u16_at_def bytes_at_def
      be_val_def flow4_def)

lemma ex_carriable: "carriable4 ex_filter (Addr4 0x01010101) = Some (Addr6 ex_source [])"
proof -
  have "carriable (Addr4 0x01010101) = None"
    by (simp add: carriable_def guard_None IsUnspecified_def IsLoopback_def IsLinkLocalUnicast_def IsMulticast_def
        IsPrivate_def v4_octet_def inPrefix_def Contains_def keep_top_def)
  then have "Synthesize (Some ex_prefix) (Addr4 0x01010101) = Inr (Addr6 ex_source [])"
    unfolding Synthesize_Inr [OF ex_prefix_ok] by (simp add: ex_source_def)
  then show ?thesis
    by (simp add: carriable4_def notGlobal4_def Contains_def keep_top_def ex_filter_fields ex_masked)
qed

lemma ex_multicast: "\<not> IsMulticast (Addr4 0x01010101)"
  by (simp add: IsMulticast_def v4_octet_def)

lemma ex_claim: "\<exists>t. claim newFlowTable 5 key famV4 = (t, True)"
  by (simp add: claim_def newFlowTable_def flow_len_def maxFlows_def fcard_fempty)

lemma ex_out: "\<exists>f1 buf1. Outbound ex_filter (5, 5) ex_packet4 30 = (f1, buf1, 50, None) \<and> f_policy f1 = f_policy ex_filter"
proof -
  obtain t where t: "claim newFlowTable 5 (flow4 protoUDP 40000 0x01010101 443) famV4 = (t, True)"
    using ex_claim by blast
  note p = ex_packet_fields
  have n9: "take 30 ex_packet4 ! 9 = protoUDP" using p(6) by simp
  have "outbound4 ex_filter (5, 5) ex_packet4 30 =
      (count_translated (ex_filter\<lparr>f_flows := t\<rparr>), translate4to6 ex_packet4 20 30 (As16 (Addr6 ex_self [])) ex_source, 50, None)"
    using t unfolding outbound4_def Let_def p n9
    by (simp add: ex_key ex_carriable ex_multicast ex_filter_fields ex_masked size_defs As16_def protoUDP_def protoICMP_def
        ex_key [unfolded protoUDP_def])
  then have "Outbound ex_filter (5, 5) ex_packet4 30 =
      (count_translated (ex_filter\<lparr>f_flows := t\<rparr>), translate4to6 ex_packet4 20 30 (As16 (Addr6 ex_self [])) ex_source, 50, None)"
    by (simp add: Outbound_def p)
  then show ?thesis by (simp add: count_translated_def)
qed

lemma ex_replies:
  assumes "Outbound ex_filter (5, 5) ex_packet4 30 = (f1, buf1, 50, None)"
  shows "replies_to ex_filter ex_packet4 (take 50 buf1) ex_reply 49" "plen6 ex_reply = 9"
proof -
  have "EmbeddedIPv4 (Some ex_prefix) (dst6_of (take 50 buf1)) = Some (Addr4 (dst4 ex_packet4))"
    using translation_out_embedded [OF assms _ ex_packet_fields(1) _ ex_prefix_ok] by (simp add: ex_filter_fields ex_masked)
  then have d: "dst6_of (take 50 buf1) = Addr6 ex_source []"
    unfolding EmbeddedIPv4_Some [OF ex_prefix_ok] by (simp add: ex_packet_fields ex_source_def)
  have s: "length ex_reply = 49" by (simp add: ex_reply_def header6_fields)
  show pl: "plen6 ex_reply = 9" by (simp add: ex_reply_def header6_fields)
  have seg: "bytes_at ipv6Header 9 ex_reply = [1, 0xBB, 0x9C, 0x40, 0, 9, 0, 0, 0x5A]"
    by (simp add: ex_reply_def bytes_at_def ipv6Header_def header6_fields)
  show "replies_to ex_filter ex_packet4 (take 50 buf1) ex_reply 49"
    unfolding replies_to_def pl d ex_packet_fields unfolding seg
    by (simp add: s size_defs ex_reply_def header6_fields addr16_def ex_filter_fields proto_defs)
      (simp add: ex_segment_def u16_at_def bytes_at_def be_val_def)
qed

text \<open>The properties, on this run.\<close>

theorem outbound_contained_witness: "sent_ok ex_filter ex_query"
proof -
  have len: "length ex_query = 48" by (simp add: ex_query_def header6_fields)
  have pl: "plen6 ex_query = 8" by (simp add: ex_query_def header6_fields)
  have f: "\<not> forged6 ex_filter ex_query"
    by (simp add: forged6_def ex_query_def header6_fields addr16_def ex_filter_fields Let_def)
      (simp add: ex_resolver_def IsMulticast_def IsLinkLocalUnicast_def IsLoopback_def IsUnspecified_def Unmap_def Is4In6_def)
  have t: "transport6 ex_query = Some (protoUDP, Some [0x9C, 0x40, 0, 53, 0, 8, 0, 0])"
    by (simp add: transport6_def ex_query_def header6_fields ipv6Header_def transport_header_def known_proto_def
        l4ChecksumOffset_def proto_defs Let_def)
  have d: "addr16 (bytes_at 24 16 ex_query) = Addr6 ex_resolver []"
    by (simp add: ex_query_def header6_fields addr16_def)
  have "\<not> Contains ula6 (Addr6 ex_resolver [])" "\<not> Contains ex_prefix (Addr6 ex_resolver [])"
    by (simp_all add: Contains_def ula6_def keep_top_def ex_resolver_def ex_prefix_def)
  then have "steer6 ex_filter 5 protoUDP (Some [0x9C, 0x40, 0, 53, 0, 8, 0, 0]) (Addr6 ex_resolver []) = (ex_filter, True)"
    by (simp add: steer6_def isResolver_def nat64_contains_def ex_filter_fields)
  then have "outbound6 ex_filter (5, 5) ex_query 48 = (count_passed ex_filter, ex_query, 48, None)"
    using f by (simp add: outbound6_def pl len d t ex_filter_fields ipv6Header_def Let_def proto_defs)
  moreover have "drop_bit 4 (ex_query ! 0) = 6" by (simp add: ex_query_def header6_fields)
  ultimately have "Outbound ex_filter (5, 5) ex_query 48 = (count_passed ex_filter, ex_query, 48, None)"
    by (simp add: Outbound_def len)
  from outbound_contained [OF this] len show ?thesis by simp
qed

theorem translation_out_witness:
  "\<exists>f1 buf1. Outbound ex_filter (5, 5) ex_packet4 30 = (f1, buf1, 50, None) \<and>
     EmbeddedIPv4 (Some ex_prefix) (dst6_of (take 50 buf1)) = Some (Addr4 0x01010101)"
proof -
  obtain f1 buf1 where o: "Outbound ex_filter (5, 5) ex_packet4 30 = (f1, buf1, 50, None)" using ex_out by blast
  have p: "pol_nat64 (f_policy ex_filter) = Some ex_prefix" by (simp add: ex_filter_fields ex_masked)
  from translation_out [OF o _ ex_packet_fields(1) p ex_prefix_ok] o show ?thesis
    by (auto simp: Let_def ex_packet_fields)
qed

theorem reply_returns_witness:
  "\<exists>f1 buf1 f3 buf3. Outbound ex_filter (5, 5) ex_packet4 30 = (f1, buf1, 50, None) \<and>
     Inbound f1 7 ex_reply 49 = Some (f3, buf3, 29)"
proof -
  obtain f1 buf1 where o: "Outbound ex_filter (5, 5) ex_packet4 30 = (f1, buf1, 50, None)"
    and pol: "f_policy f1 = f_policy ex_filter" using ex_out by blast
  have p: "pol_nat64 (f_policy ex_filter) = Some ex_prefix" by (simp add: ex_filter_fields ex_masked)
  have run: "flow_run (f_flows f1, fst (5, 5)) (f_flows f1, 5)" by simp
  have time: "(5 :: int) \<le> 7" "7 \<le> fst (5 :: int, 5 :: int) + idleTimeout (ex_packet4 ! 9)"
    by (simp_all add: ex_packet_fields idleTimeout_def Second_def proto_defs)
  from reply_returns [OF o _ ex_packet_fields(1) p ex_prefix_ok run pol time ex_replies(1) [OF o]] o
  show ?thesis by (auto simp: ex_replies(2) [OF o] ipv4HeaderMin_def)
qed


end
