(* ===== verification/EnfRuns.thy ===== *)
theory EnfRuns
  imports EnfExamples
begin

text \<open>
  The filter of \<open>internal/enforce/filter.go\<close> over a run: the refusals it writes, and the
  invariant of its flow table and token bucket in every state it can reach.
\<close>

subsection \<open>Refusals\<close>

lemma refuse6_Some:
  "refuse6 f ts buf pkt = (f', buf', k, Some e) \<Longrightarrow> icmp6Prohibited pkt = Some e"
  "refuse4 f ts buf pkt = (f', buf', k, Some e) \<Longrightarrow> icmp4Prohibited pkt = Some e"
  by (auto simp: refuse6_def refuse4_def split: prod.splits if_splits)

lemma unreadable_not_error: "transport6 pkt = None \<Longrightarrow> \<not> is_error6 pkt"
  by (simp add: is_error6_def)

lemma outbound6_refuses:
  assumes "outbound6 f ts buf n = (f', buf', k, Some e)"
  shows "k = 0 \<and> buf' = buf \<and> \<not> is_error6 (packet6 buf) \<and> icmp6Prohibited (packet6 buf) = Some e"
  using assms
  unfolding outbound6_def Let_def packet6_def [symmetric] is_error6_def [symmetric] dst6_of_def [symmetric]
  by (auto split: if_splits option.splits prod.splits dest: not_refused refuse6_Some unreadable_not_error)

lemma outbound4_refuses:
  assumes "outbound4 f ts buf n = (f', buf', k, Some e)"
  shows "k = 0 \<and> buf' = buf \<and> icmp4Prohibited (take (total4 buf) buf) = Some e \<and>
     (buf ! 9 = protoICMP \<longrightarrow> seg4 buf ! 0 = 8)"
  using assms unfolding outbound4_def Let_def
  by (auto simp: size_defs split: if_splits key4.splits option.splits prod.splits dest: not_refused refuse6_Some)

text \<open>A refusal: bounded, from the refused destination to the sender, with checksums that verify.\<close>

definition refusal_ok :: "bytes \<Rightarrow> bytes \<Rightarrow> bool" where
  "refusal_ok pkt e \<longleftrightarrow>
     (if drop_bit 4 (e ! 0) = 6 then
        length e \<le> minMTU \<and> bytes_at 8 16 e = bytes_at 24 16 pkt \<and> bytes_at 24 16 e = bytes_at 8 16 pkt \<and>
        e ! 6 = protoICMPv6 \<and> e ! 40 = 1 \<and> e ! 41 = 1 \<and>
        drop 48 e = take (length e - 48) pkt \<and>
        fold16 (sum32 (pseudo6 (bytes_at 8 16 e) (bytes_at 24 16 e) protoICMPv6 (length e - 40)) (drop 40 e)) = 0
      else
        length e \<le> icmp4Max \<and> bytes_at 12 4 e = bytes_at 16 4 pkt \<and> bytes_at 16 4 e = bytes_at 12 4 pkt \<and>
        e ! 9 = protoICMP \<and> e ! 20 = 3 \<and> e ! 21 = 13 \<and> drop 28 e = take (length e - 28) pkt \<and>
        fold16 (sum32 0 (take 20 e)) = 0 \<and> fold16 (sum32 0 (drop 20 e)) = 0)"

lemma icmp_message_closes:
  fixes a b
  assumes "proto = protoICMP \<or> proto = protoICMPv6" "length quote \<le> 1232" "unat ps < 2 ^ 21"
  defines "m \<equiv> fst (setL4Checksum ([a, b, 0, 0, 0, 0, 0, 0] @ quote) proto ps)"
  shows "fold16 (sum32 ps m) = 0" "m ! 0 = a" "m ! 1 = b" "drop 8 m = quote" "length m = 8 + length quote"
proof -
  have off: "l4ChecksumOffset proto = Some (2, 8)" using assms(1) by (auto simp: l4ChecksumOffset_def proto_defs)
  show "fold16 (sum32 ps m) = 0"
    unfolding m_def using assms(2,3) by (intro segment_closes [OF off]) (simp_all add: minMTU_def)
  show "m ! 0 = a" "m ! 1 = b" "drop 8 m = quote" "length m = 8 + length quote"
    by (simp_all add: m_def setL4Checksum_def off Let_def put16_def)
qed

lemma icmp6Prohibited_ok:
  assumes "icmp6Prohibited pkt = Some e"
  shows "refusal_ok pkt e" "drop_bit 4 (e ! 0) = 6"
proof -
  define quote where "quote = take (minMTU - ipv6Header - 8) pkt"
  let ?src = "bytes_at 24 16 pkt"
  let ?dst = "bytes_at 8 16 pkt"
  let ?plen = "8 + length quote"
  let ?m = "fst (setL4Checksum ([1, 1, 0, 0, 0, 0, 0, 0] @ quote) protoICMPv6 (pseudo6 ?src ?dst protoICMPv6 ?plen))"
  have len: "ipv6Header \<le> length pkt" using assms by (auto simp: icmp6Prohibited_def Let_def split: if_splits)
  then have a: "length ?src = 16" "length ?dst = 16" by (simp_all add: ipv6Header_def)
  have q: "length quote \<le> 1232" "take (length quote) pkt = quote" by (simp_all add: quote_def size_defs min_def)
  have e: "e = [0x60, 0, 0, 0] @ be16 (word_of_nat ?plen) @ [protoICMPv6, 64] @ ?src @ ?dst @ ?m"
    using assms len by (simp add: icmp6Prohibited_def Let_def quote_def)
  have "unat (pseudo6 ?src ?dst protoICMPv6 ?plen) < 2 ^ 21" using a q(1) by (intro pseudo_bounds) simp_all
  note m = icmp_message_closes [OF disjI2 [OF refl] q(1) this, of 1 1]
  have l: "length e = 48 + length quote" unfolding e using a m(5) by simp
  have parts: "bytes_at 8 16 e = ?src" "bytes_at 24 16 e = ?dst" "drop 40 e = ?m"
    unfolding e using a by (simp_all add: bytes_at_def be16_list)
  have bytes: "e ! 6 = protoICMPv6" "e ! 0 = 0x60" unfolding e by (simp_all add: be16_list)
  then show "drop_bit 4 (e ! 0) = 6" by simp
  have "e ! 40 = drop 40 e ! 0" "e ! 41 = drop 40 e ! 1" "drop 48 e = drop 8 (drop 40 e)" using l by simp_all
  then have body: "e ! 40 = 1" "e ! 41 = 1" "drop 48 e = quote" unfolding parts(3) m(2,3,4) .
  show "refusal_ok pkt e"
    using parts bytes body m(1) l q by (simp add: refusal_ok_def minMTU_def)
qed

lemma icmp4Prohibited_ok:
  assumes "icmp4Prohibited pkt = Some e"
  shows "refusal_ok pkt e" "drop_bit 4 (e ! 0) = 4"
proof -
  define quote where "quote = take (icmp4Max - ipv4HeaderMin - 8) pkt"
  let ?src = "bytes_at 16 4 pkt"
  let ?dst = "bytes_at 12 4 pkt"
  let ?tot = "28 + length quote"
  let ?b = "[0x45, 0] @ be16 (word_of_nat ?tot) @ [0, 0, 0, 0, 64, protoICMP, 0, 0] @ ?src @ ?dst"
  let ?m = "fst (setL4Checksum ([3, 13, 0, 0, 0, 0, 0, 0] @ quote) protoICMP 0)"
  have len: "ipv4HeaderMin \<le> length pkt" using assms by (auto simp: icmp4Prohibited_def Let_def split: if_splits)
  then have a: "length ?src = 4" "length ?dst = 4" by (simp_all add: ipv4HeaderMin_def)
  have q: "length quote \<le> 548" "length quote \<le> 1232" "take (length quote) pkt = quote"
    by (simp_all add: quote_def size_defs min_def)
  have e: "e = setIPv4HeaderChecksum ?b 20 @ ?m"
    using assms len by (simp add: icmp4Prohibited_def Let_def quote_def size_defs)
  have b: "length ?b = 20" using a by simp
  obtain w where h: "setIPv4HeaderChecksum ?b 20 = put16 10 w ?b"
    unfolding setIPv4HeaderChecksum_def Let_def put16_put16 by blast
  note m = icmp_message_closes [OF disjI1 [OF refl] q(2), of 0 3 13, simplified]
  have l: "length e = 28 + length quote" unfolding e using b m(5) by simp
  have hdr: "take 20 e = setIPv4HeaderChecksum ?b 20" "drop 20 e = ?m" unfolding e using b by simp_all
  have fields: "bytes_at 12 4 e = ?src" "bytes_at 16 4 e = ?dst" "e ! 9 = protoICMP" "e ! 0 = 0x45"
    unfolding e h using a by (simp_all add: put16_def bytes_at_def be16_list nth_append)
  then show "drop_bit 4 (e ! 0) = 4" by simp
  have "e ! 20 = drop 20 e ! 0" "e ! 21 = drop 20 e ! 1" "drop 28 e = drop 8 (drop 20 e)" using l by simp_all
  then have body: "e ! 20 = 3" "e ! 21 = 13" "drop 28 e = quote" unfolding hdr(2) using m(2,3,4) by simp_all
  have "fold16 (sum32 0 (take 20 e)) = 0" unfolding hdr(1) by (rule setIPv4HeaderChecksum_closes [OF b])
  moreover have "fold16 (sum32 0 (drop 20 e)) = 0" unfolding hdr(2) using m(1) by simp
  ultimately show "refusal_ok pkt e"
    using fields body l q by (simp add: refusal_ok_def icmp4Max_def)
qed

text \<open>
  C25. Every ICMP error the filter writes back refuses a packet that is then not sent: never an
  ICMPv6 error, nor an ICMPv4 message other than an echo request; it comes from the refused
  destination to the sender, quotes the packet, fits the minimum MTU and carries checksums that
  verify.
\<close>

theorem refusals_are_sound:
  assumes "Outbound f ts buf n = (f', buf', k, Some e)"
  shows "k = 0 \<and> buf' = buf \<and>
     (drop_bit 4 (buf ! 0) = 6 \<and> \<not> is_error6 (packet6 buf) \<and> drop_bit 4 (e ! 0) = 6 \<and> refusal_ok (packet6 buf) e \<or>
      drop_bit 4 (buf ! 0) = 4 \<and> (buf ! 9 = protoICMP \<longrightarrow> seg4 buf ! 0 = 8) \<and> drop_bit 4 (e ! 0) = 4 \<and>
        refusal_ok (take (total4 buf) buf) e)"
proof -
  consider (six) "drop_bit 4 (buf ! 0) = 6" "outbound6 f ts buf n = (f', buf', k, Some e)"
    | (four) "drop_bit 4 (buf ! 0) = 4" "outbound4 f ts buf n = (f', buf', k, Some e)"
    using assms by (auto simp: Outbound_def drop_packet_def split: if_splits)
  then show ?thesis
  proof cases
    case six
    with outbound6_refuses [OF six(2)] icmp6Prohibited_ok show ?thesis by blast
  next
    case four
    with outbound4_refuses [OF four(2)] icmp4Prohibited_ok show ?thesis by blast
  qed
qed

text \<open>A query to a resolver the namespace was not given is refused.\<close>

definition ex_foreign :: bytes where
  "ex_foreign = header6 0 8 protoUDP 64 ex_self 0x20010DB8000000000000000000000001 @ [0x9C, 0x40, 0, 53, 0, 8, 0, 0]"

lemma ex_refused: "\<exists>f' e. Outbound ex_filter (5, 5) ex_foreign 48 = (f', ex_foreign, 0, Some e)"
proof -
  have len: "length ex_foreign = 48" by (simp add: ex_foreign_def header6_fields)
  have pl: "plen6 ex_foreign = 8" by (simp add: ex_foreign_def header6_fields)
  have f: "\<not> forged6 ex_filter ex_foreign"
    by (simp add: forged6_def ex_foreign_def header6_fields addr16_def ex_filter_fields Let_def)
      (simp add: IsMulticast_def IsLinkLocalUnicast_def IsLoopback_def IsUnspecified_def Unmap_def Is4In6_def)
  have t: "transport6 ex_foreign = Some (protoUDP, Some [0x9C, 0x40, 0, 53, 0, 8, 0, 0])"
    by (simp add: transport6_def ex_foreign_def header6_fields ipv6Header_def transport_header_def known_proto_def
        l4ChecksumOffset_def proto_defs Let_def)
  have d: "addr16 (bytes_at 24 16 ex_foreign) = Addr6 0x20010DB8000000000000000000000001 []"
    by (simp add: ex_foreign_def header6_fields addr16_def)
  have "\<not> Contains ula6 (Addr6 0x20010DB8000000000000000000000001 [])"
    by (simp add: Contains_def ula6_def keep_top_def)
  then have s: "steer6 ex_filter 5 protoUDP (Some [0x9C, 0x40, 0, 53, 0, 8, 0, 0]) (Addr6 0x20010DB8000000000000000000000001 []) = (ex_filter, False)"
    by (simp add: steer6_def isResolver_def ex_filter_fields isDNSPort_def u16_at_def bytes_at_def be_val_def ex_resolver_def)
  have allow: "\<exists>g. allowRefusal (count_refused ex_filter) 5 = (g, True)"
    by (simp add: allowRefusal_def count_refused_def ex_filter_def SetLive_def NewFilter_def refusalBurst_def)
  then have "\<exists>f' e. refuse6 ex_filter (5, 5) ex_foreign ex_foreign = (f', ex_foreign, 0, Some e)"
    by (auto simp: refuse6_def icmp6Prohibited_def len ipv6Header_def Let_def)
  then have "\<exists>f' e. outbound6 ex_filter (5, 5) ex_foreign 48 = (f', ex_foreign, 0, Some e)"
    using f s by (simp add: outbound6_def pl len d t ex_filter_fields ipv6Header_def Let_def proto_defs)
  moreover have "drop_bit 4 (ex_foreign ! 0) = 6" by (simp add: ex_foreign_def header6_fields)
  ultimately show ?thesis by (simp add: Outbound_def len)
qed

theorem refusals_are_sound_witness:
  "\<exists>f' e. Outbound ex_filter (5, 5) ex_foreign 48 = (f', ex_foreign, 0, Some e) \<and> refusal_ok (packet6 ex_foreign) e"
proof -
  obtain f' e where o: "Outbound ex_filter (5, 5) ex_foreign 48 = (f', ex_foreign, 0, Some e)" using ex_refused by blast
  have "drop_bit 4 (ex_foreign ! 0) = 6" by (simp add: ex_foreign_def header6_fields)
  with refusals_are_sound [OF o] o show ?thesis by auto
qed

subsection \<open>The invariant\<close>

text \<open>What one operation may do to the state: a claim or a lookup in the table, one refusal counted.\<close>

definition limiter :: "pfilter \<Rightarrow> rat \<times> int option" where
  "limiter f = (f_tokens f, f_last f)"

definition limited :: "rat \<times> int option \<Rightarrow> int \<Rightarrow> rat \<times> int option \<Rightarrow> bool" where
  "limited l now l' \<longleftrightarrow> (\<exists>g. limiter g = l \<and> l' = limiter (fst (allowRefusal g now)))"

definition changed :: "pfilter \<Rightarrow> int \<Rightarrow> int \<Rightarrow> pfilter \<Rightarrow> bool" where
  "changed f t u f' \<longleftrightarrow>
     f_policy f' = f_policy f \<and> f_dead f' = f_dead f \<and>
     (f_flows f' = f_flows f \<or> (\<exists>k fam ok. claim (f_flows f) t k fam = (f_flows f', ok)) \<or>
      (\<exists>k r. flow_lookup (f_flows f) t k = (f_flows f', r))) \<and>
     (limiter f' = limiter f \<or> limited (limiter f) u (limiter f'))"

lemma count_fields [simp]:
  "f_policy (count_passed f) = f_policy f" "f_dead (count_passed f) = f_dead f" "f_flows (count_passed f) = f_flows f"
  "limiter (count_passed f) = limiter f"
  "f_policy (count_translated f) = f_policy f" "f_dead (count_translated f) = f_dead f"
  "f_flows (count_translated f) = f_flows f" "limiter (count_translated f) = limiter f"
  "f_policy (count_dropped f) = f_policy f" "f_dead (count_dropped f) = f_dead f"
  "f_flows (count_dropped f) = f_flows f" "limiter (count_dropped f) = limiter f"
  "f_policy (count_refused f) = f_policy f" "f_dead (count_refused f) = f_dead f"
  "f_flows (count_refused f) = f_flows f" "limiter (count_refused f) = limiter f"
  "limiter (f\<lparr>f_flows := t\<rparr>) = limiter f"
  by (simp_all add: count_passed_def count_translated_def count_dropped_def count_refused_def limiter_def)

lemma allowRefusal_fields:
  "f_policy (fst (allowRefusal f now)) = f_policy f" "f_dead (fst (allowRefusal f now)) = f_dead f"
  "f_flows (fst (allowRefusal f now)) = f_flows f"
  by (simp_all add: allowRefusal_def Let_def)

lemma refuse_fields:
  "f_policy (fst (refuse6 f ts buf pkt)) = f_policy f" "f_policy (fst (refuse4 f ts buf pkt)) = f_policy f"
  "f_dead (fst (refuse6 f ts buf pkt)) = f_dead f" "f_dead (fst (refuse4 f ts buf pkt)) = f_dead f"
  "f_flows (fst (refuse6 f ts buf pkt)) = f_flows f" "f_flows (fst (refuse4 f ts buf pkt)) = f_flows f"
  by (simp_all add: refuse6_def refuse4_def allowRefusal_fields split: prod.splits)
    (metis allowRefusal_fields count_fields fst_conv)+

lemma refuse_limited:
  "limited (limiter f) (snd ts) (limiter (fst (refuse6 f ts buf pkt)))"
  "limited (limiter f) (snd ts) (limiter (fst (refuse4 f ts buf pkt)))"
  unfolding limited_def by (auto simp: refuse6_def refuse4_def split: prod.splits intro!: exI [of _ "count_refused f"])

text \<open>Each way an operation ends, from the state or from the state with another table.\<close>

definition table_after :: "flow_table \<Rightarrow> int \<Rightarrow> flow_table \<Rightarrow> bool" where
  "table_after fl t fl' \<longleftrightarrow>
     fl' = fl \<or> (\<exists>k fam ok. claim fl t k fam = (fl', ok)) \<or> (\<exists>k r. flow_lookup fl t k = (fl', r))"

lemma ends:
  assumes "table_after (f_flows f) t fl"
  shows "changed f t (snd ts) (fst (refuse6 (f\<lparr>f_flows := fl\<rparr>) ts buf pkt))"
    and "changed f t (snd ts) (fst (refuse4 (f\<lparr>f_flows := fl\<rparr>) ts buf pkt))"
    and "changed f t u (count_passed (f\<lparr>f_flows := fl\<rparr>))" "changed f t u (count_translated (f\<lparr>f_flows := fl\<rparr>))"
    and "changed f t u (count_dropped (f\<lparr>f_flows := fl\<rparr>))"
  using assms refuse_limited [of "f\<lparr>f_flows := fl\<rparr>" ts buf pkt]
  by (simp_all add: changed_def table_after_def refuse_fields)

lemma ends_here [simp]:
  "changed f t (snd ts) (fst (refuse6 f ts buf pkt))" "changed f t (snd ts) (fst (refuse4 f ts buf pkt))"
  "changed f t u (fst (drop_packet f buf))" "changed f t u (count_passed f)" "changed f t u (count_translated f)"
  "changed f t u (count_dropped f)"
  using ends(1,2) [of f t "f_flows f" ts buf pkt] ends(3-5) [of f t "f_flows f" u]
  by (simp_all add: table_after_def drop_packet_def)

lemma steer6_table:
  "steer6 f now proto l4 dst = (g, ok) \<Longrightarrow> \<exists>fl. table_after (f_flows f) now fl \<and> g = f\<lparr>f_flows := fl\<rparr>"
proof -
  assume s: "steer6 f now proto l4 dst = (g, ok)"
  have "f = f\<lparr>f_flows := f_flows f\<rparr>" by simp
  with s show ?thesis
    by (auto simp: steer6_def table_after_def split: if_splits option.splits prod.splits)
qed

lemma outbound6_changed: "changed f (fst ts) (snd ts) (fst (outbound6 f ts buf n))"
proof -
  have "changed f (fst ts) (snd ts) (fst (let (f', ok) = steer6 f (fst ts) proto l4 dst in
      if \<not> ok then refuse6 f' ts buf pkt else (count_passed f', buf, m, None)))" for proto l4 dst pkt m
  proof -
    obtain g ok where s: "steer6 f (fst ts) proto l4 dst = (g, ok)" by fastforce
    from steer6_table [OF s] obtain fl where fl: "table_after (f_flows f) (fst ts) fl" "g = f\<lparr>f_flows := fl\<rparr>" by blast
    show ?thesis using ends(1) [OF fl(1), of ts buf pkt] ends(3) [OF fl(1), of "snd ts"] by (simp add: s fl(2))
  qed
  then show ?thesis unfolding outbound6_def Let_def by (simp split: option.split)
qed

lemma outbound4_changed: "changed f (fst ts) (snd ts) (fst (outbound4 f ts buf n))"
proof -
  have c: "changed f (fst ts) (snd ts) (fst (let (t, ok) = claim (f_flows f) (fst ts) key famV4; f' = f\<lparr>f_flows := t\<rparr> in
      if \<not> ok then refuse4 f' ts buf pkt else (count_translated f', b, m, None)))" for key pkt b m
  proof -
    obtain t ok where s: "claim (f_flows f) (fst ts) key famV4 = (t, ok)" by fastforce
    then have "table_after (f_flows f) (fst ts) t" by (auto simp: table_after_def)
    then show ?thesis using ends(2) [of f "fst ts" t ts buf pkt] ends(4) [of f "fst ts" t "snd ts"]
      by (simp add: s Let_def)
  qed
  show ?thesis unfolding outbound4_def Let_def
    using c [unfolded Let_def] by (simp split: option.split key4.split)
qed

lemma Outbound_changed: "changed f (fst ts) (snd ts) (fst (Outbound f ts buf n))"
  by (simp add: Outbound_def outbound6_changed outbound4_changed)

lemma lookup_after: "flow_lookup (f_flows f) t key = (fl, r) \<Longrightarrow> table_after (f_flows f) t fl"
  by (auto simp: table_after_def)

lemma inboundError_changed: "inboundError f t buf n = Some (f', buf', k) \<Longrightarrow> changed f t u f'"
  unfolding inboundError_def Let_def
  by (auto split: if_splits option.splits prod.splits ip_addr.splits dest!: lookup_after intro: ends(3-5))

lemma Inbound_changed: "Inbound f t buf n = Some (f', buf', k) \<Longrightarrow> changed f t u f'"
  unfolding Inbound_def Let_def
  by (auto split: if_splits option.splits prod.splits ip_addr.splits dest!: lookup_after inboundError_changed intro: ends(3-5))

subsection \<open>Runs of the filter\<close>

text \<open>One operation, at readings of a clock that never goes back.\<close>

inductive filter_step :: "pfilter \<times> int \<Rightarrow> pfilter \<times> int \<Rightarrow> bool" where
  outbound: "now \<le> t \<Longrightarrow> t \<le> u \<Longrightarrow> Outbound f (t, u) buf n = (f', buf', k, r) \<Longrightarrow> filter_step (f, now) (f', u)"
| inbound: "now \<le> t \<Longrightarrow> Inbound f t buf n = Some (f', buf', k) \<Longrightarrow> filter_step (f, now) (f', t)"
| set_live: "filter_step (f, now) (SetLive live f, now)"

inductive_cases filter_step_cases: "filter_step (f, now) (f', now')"

definition filter_inv :: "policy \<Rightarrow> pfilter \<times> int \<Rightarrow> bool" where
  "filter_inv p s \<longleftrightarrow>
     f_policy (fst s) = f_policy (NewFilter p) \<and>
     flow_len (f_flows (fst s)) \<le> ft_max (f_flows (fst s)) \<and> ft_max (f_flows (fst s)) = maxFlows \<and>
     0 \<le> f_tokens (fst s) \<and> f_tokens (fst s) \<le> refusalBurst \<and>
     (\<forall>prev. f_last (fst s) = Some prev \<longrightarrow> prev \<le> snd s)"

lemma f64_le_burst: "0 \<le> x \<Longrightarrow> x \<le> refusalBurst - 1 \<Longrightarrow> f64 x \<le> refusalBurst"
proof (cases "x = 0")
  case False
  assume "0 \<le> x" "x \<le> refusalBurst - 1"
  with False f64_upper [of x] show ?thesis by (simp add: refusalBurst_def)
qed (simp add: f64_def refusalBurst_def)

lemma limited_inv:
  assumes "limited l u l'" "0 \<le> fst l" "fst l \<le> refusalBurst" "\<forall>prev. snd l = Some prev \<longrightarrow> prev \<le> u"
  shows "0 \<le> fst l' \<and> fst l' \<le> refusalBurst \<and> snd l' = Some u"
proof -
  obtain g where g: "limiter g = l" "l' = limiter (fst (allowRefusal g u))" using assms(1) by (auto simp: limited_def)
  define refill where "refill = (case f_last g of None \<Rightarrow> f_tokens g
     | Some prev \<Rightarrow> let t = f64 (f_tokens g + f64 (Seconds (time_sub u prev) * refusalRate))
                   in if t > refusalBurst then refusalBurst else t)"
  have old: "0 \<le> f_tokens g" "f_tokens g \<le> refusalBurst" "\<And>prev. f_last g = Some prev \<Longrightarrow> prev \<le> u"
    using assms g(1) by (auto simp: limiter_def)
  have "0 \<le> time_sub u prev" if "f_last g = Some prev" for prev using old(3) [OF that] by (simp add: time_sub_def)
  then have "0 \<le> Seconds (time_sub u prev) * refusalRate" if "f_last g = Some prev" for prev
    using that Seconds_nonneg by (simp add: refusalRate_def)
  then have refill: "0 \<le> refill" "refill \<le> refusalBurst"
    using old by (auto simp: refill_def Let_def refusalBurst_def f64_nonneg add_nonneg_nonneg split: option.splits)
  have "l' = (if refill < 1 then (refill, Some u) else (f64 (refill - 1), Some u))"
    by (simp add: g(2) allowRefusal_def refill_def [symmetric] limiter_def Let_def)
  then show ?thesis using refill f64_nonneg [of "refill - 1"] f64_le_burst [of "refill - 1"] by (simp split: if_splits)
qed

lemma changed_inv:
  assumes "changed f t u f'" "filter_inv p (f, now)" "now \<le> u"
  shows "filter_inv p (f', u)"
proof -
  have "flow_len (f_flows f') \<le> ft_max (f_flows f') \<and> ft_max (f_flows f') = maxFlows"
    using assms claim_bounded lookup_bounded by (fastforce simp: changed_def filter_inv_def)
  moreover have "0 \<le> f_tokens f' \<and> f_tokens f' \<le> refusalBurst \<and> (\<forall>prev. f_last f' = Some prev \<longrightarrow> prev \<le> u)"
  proof (cases "limiter f' = limiter f")
    case True
    then have "f_tokens f' = f_tokens f" "f_last f' = f_last f" by (simp_all add: limiter_def)
    moreover have "prev \<le> u" if "f_last f = Some prev" for prev
      using assms(2,3) that order_trans [of prev now u] by (simp add: filter_inv_def)
    ultimately show ?thesis using assms(2) by (simp add: filter_inv_def)
  next
    case False
    then have "limited (limiter f) u (limiter f')" using assms(1) by (simp add: changed_def)
    moreover have "\<forall>prev. f_last f = Some prev \<longrightarrow> prev \<le> u"
      using assms(2,3) by (auto simp: filter_inv_def dest: order_trans)
    ultimately show ?thesis using limited_inv [of "limiter f" u "limiter f'"] assms(2)
      by (simp add: limiter_def filter_inv_def)
  qed
  ultimately show ?thesis using assms by (simp add: changed_def filter_inv_def)
qed

lemma filter_step_inv: "filter_step s s' \<Longrightarrow> filter_inv p s \<Longrightarrow> filter_inv p s'"
proof (induction rule: filter_step.induct)
  case (outbound now t u f buf n f' buf' k r)
  have "changed f t u f'" using Outbound_changed [of f "(t, u)" buf n] outbound.hyps(3) by simp
  from changed_inv [OF this outbound.prems] outbound.hyps show ?case by simp
next
  case (inbound now t f buf n f' buf' k)
  from changed_inv [OF Inbound_changed [OF inbound.hyps(2), of t] inbound.prems inbound.hyps(1)] show ?case .
next
  case (set_live f now live)
  then show ?case by (simp add: filter_inv_def SetLive_def)
qed

text \<open>
  C18. In every state the filter can reach from its creation, through any packets in either
  direction and any turn of the kill switch, the policy is the one it was created with, the flow
  table holds at most 65536 flows, and the token bucket of refusals stays between 0 and 200.
\<close>

theorem filter_invariant:
  assumes "filter_step\<^sup>*\<^sup>* (NewFilter p, start) (f, now)"
  shows "f_policy f = f_policy (NewFilter p) \<and> flow_len (f_flows f) \<le> maxFlows \<and>
     0 \<le> f_tokens f \<and> f_tokens f \<le> refusalBurst"
proof -
  have "filter_inv p s" if "filter_step\<^sup>*\<^sup>* (NewFilter p, start) s" for s
    using that
  proof (induction rule: rtranclp_induct)
    case base
    show ?case by (simp add: filter_inv_def NewFilter_def newFlowTable_def flow_len_def refusalBurst_def fcard_fempty)
  next
    case (step s s')
    from filter_step_inv [OF step.hyps(2) step.IH] show ?case .
  qed
  from this [OF assms] show ?thesis by (auto simp: filter_inv_def)
qed

theorem filter_invariant_witness:
  "\<exists>f' e. Outbound ex_filter (5, 5) ex_foreign 48 = (f', ex_foreign, 0, Some e) \<and> f_tokens f' \<le> refusalBurst"
proof -
  obtain f' e where o: "Outbound ex_filter (5, 5) ex_foreign 48 = (f', ex_foreign, 0, Some e)" using ex_refused by blast
  define p where "p = \<lparr>pol_self = Some (Addr6 ex_self []), pol_resolvers = [Addr6 ex_resolver []], pol_nat64 = Some ex_prefix\<rparr>"
  have "filter_step (NewFilter p, 0) (ex_filter, 0)"
    unfolding ex_filter_def p_def by (rule filter_step.set_live)
  moreover have "filter_step (ex_filter, 0) (f', 5)" by (rule filter_step.outbound [OF _ _ o]) simp_all
  ultimately have "filter_step\<^sup>*\<^sup>* (NewFilter p, 0) (f', 5)" by simp
  from filter_invariant [OF this] o show ?thesis by blast
qed

end
