(* ===== verification/GoScan.thy ===== *)
theory GoScan
  imports GoNet
begin

text \<open>
  What the readers of the operating system's tables use of Go: \<open>bufio.Scanner\<close> over lines,
  \<open>strings.Fields\<close>, \<open>strconv.ParseUint\<close>, \<open>hex.DecodeString\<close>, and \<open>encoding/binary\<close> in both
  byte orders.
\<close>

subsection \<open>Lines and fields\<close>

definition drop_cr :: "string \<Rightarrow> string" where
  "drop_cr l = (if l \<noteq> [] \<and> last l = CHR 0x0D then butlast l else l)"

text \<open>
  A scanner over lines whose buffer holds at most \<open>m\<close> bytes: a line that does not fit with its
  newline ends the scan.
\<close>

function scan_lines :: "nat \<Rightarrow> string \<Rightarrow> string list" where
  "scan_lines m s =
     (if s = [] then []
      else
        (let l = takeWhile (\<lambda>c. c \<noteq> CHR 0x0A) s in
         if length l \<ge> m then [] else drop_cr l # scan_lines m (drop (length l + 1) s)))"
  by pat_completeness auto
termination by (relation "measure (length \<circ> snd)") auto

declare scan_lines.simps [simp del]

text \<open>The text up to the next white space.\<close>

fun until_space :: "string \<Rightarrow> string" where
  "until_space [] = []"
| "until_space (c # s) = (if space_len (c # s) > 0 then [] else c # until_space s)"

lemma length_until_space: "length (until_space s) \<le> length s"
  by (induction s) auto

lemma length_trim_left: "length (trim_left s) \<le> length s"
proof (induction s rule: trim_left.induct)
  case (1 s)
  then show ?case by (subst trim_left.simps) (auto intro: le_trans)
qed

function Fields :: "string \<Rightarrow> string list" where
  "Fields s =
     (let t = trim_left s in
      if t = [] then []
      else
        (let w = until_space t in
         if w = [] then [] else w # Fields (drop (length w) t)))"
  by pat_completeness auto
termination
proof (relation "measure length")
  fix s t w :: string assume "t = trim_left s" "w = until_space t" "w \<noteq> []" "t \<noteq> []"
  then show "(drop (length w) t, s) \<in> measure length"
    using length_trim_left [of s] length_greater_0_conv [of w] length_greater_0_conv [of t]
    by (simp del: length_greater_0_conv)
qed simp

declare Fields.simps [simp del]

subsection \<open>Numbers\<close>

definition uint_digit :: "char \<Rightarrow> nat option" where
  "uint_digit c =
     (let n = of_char c :: nat in
      if 48 \<le> n \<and> n \<le> 57 then Some (n - 48)
      else if 97 \<le> n \<and> n \<le> 122 then Some (n - 87)
      else if 65 \<le> n \<and> n \<le> 90 then Some (n - 55)
      else None)"

definition ParseUint :: "nat \<Rightarrow> nat \<Rightarrow> string \<Rightarrow> nat option" where
  "ParseUint base bits s =
     (let ds = map uint_digit s in
      if s = [] \<or> \<not> list_all (\<lambda>d. case d of None \<Rightarrow> False | Some n \<Rightarrow> n < base) ds then None
      else
        (let v = foldl (\<lambda>a d. a * base + the d) 0 ds in
         if v < 2 ^ bits then Some v else None))"

lemma ParseUint_bound: "ParseUint base bits s = Some v \<Longrightarrow> v < 2 ^ bits"
  by (auto simp: ParseUint_def Let_def split: if_splits)

fun hex_decode :: "string \<Rightarrow> bytes option" where
  "hex_decode [] = Some []"
| "hex_decode [c] = None"
| "hex_decode (c # d # s) =
     (case (hex_val c, hex_val d, hex_decode s) of
        (Some x, Some y, Some b) \<Rightarrow> Some (word_of_nat (16 * x + y) # b)
      | _ \<Rightarrow> None)"

subsection \<open>Byte orders\<close>

datatype byte_order = Little | Big

definition get_u :: "byte_order \<Rightarrow> bytes \<Rightarrow> 'a::len word" where
  "get_u bo b = be_val (case bo of Big \<Rightarrow> b | Little \<Rightarrow> rev b)"

definition put16 :: "byte_order \<Rightarrow> 16 word \<Rightarrow> bytes" where
  "put16 bo v = (case bo of Big \<Rightarrow> be16 v | Little \<Rightarrow> rev (be16 v))"

definition put32 :: "byte_order \<Rightarrow> 32 word \<Rightarrow> bytes" where
  "put32 bo v = (case bo of Big \<Rightarrow> be32 v | Little \<Rightarrow> rev (be32 v))"

lemma get_put [simp]: "get_u bo (put16 bo v) = v" "get_u bo (put32 bo w) = w"
  by (simp_all add: get_u_def put16_def put32_def split: byte_order.split)

lemma get_Big: "get_u Big b = be_val b"
  by (simp add: get_u_def)

lemma length_put [simp]: "length (put16 bo v) = 2" "length (put32 bo w) = 4"
  by (simp_all add: put16_def put32_def split: byte_order.split)

text \<open>\<open>b[i : i+n]\<close>, whose bounds every caller has checked.\<close>

definition slice :: "bytes \<Rightarrow> nat \<Rightarrow> nat \<Rightarrow> bytes" where
  "slice b i n = take n (drop i b)"

lemma length_slice: "length (slice b i n) = min n (length b - i)"
  by (simp add: slice_def min.commute)

lemma slice_append:
  "i \<ge> length a \<Longrightarrow> slice (a @ b) i n = slice b (i - length a) n"
  "i + n \<le> length a \<Longrightarrow> slice (a @ b) i n = slice a i n"
  by (simp_all add: slice_def)

lemma slice_whole: "length a = n \<Longrightarrow> slice (a @ b) 0 n = a" "length a = n \<Longrightarrow> slice a 0 n = a"
  by (simp_all add: slice_def)

subsection \<open>Addresses with ports\<close>

text \<open>\<open>netip.ParseAddrPort\<close>: the address before the last colon, in brackets exactly for IPv6.\<close>

definition ParseAddrPort :: "string \<Rightarrow> (ip_addr \<times> nat) option" where
  "ParseAddrPort s =
     (case cut_last (CHR '':'') s of
        None \<Rightarrow> None
      | Some (ip, port) \<Rightarrow>
          if ip = [] \<or> port = [] then None
          else if hd ip = CHR ''['' \<and> (length ip < 2 \<or> last ip \<noteq> CHR '']'') then None
          else
            (let v6 = (hd ip = CHR ''[''); host = (if v6 then butlast (tl ip) else ip) in
             case (ParseUint 10 16 port, ParseAddr host) of
               (Some n, Some a) \<Rightarrow> if v6 = Is6 a then Some (a, n) else None
             | _ \<Rightarrow> None))"

end
