(* ===== verification/PeerId.thy ===== *)
theory PeerId
  imports GoScan
begin

text \<open>
  \<open>internal/peerid/peerid.go\<close> and \<open>peerid_linux.go\<close>: the local user behind a loopback
  connection, read from the kernel's socket tables by the exact tuple of the client's socket.
  The byte order of the host, the kernel's replies, the files under \<open>/proc\<close> and this process's
  own principal are arguments. An \<open>AddrPort\<close> that may be invalid is an option.
\<close>

subsection \<open>Principals\<close>

type_synonym principal = string

record peer =
  pr_ID :: principal
  pr_Mine :: bool

definition Privileged :: "principal \<Rightarrow> bool" where
  "Privileged who \<longleftrightarrow> who = ''u:0'' \<or> who = ''S-1-5-18''"

definition Unknown :: principal where "Unknown = []"

definition UID :: "32 word \<Rightarrow> 32 word \<Rightarrow> principal" where
  "UID overflowUID uid =
     (if uid = overflowUID \<or> uid = NOT 0 then Unknown else ''u:'' @ dec_nat (unat uid))"

definition needMine :: "principal \<Rightarrow> principal \<Rightarrow> bool" where
  "needMine self who \<longleftrightarrow> who \<noteq> Unknown \<and> who = self \<and> Privileged who"

subsection \<open>Tuples\<close>

record addr_port =
  ap_Addr :: ip_addr
  ap_Port :: "16 word"

definition canon :: "ip_addr \<Rightarrow> ip_addr" where
  "canon a = Unmap a"

definition sameTuple :: "addr_port \<Rightarrow> addr_port \<Rightarrow> addr_port \<Rightarrow> addr_port \<Rightarrow> bool" where
  "sameTuple aLocal aRemote bLocal bRemote \<longleftrightarrow>
     canon (ap_Addr aLocal) = canon (ap_Addr bLocal) \<and> ap_Port aLocal = ap_Port bLocal \<and>
     canon (ap_Addr aRemote) = canon (ap_Addr bRemote) \<and> ap_Port aRemote = ap_Port bRemote"

definition linuxLiveState :: "byte \<Rightarrow> bool" where
  "linuxLiveState st \<longleftrightarrow> st = 0x01 \<or> st = 0x04 \<or> st = 0x05"

subsection \<open>The tables under /proc/net\<close>

text \<open>Each 32-bit word of the address is printed as the host's integer of network-order bytes.\<close>

fun native_words :: "byte_order \<Rightarrow> bytes \<Rightarrow> bytes" where
  "native_words bo (a # b # c # d # r) = put32 bo (be_val [a, b, c, d]) @ native_words bo r"
| "native_words bo _ = []"

definition procNetAddrPort :: "byte_order \<Rightarrow> string \<Rightarrow> addr_port option" where
  "procNetAddrPort bo s =
     (case cut_at (CHR '':'') s of
        None \<Rightarrow> None
      | Some (h, p) \<Rightarrow>
          (case ParseUint 16 16 p of
             None \<Rightarrow> None
           | Some port \<Rightarrow>
               (case hex_decode h of
                  None \<Rightarrow> None
                | Some raw \<Rightarrow>
                    if length raw \<noteq> 4 \<and> length raw \<noteq> 16 then None
                    else map_option (\<lambda>a. \<lparr>ap_Addr = a, ap_Port = word_of_nat port\<rparr>)
                           (AddrFromSlice (native_words bo raw)))))"

text \<open>One row: the uid and the inode when the row counts, and nothing when the scan goes on.\<close>

definition proc_row ::
    "byte_order \<Rightarrow> addr_port \<Rightarrow> addr_port \<Rightarrow> string \<Rightarrow> (32 word \<times> 64 word) option" where
  "proc_row bo client server line =
     (let f = Fields line in
      if length f < 10 then None
      else
        (case (procNetAddrPort bo (f ! 1), procNetAddrPort bo (f ! 2)) of
           (Some local, Some remote) \<Rightarrow>
             if \<not> sameTuple local remote client server then None
             else
               (case ParseUint 16 8 (f ! 3) of
                  None \<Rightarrow> None
                | Some st \<Rightarrow>
                    if \<not> linuxLiveState (word_of_nat st) then None
                    else
                      (case ParseUint 10 64 (f ! 9) of
                         None \<Rightarrow> None
                       | Some ino \<Rightarrow>
                           if ino = 0 then None
                           else
                             (case ParseUint 10 32 (f ! 7) of
                                None \<Rightarrow> None
                              | Some u \<Rightarrow> Some (word_of_nat u, word_of_nat ino))))
         | _ \<Rightarrow> None))"

fun first_row :: "('a \<Rightarrow> 'r option) \<Rightarrow> 'a list \<Rightarrow> 'r option" where
  "first_row f [] = None"
| "first_row f (l # ls) = (case f l of Some r \<Rightarrow> Some r | None \<Rightarrow> first_row f ls)"

definition procNetTCPOwner ::
    "byte_order \<Rightarrow> string \<Rightarrow> addr_port \<Rightarrow> addr_port \<Rightarrow> (32 word \<times> 64 word) option" where
  "procNetTCPOwner bo table client server =
     first_row (proc_row bo client server) (scan_lines 4096 table)"

subsection \<open>The exact socket lookup over netlink\<close>

definition nlmsgHdrLen :: nat where "nlmsgHdrLen = 16"
definition inetDiagReqLen :: nat where "inetDiagReqLen = 56"
definition inetDiagMsgLen :: nat where "inetDiagMsgLen = 72"
definition sockDiagByFamily :: "16 word" where "sockDiagByFamily = 20"
definition afINET :: byte where "afINET = 2"
definition afINET6 :: byte where "afINET6 = 10"

text \<open>\<open>As4\<close> panics on an address that is not an IPv4 one: \<open>None\<close>.\<close>

definition putDiagAddr :: "byte \<Rightarrow> ip_addr \<Rightarrow> bytes option" where
  "putDiagAddr family a =
     (if family = afINET then map_option (\<lambda>v. be32 v @ replicate 12 0) (As4 (Unmap a))
      else Some (be128 (As16 a)))"

definition diagAddr :: "bytes \<Rightarrow> byte \<Rightarrow> ip_addr" where
  "diagAddr src family =
     (if family = afINET then Addr4 (be_val (take 4 src)) else Addr6 (be_val (take 16 src)) [])"

definition encodeInetDiagExact ::
    "byte_order \<Rightarrow> byte \<Rightarrow> addr_port \<Rightarrow> addr_port \<Rightarrow> 32 word \<Rightarrow> bytes option" where
  "encodeInetDiagExact bo family client server seq =
     (case (putDiagAddr family (ap_Addr client), putDiagAddr family (ap_Addr server)) of
        (Some src, Some dst) \<Rightarrow>
          Some (put32 bo (word_of_nat (nlmsgHdrLen + inetDiagReqLen)) @ put16 bo sockDiagByFamily @
                put16 bo 1 @ put32 bo seq @ replicate 4 0 @
                [family, 6, 0, 0] @ put32 bo (NOT 0) @
                be16 (ap_Port client) @ be16 (ap_Port server) @ src @ dst @ replicate 4 0 @
                put32 bo (NOT 0) @ put32 bo (NOT 0))
      | _ \<Rightarrow> None)"

text \<open>The answer a message with the number of the question gives.\<close>

definition diag_message ::
    "byte_order \<Rightarrow> addr_port \<Rightarrow> addr_port \<Rightarrow> 16 word \<Rightarrow> bytes \<Rightarrow> (32 word \<times> 32 word) option" where
  "diag_message bo client server typ msg =
     (if typ \<noteq> sockDiagByFamily \<or> length msg < inetDiagMsgLen \<or> (msg ! 0 \<noteq> afINET \<and> msg ! 0 \<noteq> afINET6)
      then None
      else
        (let fam = msg ! 0; idb = drop 4 msg;
             local = \<lparr>ap_Addr = diagAddr (slice idb 4 16) fam, ap_Port = be_val (slice idb 0 2)\<rparr>;
             remote = \<lparr>ap_Addr = diagAddr (slice idb 20 16) fam, ap_Port = be_val (slice idb 2 2)\<rparr> in
         if \<not> sameTuple local remote client server \<or> \<not> linuxLiveState (msg ! 1) then None
         else
           (let ino = get_u bo (slice msg 68 4) in
            if ino = 0 then None else Some (get_u bo (slice msg 64 4), ino))))"

function parseInetDiagReply ::
    "byte_order \<Rightarrow> bytes \<Rightarrow> addr_port \<Rightarrow> addr_port \<Rightarrow> 32 word \<Rightarrow> (32 word \<times> 32 word) option" where
  "parseInetDiagReply bo b client server seq =
     (if length b < nlmsgHdrLen then None
      else
        (let l = unat (get_u bo (slice b 0 4) :: 32 word); typ = get_u bo (slice b 4 2);
             mseq = get_u bo (slice b 8 4) in
         if l < nlmsgHdrLen \<or> l > length b then None
         else if mseq = seq then diag_message bo client server typ (slice b nlmsgHdrLen (l - nlmsgHdrLen))
         else
           (let nxt = (l + 3) div 4 * 4 in
            if nxt > length b then None
            else parseInetDiagReply bo (drop nxt b) client server seq)))"
  by pat_completeness auto
termination
proof (relation "measure (\<lambda>(_, b, _). length b)")
  fix b :: bytes and l n :: nat
  assume "\<not> length b < nlmsgHdrLen" "\<not> (l < nlmsgHdrLen \<or> length b < l)" "n = (l + 3) div 4 * 4"
  then show "((bo, drop n b, client, server, seq), bo, b, client, server, seq)
      \<in> measure (\<lambda>(_, b, _). length b)" for bo :: byte_order and client server :: addr_port and seq :: "32 word"
    by (simp add: nlmsgHdrLen_def) presburger
qed simp

declare parseInetDiagReply.simps [simp del]

subsection \<open>The lookup on Linux\<close>

text \<open>
  What the host answers: the netlink socket (\<open>None\<close> when a system call fails), the files, and
  the links of this process's descriptors (\<open>None\<close> when the directory cannot be read).
\<close>

record host =
  h_order :: byte_order
  h_overflow :: "32 word"
  h_self :: principal
  h_netlink :: "bytes \<Rightarrow> bytes option"
  h_file :: "string \<Rightarrow> string option"
  h_links :: "string list option"

definition procRoot :: string where "procRoot = ''/proc''"

definition ownsSocketInode :: "host \<Rightarrow> 64 word \<Rightarrow> bool" where
  "ownsSocketInode h inode =
     (if inode = 0 then False
      else
        (case h_links h of
           None \<Rightarrow> False
         | Some ls \<Rightarrow> ''socket:['' @ dec_nat (unat inode) @ '']'' \<in> set ls))"

definition peerOf :: "host \<Rightarrow> 32 word \<Rightarrow> 64 word \<Rightarrow> peer option" where
  "peerOf h uid inode =
     (let who = UID (h_overflow h) uid in
      if who = Unknown then None
      else Some \<lparr>pr_ID = who, pr_Mine = needMine (h_self h) who \<and> ownsSocketInode h inode\<rparr>)"

text \<open>The counter of requests is read and advanced atomically.\<close>

definition diagLookup ::
    "host \<Rightarrow> byte \<Rightarrow> addr_port \<Rightarrow> addr_port \<Rightarrow> 32 word \<Rightarrow> (32 word \<times> 32 word) option" where
  "diagLookup h family client server seq =
     (case encodeInetDiagExact (h_order h) family client server seq of
        None \<Rightarrow> None
      | Some req \<Rightarrow>
          (case h_netlink h req of
             None \<Rightarrow> None
           | Some reply \<Rightarrow>
               if reply = [] then None
               else parseInetDiagReply (h_order h) (take 8192 reply) client server seq))"

definition both_v4 :: "addr_port \<Rightarrow> addr_port \<Rightarrow> bool" where
  "both_v4 client server \<longleftrightarrow> Is4 (Unmap (ap_Addr client)) \<and> Is4 (Unmap (ap_Addr server))"

fun ask_diag ::
    "host \<Rightarrow> addr_port \<Rightarrow> addr_port \<Rightarrow> byte list \<Rightarrow> 32 word \<Rightarrow> (32 word \<times> 32 word) option \<times> 32 word" where
  "ask_diag h client server [] seq = (None, seq)"
| "ask_diag h client server (fam # fams) seq =
     (if fam = afINET \<and> \<not> both_v4 client server then ask_diag h client server fams seq
      else
        (case diagLookup h fam client server (seq + 1) of
           Some r \<Rightarrow> (Some r, seq + 1)
         | None \<Rightarrow> ask_diag h client server fams (seq + 1)))"

fun ask_files ::
    "host \<Rightarrow> addr_port \<Rightarrow> addr_port \<Rightarrow> string list \<Rightarrow> (32 word \<times> 64 word) option" where
  "ask_files h client server [] = None"
| "ask_files h client server (t # ts) =
     (case h_file h (procRoot @ t) of
        None \<Rightarrow> ask_files h client server ts
      | Some b \<Rightarrow>
          (case procNetTCPOwner (h_order h) b client server of
             Some r \<Rightarrow> Some r
           | None \<Rightarrow> ask_files h client server ts))"

definition lookup_linux ::
    "host \<Rightarrow> addr_port option \<Rightarrow> addr_port option \<Rightarrow> 32 word \<Rightarrow> peer option \<times> 32 word" where
  "lookup_linux h client server seq =
     (case (client, server) of
        (Some c, Some s) \<Rightarrow>
          (case ask_diag h c s [afINET, afINET6] seq of
             (Some (uid, ino), seq') \<Rightarrow> (peerOf h uid (ucast ino), seq')
           | (None, seq') \<Rightarrow>
               (case ask_files h c s [''/net/tcp'', ''/net/tcp6''] of
                  Some (uid, ino) \<Rightarrow> (peerOf h uid ino, seq')
                | None \<Rightarrow> (None, seq')))
      | _ \<Rightarrow> (None, seq))"

text \<open>The requests made are of a family the addresses have, so the encoder never panics.\<close>

lemma encode_total:
  "family = afINET \<longrightarrow> both_v4 c s \<Longrightarrow> encodeInetDiagExact bo family c s seq \<noteq> None"
  by (auto simp: encodeInetDiagExact_def putDiagAddr_def both_v4_def As4_def Is4_def Unmap_def Is4In6_def
      split: ip_addr.splits if_splits option.splits)

subsection \<open>A principal is named only from a live socket of the exact tuple\<close>

text \<open>What a row or a message must say to answer for a client.\<close>

definition diag_says ::
    "byte_order \<Rightarrow> bytes \<Rightarrow> addr_port \<Rightarrow> addr_port \<Rightarrow> 32 word \<Rightarrow> 32 word \<Rightarrow> bool" where
  "diag_says bo msg c s uid ino \<longleftrightarrow>
     inetDiagMsgLen \<le> length msg \<and> msg ! 0 \<in> {afINET, afINET6} \<and> linuxLiveState (msg ! 1) \<and> ino \<noteq> 0 \<and>
     sameTuple
       \<lparr>ap_Addr = diagAddr (slice msg 8 16) (msg ! 0), ap_Port = be_val (slice msg 4 2)\<rparr>
       \<lparr>ap_Addr = diagAddr (slice msg 24 16) (msg ! 0), ap_Port = be_val (slice msg 6 2)\<rparr> c s \<and>
     uid = get_u bo (slice msg 64 4) \<and> ino = get_u bo (slice msg 68 4)"

lemma diag_message_says:
  "diag_message bo c s typ msg = Some (uid, ino) \<longleftrightarrow> typ = sockDiagByFamily \<and> diag_says bo msg c s uid ino"
  by (auto simp: diag_message_def diag_says_def Let_def slice_def add.commute not_less split: if_splits)

lemma parse_reply_says:
  "parseInetDiagReply bo b c s seq = Some (uid, ino) \<Longrightarrow>
     \<exists>i n. i + n \<le> length b \<and> diag_says bo (slice b i n) c s uid ino"
proof (induction bo b c s seq rule: parseInetDiagReply.induct)
  case (1 bo b c s seq)
  let ?l = "unat (get_u bo (slice b 0 4) :: 32 word)"
  let ?n = "(?l + 3) div 4 * 4"
  from 1(2) have len: "\<not> length b < nlmsgHdrLen" "\<not> (?l < nlmsgHdrLen \<or> ?l > length b)"
    by (subst (asm) parseInetDiagReply.simps, simp add: Let_def split: if_splits)+
  show ?case
  proof (cases "get_u bo (slice b 8 4) = seq")
    case True
    with 1(2) len have "diag_says bo (slice b nlmsgHdrLen (?l - nlmsgHdrLen)) c s uid ino"
      by (subst (asm) parseInetDiagReply.simps) (simp add: Let_def diag_message_says)
    moreover have "nlmsgHdrLen + (?l - nlmsgHdrLen) \<le> length b" using len by simp
    ultimately show ?thesis by blast
  next
    case False
    with 1(2) len have n: "\<not> ?n > length b" and "parseInetDiagReply bo (drop ?n b) c s seq = Some (uid, ino)"
      by (subst (asm) parseInetDiagReply.simps, simp add: Let_def split: if_splits)+
    from 1(1) [OF len(1) refl refl refl len(2) False refl n this(2)]
    obtain i k where ik: "i + k \<le> length (drop ?n b)" "diag_says bo (slice (drop ?n b) i k) c s uid ino"
      by blast
    with n have "(?n + i) + k \<le> length b" "diag_says bo (slice b (?n + i) k) c s uid ino"
      by (simp_all add: slice_def add.commute)
    then show ?thesis by blast
  qed
qed

definition row_says ::
    "byte_order \<Rightarrow> string \<Rightarrow> addr_port \<Rightarrow> addr_port \<Rightarrow> 32 word \<Rightarrow> 64 word \<Rightarrow> bool" where
  "row_says bo line c s uid ino \<longleftrightarrow>
     (let f = Fields line in
      10 \<le> length f \<and> ino \<noteq> 0 \<and>
      (\<exists>local remote st. procNetAddrPort bo (f ! 1) = Some local \<and> procNetAddrPort bo (f ! 2) = Some remote \<and>
         sameTuple local remote c s \<and> ParseUint 16 8 (f ! 3) = Some st \<and> linuxLiveState (word_of_nat st)) \<and>
      ParseUint 10 32 (f ! 7) = Some (unat uid) \<and> ParseUint 10 64 (f ! 9) = Some (unat ino))"

lemma unat_parsed: "ParseUint base LENGTH('a::len) t = Some v \<Longrightarrow> unat (word_of_nat v :: 'a word) = v"
  using ParseUint_bound [of base "LENGTH('a)" t v] by (simp add: unat_of_nat take_bit_nat_eq_self)

lemma unat_parsed_at:
  "ParseUint base 32 t = Some v \<Longrightarrow> unat (word_of_nat v :: 32 word) = v"
  "ParseUint base 64 t = Some v \<Longrightarrow> unat (word_of_nat v :: 64 word) = v"
  using unat_parsed [where ?'a = 32] unat_parsed [where ?'a = 64] by simp_all

lemma proc_row_says: "proc_row bo c s line = Some (uid, ino) \<Longrightarrow> row_says bo line c s uid ino"
  using unat_parsed_at
  by (auto simp: proc_row_def row_says_def Let_def unat_eq_zero [symmetric] simp del: unat_eq_zero
      split: if_splits option.splits)

lemma first_row_Some: "first_row f ls = Some r \<Longrightarrow> \<exists>l \<in> set ls. f l = Some r"
  by (induction ls) (auto split: option.splits)

lemma diagLookup_says:
  "diagLookup h fam c s seq = Some (uid, ino) \<Longrightarrow>
     \<exists>req reply i n. encodeInetDiagExact (h_order h) fam c s seq = Some req \<and> h_netlink h req = Some reply \<and>
       i + n \<le> length reply \<and> diag_says (h_order h) (slice reply i n) c s uid ino"
  by (fastforce simp: diagLookup_def slice_def take_drop min_absorb2 min_absorb1 split: option.splits if_splits
      dest!: parse_reply_says)

lemma ask_diag_says:
  "ask_diag h c s fams seq = (Some (uid, ino), seq') \<Longrightarrow>
     \<exists>fam \<in> set fams. diagLookup h fam c s seq' = Some (uid, ino)"
  by (induction fams arbitrary: seq) (auto split: if_splits option.splits)

lemma ask_files_says:
  "ask_files h c s ts = Some (uid, ino) \<Longrightarrow>
     \<exists>t \<in> set ts. \<exists>b. h_file h (procRoot @ t) = Some b \<and>
       (\<exists>line \<in> set (scan_lines 4096 b). row_says (h_order h) line c s uid ino)"
  by (induction ts)
    (auto simp: procNetTCPOwner_def split: option.splits dest!: first_row_Some proc_row_says)

definition socket_evidence ::
    "host \<Rightarrow> addr_port \<Rightarrow> addr_port \<Rightarrow> 32 word \<Rightarrow> 64 word \<Rightarrow> bool" where
  "socket_evidence h c s uid ino \<longleftrightarrow>
     (\<exists>fam seq req reply i n ino32.
        encodeInetDiagExact (h_order h) fam c s seq = Some req \<and> h_netlink h req = Some reply \<and>
        i + n \<le> length reply \<and> diag_says (h_order h) (slice reply i n) c s uid ino32 \<and> ino = ucast ino32) \<or>
     (\<exists>t b line.
        h_file h (procRoot @ t) = Some b \<and> line \<in> set (scan_lines 4096 b) \<and>
        row_says (h_order h) line c s uid ino)"

lemma diag_evidence:
  "ask_diag h c s fams seq = (Some (uid, ino), seq') \<Longrightarrow> socket_evidence h c s uid (ucast ino)"
  using ask_diag_says [of h c s fams seq uid ino seq'] diagLookup_says [of h _ c s seq' uid ino]
  unfolding socket_evidence_def by blast

lemma file_evidence: "ask_files h c s ts = Some (uid, ino) \<Longrightarrow> socket_evidence h c s uid ino"
  unfolding socket_evidence_def using ask_files_says by meson

lemma peerOf_Some:
  "peerOf h uid ino = Some p \<Longrightarrow>
     pr_ID p = UID (h_overflow h) uid \<and> pr_ID p \<noteq> Unknown \<and>
     (pr_Mine p \<longrightarrow> needMine (h_self h) (pr_ID p) \<and> ownsSocketInode h ino)"
  by (auto simp: peerOf_def Let_def split: if_splits)

text \<open>
  C16. The Linux lookup names a principal only from evidence: both ends are valid, a netlink reply
  to the exact request or a line of a socket table holds, inside its bounds, the exact tuple in a
  live client state with a non-zero inode and the uid the principal is read from, which is
  neither the overflow uid nor -1; and a socket is called this process's own only for a
  privileged holder that has a descriptor on that inode.
\<close>
theorem lookup_names_live_socket:
  assumes "lookup_linux h client server seq = (Some p, seq')"
  shows "\<exists>c s uid ino. client = Some c \<and> server = Some s \<and> socket_evidence h c s uid ino \<and>
     uid \<noteq> h_overflow h \<and> uid \<noteq> NOT 0 \<and> pr_ID p = ''u:'' @ dec_nat (unat uid) \<and>
     (pr_Mine p \<longrightarrow> pr_ID p = h_self h \<and> Privileged (pr_ID p) \<and> ownsSocketInode h ino)"
proof -
  obtain c s where cs: "client = Some c" "server = Some s"
    using assms by (auto simp: lookup_linux_def split: option.splits)
  obtain r seq1 where d: "ask_diag h c s [afINET, afINET6] seq = (r, seq1)" by fastforce
  obtain uid ino where ev: "socket_evidence h c s uid ino" and p: "peerOf h uid ino = Some p"
  proof (cases r)
    case None
    with assms cs d obtain uid ino where
      "ask_files h c s [''/net/tcp'', ''/net/tcp6''] = Some (uid, ino)" "peerOf h uid ino = Some p"
      by (simp add: lookup_linux_def del: ask_diag.simps ask_files.simps split: option.splits prod.splits)
    with that show thesis using file_evidence by blast
  next
    case (Some u)
    with assms cs d have "peerOf h (fst u) (ucast (snd u)) = Some p"
      by (simp add: lookup_linux_def del: ask_diag.simps split: prod.splits)
    moreover have "socket_evidence h c s (fst u) (ucast (snd u))"
      by (rule diag_evidence) (use d Some in \<open>simp del: ask_diag.simps\<close>)
    ultimately show thesis using that by blast
  qed
  from peerOf_Some [OF p] have "uid \<noteq> h_overflow h \<and> uid \<noteq> NOT 0 \<and> pr_ID p = ''u:'' @ dec_nat (unat uid) \<and>
     (pr_Mine p \<longrightarrow> pr_ID p = h_self h \<and> Privileged (pr_ID p) \<and> ownsSocketInode h ino)"
    by (auto simp: UID_def needMine_def Unknown_def split: if_splits)
  with cs ev show ?thesis by blast
qed

subsection \<open>The kernel's answer is read back\<close>

text \<open>The reply of the kernel for one socket, as \<open>inet_diag.h\<close> lays it out.\<close>

definition diag_msg ::
    "byte_order \<Rightarrow> byte \<Rightarrow> byte \<Rightarrow> addr_port \<Rightarrow> addr_port \<Rightarrow> bytes \<Rightarrow> bytes \<Rightarrow> 32 word \<Rightarrow> 32 word \<Rightarrow> bytes option" where
  "diag_msg bo fam st c s timers rest uid ino =
     (case (putDiagAddr fam (ap_Addr c), putDiagAddr fam (ap_Addr s)) of
        (Some src, Some dst) \<Rightarrow>
          Some ([fam, st] @ take 2 timers @ be16 (ap_Port c) @ be16 (ap_Port s) @ src @ dst @
                take 24 rest @ put32 bo uid @ put32 bo ino)
      | _ \<Rightarrow> None)"

definition diag_frame :: "byte_order \<Rightarrow> 32 word \<Rightarrow> bytes \<Rightarrow> bytes" where
  "diag_frame bo seq msg =
     put32 bo (word_of_nat (16 + length msg)) @ put16 bo sockDiagByFamily @ put16 bo 0 @ put32 bo seq @
     replicate 4 0 @ msg"

lemma length_putDiagAddr: "putDiagAddr fam a = Some b \<Longrightarrow> length b = 16"
  by (auto simp: putDiagAddr_def split: if_splits)

lemma canon_diagAddr:
  assumes "putDiagAddr fam a = Some b" and "Zone a = []"
  shows "canon (diagAddr b fam) = canon a"
proof (cases "fam = afINET")
  case True
  with assms(1) obtain v where "As4 (Unmap a) = Some v" "b = be32 v @ replicate 12 0"
    by (auto simp: putDiagAddr_def)
  with True show ?thesis
    by (auto simp: diagAddr_def canon_def As4_def Unmap_def Is4In6_def split: ip_addr.splits if_splits)
next
  case False
  have k: "(0xFFFF00000000 :: 128 word) = push_bit 32 (mask 16)" "(0xFFFF :: 128 word) = mask 16"
    by (simp_all add: mask_eq_exp_minus_1)
  have m: "drop_bit 32 (ucast (v :: 32 word) :: 128 word) = 0" for v
    by (rule bit_word_eqI) (auto simp: bit_simps dest: bit_imp_le_length)
  have u: "ucast (0xFFFF00000000 OR ucast (v :: 32 word) :: 128 word) = v" for v
    unfolding k by (rule bit_word_eqI) (auto simp: bit_simps dest: bit_imp_le_length)
  from False assms show ?thesis
    by (cases a) (auto simp: putDiagAddr_def diagAddr_def canon_def Unmap_def As16_def Is4In6_def Zone_def m u)
qed

lemma length_diag_frame: "length (diag_frame bo q m) = 16 + length m"
  by (simp add: diag_frame_def)

lemma frame_slices:
  assumes "16 + length m < 2 ^ 32"
  shows "unat (get_u bo (slice (diag_frame bo q m @ post) 0 4) :: 32 word) = 16 + length m"
    and "get_u bo (slice (diag_frame bo q m @ post) 4 2) = sockDiagByFamily"
    and "get_u bo (slice (diag_frame bo q m @ post) 8 4) = q"
    and "slice (diag_frame bo q m @ post) 16 (length m) = m"
  using assms by (simp_all add: diag_frame_def slice_def unat_of_nat take_bit_nat_eq_self del: of_nat_add)

lemma parse_frame:
  assumes "16 + length m < 2 ^ 32"
  shows "parseInetDiagReply bo (diag_frame bo seq m @ post) c s seq = diag_message bo c s sockDiagByFamily m"
  by (subst parseInetDiagReply.simps)
    (simp add: Let_def frame_slices [OF assms] length_diag_frame nlmsgHdrLen_def)

lemma parse_stale:
  assumes "16 + length m < 2 ^ 32" and "length m mod 4 = 0" and "q \<noteq> seq"
  shows "parseInetDiagReply bo (diag_frame bo q m @ b) c s seq = parseInetDiagReply bo b c s seq"
proof -
  from assms(2) have n: "(19 + length m) div 4 * 4 = 16 + length m" by presburger
  show ?thesis
    by (subst parseInetDiagReply.simps)
      (simp add: Let_def frame_slices [OF assms(1)] length_diag_frame nlmsgHdrLen_def assms(3) n)
qed

lemma parse_stale_list:
  "\<forall>(q, m) \<in> set stale. q \<noteq> seq \<and> 16 + length m < 2 ^ 32 \<and> length m mod 4 = 0 \<Longrightarrow>
     parseInetDiagReply bo (concat (map (\<lambda>(q, m). diag_frame bo q m) stale) @ b) c s seq =
     parseInetDiagReply bo b c s seq"
  by (induction stale) (auto simp: parse_stale)

text \<open>The layout of the message, read back field by field.\<close>

lemma diag_msg_fields:
  assumes "diag_msg bo fam st c s timers rest uid ino = Some msg" and "2 \<le> length timers" and "24 \<le> length rest"
    and "Zone (ap_Addr c) = []" and "Zone (ap_Addr s) = []"
  shows "length msg = 72" and "msg ! 0 = fam" and "msg ! 1 = st"
    and "be_val (slice msg 4 2) = ap_Port c" and "be_val (slice msg 6 2) = ap_Port s"
    and "canon (diagAddr (slice msg 8 16) fam) = canon (ap_Addr c)"
    and "canon (diagAddr (slice msg 24 16) fam) = canon (ap_Addr s)"
    and "get_u bo (slice msg 64 4) = uid" and "get_u bo (slice msg 68 4) = ino"
proof -
  obtain src dst where sd: "putDiagAddr fam (ap_Addr c) = Some src" "putDiagAddr fam (ap_Addr s) = Some dst"
    and m: "msg = [fam, st] @ take 2 timers @ be16 (ap_Port c) @ be16 (ap_Port s) @ src @ dst @
      take 24 rest @ put32 bo uid @ put32 bo ino"
    using assms(1) by (auto simp: diag_msg_def split: option.splits)
  note len = length_putDiagAddr [OF sd(1)] length_putDiagAddr [OF sd(2)]
  have parts: "slice msg 8 16 = src" "slice msg 24 16 = dst"
    using len assms(2,3) by (simp_all add: m slice_def)
  show "canon (diagAddr (slice msg 8 16) fam) = canon (ap_Addr c)"
    "canon (diagAddr (slice msg 24 16) fam) = canon (ap_Addr s)"
    using canon_diagAddr sd assms(4,5) parts by simp_all
  show "length msg = 72" "msg ! 0 = fam" "msg ! 1 = st"
    "be_val (slice msg 4 2) = ap_Port c" "be_val (slice msg 6 2) = ap_Port s"
    "get_u bo (slice msg 64 4) = uid" "get_u bo (slice msg 68 4) = ino"
    using len assms(2,3) by (simp_all add: m slice_def)
qed

lemma kernel_answer:
  assumes "diag_msg bo fam st c s timers rest uid ino = Some msg"
    and "fam = afINET \<or> fam = afINET6" and "2 \<le> length timers" and "24 \<le> length rest"
    and "Zone (ap_Addr c) = []" and "Zone (ap_Addr s) = []"
    and "\<forall>(q, m) \<in> set stale. q \<noteq> seq \<and> 16 + length m < 2 ^ 32 \<and> length m mod 4 = 0"
  shows "parseInetDiagReply bo (concat (map (\<lambda>(q, m). diag_frame bo q m) stale) @ diag_frame bo seq msg @ post)
       client server seq =
     (if linuxLiveState st \<and> ino \<noteq> 0 \<and> sameTuple c s client server then Some (uid, ino) else None)"
proof -
  note f = diag_msg_fields [OF assms(1,3-6)]
  have tuple: "sameTuple
       \<lparr>ap_Addr = diagAddr (slice msg 8 16) fam, ap_Port = be_val (slice msg 4 2)\<rparr>
       \<lparr>ap_Addr = diagAddr (slice msg 24 16) fam, ap_Port = be_val (slice msg 6 2)\<rparr> client server \<longleftrightarrow>
     sameTuple c s client server"
    by (simp add: sameTuple_def f)
  have says: "diag_message bo client server sockDiagByFamily msg = Some (u, i) \<longleftrightarrow>
      linuxLiveState st \<and> ino \<noteq> 0 \<and> sameTuple c s client server \<and> u = uid \<and> i = ino" for u i
    unfolding diag_message_says diag_says_def f(1-3) tuple inetDiagMsgLen_def f(8,9) using assms(2) by auto
  have "diag_message bo client server sockDiagByFamily msg =
     (if linuxLiveState st \<and> ino \<noteq> 0 \<and> sameTuple c s client server then Some (uid, ino) else None)"
    using says by (cases "diag_message bo client server sockDiagByFamily msg") auto
  then show ?thesis
    using parse_stale_list [OF assms(7)] parse_frame [of msg bo seq post client server] f(1) by simp
qed

text \<open>
  Whatever stale answers precede it and bytes follow it, the kernel's answer for a socket is
  read back as its uid and inode exactly when the socket is in a live client state, has a
  non-zero inode and is the tuple asked for; a listener, a socket in TIME_WAIT or another tuple
  never answers.
\<close>
theorem kernel_answer_read_back:
  assumes "diag_msg bo fam st c s timers rest uid ino = Some msg"
    and "fam = afINET \<or> fam = afINET6" and "2 \<le> length timers" and "24 \<le> length rest"
    and "Zone (ap_Addr c) = []" and "Zone (ap_Addr s) = []"
    and "\<forall>(q, m) \<in> set stale. q \<noteq> seq \<and> 16 + length m < 2 ^ 32 \<and> length m mod 4 = 0"
  shows "parseInetDiagReply bo (concat (map (\<lambda>(q, m). diag_frame bo q m) stale) @ diag_frame bo seq msg @ post)
       client server seq =
     (if linuxLiveState st \<and> ino \<noteq> 0 \<and> sameTuple c s client server then Some (uid, ino) else None)"
  using assms by (rule kernel_answer)

end
