(* ===== verification/EgrAccess.thy ===== *)
theory EgrAccess
  imports Sha256 GoTime PeerId "HOL-Library.Finite_Map"
begin

text \<open>
  \<open>internal/egress/access.go\<close>: who may use a local forwarder. A mutex makes each operation of the gate atomic. A connection is the bytes the
  client sends before it ends its side or the deadline passes, the bytes written to it, and how
  many further writes succeed; the clock's readings and the kernel's answer about a socket are
  arguments.
\<close>

subsection \<open>The admission rule\<close>

datatype share_mode = ShareOwner | ShareCredential | ShareAny

definition ShareMode_String :: "share_mode \<Rightarrow> string" where
  "ShareMode_String m =
     (case m of ShareCredential \<Rightarrow> ''credential'' | ShareAny \<Rightarrow> ''any'' | ShareOwner \<Rightarrow> ''owner'')"

text \<open>Lower-casing of a string that is not ASCII is the parameter \<open>uni\<close>.\<close>

definition ParseShareMode :: "(string \<Rightarrow> string) \<Rightarrow> string \<Rightarrow> share_mode option" where
  "ParseShareMode uni s =
     (let w = to_lower uni (trim_space s) in
      if w \<in> {'''', ''owner'', ''user'', ''me''} then Some ShareOwner
      else if w \<in> {''credential'', ''cred'', ''password''} then Some ShareCredential
      else if w \<in> {''any'', ''all'', ''open''} then Some ShareAny
      else None)"

record share_rule =
  ac_Mode :: share_mode
  ac_Secret :: string
  ac_Admit :: "(principal \<Rightarrow> bool) option"
  ac_Hint :: string
  ac_Logf :: bool

definition preAuthDeadline :: int where "preAuthDeadline = 10 * Second"
definition httpHeadLimit :: nat where "httpHeadLimit = 65536"
definition unauthPerPeer :: int where "unauthPerPeer = 32"
definition lookupMax :: nat where "lookupMax = 8"
definition preAuthMax :: int where "preAuthMax = 256"
definition refusalLogEvery :: int where "refusalLogEvery = Minute"

datatype peer_class = PeerOther | PeerUnknown | PeerOwner | PeerListed

definition trusted :: "peer_class \<Rightarrow> bool" where
  "trusted c \<longleftrightarrow> c = PeerOwner \<or> c = PeerListed"

subsection \<open>The gate and its slots\<close>

text \<open>A missing entry of \<open>pending\<close> reads as zero, as in a Go map.\<close>

record admission_gate =
  g_pending :: "(principal, int) fmap"
  g_lastLog :: "(string, int) fmap"
  g_refused :: "64 word"
  g_preAuth :: int
  g_holder :: principal
  g_identityOK :: bool
  g_lookups :: nat

definition new_gate :: "principal \<Rightarrow> admission_gate" where
  "new_gate holder =
     \<lparr>g_pending = fmempty, g_lastLog = fmempty, g_refused = 0, g_preAuth = 0, g_holder = holder,
      g_identityOK = False, g_lookups = 0\<rparr>"

definition pending_of :: "admission_gate \<Rightarrow> principal \<Rightarrow> int" where
  "pending_of g who = (case fmlookup (g_pending g) who of None \<Rightarrow> 0 | Some n \<Rightarrow> n)"

text \<open>The slot is taken when one is free; the timer wins when none comes free within its time.\<close>

definition acquireLookup :: "admission_gate \<Rightarrow> admission_gate \<times> bool" where
  "acquireLookup g =
     (if g_lookups g < lookupMax then (g\<lparr>g_lookups := g_lookups g + 1\<rparr>, True) else (g, False))"

definition releaseLookup :: "admission_gate \<Rightarrow> admission_gate" where
  "releaseLookup g = g\<lparr>g_lookups := g_lookups g - 1\<rparr>"

definition enterPreAuth :: "admission_gate \<Rightarrow> admission_gate \<times> bool" where
  "enterPreAuth g =
     (if g_preAuth g \<ge> preAuthMax then (g, False) else (g\<lparr>g_preAuth := g_preAuth g + 1\<rparr>, True))"

definition leavePreAuth :: "admission_gate \<Rightarrow> admission_gate" where
  "leavePreAuth g = g\<lparr>g_preAuth := g_preAuth g - 1\<rparr>"

definition enterUnauth :: "principal \<Rightarrow> admission_gate \<Rightarrow> admission_gate \<times> bool" where
  "enterUnauth who g =
     (if pending_of g who \<ge> unauthPerPeer then (g, False)
      else (g\<lparr>g_pending := fmupd who (pending_of g who + 1) (g_pending g)\<rparr>, True))"

definition leaveUnauth :: "principal \<Rightarrow> admission_gate \<Rightarrow> admission_gate" where
  "leaveUnauth who g =
     (if pending_of g who \<le> 1 then g\<lparr>g_pending := fmdrop who (g_pending g)\<rparr>
      else g\<lparr>g_pending := fmupd who (pending_of g who - 1) (g_pending g)\<rparr>)"

subsection \<open>A forwarder and a connection\<close>

text \<open>
  \<open>px_log\<close> is what \<open>Logf\<close> was given. The last dial failure is its text and its time, and the
  dials observed are the target and whether the dial was refused, when an observer is set.
\<close>

record proxy =
  px_addr :: string
  px_access :: "share_rule option"
  px_gate :: admission_gate
  px_log :: "string list"
  px_failure :: "(string \<times> int) option"
  px_observed :: bool
  px_dials :: "(string \<times> bool) list"

record conn =
  cn_in :: bytes
  cn_out :: bytes
  cn_writes :: "nat option"

text \<open>\<open>Conn.Write\<close>, and \<open>io.ReadFull\<close> for \<open>n\<close> bytes.\<close>

definition conn_write :: "bytes \<Rightarrow> conn \<Rightarrow> conn \<times> bool" where
  "conn_write b c =
     (case cn_writes c of
        Some 0 \<Rightarrow> (c, False)
      | w \<Rightarrow> (c\<lparr>cn_out := cn_out c @ b, cn_writes := map_option (\<lambda>n. n - 1) w\<rparr>, True))"

definition read_full :: "nat \<Rightarrow> conn \<Rightarrow> (bytes \<times> conn) option" where
  "read_full n c =
     (if length (cn_in c) < n then None else Some (take n (cn_in c), c\<lparr>cn_in := drop n (cn_in c)\<rparr>))"

abbreviation with_gate :: "(admission_gate \<Rightarrow> admission_gate) \<Rightarrow> proxy \<Rightarrow> proxy" where
  "with_gate f p \<equiv> p\<lparr>px_gate := f (px_gate p)\<rparr>"

definition IdentityAvailable :: "proxy \<Rightarrow> bool" where
  "IdentityAvailable p = g_identityOK (px_gate p)"

text \<open>The self-test's own connection, when it could be made, and the kernel's answer about it.\<close>

definition selfTest ::
    "(addr_port \<Rightarrow> addr_port \<Rightarrow> peer option) \<Rightarrow> (addr_port \<times> addr_port) option \<Rightarrow> proxy \<Rightarrow> proxy" where
  "selfTest lookup tuple p =
     (let ok =
        (case tuple of
           None \<Rightarrow> False
         | Some (la, ra) \<Rightarrow>
             (case lookup la ra of
                None \<Rightarrow> False
              | Some pr \<Rightarrow>
                  pr_ID pr = g_holder (px_gate p) \<and> pr_ID pr \<noteq> Unknown \<and>
                  (\<not> Privileged (pr_ID pr) \<or> pr_Mine pr)))
      in with_gate (\<lambda>g. g\<lparr>g_identityOK := ok\<rparr>) p)"

definition SetAccess :: "share_rule \<Rightarrow> proxy \<Rightarrow> proxy" where
  "SetAccess a p = p\<lparr>px_access := Some a\<rparr>"

definition RefusedPeers :: "proxy \<Rightarrow> 64 word" where
  "RefusedPeers p = g_refused (px_gate p)"

definition currentAccess :: "proxy \<Rightarrow> share_rule" where
  "currentAccess p =
     (case px_access p of
        Some a \<Rightarrow> a
      | None \<Rightarrow> \<lparr>ac_Mode = ShareOwner, ac_Secret = [], ac_Admit = None, ac_Hint = [], ac_Logf = False\<rparr>)"

text \<open>
  The two ends of the client's connection, when they are TCP addresses; the gate is the one at
  the end of the wait for a lookup slot, and the slot is given back.
\<close>

definition classify ::
    "(addr_port \<Rightarrow> addr_port \<Rightarrow> peer option) \<Rightarrow> (addr_port \<times> addr_port) option \<Rightarrow> proxy \<Rightarrow> share_rule \<Rightarrow>
     peer_class \<times> principal" where
  "classify lookup tuple p a =
     (case tuple of
        None \<Rightarrow> (PeerUnknown, Unknown)
      | Some (ra, la) \<Rightarrow>
          if \<not> g_identityOK (px_gate p) then (PeerUnknown, Unknown)
          else if \<not> snd (acquireLookup (px_gate p)) then (PeerUnknown, Unknown)
          else
            (case lookup ra la of
               None \<Rightarrow> (PeerUnknown, Unknown)
             | Some pr \<Rightarrow>
                 let who = pr_ID pr in
                 if who = Unknown then (PeerUnknown, Unknown)
                 else if who = g_holder (px_gate p) \<and> (\<not> Privileged who \<or> pr_Mine pr) then (PeerOwner, who)
                 else if (case ac_Admit a of None \<Rightarrow> False | Some f \<Rightarrow> f who) then (PeerListed, who)
                 else (PeerOther, who)))"

subsection \<open>Refusals and what is logged\<close>

definition fresh_lines :: "int \<Rightarrow> (string, int) fmap \<Rightarrow> (string, int) fmap" where
  "fresh_lines now m =
     fmfilter (\<lambda>k. case fmlookup m k of None \<Rightarrow> False | Some t \<Rightarrow> \<not> time_sub now t \<ge> refusalLogEvery) m"

definition log_due :: "int \<Rightarrow> (string, int) fmap \<Rightarrow> string \<Rightarrow> bool" where
  "log_due now m key = (case fmlookup m key of None \<Rightarrow> True | Some t \<Rightarrow> time_sub now t \<ge> refusalLogEvery)"

definition logLimited :: "int \<Rightarrow> share_rule \<Rightarrow> string \<Rightarrow> string \<Rightarrow> proxy \<Rightarrow> proxy" where
  "logLimited now a key line p =
     (if \<not> ac_Logf a then p
      else
        (let m = g_lastLog (px_gate p);
             m' = (if fcard (fmdom m) \<ge> 256 then fresh_lines now m else m) in
         if fcard (fmdom m') \<ge> 256 then with_gate (\<lambda>g. g\<lparr>g_lastLog := m'\<rparr>) p
         else if log_due now m' key then
           (with_gate (\<lambda>g. g\<lparr>g_lastLog := fmupd key now m'\<rparr>) p)\<lparr>px_log := px_log p @ [line]\<rparr>
         else with_gate (\<lambda>g. g\<lparr>g_lastLog := m'\<rparr>) p))"

text \<open>No flood of principals makes the map of lines grow, and a line is due once a minute.\<close>

lemma logLimited_bounded:
  "fcard (fmdom (g_lastLog (px_gate p))) \<le> 256 \<Longrightarrow>
     fcard (fmdom (g_lastLog (px_gate (logLimited now a key line p)))) \<le> 256"
proof -
  assume b: "fcard (fmdom (g_lastLog (px_gate p))) \<le> 256"
  have f: "fcard (fmdom (fresh_lines now m)) \<le> fcard (fmdom m)" for m
    unfolding fresh_lines_def by (rule fcard_mono) (auto simp: fmlookup_dom_iff split: if_splits)
  have u: "fcard (fmdom (fmupd key t m)) \<le> Suc (fcard (fmdom m))" for m :: "(string, int) fmap" and t
    by (simp add: fcard_finsert_if)
  from b f [of "g_lastLog (px_gate p)"] u [of now "g_lastLog (px_gate p)"] u [of now "fresh_lines now (g_lastLog (px_gate p))"]
  show ?thesis by (auto simp: logLimited_def Let_def)
qed

lemma logLimited_once:
  "fmlookup (g_lastLog (px_gate p)) key = Some t \<Longrightarrow> time_sub now t < refusalLogEvery \<Longrightarrow>
     px_log (logLimited now a key line p) = px_log p"
  by (auto simp: logLimited_def Let_def log_due_def fresh_lines_def)

definition refuse :: "int \<Rightarrow> share_rule \<Rightarrow> principal \<Rightarrow> peer_class \<Rightarrow> string \<Rightarrow> proxy \<Rightarrow> proxy" where
  "refuse now a who cls why p =
     (let p' = with_gate (\<lambda>g. g\<lparr>g_refused := g_refused g + 1\<rparr>) p;
          whom = (if cls = PeerUnknown then ''a client this host could not identify''
                  else ''a process of another local user'');
          line = ''whisper: refused '' @ whom @ '' on '' @ px_addr p @ '' ('' @ why @
                   ''); this session is not shared with it'';
          h = trim_space (ac_Hint a)
      in logLimited now a (''refuse:'' @ who) (if h \<noteq> [] then line @ ''. '' @ h else line) p')"

subsection \<open>The credential\<close>

definition secretMatches :: "bytes \<Rightarrow> string \<Rightarrow> bool" where
  "secretMatches presented secret \<longleftrightarrow> secret \<noteq> [] \<and> sha256 presented = sha256 (bytes_of secret)"

text \<open>A client admitted on who it is.\<close>

definition identity_ok :: "share_rule \<Rightarrow> peer_class \<Rightarrow> bool" where
  "identity_ok a cls \<longleftrightarrow> ac_Mode a = ShareAny \<or> (ac_Mode a = ShareOwner \<and> trusted cls)"

subsection \<open>SOCKS5 authentication\<close>

text \<open>The RFC 1929 subnegotiation. A client whose bytes end early is dropped unanswered.\<close>

definition socks_password ::
    "int \<Rightarrow> share_rule \<Rightarrow> peer_class \<Rightarrow> principal \<Rightarrow> proxy \<Rightarrow> conn \<Rightarrow> proxy \<times> conn \<times> bool" where
  "socks_password now a cls who p c =
     (case read_full 2 c of
        None \<Rightarrow> (p, c, False)
      | Some (sub, c) \<Rightarrow>
          if sub ! 0 \<noteq> 0x01 then
            (refuse now a who cls ''a malformed SOCKS5 username/password request'' p,
             fst (conn_write [0x01, 0x01] c), False)
          else
            (case read_full (unat (sub ! 1)) c of
               None \<Rightarrow> (p, c, False)
             | Some (_, c) \<Rightarrow>
                 (case read_full 1 c of
                    None \<Rightarrow> (p, c, False)
                  | Some (pl, c) \<Rightarrow>
                      if pl ! 0 = 0 then
                        (refuse now a who cls ''an empty SOCKS5 password'' p,
                         fst (conn_write [0x01, 0x01] c), False)
                      else
                        (case read_full (unat (pl ! 0)) c of
                           None \<Rightarrow> (p, c, False)
                         | Some (pw, c) \<Rightarrow>
                             let good = secretMatches pw (ac_Secret a) in
                             if good \<or> identity_ok a cls then
                               (let p = (if \<not> good \<and> ac_Mode a = ShareOwner then
                                      logLimited now a (''hint:'' @ who)
                                        (''whisper: a client of this session's own user on '' @ px_addr p @
                                         '' sent a password that is not this session's; it was admitted as the owner'') p
                                    else p);
                                    (c, ok) = conn_write [0x01, 0x00] c
                                in (p, c, ok))
                             else
                               (refuse now a who cls ''a wrong SOCKS5 password'' p,
                                fst (conn_write [0x01, 0x01] c), False)))))"

definition socksAuth ::
    "int \<Rightarrow> share_rule \<Rightarrow> peer_class \<Rightarrow> principal \<Rightarrow> proxy \<Rightarrow> conn \<Rightarrow> proxy \<times> conn \<times> bool" where
  "socksAuth now a cls who p c =
     (case read_full 2 c of
        None \<Rightarrow> (p, c, False)
      | Some (head, c) \<Rightarrow>
          if head ! 0 \<noteq> 0x05 then (p, c, False)
          else
            (case read_full (unat (head ! 1)) c of
               None \<Rightarrow> (p, c, False)
             | Some (methods, c) \<Rightarrow>
                 if identity_ok a cls \<and> 0x00 \<in> set methods then
                   (let (c, ok) = conn_write [0x05, 0x00] c in (p, c, ok))
                 else if 0x02 \<in> set methods then
                   (case conn_write [0x05, 0x02] c of
                      (c, False) \<Rightarrow> (p, c, False)
                    | (c, True) \<Rightarrow> socks_password now a cls who p c)
                 else
                   (refuse now a who cls ''SOCKS5 without a username and password'' p,
                    fst (conn_write [0x05, 0xFF] c), False)))"

subsection \<open>HTTP authentication\<close>

text \<open>\<open>RawStdEncoding.DecodeString\<close>: no padding, and a last quantum of two or three characters.\<close>

fun b64_raw_quanta :: "string \<Rightarrow> bytes option" where
  "b64_raw_quanta [] = Some []"
| "b64_raw_quanta [c1] = None"
| "b64_raw_quanta [c1, c2] =
     (case (b64_val c1, b64_val c2) of (Some v1, Some v2) \<Rightarrow> Some [b64_j1 v1 v2] | _ \<Rightarrow> None)"
| "b64_raw_quanta [c1, c2, c3] =
     (case (b64_val c1, b64_val c2, b64_val c3) of
        (Some v1, Some v2, Some v3) \<Rightarrow> Some [b64_j1 v1 v2, b64_j2 v2 v3] | _ \<Rightarrow> None)"
| "b64_raw_quanta (c1 # c2 # c3 # c4 # r) =
     (case (b64_val c1, b64_val c2, b64_val c3, b64_val c4, b64_raw_quanta r) of
        (Some v1, Some v2, Some v3, Some v4, Some t) \<Rightarrow>
          Some (b64_j1 v1 v2 # b64_j2 v2 v3 # b64_j3 v3 v4 # t)
      | _ \<Rightarrow> None)"

definition b64_raw_decode :: "string \<Rightarrow> bytes option" where
  "b64_raw_decode s = b64_raw_quanta (filter (\<lambda>c. c \<noteq> CHR 0x0D \<and> c \<noteq> CHR 0x0A) s)"

text \<open>
  \<open>strings.EqualFold\<close> with a lower-case ASCII word: ASCII letters match in either case, and the
  two letters that fold to ASCII ones from outside it are U+017F for \<open>s\<close> and U+212A for \<open>k\<close>.
\<close>

fun fold_equal :: "string \<Rightarrow> string \<Rightarrow> bool" where
  "fold_equal [] [] = True"
| "fold_equal (c # s) (d # t) =
     (if lower_char c = d then fold_equal s t
      else if d = CHR ''s'' \<and> c = CHR 0xC5 then
        (case s of e # s' \<Rightarrow> e = CHR 0xBF \<and> fold_equal s' t | [] \<Rightarrow> False)
      else if d = CHR ''k'' \<and> c = CHR 0xE2 then
        (case s of e # f # s' \<Rightarrow> e = CHR 0x84 \<and> f = CHR 0xAA \<and> fold_equal s' t | _ \<Rightarrow> False)
      else False)"
| "fold_equal _ _ = False"

definition basicPassword :: "string \<Rightarrow> bytes option" where
  "basicPassword v =
     (case cut_at (CHR '' '') (trim_space v) of
        None \<Rightarrow> None
      | Some (scheme, tok) \<Rightarrow>
          if \<not> fold_equal scheme ''basic'' then None
          else
            (let tok = trim_space tok;
                 raw = (case b64_decode tok of Some b \<Rightarrow> Some b | None \<Rightarrow> b64_raw_decode tok) in
             case raw of
               None \<Rightarrow> None
             | Some b \<Rightarrow> map_option (\<lambda>(_, pw). bytes_of pw) (cut_at (CHR '':'') (string_of b))))"

definition httpAuthorized ::
    "int \<Rightarrow> string list \<Rightarrow> share_rule \<Rightarrow> peer_class \<Rightarrow> principal \<Rightarrow> proxy \<Rightarrow> proxy \<times> bool" where
  "httpAuthorized now vals a cls who p =
     (let ok = identity_ok a cls;
          good = (case vals of
                    [v] \<Rightarrow> (case basicPassword v of None \<Rightarrow> False | Some pw \<Rightarrow> secretMatches pw (ac_Secret a))
                  | _ \<Rightarrow> False) in
      if length vals \<ge> 2 \<and> \<not> ok then
        (refuse now a who cls ''an HTTP CONNECT with more than one Proxy-Authorization header'' p, False)
      else if good \<or> ok then (p, True)
      else
        (refuse now a who cls
           (if vals \<noteq> [] then ''an HTTP CONNECT with a wrong credential''
            else ''an HTTP CONNECT without this session's credential'') p, False))"

definition CRLF :: string where "CRLF = [CHR 0x0D, CHR 0x0A]"

definition write407 :: "share_rule \<Rightarrow> conn \<Rightarrow> conn" where
  "write407 a c =
     (let body = ''This Whisper session is not shared with your user. '' @ trim_space (ac_Hint a) @ [CHR 0x0A] in
      fst (conn_write (bytes_of
        (''HTTP/1.1 407 Proxy Authentication Required'' @ CRLF @
         ''Proxy-Authenticate: Basic realm='' @ [CHR 0x22] @ ''whisper'' @ [CHR 0x22] @
         '', charset='' @ [CHR 0x22] @ ''UTF-8'' @ [CHR 0x22] @ CRLF @
         ''Content-Type: text/plain; charset=utf-8'' @ CRLF @
         ''Content-Length: '' @ dec_nat (length body) @ CRLF @
         ''Connection: close'' @ CRLF @ CRLF @ body)) c))"

end
