(* ===== verification/EgrAuth.thy ===== *)
theory EgrAuth
  imports EgrAccess
begin

text \<open>
  What the authentication of \<open>internal/egress/access.go\<close> decides: the conversations that are
  admitted, as a relation on what the client sent, and the routines that decide it.
\<close>

lemma read_full_Some:
  "read_full n c = Some (b, c') \<longleftrightarrow> (\<exists>rest. cn_in c = b @ rest \<and> length b = n \<and> c' = c\<lparr>cn_in := rest\<rparr>)"
  by (auto simp: read_full_def intro!: exI [of _ "drop n (cn_in c)"])

lemma read_full_append [simp]:
  "cn_in c = b @ rest \<Longrightarrow> read_full (length b) c = Some (b, c\<lparr>cn_in := rest\<rparr>)"
  by (simp add: read_full_def)

lemma conn_write_all [simp]:
  "cn_writes c = None \<Longrightarrow> conn_write b c = (c\<lparr>cn_out := cn_out c @ b\<rparr>, True)"
  by (simp add: conn_write_def)

lemma conn_write_in [simp]: "cn_in (fst (conn_write b c)) = cn_in c"
  by (simp add: conn_write_def split: option.split nat.split)

lemma conn_write_True: "conn_write b c = (c', True) \<Longrightarrow> cn_in c' = cn_in c \<and> cn_out c' = cn_out c @ b"
  by (auto simp: conn_write_def split: option.splits nat.splits)

text \<open>
  The conversations that are admitted: what was sent and what is left after them. A client
  admitted on identity that offers no authentication needs no more; any other offers and sends a
  password, which must be the secret of the session unless the client is admitted anyway.
\<close>

inductive socks_admits :: "share_rule \<Rightarrow> peer_class \<Rightarrow> bytes \<Rightarrow> bytes \<Rightarrow> bool"
  for a :: share_rule and cls :: peer_class
where
  by_identity:
    "identity_ok a cls \<Longrightarrow> length methods = unat n \<Longrightarrow> 0x00 \<in> set methods \<Longrightarrow>
     socks_admits a cls (0x05 # n # methods @ rest) rest"
| by_password:
    "length methods = unat n \<Longrightarrow> 0x02 \<in> set methods \<Longrightarrow> \<not> (identity_ok a cls \<and> 0x00 \<in> set methods) \<Longrightarrow>
     length user = unat ul \<Longrightarrow> length pw = unat pl \<Longrightarrow> pl \<noteq> 0 \<Longrightarrow>
     secretMatches pw (ac_Secret a) \<or> identity_ok a cls \<Longrightarrow>
     socks_admits a cls (0x05 # n # methods @ 0x01 # ul # user @ pl # pw @ rest) rest"

inductive_cases socks_admitsE: "socks_admits a cls inp rest"

definition password_admits :: "share_rule \<Rightarrow> peer_class \<Rightarrow> bytes \<Rightarrow> bytes \<Rightarrow> bool" where
  "password_admits a cls inp rest \<longleftrightarrow>
     (\<exists>ul user pl pw. inp = 0x01 # ul # user @ pl # pw @ rest \<and> length user = unat ul \<and>
        length pw = unat pl \<and> pl \<noteq> 0 \<and> (secretMatches pw (ac_Secret a) \<or> identity_ok a cls))"

lemma length2: "length b = 2 \<longleftrightarrow> (\<exists>x y. b = [x, y])"
  by (auto simp: length_Suc_conv numeral_2_eq_2)

lemma length1: "length b = Suc 0 \<longleftrightarrow> (\<exists>x. b = [x])"
  by (auto simp: length_Suc_conv)

lemma socks_password_True:
  assumes "socks_password now a cls who p c = (p', c', True)"
  shows "password_admits a cls (cn_in c) (cn_in c')"
proof -
  from assms obtain sub c1 where 1: "read_full 2 c = Some (sub, c1)" "sub ! 0 = 0x01"
    by (auto simp: socks_password_def split: option.splits if_splits)
  from assms 1 obtain u c2 where 2: "read_full (unat (sub ! 1)) c1 = Some (u, c2)"
    by (auto simp: socks_password_def split: option.splits)
  from assms 1 2 obtain pl c3 where 3: "read_full 1 c2 = Some (pl, c3)" "pl ! 0 \<noteq> 0"
    by (auto simp: socks_password_def split: option.splits if_splits)
  from assms 1 2 3 obtain pw c4 where 4: "read_full (unat (pl ! 0)) c3 = Some (pw, c4)"
    by (auto simp: socks_password_def split: option.splits)
  from assms 1 2 3 4 have 5: "secretMatches pw (ac_Secret a) \<or> identity_ok a cls" "cn_in c' = cn_in c4"
    by (auto simp: socks_password_def Let_def dest: conn_write_True split: if_splits prod.splits)
  from 1 obtain x y where "sub = [x, y]" by (auto simp: read_full_Some length2)
  moreover from 3 obtain z where "pl = [z]" by (auto simp: read_full_Some length1)
  ultimately have "cn_in c = 0x01 # y # u @ z # pw @ cn_in c'" "length u = unat y" "length pw = unat z" "z \<noteq> 0"
    using 1 2 3 4 5 by (auto simp: read_full_Some)
  with 5 show ?thesis unfolding password_admits_def by blast
qed

lemma socks_password_complete:
  assumes "cn_writes c = None" and "password_admits a cls (cn_in c) rest"
  shows "\<exists>p' c'. socks_password now a cls who p c = (p', c', True) \<and> cn_in c' = rest"
proof -
  from assms(2) obtain ul user pl pw where i: "cn_in c = 0x01 # ul # user @ pl # pw @ rest"
    "length user = unat ul" "length pw = unat pl" "pl \<noteq> 0" "secretMatches pw (ac_Secret a) \<or> identity_ok a cls"
    unfolding password_admits_def by blast
  have 1: "read_full 2 c = Some ([0x01, ul], c\<lparr>cn_in := user @ pl # pw @ rest\<rparr>)"
    by (simp add: read_full_def i(1))
  have 2: "read_full (unat ul) (c\<lparr>cn_in := user @ pl # pw @ rest\<rparr>) = Some (user, c\<lparr>cn_in := pl # pw @ rest\<rparr>)"
    by (simp add: read_full_def i(2) [symmetric])
  have 3: "read_full 1 (c\<lparr>cn_in := pl # pw @ rest\<rparr>) = Some ([pl], c\<lparr>cn_in := pw @ rest\<rparr>)"
    by (simp add: read_full_def)
  have 4: "read_full (unat pl) (c\<lparr>cn_in := pw @ rest\<rparr>) = Some (pw, c\<lparr>cn_in := rest\<rparr>)"
    by (simp add: read_full_def i(3) [symmetric])
  from assms(1) i(4,5) show ?thesis
    unfolding socks_password_def by (simp add: 1 2 3 [simplified] 4 Let_def)
qed

lemma socksAuth_True:
  assumes "socksAuth now a cls who p c = (p', c', True)" and "cn_in c' = rest"
  shows "socks_admits a cls (cn_in c) rest"
proof -
  from assms(1) obtain head c1 where 1: "read_full 2 c = Some (head, c1)" "head ! 0 = 0x05"
    by (auto simp: socksAuth_def split: option.splits if_splits)
  from assms(1) 1 obtain ms c2 where 2: "read_full (unat (head ! 1)) c1 = Some (ms, c2)"
    by (auto simp: socksAuth_def split: option.splits)
  from 1 obtain x y where "head = [x, y]" by (auto simp: read_full_Some length2)
  with 1 2 have i: "cn_in c = 0x05 # y # ms @ cn_in c2" "length ms = unat y"
    by (auto simp: read_full_Some)
  show ?thesis
  proof (cases "identity_ok a cls \<and> 0x00 \<in> set ms")
    case True
    with assms 1 2 have "cn_in c2 = rest"
      by (auto simp: socksAuth_def dest: conn_write_True split: prod.splits)
    with True i show ?thesis using by_identity [of a cls ms y rest] by simp
  next
    case False
    with assms(1) 1 2 have "0x02 \<in> set ms" by (auto simp: socksAuth_def split: if_splits)
    with False assms(1) 1 2 obtain c3 where "conn_write [0x05, 0x02] c2 = (c3, True)"
      "socks_password now a cls who p c3 = (p', c', True)"
      by (auto simp: socksAuth_def split: prod.splits bool.splits)
    with assms(2) have "password_admits a cls (cn_in c2) rest"
      using socks_password_True conn_write_True by metis
    with False i \<open>0x02 \<in> set ms\<close> show ?thesis
      unfolding password_admits_def by (auto intro: by_password)
  qed
qed

lemma socksAuth_complete:
  assumes "socks_admits a cls (cn_in c) rest" and "cn_writes c = None"
  shows "\<exists>p' c'. socksAuth now a cls who p c = (p', c', True) \<and> cn_in c' = rest"
  using assms(1)
proof (cases rule: socks_admits.cases)
  case (by_identity methods n)
  have "read_full 2 c = Some ([5, n], c\<lparr>cn_in := methods @ rest\<rparr>)"
    "read_full (unat n) (c\<lparr>cn_in := methods @ rest\<rparr>) = Some (methods, c\<lparr>cn_in := rest\<rparr>)"
    using by_identity by (simp_all add: read_full_def flip: by_identity(3))
  with by_identity assms(2) show ?thesis by (simp add: socksAuth_def)
next
  case (by_password methods n user ul pw pl)
  let ?t = "1 # ul # user @ pl # pw @ rest"
  have r: "read_full 2 c = Some ([5, n], c\<lparr>cn_in := methods @ ?t\<rparr>)"
    "read_full (unat n) (c\<lparr>cn_in := methods @ ?t\<rparr>) = Some (methods, c\<lparr>cn_in := ?t\<rparr>)"
    using by_password by (simp_all add: read_full_def flip: by_password(2))
  have "password_admits a cls (cn_in (c\<lparr>cn_in := ?t, cn_out := cn_out c @ [5, 2]\<rparr>)) rest"
    unfolding password_admits_def using by_password by auto
  from socks_password_complete [OF _ this, of now who p] assms(2)
  obtain p' c' where "socks_password now a cls who p (c\<lparr>cn_in := ?t, cn_out := cn_out c @ [5, 2]\<rparr>) = (p', c', True)"
    "cn_in c' = rest" by auto
  with by_password r assms(2) show ?thesis by (simp add: socksAuth_def)
qed

text \<open>
  C35. SOCKS5 authentication succeeds exactly on the conversations above: when every write succeeds
  it admits a client and leaves what follows its greeting, whatever was logged or refused before,
  if and only if the bytes the client sent form one of them.
\<close>
theorem socksAuth_decides:
  assumes "cn_writes c = None"
  shows "(\<exists>p' c'. socksAuth now a cls who p c = (p', c', True) \<and> cn_in c' = rest) \<longleftrightarrow>
     socks_admits a cls (cn_in c) rest"
proof
  assume "\<exists>p' c'. socksAuth now a cls who p c = (p', c', True) \<and> cn_in c' = rest"
  then obtain p' c' where r: "socksAuth now a cls who p c = (p', c', True)" "cn_in c' = rest" by blast
  then show "socks_admits a cls (cn_in c) rest" by (rule socksAuth_True)
next
  assume "socks_admits a cls (cn_in c) rest"
  then show "\<exists>p' c'. socksAuth now a cls who p c = (p', c', True) \<and> cn_in c' = rest"
    using assms by (rule socksAuth_complete)
qed

end
