(* ===== verification/EgrProxy.thy ===== *)
theory EgrProxy
  imports EgrAuth
begin

text \<open>
  \<open>internal/egress/proxy.go\<close>: one accepted connection of the local forwarder from the pre-auth
  slot to the tunnel, and the request the forwarder sends upstream. The parser of
  \<open>net/http\<close> and the network are arguments; the splice of bytes is not modelled.
\<close>

subsection \<open>The limit on what is read before admission\<close>

record head_limit =
  hl_r :: bytes
  hl_n :: int
  hl_lifted :: bool
  hl_tripped :: bool

text \<open>
  One \<open>Read\<close> into a buffer of \<open>len\<close> bytes; \<open>got\<close> is how many the connection has ready for it,
  and no bytes is \<open>io.EOF\<close>.
\<close>

definition headLimit_Read :: "nat \<Rightarrow> nat \<Rightarrow> head_limit \<Rightarrow> head_limit \<times> bytes" where
  "headLimit_Read len got l =
     (if hl_lifted l then (l\<lparr>hl_r := drop (min len got) (hl_r l)\<rparr>, take (min len got) (hl_r l))
      else if hl_n l \<le> 0 then (l\<lparr>hl_tripped := True\<rparr>, [])
      else
        (let k = min (if int len > hl_n l then nat (hl_n l) else len) got; b = take k (hl_r l) in
         (l\<lparr>hl_r := drop k (hl_r l), hl_n := hl_n l - int (length b)\<rparr>, b)))"

definition lift :: "head_limit \<Rightarrow> head_limit" where
  "lift l = l\<lparr>hl_lifted := True\<rparr>"

text \<open>
  Reads in any sizes: nothing is lost or reordered, and before the limit is lifted no more than
  its bytes are given.
\<close>

fun headLimit_reads :: "(nat \<times> nat) list \<Rightarrow> head_limit \<Rightarrow> head_limit \<times> bytes" where
  "headLimit_reads [] l = (l, [])"
| "headLimit_reads ((len, got) # rs) l =
     (let (l1, b) = headLimit_Read len got l; (l2, d) = headLimit_reads rs l1 in (l2, b @ d))"

lemma headLimit_Read_in_order: "headLimit_Read len got l = (l', b) \<Longrightarrow> b @ hl_r l' = hl_r l"
  by (auto simp: headLimit_Read_def Let_def split: if_splits)

lemma headLimit_reads_in_order: "headLimit_reads rs l = (l', b) \<Longrightarrow> b @ hl_r l' = hl_r l"
proof (induction rs arbitrary: l b l')
  case (Cons x rs)
  obtain len got where x: "x = (len, got)" by fastforce
  obtain l1 b1 where 1: "headLimit_Read len got l = (l1, b1)" by fastforce
  obtain l2 b2 where 2: "headLimit_reads rs l1 = (l2, b2)" by fastforce
  from Cons.prems x 1 2 have "b = b1 @ b2" "l' = l2" by simp_all
  with headLimit_Read_in_order [OF 1] Cons.IH [OF 2] show ?case by simp
qed simp

lemma headLimit_reads_bound:
  "headLimit_reads rs l = (l', b) \<Longrightarrow> \<not> hl_lifted l \<Longrightarrow> 0 \<le> hl_n l \<Longrightarrow>
     int (length b) + hl_n l' = hl_n l \<and> 0 \<le> hl_n l' \<and> \<not> hl_lifted l'"
proof (induction rs arbitrary: l b l')
  case (Cons x rs)
  obtain len got where x: "x = (len, got)" by fastforce
  obtain l1 b1 where 1: "headLimit_Read len got l = (l1, b1)" by fastforce
  obtain l2 b2 where 2: "headLimit_reads rs l1 = (l2, b2)" by fastforce
  have s: "int (length b1) + hl_n l1 = hl_n l \<and> 0 \<le> hl_n l1 \<and> \<not> hl_lifted l1"
    using 1 Cons.prems by (auto simp: headLimit_Read_def Let_def split: if_splits)
  from Cons.prems x 1 2 have "b = b1 @ b2" "l' = l2" by simp_all
  with s Cons.IH [OF 2] show ?case by simp
qed simp

subsection \<open>The slots a connection holds\<close>

record admission =
  ad_unauthID :: principal
  ad_unauth :: bool
  ad_done :: bool

definition new_admission :: admission where
  "new_admission = \<lparr>ad_unauthID = Unknown, ad_unauth = False, ad_done = False\<rparr>"

definition release :: "admission_gate \<times> admission \<Rightarrow> admission_gate \<times> admission" where
  "release s =
     (case s of (g, ad) \<Rightarrow>
        if ad_done ad then (g, ad)
        else (leavePreAuth (if ad_unauth ad then leaveUnauth (ad_unauthID ad) g else g), ad\<lparr>ad_done := True\<rparr>))"

text \<open>
  \<open>admit\<close> also clears the deadline and lifts the limit on the head: from then on the bytes of
  the client are the whole of its stream.
\<close>

definition admit :: "proxy \<times> admission \<Rightarrow> proxy \<times> admission" where
  "admit s = (case s of (p, ad) \<Rightarrow> let (g, ad) = release (px_gate p, ad) in (p\<lparr>px_gate := g\<rparr>, ad))"

subsection \<open>Dials\<close>

definition noteDialFailure :: "int \<Rightarrow> string \<Rightarrow> proxy \<Rightarrow> proxy" where
  "noteDialFailure now err p = p\<lparr>px_failure := Some (err, now)\<rparr>"

definition LastDialFailure :: "proxy \<Rightarrow> (string \<times> int) option" where
  "LastDialFailure p = px_failure p"

definition SetDialObserver :: "bool \<Rightarrow> proxy \<Rightarrow> proxy" where
  "SetDialObserver f p = p\<lparr>px_observed := f\<rparr>"

definition notifyDial :: "string \<Rightarrow> bool \<Rightarrow> proxy \<Rightarrow> proxy" where
  "notifyDial target denied p = (if px_observed p then p\<lparr>px_dials := px_dials p @ [(target, denied)]\<rparr> else p)"

text \<open>How the service of a connection ended: without a dial, or after the dial of a target.\<close>

datatype served = Undialled | DialFailed string | Unanswered string | Tunnel string

definition dialled :: "served \<Rightarrow> string option" where
  "dialled v = (case v of Undialled \<Rightarrow> None | DialFailed t \<Rightarrow> Some t | Unanswered t \<Rightarrow> Some t | Tunnel t \<Rightarrow> Some t)"

text \<open>
  From the dial to the tunnel, the same for both protocols: \<open>bad\<close> and \<open>good\<close> are the replies
  of each.
\<close>

definition dial_and_reply ::
    "(string \<Rightarrow> string option) \<Rightarrow> int \<Rightarrow> bytes \<Rightarrow> bytes \<Rightarrow> string \<Rightarrow> proxy \<Rightarrow> conn \<Rightarrow> proxy \<times> conn \<times> served" where
  "dial_and_reply dial now bad good target p c =
     (case dial target of
        Some err \<Rightarrow> (notifyDial target True (noteDialFailure now err p), fst (conn_write bad c), DialFailed target)
      | None \<Rightarrow>
          (let p = notifyDial target False p; (c, ok) = conn_write good c
           in (p, c, if ok then Tunnel target else Unanswered target)))"

subsection \<open>SOCKS5\<close>

definition socks5Reply :: "byte \<Rightarrow> bytes" where
  "socks5Reply rep = [0x05, rep, 0x00, 0x01, 0, 0, 0, 0, 0, 0]"

text \<open>\<open>net.IP.String\<close> of four or sixteen bytes: an address that embeds an IPv4 one is printed as that.\<close>

definition ip_String :: "bytes \<Rightarrow> string" where
  "ip_String b = addr_String (if length b = 4 then Addr4 (be_val b) else Unmap (Addr6 (be_val b) []))"

text \<open>A name byte that could end a line or a field of the upstream request.\<close>

definition bad_name_byte :: "byte \<Rightarrow> bool" where
  "bad_name_byte b \<longleftrightarrow> b \<le> 0x20 \<or> b = 0x7F"

definition socks_name :: "bytes \<Rightarrow> string option" where
  "socks_name b =
     (if b = [] \<or> list_ex bad_name_byte b then None
      else if byte_of (CHR '':'') \<in> set b \<and>
          (case ParseAddr (string_of b) of None \<Rightarrow> True | Some a \<Rightarrow> \<not> Is6 a) then None
      else Some (string_of b))"

definition socks_host :: "byte \<Rightarrow> conn \<Rightarrow> (string \<times> conn) option" where
  "socks_host atyp c =
     (if atyp = 0x01 then map_option (\<lambda>(b, c). (ip_String b, c)) (read_full 4 c)
      else if atyp = 0x03 then
        (case read_full 1 c of
           None \<Rightarrow> None
         | Some (l, c) \<Rightarrow>
             (case read_full (unat (l ! 0)) c of
                None \<Rightarrow> None
              | Some (b, c) \<Rightarrow> map_option (\<lambda>h. (h, c)) (socks_name b)))
      else if atyp = 0x04 then map_option (\<lambda>(b, c). (ip_String b, c)) (read_full 16 c)
      else None)"

definition readSocks5Target :: "byte \<Rightarrow> conn \<Rightarrow> (string \<times> conn) option" where
  "readSocks5Target atyp c =
     (case socks_host atyp c of
        None \<Rightarrow> None
      | Some (host, c) \<Rightarrow>
          (case read_full 2 c of
             None \<Rightarrow> None
           | Some (pb, c) \<Rightarrow> Some (JoinHostPort host (dec_nat (unat (pb ! 0) * 256 + unat (pb ! 1))), c)))"

definition handleSocks5 ::
    "(string \<Rightarrow> string option) \<Rightarrow> int \<Rightarrow> share_rule \<Rightarrow> peer_class \<Rightarrow> principal \<Rightarrow> proxy \<times> admission \<Rightarrow> conn \<Rightarrow>
     (proxy \<times> admission) \<times> conn \<times> served" where
  "handleSocks5 dial now a cls who s c =
     (case s of (p, ad) \<Rightarrow>
        case socksAuth now a cls who p c of
          (p, c, False) \<Rightarrow> ((p, ad), c, Undialled)
        | (p, c, True) \<Rightarrow>
            (case read_full 4 c of
               None \<Rightarrow> ((p, ad), c, Undialled)
             | Some (hdr, c) \<Rightarrow>
                 if hdr ! 0 \<noteq> 0x05 \<or> hdr ! 1 \<noteq> 0x01 then
                   ((p, ad), fst (conn_write (socks5Reply 0x07) c), Undialled)
                 else
                   (case readSocks5Target (hdr ! 3) c of
                      None \<Rightarrow> ((p, ad), fst (conn_write (socks5Reply 0x08) c), Undialled)
                    | Some (target, c) \<Rightarrow>
                        let (p, ad) = admit (p, ad);
                            (p, c, v) = dial_and_reply dial now (socks5Reply 0x05) (socks5Reply 0x00) target p c
                        in ((p, ad), c, v))))"

text \<open>
  A client sends at most 782 bytes up to the end of its SOCKS5 request, so the limit on the head
  never ends one early, and the model reads the client's stream itself.
\<close>

subsection \<open>HTTP CONNECT\<close>

text \<open>
  What \<open>http.ReadRequest\<close> makes of the bytes it may read: the request and how many bytes it took,
  or an error and whether it came to the end of them.
\<close>

record http_request =
  rq_Method :: string
  rq_Host :: string
  rq_ProxyAuth :: "string list"

datatype read_request = Request http_request nat | BadRequest bool

definition no_body :: "string \<Rightarrow> bytes" where
  "no_body status = bytes_of (''HTTP/1.1 '' @ status @ CRLF @ ''Content-Length: 0'' @ CRLF @ ''Connection: close'' @ CRLF @ CRLF)"

definition established :: bytes where
  "established = bytes_of (''HTTP/1.1 200 Connection Established'' @ CRLF @ CRLF)"

definition handleHTTP ::
    "(bytes \<Rightarrow> read_request) \<Rightarrow> (string \<Rightarrow> string option) \<Rightarrow> int \<Rightarrow> share_rule \<Rightarrow> peer_class \<Rightarrow> principal \<Rightarrow>
     proxy \<times> admission \<Rightarrow> conn \<Rightarrow> (proxy \<times> admission) \<times> conn \<times> served" where
  "handleHTTP ReadRequest dial now a cls who s c =
     (case s of (p, ad) \<Rightarrow>
        case ReadRequest (take httpHeadLimit (cn_in c)) of
          BadRequest at_end \<Rightarrow>
            (let tripped = at_end \<and> length (cn_in c) \<ge> httpHeadLimit in
             ((p, ad),
              if tripped then fst (conn_write (no_body ''431 Request Header Fields Too Large'') c) else c,
              Undialled))
        | Request req n \<Rightarrow>
            (let c = c\<lparr>cn_in := drop n (cn_in c)\<rparr>; (p, ok) = httpAuthorized now (rq_ProxyAuth req) a cls who p in
             if \<not> ok then ((p, ad), write407 a c, Undialled)
             else if rq_Method req \<noteq> ''CONNECT'' then
               ((p, ad), fst (conn_write (no_body ''405 Method Not Allowed'') c), Undialled)
             else if rq_Host req = [] then
               ((p, ad), fst (conn_write (no_body ''400 Bad Request'') c), Undialled)
             else
               (let (p, ad) = admit (p, ad);
                    (p, c, v) = dial_and_reply dial now (no_body ''502 Bad Gateway'') established (rq_Host req) p c
                in ((p, ad), c, v))))"

subsection \<open>One connection\<close>

text \<open>
  The steps of \<open>handle\<close> up to the first byte: whether the client is turned away before a lookup
  or over the cap of its principal, and otherwise its class and the slots it holds.
\<close>

definition shared_bucket :: "proxy \<Rightarrow> principal \<Rightarrow> bool" where
  "shared_bucket p who \<longleftrightarrow>
     (who = Unknown \<and> \<not> IdentityAvailable p) \<or> (who \<noteq> Unknown \<and> who = g_holder (px_gate p))"

definition reserve ::
    "share_rule \<Rightarrow> peer_class \<Rightarrow> principal \<Rightarrow> proxy \<Rightarrow> (proxy \<times> admission) option" where
  "reserve a cls who p =
     (if ac_Mode a \<noteq> ShareAny \<and> \<not> trusted cls \<and> \<not> shared_bucket p who then
        (case enterUnauth who (px_gate p) of
           (g, False) \<Rightarrow> None
         | (g, True) \<Rightarrow> Some (p\<lparr>px_gate := g\<rparr>, new_admission\<lparr>ad_unauth := True, ad_unauthID := who\<rparr>))
      else Some (p, new_admission))"

definition client_class ::
    "(addr_port \<Rightarrow> addr_port \<Rightarrow> peer option) \<Rightarrow> (addr_port \<times> addr_port) option \<Rightarrow> proxy \<Rightarrow> share_rule \<Rightarrow>
     peer_class \<times> principal" where
  "client_class lookup tuple p a =
     (if ac_Mode a \<noteq> ShareAny then classify lookup tuple p a else (PeerOther, Unknown))"

text \<open>The protocol is told by the first byte; \<open>release\<close> is deferred.\<close>

definition serve_client ::
    "(bytes \<Rightarrow> read_request) \<Rightarrow> (string \<Rightarrow> string option) \<Rightarrow> int \<Rightarrow> share_rule \<Rightarrow> peer_class \<Rightarrow> principal \<Rightarrow>
     proxy \<times> admission \<Rightarrow> conn \<Rightarrow> (proxy \<times> admission) \<times> conn \<times> served" where
  "serve_client ReadRequest dial now a cls who s c =
     (case cn_in c of
        [] \<Rightarrow> (s, c, Undialled)
      | b # _ \<Rightarrow>
          if b = 0x05 then handleSocks5 dial now a cls who s c
          else handleHTTP ReadRequest dial now a cls who s c)"

definition close_client :: "proxy \<times> admission \<Rightarrow> proxy" where
  "close_client s = (case s of (p, ad) \<Rightarrow> p\<lparr>px_gate := fst (release (px_gate p, ad))\<rparr>)"

definition handle ::
    "(bytes \<Rightarrow> read_request) \<Rightarrow> (string \<Rightarrow> string option) \<Rightarrow> (addr_port \<Rightarrow> addr_port \<Rightarrow> peer option) \<Rightarrow> int \<Rightarrow>
     (addr_port \<times> addr_port) option \<Rightarrow> proxy \<Rightarrow> conn \<Rightarrow> proxy \<times> conn \<times> served" where
  "handle ReadRequest dial lookup now tuple p c =
     (case enterPreAuth (px_gate p) of
        (g, False) \<Rightarrow> (p, c, Undialled)
      | (g, True) \<Rightarrow>
          (let p = p\<lparr>px_gate := g\<rparr>; a = currentAccess p; (cls, who) = client_class lookup tuple p a in
           case reserve a cls who p of
             None \<Rightarrow> (close_client (p, new_admission), c, Undialled)
           | Some s \<Rightarrow>
               (let (s, c, v) = serve_client ReadRequest dial now a cls who s c
                in (close_client s, c, v))))"

subsection \<open>The upstream tunnel\<close>

record upstream =
  us_host :: string
  us_auth :: string

definition stripScheme :: "string \<Rightarrow> string" where
  "stripScheme s =
     (let s = (case index_of ''://'' s of Some i \<Rightarrow> drop (i + 3) s | None \<Rightarrow> s);
          s = (case cut_last (CHR ''@'') s of Some (_, t) \<Rightarrow> t | None \<Rightarrow> s)
      in takeWhile (\<lambda>c. c \<noteq> CHR ''/'') s)"

text \<open>The endpoint and the header the bearer becomes, or the error; TLS and the port are left out.\<close>

definition StartLocalProxy :: "string \<Rightarrow> string \<Rightarrow> string + upstream" where
  "StartLocalProxy upstreamHostPort bearer =
     (let host = trim_space upstreamHostPort in
      if host = [] then Inl ''egress: empty upstream host''
      else
        (let host = stripScheme host;
             host = (if CHR '':'' \<notin> set host then host @ '':443'' else host);
             tok = trim_space bearer in
         if tok = [] then Inl ''egress: empty bearer''
         else Inr \<lparr>us_host = host, us_auth = ''Basic '' @ b64_encode (bytes_of (''w:'' @ tok))\<rparr>))"

definition connect_lines :: "string \<Rightarrow> string \<Rightarrow> string list" where
  "connect_lines auth target =
     [''CONNECT '' @ target @ '' HTTP/1.1'', ''Host: '' @ target, ''Proxy-Authorization: '' @ auth,
      ''User-Agent: whisper-cli/2'', ''Proxy-Connection: Keep-Alive'', []]"

definition connect_request :: "upstream \<Rightarrow> string \<Rightarrow> bytes" where
  "connect_request u target =
     bytes_of (''CONNECT '' @ target @ '' HTTP/1.1'' @ CRLF @ ''Host: '' @ target @ CRLF @
       ''Proxy-Authorization: '' @ us_auth u @ CRLF @ ''User-Agent: whisper-cli/2'' @ CRLF @
       ''Proxy-Connection: Keep-Alive'' @ CRLF @ CRLF)"

text \<open>
  What the network does with a dial: no connection, no TLS, no write, no reply within the time,
  an end before the reply, something that is not HTTP, or a reply with its status and the bytes
  that followed it.
\<close>

datatype egress_leg =
  NoConnection | NoTLS | NoWrite | ReplyTimeout | ReplyEnded | ReplyUnreadable | Reply int bytes

definition connectReplyError :: "egress_leg \<Rightarrow> string \<Rightarrow> string \<Rightarrow> string" where
  "connectReplyError leg target within =
     (if leg = ReplyTimeout then
        ''the Whisper egress did not answer the CONNECT for '' @ target @ '' within '' @ within
      else if leg = ReplyEnded then ''the Whisper egress closed the connection before answering the CONNECT''
      else ''egress CONNECT reply unreadable'')"

text \<open>The dial: the error, or the bytes the new connection replays before its own.\<close>

definition upstream_Dial :: "(bytes \<Rightarrow> egress_leg) \<Rightarrow> string \<Rightarrow> upstream \<Rightarrow> string \<Rightarrow> string + bytes" where
  "upstream_Dial network within u target =
     (case network (connect_request u target) of
        NoConnection \<Rightarrow> Inl ''cannot reach the Whisper egress''
      | NoTLS \<Rightarrow> Inl ''TLS handshake to the Whisper egress failed''
      | NoWrite \<Rightarrow> Inl ''egress CONNECT write failed''
      | Reply status pre \<Rightarrow>
          if status < 200 \<or> status \<ge> 300 then
            (if status = 407 then
               Inl (''the Whisper egress rejected this session's token - '' @
                    ''run `whisper connect` again to mint a fresh session'')
             else Inl ''the Whisper egress refused the connection'')
          else Inr pre
      | leg \<Rightarrow> Inl (connectReplyError leg target within))"

text \<open>A connection that replays \<open>pre\<close> before what it reads itself.\<close>

definition prefixedConn_Read :: "nat \<Rightarrow> nat \<Rightarrow> bytes \<times> bytes \<Rightarrow> (bytes \<times> bytes) \<times> bytes" where
  "prefixedConn_Read len got s =
     (case s of (pre, live) \<Rightarrow>
        if pre \<noteq> [] then ((drop len pre, live), take len pre)
        else (([], drop (min len got) live), take (min len got) live))"

lemma prefixedConn_in_order:
  "prefixedConn_Read len got (pre, live) = ((pre', live'), b) \<Longrightarrow> b @ pre' @ live' = pre @ live"
  by (auto simp: prefixedConn_Read_def simp flip: append_assoc split: if_splits)

text \<open>How long the accept loop waits after its \<open>n\<close>-th failure in a row.\<close>

definition next_backoff :: "int \<Rightarrow> int" where
  "next_backoff b = (if b = 0 then 5 * Millisecond else if b * 2 > Second then Second else b * 2)"

lemma next_backoff_bound: "0 \<le> b \<Longrightarrow> b \<le> Second \<Longrightarrow> 0 < next_backoff b \<and> next_backoff b \<le> Second"
  by (auto simp: next_backoff_def Second_def Millisecond_def)

end
