(* ===== verification/EgrSafety.thy ===== *)
theory EgrSafety
  imports EgrProxy
begin

text \<open>
  Who is served by the forwarder of \<open>internal/egress\<close>, and what its upstream request can hold.
\<close>

subsection \<open>A dial is made only for an entitled client\<close>

text \<open>What the rule and the kernel must say for a client that shows no credential.\<close>

definition entitled_by_identity ::
    "(addr_port \<Rightarrow> addr_port \<Rightarrow> peer option) \<Rightarrow> (addr_port \<times> addr_port) option \<Rightarrow> proxy \<Rightarrow> bool" where
  "entitled_by_identity lookup tuple p \<longleftrightarrow>
     (let a = currentAccess p; g = px_gate p in
      ac_Mode a = ShareAny \<or>
      (ac_Mode a = ShareOwner \<and> g_identityOK g \<and>
       (\<exists>ra la pr. tuple = Some (ra, la) \<and> lookup ra la = Some pr \<and> pr_ID pr \<noteq> Unknown \<and>
          ((pr_ID pr = g_holder g \<and> (\<not> Privileged (pr_ID pr) \<or> pr_Mine pr)) \<or>
           (\<exists>f. ac_Admit a = Some f \<and> f (pr_ID pr))))))"

text \<open>The client's bytes present a password, in either protocol.\<close>

definition presents :: "(bytes \<Rightarrow> read_request) \<Rightarrow> bytes \<Rightarrow> bytes \<Rightarrow> bool" where
  "presents ReadRequest inp pw \<longleftrightarrow>
     (\<exists>n methods ul user pl rest. inp = 0x05 # n # methods @ 0x01 # ul # user @ pl # pw @ rest \<and>
        length methods = unat n \<and> length user = unat ul \<and> length pw = unat pl) \<or>
     (\<exists>req n v. ReadRequest (take httpHeadLimit inp) = Request req n \<and> rq_ProxyAuth req = [v] \<and>
        basicPassword v = Some pw)"

lemma identity_ok_entitled:
  assumes "client_class lookup tuple p (currentAccess p) = (cls, who)" and "identity_ok (currentAccess p) cls"
  shows "entitled_by_identity lookup tuple p"
proof (cases "ac_Mode (currentAccess p) = ShareAny")
  case True
  then show ?thesis by (simp add: entitled_by_identity_def Let_def)
next
  case False
  with assms have m: "ac_Mode (currentAccess p) = ShareOwner" and "trusted cls"
    and c: "classify lookup tuple p (currentAccess p) = (cls, who)"
    by (auto simp: identity_ok_def client_class_def)
  then obtain ra la pr where t: "tuple = Some (ra, la)" "g_identityOK (px_gate p)" "lookup ra la = Some pr"
    by (fastforce simp: classify_def trusted_def split: option.splits prod.splits if_splits)
  with c \<open>trusted cls\<close> have "pr_ID pr \<noteq> Unknown" "(pr_ID pr = g_holder (px_gate p) \<and> (\<not> Privileged (pr_ID pr) \<or> pr_Mine pr)) \<or>
      (\<exists>f. ac_Admit (currentAccess p) = Some f \<and> f (pr_ID pr))"
    by (auto simp: classify_def trusted_def Let_def split: option.splits if_splits)
  with m t show ?thesis by (auto simp: entitled_by_identity_def Let_def)
qed

lemma presents_socks:
  "length methods = unat n \<Longrightarrow> length user = unat ul \<Longrightarrow> length pw = unat pl \<Longrightarrow>
     presents RR (0x05 # n # methods @ 0x01 # ul # user @ pl # pw @ rest) pw"
  unfolding presents_def by blast

lemma socks_admits_presents:
  "socks_admits a cls inp rest \<Longrightarrow>
     identity_ok a cls \<or> (\<exists>pw. presents RR inp pw \<and> secretMatches pw (ac_Secret a))"
  by (induction rule: socks_admits.induct) (use presents_socks in blast)+

lemma handleSocks5_dials:
  assumes "handleSocks5 dial now a cls who (p, ad) c = (s', c', v)" and "dialled v = Some t"
  shows "\<exists>rest. socks_admits a cls (cn_in c) rest"
proof -
  from assms obtain p1 c1 where "socksAuth now a cls who p c = (p1, c1, True)"
    by (auto simp: handleSocks5_def dialled_def split: prod.splits bool.splits)
  then show ?thesis using socksAuth_True by blast
qed

lemma httpAuthorized_True:
  "httpAuthorized now vals a cls who p = (p', True) \<Longrightarrow>
     p' = p \<and> (identity_ok a cls \<or> (\<exists>v pw. vals = [v] \<and> basicPassword v = Some pw \<and> secretMatches pw (ac_Secret a)))"
  by (auto simp: httpAuthorized_def Let_def split: if_splits list.splits option.splits)

lemma handleHTTP_dials:
  assumes "handleHTTP RR dial now a cls who (p, ad) c = (s', c', v)" and "dialled v = Some t"
  shows "identity_ok a cls \<or> (\<exists>pw. presents RR (cn_in c) pw \<and> secretMatches pw (ac_Secret a))"
proof -
  from assms obtain req n where r: "RR (take httpHeadLimit (cn_in c)) = Request req n"
    by (auto simp: handleHTTP_def dialled_def Let_def split: read_request.splits)
  obtain p1 ok where h: "httpAuthorized now (rq_ProxyAuth req) a cls who p = (p1, ok)" by fastforce
  with assms r have "ok"
    by (auto simp: handleHTTP_def dialled_def Let_def split: if_splits)
  with h httpAuthorized_True [of now "rq_ProxyAuth req" a cls who p p1] r show ?thesis
    by (auto simp: presents_def)
qed

lemma serve_client_dials:
  assumes "serve_client RR dial now a cls who s c = (s', c', v)" and "dialled v = Some t"
  shows "identity_ok a cls \<or> (\<exists>pw. presents RR (cn_in c) pw \<and> secretMatches pw (ac_Secret a))"
proof -
  obtain p ad where s: "s = (p, ad)" by fastforce
  from assms obtain b r where c: "cn_in c = b # r"
    by (auto simp: serve_client_def dialled_def split: list.splits)
  show ?thesis
  proof (cases "b = 0x05")
    case True
    with assms s c have "handleSocks5 dial now a cls who (p, ad) c = (s', c', v)" by (simp add: serve_client_def)
    from handleSocks5_dials [OF this assms(2)] show ?thesis using socks_admits_presents by blast
  next
    case False
    with assms s c have "handleHTTP RR dial now a cls who (p, ad) c = (s', c', v)" by (simp add: serve_client_def)
    from handleHTTP_dials [OF this assms(2)] show ?thesis .
  qed
qed

text \<open>The gate of a proxy that has taken the slot of a client names and admits it as before.\<close>

lemma enterPreAuth_same:
  "enterPreAuth g = (g', ok) \<Longrightarrow>
     g_identityOK g' = g_identityOK g \<and> g_holder g' = g_holder g \<and> g_lookups g' = g_lookups g \<and>
     g_pending g' = g_pending g"
  by (auto simp: enterPreAuth_def split: if_splits)

lemma client_class_same_gate:
  "enterPreAuth (px_gate p) = (g', ok) \<Longrightarrow>
     client_class lookup tuple (p\<lparr>px_gate := g'\<rparr>) a = client_class lookup tuple p a"
  by (auto simp: client_class_def classify_def acquireLookup_def Let_def dest!: enterPreAuth_same split: option.splits)

text \<open>
  C4. The forwarder dials for a client only when the client is entitled: everyone is shared with,
  or the kernel named the exact tuple of its socket as the holder's own user (its own process,
  for a privileged holder) or as one of the share list and the mode admits owners, or the client
  presented the secret of the session or a SHA-256 collision with it, the secret not being empty.
  A forwarder that was not armed serves its owner only.
\<close>
theorem handle_dials_entitled:
  assumes "handle RR dial lookup now tuple p c = (p', c', v)" and "dialled v = Some t"
  shows "(entitled_by_identity lookup tuple p \<or>
     (\<exists>pw. presents RR (cn_in c) pw \<and> ac_Secret (currentAccess p) \<noteq> [] \<and>
        sha256 pw = sha256 (bytes_of (ac_Secret (currentAccess p))))) \<and>
     (px_access p = None \<longrightarrow> g_identityOK (px_gate p) \<and>
        (\<exists>ra la pr. tuple = Some (ra, la) \<and> lookup ra la = Some pr \<and> pr_ID pr = g_holder (px_gate p) \<and>
           (Privileged (g_holder (px_gate p)) \<longrightarrow> pr_Mine pr)))"
proof -
  let ?a = "currentAccess p"
  obtain g where e: "enterPreAuth (px_gate p) = (g, True)"
    using assms by (auto simp: handle_def dialled_def split: prod.splits bool.splits)
  obtain cls who where cc: "client_class lookup tuple p ?a = (cls, who)" by fastforce
  have same: "currentAccess (p\<lparr>px_gate := g\<rparr>) = ?a" by (simp add: currentAccess_def)
  obtain s where r: "reserve ?a cls who (p\<lparr>px_gate := g\<rparr>) = Some s"
    using assms e cc
    by (auto simp: handle_def dialled_def Let_def same client_class_same_gate [OF e] simp del: split_paired_Ex
        split: option.splits)
  obtain s' c1 v1 where sc: "serve_client RR dial now ?a cls who s c = (s', c1, v1)" by (metis prod_cases3)
  from assms(1) have "v1 = v"
    by (simp add: handle_def e Let_def same client_class_same_gate [OF e] cc r sc)
  with sc assms(2) have "identity_ok ?a cls \<or> (\<exists>pw. presents RR (cn_in c) pw \<and> secretMatches pw (ac_Secret ?a))"
    using serve_client_dials by blast
  then have main: "entitled_by_identity lookup tuple p \<or>
     (\<exists>pw. presents RR (cn_in c) pw \<and> ac_Secret ?a \<noteq> [] \<and> sha256 pw = sha256 (bytes_of (ac_Secret ?a)))"
    using identity_ok_entitled [OF cc] by (auto simp: secretMatches_def)
  moreover from this have "px_access p = None \<longrightarrow> g_identityOK (px_gate p) \<and>
      (\<exists>ra la pr. tuple = Some (ra, la) \<and> lookup ra la = Some pr \<and> pr_ID pr = g_holder (px_gate p) \<and>
         (Privileged (g_holder (px_gate p)) \<longrightarrow> pr_Mine pr))"
    by (auto simp: entitled_by_identity_def currentAccess_def Let_def)
  ultimately show ?thesis by blast
qed

end
