(* ===== verification/EgrRuns.thy ===== *)
theory EgrRuns
  imports EgrSafety
begin

text \<open>
  The connections of one forwarder interleaved: the gate of \<open>internal/egress\<close> counts slots, and
  its specification keeps the set of the connections that hold them. A connection is a number,
  what it holds is its \<open>admission\<close>, and each step is one operation under the gate's mutex.
\<close>

subsection \<open>Counters with a cap\<close>

text \<open>
  What the handler relies on of each counter of the gate: it is entered exactly below the cap,
  and every leave gives one slot back. The clients of the counter are then a set of at most
  \<open>cap\<close> elements whose size it shows.
\<close>

locale counted_slots =
  fixes enter :: "'g \<Rightarrow> 'g \<times> bool"
    and leave :: "'g \<Rightarrow> 'g"
    and taken :: "'g \<Rightarrow> int"
    and cap :: int
  assumes enter_iff: "snd (enter g) \<longleftrightarrow> taken g < cap"
    and taken_enter: "taken (fst (enter g)) = taken g + (if snd (enter g) then 1 else 0)"
    and taken_leave: "0 < taken g \<Longrightarrow> taken (leave g) = taken g - 1"
begin

lemma enter_counts:
  assumes "enter g = (g', True)" and "finite S" and "taken g = int (card S)" and "c \<notin> S"
  shows "taken g' = int (card (insert c S))" and "int (card (insert c S)) \<le> cap"
  using enter_iff [of g] taken_enter [of g] assms by simp_all

lemma leave_counts:
  assumes "finite S" and "taken g = int (card S)" and "c \<in> S"
  shows "taken (leave g) = int (card (S - {c}))"
proof -
  from assms have "0 < card S" by (auto simp: card_gt_0_iff)
  with assms taken_leave [of g] show ?thesis by simp
qed

lemma refused_when_full:
  "enter g = (g', False) \<Longrightarrow> taken g = int (card S) \<Longrightarrow> int (card S) \<le> cap \<Longrightarrow> int (card S) = cap"
  using enter_iff [of g] by simp

end

interpretation pre_auth: counted_slots enterPreAuth leavePreAuth g_preAuth preAuthMax
  by unfold_locales (auto simp: enterPreAuth_def leavePreAuth_def)

lemma pending_of_upd:
  "pending_of (g\<lparr>g_pending := fmupd who n (g_pending g)\<rparr>) w = (if w = who then n else pending_of g w)"
  "pending_of (g\<lparr>g_pending := fmdrop who (g_pending g)\<rparr>) w = (if w = who then 0 else pending_of g w)"
  by (simp_all add: pending_of_def)

interpretation unauth: counted_slots "enterUnauth who" "leaveUnauth who" "\<lambda>g. pending_of g who" unauthPerPeer
  for who
  by unfold_locales (auto simp: enterUnauth_def leaveUnauth_def pending_of_upd)

interpretation lookup_slots:
  counted_slots acquireLookup releaseLookup "\<lambda>g. int (g_lookups g)" "int lookupMax"
  by unfold_locales (auto simp: acquireLookup_def releaseLookup_def)

lemma unauth_other:
  "w \<noteq> who \<Longrightarrow> pending_of (fst (enterUnauth who g)) w = pending_of g w"
  "w \<noteq> who \<Longrightarrow> pending_of (leaveUnauth who g) w = pending_of g w"
  by (auto simp: enterUnauth_def leaveUnauth_def pending_of_upd)

lemma slots_apart:
  "g_preAuth (fst (enterUnauth who g)) = g_preAuth g" "g_preAuth (leaveUnauth who g) = g_preAuth g"
  "g_pending (leavePreAuth g) = g_pending g" "g_pending (fst (enterPreAuth g)) = g_pending g"
  by (auto simp: enterUnauth_def leaveUnauth_def leavePreAuth_def enterPreAuth_def)

subsection \<open>The specification: who holds a slot\<close>

text \<open>A connection that is waiting, and the principal it is counted against, if it is.\<close>

type_synonym waiting = "nat \<Rightarrow> principal option option"

definition held :: "waiting \<Rightarrow> principal \<Rightarrow> nat set" where
  "held w who = {c. w c = Some (Some who)}"

inductive slot_step :: "waiting \<Rightarrow> waiting \<Rightarrow> bool" where
  take: "w c = None \<Longrightarrow> card (dom w) < 256 \<Longrightarrow> slot_step w (w(c := Some None))"
| name: "w c = Some None \<Longrightarrow> card (held w who) < 32 \<Longrightarrow> slot_step w (w(c := Some (Some who)))"
| give: "w c \<noteq> None \<Longrightarrow> slot_step w (w(c := None))"

subsection \<open>The gate\<close>

type_synonym conns = "nat \<Rightarrow> admission option"

definition slot_of :: "admission \<Rightarrow> principal option option" where
  "slot_of ad = (if ad_done ad then None else Some (if ad_unauth ad then Some (ad_unauthID ad) else None))"

definition waiting_of :: "conns \<Rightarrow> waiting" where
  "waiting_of cs c = (case cs c of None \<Rightarrow> None | Some ad \<Rightarrow> slot_of ad)"

text \<open>
  Everything else the forwarder does under the mutex: it logs, counts refusals, records dials,
  tests itself and is armed.
\<close>

inductive bookkeeping :: "proxy \<Rightarrow> proxy \<Rightarrow> bool" where
  refused: "bookkeeping p (refuse now a who cls why p)"
| logged: "bookkeeping p (logLimited now a key line p)"
| tested: "bookkeeping p (selfTest lookup tuple p)"
| armed: "bookkeeping p (SetAccess a p)"
| failed: "bookkeeping p (noteDialFailure now err p)"
| notified: "bookkeeping p (notifyDial target denied p)"

inductive gate_step :: "proxy \<times> conns \<Rightarrow> proxy \<times> conns \<Rightarrow> bool" where
  accepted: "cs c = None \<Longrightarrow> enterPreAuth (px_gate p) = (g, True) \<Longrightarrow>
    gate_step (p, cs) (p\<lparr>px_gate := g\<rparr>, cs(c := Some new_admission))"
| turned_away: "enterPreAuth (px_gate p) = (g, False) \<Longrightarrow> gate_step (p, cs) (p\<lparr>px_gate := g\<rparr>, cs)"
| reserved: "cs c = Some new_admission \<Longrightarrow> reserve a cls who p = Some (p', ad) \<Longrightarrow>
    gate_step (p, cs) (p', cs(c := Some ad))"
| admitted: "cs c = Some ad \<Longrightarrow> admit (p, ad) = (p', ad') \<Longrightarrow> gate_step (p, cs) (p', cs(c := Some ad'))"
| closed: "cs c = Some ad \<Longrightarrow> gate_step (p, cs) (close_client (p, ad), cs(c := None))"
| booked: "bookkeeping p p' \<Longrightarrow> gate_step (p, cs) (p', cs)"

inductive_cases gate_stepE: "gate_step (p, cs) s"

text \<open>The counters show the sets; no entry of a map is left over.\<close>

definition gate_counts :: "admission_gate \<Rightarrow> waiting \<Rightarrow> bool" where
  "gate_counts g w \<longleftrightarrow>
     finite (dom w) \<and> g_preAuth g = int (card (dom w)) \<and> card (dom w) \<le> 256 \<and>
     (\<forall>who. pending_of g who = int (card (held w who)) \<and> card (held w who) \<le> 32) \<and>
     (\<forall>who n. fmlookup (g_pending g) who = Some n \<longrightarrow> 0 < n)"

lemma bookkeeping_gate:
  "bookkeeping p p' \<Longrightarrow> g_preAuth (px_gate p') = g_preAuth (px_gate p) \<and>
     g_pending (px_gate p') = g_pending (px_gate p)"
  by (induction rule: bookkeeping.induct)
    (auto simp: refuse_def logLimited_def selfTest_def SetAccess_def noteDialFailure_def notifyDial_def Let_def)

lemma gate_counts_same:
  "gate_counts g w \<Longrightarrow> g_preAuth g' = g_preAuth g \<Longrightarrow> g_pending g' = g_pending g \<Longrightarrow> gate_counts g' w"
  by (simp add: gate_counts_def pending_of_def)

lemma held_upd [simp]:
  "held (w(c := Some None)) who = held w who - {c}"
  "held (w(c := None)) who = held w who - {c}"
  "held (w(c := Some (Some v))) who = (if who = v then insert c (held w who) else held w who - {c})"
  by (auto simp: held_def)

lemma held_finite: "finite (dom w) \<Longrightarrow> finite (held w who)"
  unfolding held_def by (erule rev_finite_subset) auto

lemma held_not: "w c \<noteq> Some (Some who) \<Longrightarrow> c \<notin> held w who"
  by (simp add: held_def)

lemma gate_counts_take:
  assumes "gate_counts g w" and "w c = None" and "enterPreAuth g = (g', True)"
  shows "gate_counts g' (w(c := Some None)) \<and> slot_step w (w(c := Some None))"
proof -
  have fin: "finite (dom w)" and n: "g_preAuth g = int (card (dom w))" using assms(1) by (simp_all add: gate_counts_def)
  have c: "c \<notin> dom w" using assms(2) by auto
  note cnt = pre_auth.enter_counts [OF assms(3) fin n c]
  have pend: "g_pending g' = g_pending g" using slots_apart(4) [of g] assms(3) by simp
  have "pending_of g' who = pending_of g who" for who by (simp add: pending_of_def pend)
  moreover have "held w who - {c} = held w who" for who using held_not [of w c who] assms(2) by simp
  moreover have "dom (w(c := Some None)) = insert c (dom w)" by auto
  ultimately have "gate_counts g' (w(c := Some None))"
    using assms(1) cnt c fin by (simp add: gate_counts_def pend preAuthMax_def del: dom_fun_upd)
  moreover have "card (dom w) < 256" using cnt(2) c fin by (simp add: preAuthMax_def)
  ultimately show ?thesis using assms(2) slot_step.take by blast
qed

lemma gate_counts_name:
  assumes "gate_counts g w" and "w c = Some None" and "enterUnauth who g = (g', True)"
  shows "gate_counts g' (w(c := Some (Some who))) \<and> slot_step w (w(c := Some (Some who)))"
proof -
  let ?S = "held w"
  have fin: "finite (?S v)" for v using assms(1) held_finite by (auto simp: gate_counts_def)
  have n: "pending_of g v = int (card (?S v))" for v using assms(1) by (simp add: gate_counts_def)
  have c: "c \<notin> ?S v" for v using held_not [of w c v] assms(2) by simp
  note cnt = unauth.enter_counts [OF assms(3) fin n c]
  have rest: "v \<noteq> who \<Longrightarrow> pending_of g' v = pending_of g v" for v using unauth_other(1) [of v who g] assms(3) by simp
  have pre: "g_preAuth g' = g_preAuth g" using slots_apart(1) [of who g] assms(3) by simp
  have pos: "fmlookup (g_pending g') v = Some k \<Longrightarrow> 0 < k" for v k
    using assms(1,3) n [of who] by (auto simp: gate_counts_def enterUnauth_def split: if_splits)
  have dom: "dom (w(c := Some (Some who))) = dom w" using assms(2) by auto
  have "pending_of g' v = int (card (held (w(c := Some (Some who))) v)) \<and>
      card (held (w(c := Some (Some who))) v) \<le> 32" for v
    using cnt rest [of v] n [of v] c assms(1)
    by (cases "v = who") (simp_all add: unauthPerPeer_def gate_counts_def)
  then have "gate_counts g' (w(c := Some (Some who)))"
    using assms(1) pos unfolding gate_counts_def dom pre by blast
  moreover have "card (?S who) < 32" using cnt(2) c fin by (simp add: unauthPerPeer_def)
  ultimately show ?thesis using assms(2) slot_step.name by blast
qed

lemma gate_counts_release:
  assumes "gate_counts g w" and "w c = slot_of ad" and "release (g, ad) = (g', ad')"
  shows "gate_counts g' (w(c := None)) \<and> slot_of ad' = None \<and> (slot_step w (w(c := None)) \<or> w = w(c := None))"
proof (cases "ad_done ad")
  case True
  with assms have "g' = g" "w c = None" "ad' = ad" by (auto simp: release_def slot_of_def)
  moreover from \<open>w c = None\<close> have "w(c := None) = w" by auto
  ultimately show ?thesis using assms True by (simp add: slot_of_def)
next
  case False
  let ?S = "held w"
  let ?g = "if ad_unauth ad then leaveUnauth (ad_unauthID ad) g else g"
  have g': "g' = leavePreAuth ?g" and gone: "slot_of ad' = None"
    using assms(3) False by (auto simp: release_def slot_of_def)
  have cd: "c \<in> dom w" using assms(2) False by (auto simp: slot_of_def)
  have fin: "finite (dom w)" "finite (?S v)" for v using assms(1) held_finite by (auto simp: gate_counts_def)
  have n: "g_preAuth ?g = int (card (dom w))" using assms(1) by (simp add: gate_counts_def slots_apart)
  have pre: "g_preAuth g' = int (card (dom w - {c}))"
    unfolding g' by (rule pre_auth.leave_counts [OF fin(1) n cd])
  have le: "card (dom w - {c}) \<le> 256"
    using assms(1) card_Diff1_le [of "dom w" c] by (simp add: gate_counts_def)
  have old: "pending_of g v = int (card (?S v))" "card (?S v) \<le> 32" for v using assms(1) by (simp_all add: gate_counts_def)
  have pend: "pending_of g' v = int (card (?S v - {c}))" for v
  proof (cases "ad_unauth ad \<and> v = ad_unauthID ad")
    case True
    then have "c \<in> ?S v" using assms(2) False by (simp add: slot_of_def held_def)
    from unauth.leave_counts [OF fin(2) old(1) this] True show ?thesis
      by (simp add: g' pending_of_def slots_apart)
  next
    case F: False
    then have "c \<notin> ?S v" using assms(2) False by (auto simp: slot_of_def held_def)
    moreover have "pending_of g' v = pending_of g v"
      using F unauth_other(2) [of v "ad_unauthID ad" g] by (auto simp: g' pending_of_def slots_apart)
    ultimately show ?thesis using old by simp
  qed
  have small: "card (?S v - {c}) \<le> 32" for v using old(2) [of v] card_Diff1_le [of "?S v" c] by simp
  have pos: "fmlookup (g_pending g') v = Some k \<Longrightarrow> 0 < k" for v k
    using assms(1) by (auto simp: g' slots_apart leaveUnauth_def gate_counts_def split: if_splits)
  have "dom (w(c := None)) = dom w - {c}" by auto
  then have "gate_counts g' (w(c := None))"
    using pre le pend small pos fin(1) by (simp add: gate_counts_def del: dom_fun_upd)
  moreover have "slot_step w (w(c := None))" using cd by (auto intro: slot_step.give)
  ultimately show ?thesis using gone by blast
qed

lemma reserve_Some:
  "reserve a cls who p = Some (p', ad) \<Longrightarrow> p' = p \<and> ad = new_admission \<or>
     (\<exists>g. enterUnauth who (px_gate p) = (g, True) \<and> p' = p\<lparr>px_gate := g\<rparr> \<and>
        ad = new_admission\<lparr>ad_unauth := True, ad_unauthID := who\<rparr>)"
proof -
  assume r: "reserve a cls who p = Some (p', ad)"
  obtain g ok where e: "enterUnauth who (px_gate p) = (g, ok)" by fastforce
  from r show ?thesis by (cases ok) (simp_all add: reserve_def e split: if_splits)
qed

text \<open>One step of the forwarder is one step of the specification, or none.\<close>

lemma gate_step_refines:
  assumes "gate_step s s'" and "gate_counts (px_gate (fst s)) (waiting_of (snd s))"
  shows "gate_counts (px_gate (fst s')) (waiting_of (snd s')) \<and>
     (slot_step (waiting_of (snd s)) (waiting_of (snd s')) \<or> waiting_of (snd s') = waiting_of (snd s))"
  using assms
proof (induction rule: gate_step.induct)
  case (accepted cs c p g)
  have w: "waiting_of (cs(c := Some new_admission)) = (waiting_of cs)(c := Some None)"
    by (auto simp: waiting_of_def slot_of_def new_admission_def)
  have "waiting_of cs c = None" using accepted by (simp add: waiting_of_def)
  with gate_counts_take [of "px_gate p" "waiting_of cs" c g] accepted
  have "gate_counts g ((waiting_of cs)(c := Some None))" "slot_step (waiting_of cs) ((waiting_of cs)(c := Some None))"
    by simp_all
  then show ?case by (simp add: w del: fun_upd_apply)
next
  case (turned_away p g cs)
  then show ?case by (auto simp: enterPreAuth_def split: if_splits)
next
  case (reserved cs c a cls who p p' ad)
  have w: "waiting_of cs c = Some None" using reserved by (simp add: waiting_of_def slot_of_def new_admission_def)
  from reserve_Some [OF reserved(2)] show ?case
  proof
    assume "p' = p \<and> ad = new_admission"
    with reserved show ?thesis by (simp add: fun_upd_idem)
  next
    assume "\<exists>g. enterUnauth who (px_gate p) = (g, True) \<and> p' = p\<lparr>px_gate := g\<rparr> \<and>
      ad = new_admission\<lparr>ad_unauth := True, ad_unauthID := who\<rparr>"
    then obtain g where g: "enterUnauth who (px_gate p) = (g, True)" "p' = p\<lparr>px_gate := g\<rparr>"
      "slot_of ad = Some (Some who)" by (auto simp: slot_of_def new_admission_def)
    then have e: "waiting_of (cs(c := Some ad)) = (waiting_of cs)(c := Some (Some who))"
      by (auto simp: waiting_of_def)
    from gate_counts_name [of "px_gate p" "waiting_of cs" c who g] w g(1) reserved(3)
    have "gate_counts g ((waiting_of cs)(c := Some (Some who)))"
      "slot_step (waiting_of cs) ((waiting_of cs)(c := Some (Some who)))" by simp_all
    then show ?thesis by (simp add: g(2) e del: fun_upd_apply)
  qed
next
  case (admitted cs c ad p p' ad')
  from admitted(2) obtain g where g: "release (px_gate p, ad) = (g, ad')" "p' = p\<lparr>px_gate := g\<rparr>"
    by (auto simp: admit_def split: prod.splits)
  have "waiting_of cs c = slot_of ad" using admitted by (simp add: waiting_of_def)
  with gate_counts_release [of "px_gate p" "waiting_of cs" c ad g ad'] g(1) admitted(3)
  have r: "gate_counts g ((waiting_of cs)(c := None))" "slot_of ad' = None"
    "slot_step (waiting_of cs) ((waiting_of cs)(c := None)) \<or> waiting_of cs = (waiting_of cs)(c := None)" by auto
  moreover have "waiting_of (cs(c := Some ad')) = (waiting_of cs)(c := None)"
    using r(2) by (auto simp: waiting_of_def)
  ultimately show ?case using g by (auto simp del: fun_upd_apply)
next
  case (closed cs c ad p)
  obtain g ad' where g: "release (px_gate p, ad) = (g, ad')" by fastforce
  have "waiting_of cs c = slot_of ad" using closed by (simp add: waiting_of_def)
  with gate_counts_release [of "px_gate p" "waiting_of cs" c ad g ad'] g closed(2)
  have "gate_counts g ((waiting_of cs)(c := None))"
    "slot_step (waiting_of cs) ((waiting_of cs)(c := None)) \<or> waiting_of cs = (waiting_of cs)(c := None)" by auto
  moreover have "waiting_of (cs(c := None)) = (waiting_of cs)(c := None)" by (auto simp: waiting_of_def)
  ultimately show ?case using g by (auto simp: close_client_def simp del: fun_upd_apply)
next
  case (booked p p' cs)
  with bookkeeping_gate [OF booked(1)] gate_counts_same show ?case by simp
qed

subsection \<open>The whole handler is such steps\<close>

lemma booked_star: "bookkeeping\<^sup>*\<^sup>* p p' \<Longrightarrow> gate_step\<^sup>*\<^sup>* (p, cs) (p', cs)"
  by (induction rule: rtranclp_induct) (auto intro: rtranclp.rtrancl_into_rtrancl gate_step.booked)

lemma auth_books: "socksAuth now a cls who p c = (p', c', ok) \<Longrightarrow> bookkeeping\<^sup>*\<^sup>* p p'"
  by (auto simp: socksAuth_def socks_password_def Let_def split: option.splits if_splits prod.splits bool.splits
      intro: bookkeeping.intros)

lemma http_books: "httpAuthorized now vals a cls who p = (p', ok) \<Longrightarrow> bookkeeping\<^sup>*\<^sup>* p p'"
  by (auto simp: httpAuthorized_def Let_def split: if_splits intro: bookkeeping.intros)

lemma dial_books: "dial_and_reply dial now bad good target p c = (p', c', v) \<Longrightarrow> bookkeeping\<^sup>*\<^sup>* p p'"
proof (cases "dial target")
  case None
  assume "dial_and_reply dial now bad good target p c = (p', c', v)"
  with None have "p' = notifyDial target False p" by (auto simp: dial_and_reply_def split: prod.splits)
  then show ?thesis using bookkeeping.notified by blast
next
  case (Some err)
  assume "dial_and_reply dial now bad good target p c = (p', c', v)"
  with Some have "p' = notifyDial target True (noteDialFailure now err p)" by (auto simp: dial_and_reply_def)
  moreover have "bookkeeping\<^sup>*\<^sup>* p (notifyDial target True (noteDialFailure now err p))"
    using bookkeeping.failed [of p now err] bookkeeping.notified
    by (meson rtranclp.rtrancl_refl rtranclp.rtrancl_into_rtrancl)
  ultimately show ?thesis by simp
qed

lemma admit_dial_run:
  assumes "cs k = Some ad" and "admit (p, ad) = (p1, ad1)"
    and "dial_and_reply dial now bad good target p1 c = (p2, c', v)"
  shows "gate_step\<^sup>*\<^sup>* (p, cs) (p2, cs(k := Some ad1))"
  using gate_step.admitted [of cs k ad, OF assms(1,2)] booked_star [OF dial_books [OF assms(3)]]
  by (rule converse_rtranclp_into_rtranclp)

lemma socks_run:
  assumes k: "cs k = Some ad" and h: "handleSocks5 dial now a cls who (p, ad) c = ((p', ad'), c', v)"
  shows "gate_step\<^sup>*\<^sup>* (p, cs) (p', cs(k := Some ad'))"
proof -
  obtain p1 c1 ok where s: "socksAuth now a cls who p c = (p1, c1, ok)" by (metis prod_cases3)
  note b = booked_star [OF auth_books [OF s], of cs]
  have idle: "p' = p1 \<Longrightarrow> ad' = ad \<Longrightarrow> ?thesis" using b k by (simp add: fun_upd_idem)
  show ?thesis
  proof (cases "\<exists>hdr c2 target c3. ok \<and> read_full 4 c1 = Some (hdr, c2) \<and> hdr ! 0 = 0x05 \<and> hdr ! 1 = 0x01 \<and>
      readSocks5Target (hdr ! 3) c2 = Some (target, c3)")
    case True
    then obtain hdr c2 target c3 where t: "ok" "read_full 4 c1 = Some (hdr, c2)" "hdr ! 0 = 0x05" "hdr ! 1 = 0x01"
      "readSocks5Target (hdr ! 3) c2 = Some (target, c3)" by blast
    obtain p2 ad2 where ad: "admit (p1, ad) = (p2, ad2)" by fastforce
    obtain p3 c4 v' where d: "dial_and_reply dial now (socks5Reply 0x05) (socks5Reply 0x00) target p2 c3 = (p3, c4, v')"
      by (metis prod_cases3)
    from h s t ad d have "p' = p3" "ad' = ad2" by (simp_all add: handleSocks5_def)
    with rtranclp_trans [OF b admit_dial_run [of cs k ad, OF k ad d]] show ?thesis by simp
  next
    case False
    with h s have "p' = p1 \<and> ad' = ad"
      by (cases ok) (auto simp: handleSocks5_def split: option.splits if_splits)
    with idle show ?thesis by simp
  qed
qed

lemma http_run:
  assumes k: "cs k = Some ad" and h: "handleHTTP RR dial now a cls who (p, ad) c = ((p', ad'), c', v)"
  shows "gate_step\<^sup>*\<^sup>* (p, cs) (p', cs(k := Some ad'))"
proof (cases "RR (take httpHeadLimit (cn_in c))")
  case (BadRequest e)
  with h have "p' = p" "ad' = ad" by (simp_all add: handleHTTP_def Let_def)
  with k show ?thesis by (simp add: fun_upd_idem)
next
  case (Request req n)
  obtain p1 ok where s: "httpAuthorized now (rq_ProxyAuth req) a cls who p = (p1, ok)" by fastforce
  note b = booked_star [OF http_books [OF s], of cs]
  show ?thesis
  proof (cases "ok \<and> rq_Method req = ''CONNECT'' \<and> rq_Host req \<noteq> []")
    case True
    obtain p2 ad2 where ad: "admit (p1, ad) = (p2, ad2)" by fastforce
    obtain p3 c4 v' where d: "dial_and_reply dial now (no_body ''502 Bad Gateway'') established (rq_Host req) p2
        (c\<lparr>cn_in := drop n (cn_in c)\<rparr>) = (p3, c4, v')" by (metis prod_cases3)
    from h Request s True ad d have "p' = p3" "ad' = ad2" by (simp_all add: handleHTTP_def)
    with rtranclp_trans [OF b admit_dial_run [of cs k ad, OF k ad d]] show ?thesis by simp
  next
    case False
    with h Request s have "p' = p1 \<and> ad' = ad" by (auto simp: handleHTTP_def Let_def split: if_splits)
    with b k show ?thesis by (simp add: fun_upd_idem)
  qed
qed

lemma serve_run:
  assumes "cs k = Some ad" and "serve_client RR dial now a cls who (p, ad) c = ((p', ad'), c', v)"
  shows "gate_step\<^sup>*\<^sup>* (p, cs) (p', cs(k := Some ad'))"
  using assms socks_run [of cs k ad] http_run [of cs k ad]
  by (cases "cn_in c") (auto simp: serve_client_def fun_upd_idem split: if_splits)

text \<open>One connection served with nothing in between: it takes its slots and gives them back.\<close>

lemma handle_run:
  assumes k: "cs k = None" and h: "handle RR dial lookup now tuple p c = (p', c', v)"
  shows "gate_step\<^sup>*\<^sup>* (p, cs) (p', cs)"
proof -
  obtain g ok where e: "enterPreAuth (px_gate p) = (g, ok)" by fastforce
  show ?thesis
  proof (cases ok)
    case False
    with h e have "p' = p" by (simp add: handle_def)
    then show ?thesis by simp
  next
    case True
    let ?p = "p\<lparr>px_gate := g\<rparr>" and ?cs = "cs(k := Some new_admission)"
    obtain cls who where cc: "client_class lookup tuple ?p (currentAccess ?p) = (cls, who)" by fastforce
    have 1: "gate_step (p, cs) (?p, ?cs)" using gate_step.accepted [of cs k p g] k e True by simp
    have undo: "?cs(k := Some x, k := None) = cs" for x using k by auto
    show ?thesis
    proof (cases "reserve (currentAccess ?p) cls who ?p")
      case None
      with h e True cc have "p' = close_client (?p, new_admission)" by (simp add: handle_def Let_def)
      moreover have "gate_step (?p, ?cs) (close_client (?p, new_admission), ?cs(k := None))"
        by (rule gate_step.closed) simp
      moreover have "?cs(k := None) = cs" using k by auto
      ultimately show ?thesis using 1 by (metis r_into_rtranclp rtranclp.rtrancl_into_rtrancl)
    next
      case (Some s)
      obtain p1 ad where s: "s = (p1, ad)" by fastforce
      have 2: "gate_step (?p, ?cs) (p1, ?cs(k := Some ad))"
        by (rule gate_step.reserved [of _ k]) (use Some s in simp_all)
      obtain p2 ad2 c2 v2 where sc: "serve_client RR dial now (currentAccess ?p) cls who (p1, ad) c = ((p2, ad2), c2, v2)"
        by (metis prod_cases3 surj_pair)
      have 3: "gate_step\<^sup>*\<^sup>* (p1, ?cs(k := Some ad)) (p2, ?cs(k := Some ad2))"
        using serve_run [of "?cs(k := Some ad)" k ad, OF _ sc] by simp
      have 4: "gate_step (p2, ?cs(k := Some ad2)) (close_client (p2, ad2), cs)"
        using gate_step.closed [of "?cs(k := Some ad2)" k ad2 p2] by (simp add: undo [simplified])
      from h e True cc Some s sc have "p' = close_client (p2, ad2)" by (simp add: handle_def Let_def)
      with 1 2 3 4 show ?thesis
        by (meson converse_rtranclp_into_rtranclp rtranclp.rtrancl_into_rtrancl)
    qed
  qed
qed

subsection \<open>The refinement\<close>

lemma gate_counts_new: "gate_counts (new_gate holder) (waiting_of (\<lambda>_. None))"
  by (simp add: gate_counts_def new_gate_def waiting_of_def pending_of_def held_def dom_def)

lemma gate_run_refines:
  "gate_step\<^sup>*\<^sup>* s0 s \<Longrightarrow> gate_counts (px_gate (fst s0)) (waiting_of (snd s0)) \<Longrightarrow>
     gate_counts (px_gate (fst s)) (waiting_of (snd s)) \<and>
     slot_step\<^sup>*\<^sup>* (waiting_of (snd s0)) (waiting_of (snd s))"
proof (induction rule: rtranclp_induct)
  case (step s s')
  from gate_step_refines [OF step(2)] step show ?case
    by (metis rtranclp.rtrancl_into_rtrancl)
qed simp

lemma gate_empty:
  assumes "gate_counts g (waiting_of (\<lambda>_. None))"
  shows "g_preAuth g = 0 \<and> g_pending g = fmempty"
proof
  have e: "dom (waiting_of (\<lambda>_. None)) = {}" "held (waiting_of (\<lambda>_. None)) who = {}" for who
    by (auto simp: waiting_of_def held_def)
  show "g_preAuth g = 0" using assms by (simp add: gate_counts_def e)
  have "fmlookup (g_pending g) who = None" for who
  proof (rule ccontr)
    assume "fmlookup (g_pending g) who \<noteq> None"
    then obtain n where "fmlookup (g_pending g) who = Some n" by auto
    moreover have "pending_of g who = 0" using assms by (simp add: gate_counts_def e)
    moreover have "0 < n" using assms calculation(1) by (auto simp: gate_counts_def)
    ultimately show False by (simp add: pending_of_def)
  qed
  then show "g_pending g = fmempty" by (intro fmap_ext) simp
qed

text \<open>
  C12. The counters of the gate refine the sets of the connections that hold a slot. However the
  connections of a new forwarder interleave, each step is a step of the specification or leaves
  it alone; the counts are the sizes of the sets, at most 256 waiting and 32 for a principal; a
  slot is refused exactly when its set is full; when no connection is waiting nothing is counted;
  and serving one whole connection is such a run, which leaves every other one as it was.
\<close>
theorem gate_refines_slots:
  assumes "gate_step\<^sup>*\<^sup>* (p0, \<lambda>_. None) (p, cs)" and "px_gate p0 = new_gate holder"
  shows "slot_step\<^sup>*\<^sup>* (\<lambda>_. None) (waiting_of cs) \<and> gate_counts (px_gate p) (waiting_of cs) \<and>
     (snd (enterPreAuth (px_gate p)) \<longleftrightarrow> card (dom (waiting_of cs)) < 256) \<and>
     (\<forall>who. snd (enterUnauth who (px_gate p)) \<longleftrightarrow> card (held (waiting_of cs) who) < 32) \<and>
     (cs = (\<lambda>_. None) \<longrightarrow> g_preAuth (px_gate p) = 0 \<and> g_pending (px_gate p) = fmempty) \<and>
     (\<forall>RR dial lookup now tuple c p' c' v k. cs k = None \<and> handle RR dial lookup now tuple p c = (p', c', v) \<longrightarrow>
        gate_step\<^sup>*\<^sup>* (p, cs) (p', cs))"
proof -
  have e: "waiting_of (\<lambda>_. None) = (\<lambda>_. None)" by (auto simp: waiting_of_def)
  from gate_run_refines [OF assms(1)] gate_counts_new [of holder] assms(2)
  have g: "gate_counts (px_gate p) (waiting_of cs)" and s: "slot_step\<^sup>*\<^sup>* (\<lambda>_. None) (waiting_of cs)"
    by (simp_all add: e)
  have "snd (enterPreAuth (px_gate p)) \<longleftrightarrow> card (dom (waiting_of cs)) < 256"
    using pre_auth.enter_iff [of "px_gate p"] g by (simp add: gate_counts_def preAuthMax_def)
  moreover have "snd (enterUnauth who (px_gate p)) \<longleftrightarrow> card (held (waiting_of cs) who) < 32" for who
    using unauth.enter_iff [of who "px_gate p"] g by (simp add: gate_counts_def unauthPerPeer_def)
  moreover have "cs = (\<lambda>_. None) \<longrightarrow> g_preAuth (px_gate p) = 0 \<and> g_pending (px_gate p) = fmempty"
    using g gate_empty by blast
  ultimately show ?thesis using g s handle_run [of cs] by blast
qed

definition example_proxy :: proxy where
  "example_proxy =
     \<lparr>px_addr = ''127.0.0.1:8080'', px_access = None,
      px_gate = (new_gate ''u:1000'')\<lparr>g_identityOK := True\<rparr>, px_log = [], px_failure = None,
      px_observed = False, px_dials = []\<rparr>"

definition fresh_proxy :: proxy where
  "fresh_proxy = example_proxy\<lparr>px_gate := new_gate ''u:1000''\<rparr>"

lemma gate_refines_slots_witness:
  "\<exists>p cs. gate_step\<^sup>*\<^sup>* (fresh_proxy, \<lambda>_. None) (p, cs) \<and> g_preAuth (px_gate p) = 1 \<and>
     card (dom (waiting_of cs)) = 1 \<and> slot_step\<^sup>*\<^sup>* (\<lambda>_. None) (waiting_of cs)"
proof -
  let ?g = "(new_gate ''u:1000'')\<lparr>g_preAuth := 1\<rparr>"
  let ?p = "fresh_proxy\<lparr>px_gate := ?g\<rparr>" and ?cs = "(\<lambda>_. None)((0 :: nat) := Some new_admission)"
  have "gate_step (fresh_proxy, \<lambda>_. None) (?p, ?cs)"
    by (rule gate_step.accepted) (simp_all add: fresh_proxy_def enterPreAuth_def new_gate_def preAuthMax_def)
  then have r: "gate_step\<^sup>*\<^sup>* (fresh_proxy, \<lambda>_. None) (?p, ?cs)" by (rule r_into_rtranclp)
  from gate_refines_slots [OF r, of "''u:1000''"]
  have "gate_counts ?g (waiting_of ?cs)" "slot_step\<^sup>*\<^sup>* (\<lambda>_. None) (waiting_of ?cs)"
    by (simp_all add: fresh_proxy_def)
  with r show ?thesis by (intro exI [of _ ?p] exI [of _ ?cs]) (simp add: gate_counts_def)
qed

end
