(* ===== verification/GoInert.thy ===== *)
theory GoInert
  imports GoNet
begin

text \<open>
  The characters of the textual forms of addresses and numbers: none ends a line or a field of a
  request or of a document.
\<close>

text \<open>A character that ends neither a line nor a field.\<close>

definition inert :: "char \<Rightarrow> bool" where
  "inert c \<longleftrightarrow> CHR 0x20 < c \<and> c \<noteq> CHR 0x7F"

lemma inert_chars [simp]:
  "\<not> inert (CHR 0x0D)" "\<not> inert (CHR 0x0A)" "\<not> inert (CHR '' '')"
  "inert (CHR '':'')" "inert (CHR ''.'')" "inert (CHR ''f'')" "inert (CHR ''['')" "inert (CHR '']'')"
  by code_simp+

lemma inert_not_break: "list_all inert s \<Longrightarrow> CHR 0x0D \<notin> set s \<and> CHR 0x0A \<notin> set s \<and> CHR '' '' \<notin> set s"
  unfolding list_all_iff using inert_chars(1-3) by blast

lemma is_graph_inert: "list_all is_graph s \<Longrightarrow> list_all inert s"
  by (auto simp: list_all_iff is_graph_def inert_def less_char_def)

subsection \<open>Numbers and addresses\<close>

lemma digit_inert: "is_digit c \<Longrightarrow> inert c \<and> c \<noteq> CHR '':''"
proof -
  assume "is_digit c"
  then have "of_char c \<in> {48..57 :: nat}" by (auto simp: is_digit_def less_eq_char_def)
  moreover have "of_char (CHR '':'') = (58 :: nat)" "of_char (CHR 0x20) = (32 :: nat)" "of_char (CHR 0x7F) = (127 :: nat)"
    by code_simp+
  ultimately show ?thesis by (auto simp: inert_def less_char_def)
qed

lemma dec_nat_inert: "list_all inert (dec_nat n)" and dec_nat_colon: "CHR '':'' \<notin> set (dec_nat n)"
  using list_all_digit_dec_nat [of n] digit_inert by (auto simp: list_all_iff)

lemma v4_string_inert: "list_all inert (v4_string v)" and v4_string_colon: "CHR '':'' \<notin> set (v4_string v)"
  using dec_nat_inert dec_nat_colon by (auto simp: v4_string_def list_all_iff)

lemma v4_string_nonempty: "v4_string v \<noteq> []"
  by (simp add: v4_string_def)

lemma hex_digit_inert: "n < 16 \<Longrightarrow> inert (hex_digit n)"
proof -
  have "list_all (\<lambda>n. inert (hex_digit n)) [0..<16]" by code_simp
  then show "n < 16 \<Longrightarrow> ?thesis" by (simp add: list_all_iff)
qed

lemma hex_nat_inert: "list_all inert (hex_nat n)"
  by (induction n rule: hex_nat.induct) (subst hex_nat.simps, simp add: hex_digit_inert)

lemma groups_from_inert: "list_all inert (groups_from gs st en n i)"
  by (induction n arbitrary: i) (auto simp: hex_nat_inert)

lemma v6_string_inert: "list_all inert (v6_string v)"
  unfolding v6_string_def Let_def
  by (simp add: groups_from_inert del: best_run.simps groups_from.simps split: prod.split)

lemma addr_String_inert: "Zone a = [] \<Longrightarrow> list_all inert (addr_String a)"
  by (cases a) (simp_all add: addr_String_def v4_string_inert v6_string_inert Zone_def)

end
