(* ===== verification/EgrTarget.thy ===== *)
theory EgrTarget
  imports EgrSafety GoInert
begin

text \<open>
  What a SOCKS5 client can put into the request that carries the bearer of the agent
  (\<open>internal/egress/proxy.go\<close>: \<open>readSocks5Target\<close> and \<open>upstream.Dial\<close>).
\<close>

subsection \<open>Names\<close>




subsection \<open>Numeric hosts\<close>


subsection \<open>The target and the request\<close>








text \<open>
  The zone of an IPv6 literal is any text, so a name can hold a bracket and a second port: the
  target of \<open>::1%]:22\<close> and port 80 ends in the port asked for, and has the other one in it.
\<close>

lemma zone_parsed: "ParseAddr ''::1%]:22'' = Some (Addr6 1 '']:22'')"
  by code_simp

lemma zone_name: "socks_name (bytes_of ''::1%]:22'') = Some ''::1%]:22''"
proof -
  have "\<not> list_ex bad_name_byte (bytes_of ''::1%]:22'')" by code_simp
  then show ?thesis by (simp only: socks_name_def zone_parsed string_of_bytes_of Is4_Addr option.case) simp
qed

lemma zone_reaches_target:
  "readSocks5Target 0x03 \<lparr>cn_in = [8] @ bytes_of ''::1%]:22'' @ [0, 80], cn_out = [], cn_writes = None\<rparr> =
     Some (''[::1%]:22]:80'', \<lparr>cn_in = [], cn_out = [], cn_writes = None\<rparr>)"
proof -
  have "JoinHostPort ''::1%]:22'' (dec_nat 80) = ''[::1%]:22]:80''" by code_simp
  then show ?thesis
    by (simp add: readSocks5Target_def socks_host_def read_full_def zone_name del: bytes_of_append)
qed

end
