(* ===== verification/PeerTables.thy ===== *)
theory PeerTables
  imports PeerId
begin

text \<open>
  The decoders of \<open>internal/peerid/peerid.go\<close> for macOS and Windows and the lookups of
  \<open>peerid_darwin.go\<close> and \<open>peerid_windows.go\<close>. What the system calls return is an argument.
\<close>

subsection \<open>macOS: the records of net.inet.tcp.pcblist_n\<close>

definition xsoSocket :: "32 word" where "xsoSocket = 0x001"
definition xsoInpcb :: "32 word" where "xsoInpcb = 0x010"
definition xsoTcpcb :: "32 word" where "xsoTcpcb = 0x020"
definition xinpgenLen :: nat where "xinpgenLen = 24"
definition xinpMin :: nat where "xinpMin = 80"
definition xsoMin :: nat where "xsoMin = 76"
definition xtcpMin :: nat where "xtcpMin = 40"

record darwin_pcb =
  dp_inpp :: "64 word"
  dp_local :: addr_port
  dp_remote :: addr_port
  dp_uid :: "32 word"
  dp_pids :: "int \<times> int"
  dp_haveSock :: bool
  dp_state :: int
  dp_haveState :: bool

record pcb_match =
  pm_uid :: "32 word"
  pm_pids :: "int \<times> int"

abbreviation le32 :: "bytes \<Rightarrow> nat \<Rightarrow> 32 word" where
  "le32 b i \<equiv> get_u Little (slice b i 4)"

abbreviation le64 :: "bytes \<Rightarrow> nat \<Rightarrow> 64 word" where
  "le64 b i \<equiv> get_u Little (slice b i 8)"

definition roundUp8 :: "nat \<Rightarrow> nat" where
  "roundUp8 n = (n + 7) div 8 * 8"

definition new_pcb :: "bytes \<Rightarrow> ip_addr \<Rightarrow> ip_addr \<Rightarrow> darwin_pcb" where
  "new_pcb r la fa =
     \<lparr>dp_inpp = le64 r 8, dp_local = \<lparr>ap_Addr = la, ap_Port = be_val (slice r 18 2)\<rparr>,
      dp_remote = \<lparr>ap_Addr = fa, ap_Port = be_val (slice r 16 2)\<rparr>, dp_uid = 0, dp_pids = (0, 0),
      dp_haveSock = False, dp_state = 0, dp_haveState = False\<rparr>"

definition parseXinpcb :: "bytes \<Rightarrow> darwin_pcb option" where
  "parseXinpcb r =
     (let v = r ! 44 in
      if v AND 0x1 \<noteq> 0 then
        Some (new_pcb r (Addr4 (be_val (slice r 76 4))) (Addr4 (be_val (slice r 60 4))))
      else if v AND 0x2 \<noteq> 0 then
        Some (new_pcb r (Addr6 (be_val (slice r 64 16)) []) (Addr6 (be_val (slice r 48 16)) []))
      else None)"

definition pcb_check :: "addr_port \<Rightarrow> addr_port \<Rightarrow> darwin_pcb option \<Rightarrow> pcb_match option" where
  "pcb_check client server cur =
     (case cur of
        None \<Rightarrow> None
      | Some p \<Rightarrow>
          if \<not> dp_haveSock p \<or> \<not> dp_haveState p \<or> \<not> sameTuple (dp_local p) (dp_remote p) client server
          then None
          else if dp_state p \<noteq> 4 \<and> dp_state p \<noteq> 6 \<and> dp_state p \<noteq> 9 then None
          else Some \<lparr>pm_uid = dp_uid p, pm_pids = dp_pids p\<rparr>)"

text \<open>What is reported once the walk is past a pcb: the first hit stays.\<close>

definition pcb_settle ::
    "addr_port \<Rightarrow> addr_port \<Rightarrow> darwin_pcb option \<Rightarrow> pcb_match option \<Rightarrow> pcb_match option" where
  "pcb_settle client server cur hit = (case hit of None \<Rightarrow> pcb_check client server cur | Some m \<Rightarrow> Some m)"

definition pcb_socket :: "bytes \<Rightarrow> darwin_pcb \<Rightarrow> darwin_pcb" where
  "pcb_socket r p =
     (if length r \<ge> xsoMin \<and> le64 r 28 = dp_inpp p \<and> le32 r 36 = 6 \<and> (le32 r 40 = 2 \<or> le32 r 40 = 30)
      then p\<lparr>dp_uid := le32 r 64, dp_pids := (sint (le32 r 68), sint (le32 r 72)), dp_haveSock := True\<rparr>
      else p)"

definition pcb_tcp :: "bytes \<Rightarrow> darwin_pcb \<Rightarrow> darwin_pcb" where
  "pcb_tcp r p =
     (if length r \<ge> xtcpMin \<and> 0 \<le> sint (le32 r 36) \<and> sint (le32 r 36) \<le> 10
      then p\<lparr>dp_state := sint (le32 r 36), dp_haveState := True\<rparr> else p)"

definition pcb_record ::
    "addr_port \<Rightarrow> addr_port \<Rightarrow> 32 word \<Rightarrow> bytes \<Rightarrow> darwin_pcb option \<times> pcb_match option
       \<Rightarrow> darwin_pcb option \<times> pcb_match option" where
  "pcb_record client server kind r st =
     (case st of (cur, hit) \<Rightarrow>
        if kind = xsoInpcb then
          (if length r \<ge> xinpMin then parseXinpcb r else None, pcb_settle client server cur hit)
        else if kind = xsoSocket then (map_option (pcb_socket r) cur, hit)
        else if kind = xsoTcpcb then (map_option (pcb_tcp r) cur, hit)
        else (cur, hit))"

function pcb_walk ::
    "bytes \<Rightarrow> addr_port \<Rightarrow> addr_port \<Rightarrow> 64 word \<Rightarrow> darwin_pcb option \<times> pcb_match option \<Rightarrow> nat
       \<Rightarrow> pcb_match option \<times> bool" where
  "pcb_walk buf client server headGen st off =
     (if off + 8 \<le> length buf then
        (let l = unat (le32 buf off); kind = le32 buf (off + 4) in
         if l \<le> xinpgenLen \<or> l > length buf - off then
           (pcb_settle client server (fst st) (snd st),
            l = xinpgenLen \<and> length buf - off \<ge> xinpgenLen \<and> le64 buf (off + 8) = headGen)
         else
           pcb_walk buf client server headGen (pcb_record client server kind (slice buf off l) st)
             (off + roundUp8 l))
      else (pcb_settle client server (fst st) (snd st), False))"
  by pat_completeness auto
termination
  by (relation "measure (\<lambda>(buf, _, _, _, _, off). length buf - off)")
    (auto simp: roundUp8_def xinpgenLen_def)

declare pcb_walk.simps [simp del]

definition pcblistOwner :: "bytes \<Rightarrow> addr_port \<Rightarrow> addr_port \<Rightarrow> pcb_match option \<times> bool" where
  "pcblistOwner buf client server =
     (if length buf < xinpgenLen then (None, False)
      else
        (let headLen = unat (le32 buf 0) in
         if headLen < xinpgenLen \<or> headLen > length buf then (None, False)
         else pcb_walk buf client server (le64 buf 8) (None, None) (roundUp8 headLen)))"

text \<open>
  The lookup: \<open>reads\<close> are the copies of the list the kernel gives, one for each attempt, and
  \<open>pid\<close> is this process.
\<close>

fun lookup_darwin_tries ::
    "nat \<Rightarrow> (nat \<Rightarrow> bytes option) \<Rightarrow> 32 word \<Rightarrow> principal \<Rightarrow> int \<Rightarrow> addr_port \<Rightarrow> addr_port \<Rightarrow> nat
       \<Rightarrow> peer option" where
  "lookup_darwin_tries 0 reads ov self pid c s k = None"
| "lookup_darwin_tries (Suc n) reads ov self pid c s k =
     (case reads k of
        None \<Rightarrow> None
      | Some buf \<Rightarrow>
          (case pcblistOwner buf c s of
             (m, False) \<Rightarrow> lookup_darwin_tries n reads ov self pid c s (k + 1)
           | (None, True) \<Rightarrow> None
           | (Some m, True) \<Rightarrow>
               (let who = UID ov (pm_uid m) in
                if who = Unknown then None
                else Some \<lparr>pr_ID = who, pr_Mine = needMine self who \<and> fst (pm_pids m) = pid\<rparr>)))"

definition lookup_darwin ::
    "(nat \<Rightarrow> bytes option) \<Rightarrow> 32 word \<Rightarrow> principal \<Rightarrow> int \<Rightarrow> addr_port option \<Rightarrow> addr_port option
       \<Rightarrow> peer option" where
  "lookup_darwin reads ov self pid client server =
     (case (client, server) of
        (Some c, Some s) \<Rightarrow> lookup_darwin_tries 2 reads ov self pid c s 0
      | _ \<Rightarrow> None)"

subsection \<open>What a hit rests on\<close>

text \<open>The records of the list, as a reader of the format sees them.\<close>

function pcb_records :: "bytes \<Rightarrow> nat \<Rightarrow> (32 word \<times> bytes) list" where
  "pcb_records buf off =
     (if off + 8 \<le> length buf then
        (let l = unat (le32 buf off) in
         if l \<le> xinpgenLen \<or> l > length buf - off then []
         else (le32 buf (off + 4), slice buf off l) # pcb_records buf (off + roundUp8 l))
      else [])"
  by pat_completeness auto
termination
  by (relation "measure (\<lambda>(buf, off). length buf - off)") (auto simp: roundUp8_def xinpgenLen_def)

declare pcb_records.simps [simp del]

text \<open>A pcb record, and the socket and TCP records that follow it before the next pcb.\<close>

definition pcb_group ::
    "(32 word \<times> bytes) list \<Rightarrow> addr_port \<Rightarrow> addr_port \<Rightarrow> pcb_match \<Rightarrow> bool" where
  "pcb_group rs client server m \<longleftrightarrow>
     (\<exists>pre r mid post p so tp.
        rs = pre @ (xsoInpcb, r) # mid @ post \<and> xsoInpcb \<notin> fst ` set mid \<and>
        xinpMin \<le> length r \<and> parseXinpcb r = Some p \<and> sameTuple (dp_local p) (dp_remote p) client server \<and>
        (xsoSocket, so) \<in> set mid \<and> xsoMin \<le> length so \<and> le64 so 28 = dp_inpp p \<and> le32 so 36 = 6 \<and>
        le32 so 40 \<in> {2, 30} \<and>
        m = \<lparr>pm_uid = le32 so 64, pm_pids = (sint (le32 so 68), sint (le32 so 72))\<rparr> \<and>
        (xsoTcpcb, tp) \<in> set mid \<and> xtcpMin \<le> length tp \<and> sint (le32 tp 36) \<in> {4, 6, 9})"

definition pcb_seen :: "(32 word \<times> bytes) list \<Rightarrow> darwin_pcb \<Rightarrow> darwin_pcb \<Rightarrow> bool" where
  "pcb_seen mid p0 p \<longleftrightarrow>
     xsoInpcb \<notin> fst ` set mid \<and> dp_local p = dp_local p0 \<and> dp_remote p = dp_remote p0 \<and>
     dp_inpp p = dp_inpp p0 \<and>
     (dp_haveSock p \<longrightarrow> (\<exists>so. (xsoSocket, so) \<in> set mid \<and> xsoMin \<le> length so \<and> le64 so 28 = dp_inpp p0 \<and>
        le32 so 36 = 6 \<and> le32 so 40 \<in> {2, 30} \<and> dp_uid p = le32 so 64 \<and>
        dp_pids p = (sint (le32 so 68), sint (le32 so 72)))) \<and>
     (dp_haveState p \<longrightarrow> (\<exists>tp. (xsoTcpcb, tp) \<in> set mid \<and> xtcpMin \<le> length tp \<and>
        dp_state p = sint (le32 tp 36)))"

definition pcb_open :: "(32 word \<times> bytes) list \<Rightarrow> darwin_pcb \<Rightarrow> bool" where
  "pcb_open rs p \<longleftrightarrow>
     (\<exists>pre r mid p0. rs = pre @ (xsoInpcb, r) # mid \<and> xinpMin \<le> length r \<and> parseXinpcb r = Some p0 \<and>
        pcb_seen mid p0 p)"

lemma pcb_group_append: "pcb_group rs c s m \<Longrightarrow> pcb_group (rs @ ex) c s m"
  unfolding pcb_group_def by fastforce

lemma pcb_kinds: "xsoInpcb \<noteq> xsoSocket" "xsoInpcb \<noteq> xsoTcpcb" "xsoSocket \<noteq> xsoTcpcb"
  by (simp_all add: xsoInpcb_def xsoSocket_def xsoTcpcb_def)

lemma pcb_open_new:
  "xinpMin \<le> length r \<Longrightarrow> parseXinpcb r = Some p \<Longrightarrow> pcb_open (rs @ [(xsoInpcb, r)]) p"
  unfolding pcb_open_def
  by (rule exI [of _ rs], rule exI [of _ r], rule exI [of _ "[]"], rule exI [of _ p])
    (auto simp: pcb_seen_def parseXinpcb_def new_pcb_def Let_def split: if_splits)

lemma pcb_seen_other: "pcb_seen mid p0 p \<Longrightarrow> k \<noteq> xsoInpcb \<Longrightarrow> pcb_seen (mid @ [(k, r)]) p0 p"
  unfolding pcb_seen_def by auto

lemma pcb_seen_socket: "pcb_seen mid p0 p \<Longrightarrow> pcb_seen (mid @ [(xsoSocket, r)]) p0 (pcb_socket r p)"
  unfolding pcb_seen_def pcb_socket_def using pcb_kinds by auto

lemma pcb_seen_tcp: "pcb_seen mid p0 p \<Longrightarrow> pcb_seen (mid @ [(xsoTcpcb, r)]) p0 (pcb_tcp r p)"
  unfolding pcb_seen_def pcb_tcp_def using pcb_kinds by auto

lemma pcb_open_step:
  assumes "pcb_open rs p" and "\<And>mid p0. pcb_seen mid p0 p \<Longrightarrow> pcb_seen (mid @ [x]) p0 p'"
  shows "pcb_open (rs @ [x]) p'"
proof -
  from assms(1) obtain pre r mid p0 where "rs = pre @ (xsoInpcb, r) # mid" "xinpMin \<le> length r"
    "parseXinpcb r = Some p0" "pcb_seen mid p0 p"
    unfolding pcb_open_def by blast
  moreover have "rs @ [x] = pre @ (xsoInpcb, r) # (mid @ [x])" using calculation(1) by simp
  ultimately show ?thesis unfolding pcb_open_def using assms(2) by blast
qed

lemmas pcb_open_next =
  pcb_open_step [OF _ pcb_seen_socket] pcb_open_step [OF _ pcb_seen_tcp] pcb_open_step [OF _ pcb_seen_other]

text \<open>The walk is a fold over the records; its state is what the records read so far say.\<close>

definition pcb_inv ::
    "(32 word \<times> bytes) list \<Rightarrow> addr_port \<Rightarrow> addr_port \<Rightarrow> darwin_pcb option \<times> pcb_match option \<Rightarrow> bool" where
  "pcb_inv rs c s st \<longleftrightarrow>
     (\<forall>p. fst st = Some p \<longrightarrow> pcb_open rs p) \<and> (\<forall>m. snd st = Some m \<longrightarrow> pcb_group rs c s m)"

lemma pcb_check_group:
  assumes "pcb_open rs p" and "pcb_check c s (Some p) = Some m"
  shows "pcb_group rs c s m"
proof -
  from assms(2) have p: "dp_haveSock p" "dp_haveState p" "sameTuple (dp_local p) (dp_remote p) c s"
    "dp_state p \<in> {4, 6, 9}" "m = \<lparr>pm_uid = dp_uid p, pm_pids = dp_pids p\<rparr>"
    by (auto simp: pcb_check_def split: if_splits)
  from assms(1) p(1,2) obtain pre r mid p0 so tp where
    "rs = pre @ (xsoInpcb, r) # mid @ []" "xsoInpcb \<notin> fst ` set mid" "xinpMin \<le> length r"
    "parseXinpcb r = Some p0" "dp_local p = dp_local p0" "dp_remote p = dp_remote p0" "dp_inpp p = dp_inpp p0"
    "(xsoSocket, so) \<in> set mid" "xsoMin \<le> length so" "le64 so 28 = dp_inpp p0" "le32 so 36 = 6"
    "le32 so 40 \<in> {2, 30}" "dp_uid p = le32 so 64" "dp_pids p = (sint (le32 so 68), sint (le32 so 72))"
    "(xsoTcpcb, tp) \<in> set mid" "xtcpMin \<le> length tp" "dp_state p = sint (le32 tp 36)"
    unfolding pcb_open_def pcb_seen_def by auto
  with p(3-5) show ?thesis unfolding pcb_group_def by metis
qed

lemma pcb_settle_group:
  "pcb_inv rs c s st \<Longrightarrow> pcb_settle c s (fst st) (snd st) = Some m \<Longrightarrow> pcb_group rs c s m"
  by (cases "fst st")
    (auto simp: pcb_inv_def pcb_settle_def pcb_check_def [of c s None] intro: pcb_check_group split: option.splits)

lemma pcb_record_inv:
  assumes "pcb_inv rs c s st"
  shows "pcb_inv (rs @ [(k, r)]) c s (pcb_record c s k r st)"
proof -
  obtain cur hit where st: "st = (cur, hit)" by fastforce
  from assms have "pcb_settle c s cur hit = Some m \<Longrightarrow> pcb_group (rs @ [(k, r)]) c s m" for m
    using pcb_settle_group [OF assms, of m] pcb_group_append by (simp add: st)
  with assms show ?thesis
    by (auto simp: pcb_inv_def pcb_record_def st pcb_kinds intro: pcb_open_new pcb_open_next pcb_group_append split: if_splits)
qed

lemma pcb_walk_fold:
  "fst (pcb_walk buf c s g st off) =
     (let st' = foldl (\<lambda>st (k, r). pcb_record c s k r st) st (pcb_records buf off)
      in pcb_settle c s (fst st') (snd st'))"
proof (induction buf c s g st off rule: pcb_walk.induct)
  case (1 buf c s g st off)
  show ?case
    by (subst pcb_walk.simps, subst pcb_records.simps) (simp add: Let_def 1)
qed

lemma fold_inv: "pcb_inv rs0 c s st \<Longrightarrow> pcb_inv (rs0 @ rs) c s (foldl (\<lambda>st (k, r). pcb_record c s k r st) st rs)"
proof (induction rs arbitrary: rs0 st)
  case (Cons x rs)
  obtain k r where x: "x = (k, r)" by fastforce
  from Cons.IH [OF pcb_record_inv [OF Cons.prems, of k r]] show ?case by (simp add: x)
qed simp

lemma pcblist_group:
  "fst (pcblistOwner buf c s) = Some m \<Longrightarrow>
     pcb_group (pcb_records buf (roundUp8 (unat (le32 buf 0)))) c s m"
  using pcb_settle_group [OF fold_inv [of "[]" c s "(None, None)"]]
  by (fastforce simp: pcblistOwner_def pcb_walk_fold Let_def pcb_inv_def split: if_splits)

text \<open>The records are read inside the list.\<close>

lemma pcb_records_inside:
  "(k, r) \<in> set (pcb_records buf off) \<Longrightarrow>
     \<exists>i. off \<le> i \<and> i + length r \<le> length buf \<and> r = slice buf i (length r) \<and> k = le32 r 4 \<and> xinpgenLen < length r"
proof (induction buf off rule: pcb_records.induct)
  case (1 buf off)
  let ?l = "unat (le32 buf off)"
  from 1(2) have l: "off + 8 \<le> length buf" "\<not> (?l \<le> xinpgenLen \<or> ?l > length buf - off)"
    by (subst (asm) pcb_records.simps, simp add: Let_def split: if_splits)+
  with 1(2) consider "k = le32 buf (off + 4)" "r = slice buf off ?l"
    | "(k, r) \<in> set (pcb_records buf (off + roundUp8 ?l))"
    by (subst (asm) pcb_records.simps) (auto simp: Let_def)
  then show ?case
  proof cases
    case 1
    have "length r = ?l" using l 1 by (simp add: length_slice)
    moreover have "le32 buf (off + 4) = le32 r 4"
      using l 1 by (simp add: slice_def take_drop xinpgenLen_def add.commute min_def)
    moreover have "off + ?l \<le> length buf" using l by linarith
    ultimately show ?thesis using l 1 by (intro exI [of _ off]) simp
  next
    case 2
    from "1.IH" [OF l(1) refl l(2) 2] show ?thesis using add_leD1 by blast
  qed
qed

lemma darwin_tries_Some:
  "lookup_darwin_tries n reads ov self pid c s k = Some p \<Longrightarrow>
     \<exists>j buf m. k \<le> j \<and> j < k + n \<and> reads j = Some buf \<and> pcblistOwner buf c s = (Some m, True) \<and>
       pr_ID p = UID ov (pm_uid m) \<and> pr_ID p \<noteq> Unknown \<and>
       (pr_Mine p \<longrightarrow> pr_ID p = self \<and> Privileged self \<and> fst (pm_pids m) = pid)"
proof (induction n arbitrary: k)
  case (Suc n)
  then obtain buf where buf: "reads k = Some buf" by (auto split: option.splits)
  obtain m cons where o: "pcblistOwner buf c s = (m, cons)" by fastforce
  show ?case
  proof (cases cons)
    case False
    with Suc.prems buf o have "lookup_darwin_tries n reads ov self pid c s (k + 1) = Some p"
      by (cases m) simp_all
    from Suc.IH [OF this] obtain j buf m where j: "k + 1 \<le> j" "j < k + 1 + n" and m: "reads j = Some buf \<and>
      pcblistOwner buf c s = (Some m, True) \<and> pr_ID p = UID ov (pm_uid m) \<and> pr_ID p \<noteq> Unknown \<and>
      (pr_Mine p \<longrightarrow> pr_ID p = self \<and> Privileged self \<and> fst (pm_pids m) = pid)" by blast
    from j have "k \<le> j" "j < k + Suc n" by simp_all
    with m show ?thesis by blast
  next
    case True
    with Suc.prems buf o show ?thesis
      by (intro exI [of _ k] exI [of _ buf] exI [of _ "the m"])
        (auto simp: Let_def needMine_def split: option.splits if_splits)
  qed
qed simp

text \<open>
  The macOS lookup names a principal only from a consistent copy of the list that holds, each
  record whole inside the copy, a pcb of the exact tuple, followed before the next pcb by its own
  TCP socket record, which is where the uid is read from, and by a TCP record in a live client
  state; and it calls the socket this process's own only for a privileged holder whose process
  was the last to use it.
\<close>
theorem lookup_darwin_names_live_pcb:
  assumes "lookup_darwin reads ov self pid client server = Some p"
  shows "\<exists>c s k buf rs m. client = Some c \<and> server = Some s \<and> k < 2 \<and> reads k = Some buf \<and>
     pcblistOwner buf c s = (Some m, True) \<and> rs = pcb_records buf (roundUp8 (unat (le32 buf 0))) \<and>
     pcb_group rs c s m \<and> (\<forall>(kind, r) \<in> set rs. \<exists>i. r = slice buf i (length r) \<and> i + length r \<le> length buf) \<and>
     pr_ID p = UID ov (pm_uid m) \<and> pr_ID p \<noteq> Unknown \<and>
     (pr_Mine p \<longrightarrow> pr_ID p = self \<and> Privileged self \<and> fst (pm_pids m) = pid)"
proof -
  obtain c s where cs: "client = Some c" "server = Some s"
    "lookup_darwin_tries 2 reads ov self pid c s 0 = Some p"
    using assms by (auto simp: lookup_darwin_def split: option.splits)
  from darwin_tries_Some [OF cs(3)] obtain k buf m where k: "k < 0 + 2" "reads k = Some buf" "pcblistOwner buf c s = (Some m, True)"
    "pr_ID p = UID ov (pm_uid m)" "pr_ID p \<noteq> Unknown"
    "pr_Mine p \<longrightarrow> pr_ID p = self \<and> Privileged self \<and> fst (pm_pids m) = pid" by blast
  have "pcb_group (pcb_records buf (roundUp8 (unat (le32 buf 0)))) c s m"
    using pcblist_group [of buf c s m] k(3) by simp
  moreover have "\<forall>(kind, r) \<in> set (pcb_records buf (roundUp8 (unat (le32 buf 0)))).
      \<exists>i. r = slice buf i (length r) \<and> i + length r \<le> length buf"
    using pcb_records_inside by blast
  moreover have "k < 2" using k(1) by simp
  ultimately show ?thesis using cs(1,2) k(2-6) by blast
qed

subsection \<open>Windows: the table of connections with their owners\<close>

definition winTableHdr :: nat where "winTableHdr = 8"
definition winRow4Len :: nat where "winRow4Len = 160"
definition winRow6Len :: nat where "winRow6Len = 192"

definition winLiveState :: "32 word \<Rightarrow> bool" where
  "winLiveState st \<longleftrightarrow> st = 5 \<or> st = 6 \<or> st = 7"

record win_conn =
  wc_pid :: "32 word"
  wc_created :: int

definition net_port :: "bytes \<Rightarrow> nat \<Rightarrow> 16 word" where
  "net_port r i = push_bit 8 (ucast (r ! i)) OR ucast (r ! (i + 1))"

definition win_row :: "bytes \<Rightarrow> bool \<Rightarrow> addr_port \<Rightarrow> addr_port \<Rightarrow> nat \<Rightarrow> win_conn option" where
  "win_row buf v6 client server i =
     (let row = if v6 then winRow6Len else winRow4Len;
          r = slice buf (winTableHdr + i * row) row;
          (local, remote, state, pid, created) =
            if v6 then
              (\<lparr>ap_Addr = Addr6 (be_val (slice r 0 16)) [], ap_Port = net_port r 20\<rparr>,
               \<lparr>ap_Addr = Addr6 (be_val (slice r 24 16)) [], ap_Port = net_port r 44\<rparr>,
               le32 r 48, le32 r 52, sint (le64 r 56))
            else
              (\<lparr>ap_Addr = Addr4 (be_val (slice r 4 4)), ap_Port = net_port r 8\<rparr>,
               \<lparr>ap_Addr = Addr4 (be_val (slice r 12 4)), ap_Port = net_port r 16\<rparr>,
               le32 r 0, le32 r 20, sint (le64 r 24))
      in if pid = 0 \<or> pid = 4 \<or> \<not> winLiveState state \<or> \<not> sameTuple local remote client server then None
         else Some \<lparr>wc_pid = pid, wc_created = created\<rparr>)"

definition win_rows :: "bytes \<Rightarrow> bool \<Rightarrow> nat" where
  "win_rows buf v6 =
     min (unat (le32 buf 0)) ((length buf - winTableHdr) div (if v6 then winRow6Len else winRow4Len))"

definition tcpTableConnOwner :: "bytes \<Rightarrow> bool \<Rightarrow> addr_port \<Rightarrow> addr_port \<Rightarrow> win_conn option" where
  "tcpTableConnOwner buf v6 client server =
     (if length buf < winTableHdr then None
      else first_row (win_row buf v6 client server) [0..<win_rows buf v6])"

text \<open>The table of one family, \<open>v6\<close> or not, is the argument \<open>table\<close>.\<close>

definition connOwner :: "(bool \<Rightarrow> bytes option) \<Rightarrow> addr_port \<Rightarrow> addr_port \<Rightarrow> win_conn option" where
  "connOwner table client server =
     (let six = (case table True of None \<Rightarrow> None | Some b \<Rightarrow> tcpTableConnOwner b True client server) in
      if both_v4 client server then
        (case table False of
           None \<Rightarrow> six
         | Some b \<Rightarrow> (case tcpTableConnOwner b False client server of Some c \<Rightarrow> Some c | None \<Rightarrow> six))
      else six)"

text \<open>
  The lookup: the two readings of the tables, the processes this one may open with their time of
  creation and the SID of their token where those can be read, and this process's number.
\<close>

record win_process =
  wp_created :: "int option"
  wp_sid :: "principal option"

definition lookup_windows ::
    "(bool \<Rightarrow> bytes option) \<Rightarrow> (bool \<Rightarrow> bytes option) \<Rightarrow> (32 word \<Rightarrow> win_process option) \<Rightarrow> principal \<Rightarrow>
     32 word \<Rightarrow> addr_port option \<Rightarrow> addr_port option \<Rightarrow> peer option" where
  "lookup_windows table again open_process self pid client server =
     (case (client, server) of
        (Some c, Some s) \<Rightarrow>
          (case connOwner table c s of
             None \<Rightarrow> None
           | Some first \<Rightarrow>
               (case open_process (wc_pid first) of
                  None \<Rightarrow> None
                | Some h \<Rightarrow>
                    if connOwner again c s \<noteq> Some first then None
                    else
                      (case wp_created h of
                         None \<Rightarrow> None
                       | Some created \<Rightarrow>
                           if wc_created first \<noteq> 0 \<and> created > wc_created first then None
                           else
                             (case wp_sid h of
                                None \<Rightarrow> None
                              | Some sid \<Rightarrow>
                                  Some \<lparr>pr_ID = sid, pr_Mine = needMine self sid \<and> wc_pid first = pid\<rparr>))))
      | _ \<Rightarrow> None)"

lemma win_rows_inside:
  assumes "i < win_rows buf v6"
  shows "winTableHdr + i * (if v6 then winRow6Len else winRow4Len) + (if v6 then winRow6Len else winRow4Len) \<le>
     length buf"
proof -
  let ?row = "if v6 then winRow6Len else winRow4Len"
  have "i + 1 \<le> (length buf - winTableHdr) div ?row" using assms by (simp add: win_rows_def)
  then have "(i + 1) * ?row \<le> length buf - winTableHdr"
    by (metis div_times_less_eq_dividend le_trans mult_le_mono1)
  moreover have "0 < (i + 1) * ?row" by (simp add: winRow4Len_def winRow6Len_def)
  ultimately show ?thesis by (cases v6) (simp_all add: winRow4Len_def winRow6Len_def)
qed

lemma win_row_live:
  "win_row buf v6 c s i = Some w \<Longrightarrow> wc_pid w \<noteq> 0 \<and> wc_pid w \<noteq> 4"
  by (auto simp: win_row_def Let_def split: if_splits)

lemma connOwner_row:
  "connOwner table c s = Some w \<Longrightarrow>
     \<exists>v6 b i. table v6 = Some b \<and> i < win_rows b v6 \<and> win_row b v6 c s i = Some w"
  by (fastforce simp: connOwner_def tcpTableConnOwner_def Let_def split: if_splits option.splits
      dest!: first_row_Some)

lemma lookup_windows_pinned:
  assumes "lookup_windows table again open_process self pid client server = Some p"
  shows "\<exists>c s w h created. client = Some c \<and> server = Some s \<and> connOwner table c s = Some w \<and>
     connOwner again c s = Some w \<and> open_process (wc_pid w) = Some h \<and> wp_created h = Some created \<and>
     (wc_created w = 0 \<or> created \<le> wc_created w) \<and> wp_sid h = Some (pr_ID p)"
  using assms by (auto simp: lookup_windows_def split: option.splits if_splits)

end
