(* ===== verification/EgrExamples.thy ===== *)
theory EgrExamples
  imports EgrRuns EgrTarget PeerTables
begin

text \<open>
  The properties of the forwarder and of the socket tables at concrete inputs.
\<close>

subsection \<open>The forwarder\<close>

definition example_rule :: share_rule where
  "example_rule = \<lparr>ac_Mode = ShareAny, ac_Secret = [], ac_Admit = None, ac_Hint = [], ac_Logf = False\<rparr>"

lemma socksAuth_decides_witness:
  "\<exists>p' c'. socksAuth 0 example_rule PeerOther [] example_proxy
     \<lparr>cn_in = [0x05, 1, 0x00, 0x05], cn_out = [], cn_writes = None\<rparr> = (p', c', True) \<and> cn_in c' = [0x05]"
proof -
  have "socks_admits example_rule PeerOther (0x05 # 1 # [0x00] @ [0x05]) [0x05]"
    by (rule by_identity) (simp_all add: identity_ok_def example_rule_def)
  then show ?thesis
    using socksAuth_decides [of "\<lparr>cn_in = [0x05, 1, 0x00, 0x05], cn_out = [], cn_writes = None\<rparr>" 0 example_rule
        PeerOther "[]" example_proxy "[0x05]"] by simp
qed

text \<open>The holder's own client asks an unarmed forwarder for port 80 of the host \<open>a\<close>.\<close>

definition loopback :: "16 word \<Rightarrow> addr_port" where
  "loopback port = \<lparr>ap_Addr = Addr4 0x7F000001, ap_Port = port\<rparr>"

definition example_client :: conn where
  "example_client =
     \<lparr>cn_in = [0x05, 1, 0x00, 0x05, 0x01, 0x00, 0x03, 1] @ bytes_of ''a'' @ [0, 80], cn_out = [], cn_writes = None\<rparr>"

definition example_lookup :: "addr_port \<Rightarrow> addr_port \<Rightarrow> peer option" where
  "example_lookup c s = Some \<lparr>pr_ID = ''u:1000'', pr_Mine = False\<rparr>"

lemma example_name: "socks_name (bytes_of ''a'') = Some ''a''"
proof -
  have "\<not> list_ex bad_name_byte (bytes_of ''a'')" "byte_of (CHR '':'') \<notin> set (bytes_of ''a'')" by code_simp+
  then show ?thesis by (simp add: socks_name_def)
qed

lemma example_join: "JoinHostPort ''a'' (dec_nat 80) = ''a:80''"
  by code_simp

lemma example_target:
  "readSocks5Target 0x03 \<lparr>cn_in = [1] @ bytes_of ''a'' @ [0, 80], cn_out = out, cn_writes = None\<rparr> =
     Some (''a:80'', \<lparr>cn_in = [], cn_out = out, cn_writes = None\<rparr>)"
proof -
  have "take 1 (bytes_of ''a'' @ [0, 80]) = bytes_of ''a''" "drop 1 (bytes_of ''a'' @ [0, 80]) = [0, 80]" by simp_all
  then show ?thesis
    by (simp add: readSocks5Target_def socks_host_def read_full_def example_name example_join)
qed

lemma example_class:
  "client_class example_lookup (Some (loopback 40000, loopback 8080)) (example_proxy\<lparr>px_gate := g\<rparr>)
     (currentAccess (example_proxy\<lparr>px_gate := g\<rparr>)) = (PeerOwner, ''u:1000'')"
  if "g_identityOK g" "g_holder g = ''u:1000''" "g_lookups g = 0" for g
  using that by (simp add: client_class_def currentAccess_def example_proxy_def classify_def acquireLookup_def
      lookupMax_def example_lookup_def Unknown_def Privileged_def)

lemma example_handle:
  "\<exists>p' c'. handle RR (\<lambda>_. None) example_lookup 0 (Some (loopback 40000, loopback 8080)) example_proxy example_client =
     (p', c', Tunnel ''a:80'')"
proof -
  let ?g = "(px_gate example_proxy)\<lparr>g_preAuth := 1\<rparr>"
  have g: "enterPreAuth (px_gate example_proxy) = (?g, True)"
    by (simp add: enterPreAuth_def example_proxy_def new_gate_def preAuthMax_def)
  have c: "client_class example_lookup (Some (loopback 40000, loopback 8080)) (example_proxy\<lparr>px_gate := ?g\<rparr>)
      (currentAccess (example_proxy\<lparr>px_gate := ?g\<rparr>)) = (PeerOwner, ''u:1000'')"
    by (rule example_class) (simp_all add: example_proxy_def new_gate_def)
  have r: "reserve a PeerOwner who p = Some (p, new_admission)" for a who p
    by (simp add: reserve_def trusted_def)
  have i: "identity_ok (currentAccess (example_proxy\<lparr>px_gate := ?g\<rparr>)) PeerOwner"
    by (simp add: identity_ok_def currentAccess_def example_proxy_def trusted_def)
  obtain p1 ad1 where ad: "admit (example_proxy\<lparr>px_gate := ?g\<rparr>, new_admission) = (p1, ad1)" by fastforce
  have "\<exists>p' ad' c'. serve_client RR (\<lambda>_. None) 0 (currentAccess (example_proxy\<lparr>px_gate := ?g\<rparr>)) PeerOwner ''u:1000''
      (example_proxy\<lparr>px_gate := ?g\<rparr>, new_admission) example_client = ((p', ad'), c', Tunnel ''a:80'')"
    using example_target [of "[0x05, 0x00]"]
    by (simp add: serve_client_def handleSocks5_def socksAuth_def read_full_def example_client_def i ad
        dial_and_reply_def)
  then show ?thesis by (auto simp: handle_def g Let_def c r)
qed

lemma handle_dials_entitled_witness:
  "\<exists>ra la pr. Some (loopback 40000, loopback 8080) = Some (ra, la) \<and> example_lookup ra la = Some pr \<and>
     pr_ID pr = g_holder (px_gate example_proxy)"
proof -
  obtain p' c' where h: "handle (\<lambda>_. BadRequest True) (\<lambda>_. None) example_lookup 0
      (Some (loopback 40000, loopback 8080)) example_proxy example_client = (p', c', Tunnel ''a:80'')"
    using example_handle by blast
  from handle_dials_entitled [OF h, of "''a:80''"] show ?thesis
    by (auto simp: dialled_def example_proxy_def)
qed


subsection \<open>The socket tables\<close>

definition example_host :: "bytes \<Rightarrow> host" where
  "example_host reply =
     \<lparr>h_order = Little, h_overflow = 65534, h_self = ''u:1000'', h_netlink = (\<lambda>_. Some reply), h_file = (\<lambda>_. None),
      h_links = None\<rparr>"

lemma example_msg:
  "\<exists>msg. diag_msg Little afINET 1 (loopback 40000) (loopback 8080) [0, 0] (replicate 24 0) 1000 77 = Some msg"
  by (simp add: diag_msg_def putDiagAddr_def loopback_def As4_def Unmap_def)

lemma example_says: "sameTuple (loopback 40000) (loopback 8080) (loopback 40000) (loopback 8080)"
  by (simp add: sameTuple_def)

lemma kernel_answer_read_back_witness:
  "\<exists>msg. diag_msg Little afINET 1 (loopback 40000) (loopback 8080) [0, 0] (replicate 24 0) 1000 77 = Some msg \<and>
     parseInetDiagReply Little (diag_frame Little 5 msg) (loopback 40000) (loopback 8080) 5 = Some (1000, 77)"
proof -
  obtain msg where m: "diag_msg Little afINET 1 (loopback 40000) (loopback 8080) [0, 0] (replicate 24 0) 1000 77 = Some msg"
    using example_msg by blast
  from kernel_answer_read_back [OF m, of "[]" 5 "[]" "loopback 40000" "loopback 8080"] example_says m
  show ?thesis by (simp add: loopback_def Zone_def linuxLiveState_def)
qed

lemma lookup_names_live_socket_witness:
  "\<exists>reply p seq'. lookup_linux (example_host reply) (Some (loopback 40000)) (Some (loopback 8080)) 4 = (Some p, seq') \<and>
     (\<exists>uid ino. socket_evidence (example_host reply) (loopback 40000) (loopback 8080) uid ino \<and>
        pr_ID p = ''u:'' @ dec_nat (unat uid))"
proof -
  obtain msg where m: "diag_msg Little afINET 1 (loopback 40000) (loopback 8080) [0, 0] (replicate 24 0) 1000 77 = Some msg"
    using example_msg by blast
  let ?reply = "diag_frame Little 5 msg" and ?c = "loopback 40000" and ?s = "loopback 8080"
  have z: "Zone (ap_Addr ?c) = []" "Zone (ap_Addr ?s) = []" by (simp_all add: loopback_def Zone_def)
  have "length ?reply = 88" using diag_msg_fields(1) [OF m] z by (simp add: length_diag_frame)
  then have t: "take 8192 ?reply = ?reply" "?reply \<noteq> []" by auto
  have a: "parseInetDiagReply Little ?reply ?c ?s 5 = Some (1000, 77)"
    using kernel_answer [OF m, of "[]" 5 "[]" ?c ?s] z example_says by (simp add: linuxLiveState_def)
  have v4: "both_v4 ?c ?s" by (simp add: both_v4_def loopback_def Unmap_def)
  obtain req where "encodeInetDiagExact Little afINET ?c ?s 5 = Some req"
    using encode_total [of afINET ?c ?s Little 5] v4 by auto
  then have "diagLookup (example_host ?reply) afINET ?c ?s 5 = Some (1000, 77)"
    by (simp add: diagLookup_def example_host_def t a)
  moreover have "UID 65534 1000 \<noteq> Unknown" by (simp add: UID_def Unknown_def)
  ultimately have l: "\<exists>p. lookup_linux (example_host ?reply) (Some ?c) (Some ?s) 4 = (Some p, 5)"
    by (simp add: lookup_linux_def v4 peerOf_def example_host_def Let_def)
  then obtain p where p: "lookup_linux (example_host ?reply) (Some ?c) (Some ?s) 4 = (Some p, 5)" by blast
  from lookup_names_live_socket [OF p] p show ?thesis by blast
qed

definition example_pcblist :: bytes where
  "example_pcblist =
     [24, 0, 0, 0] @ replicate 20 0 @
     [80, 0, 0, 0, 0x10, 0, 0, 0, 9, 0, 0, 0, 0, 0, 0, 0, 0x1F, 0x90, 0x9C, 0x40] @ replicate 24 0 @ [1] @ replicate 15 0 @
     [127, 0, 0, 1] @ replicate 12 0 @ [127, 0, 0, 1] @
     [76, 0, 0, 0, 1, 0, 0, 0] @ replicate 20 0 @ [9, 0, 0, 0, 0, 0, 0, 0, 6, 0, 0, 0, 2, 0, 0, 0] @
     replicate 20 0 @ [245, 1, 0, 0, 7, 0, 0, 0, 0, 0, 0, 0] @ replicate 4 0 @
     [40, 0, 0, 0, 0x20, 0, 0, 0] @ replicate 28 0 @ [4, 0, 0, 0] @
     [24, 0, 0, 0] @ replicate 20 0"

lemma example_owner:
  "pcblistOwner example_pcblist (loopback 40000) (loopback 8080) = (Some \<lparr>pm_uid = 501, pm_pids = (7, 0)\<rparr>, True)"
  by code_simp

lemma lookup_darwin_names_live_pcb_witness:
  "\<exists>p rs m. lookup_darwin (\<lambda>_. Some example_pcblist) 65534 ''u:501'' 1 (Some (loopback 40000)) (Some (loopback 8080)) = Some p \<and>
     pcb_group rs (loopback 40000) (loopback 8080) m \<and> pr_ID p = UID 65534 (pm_uid m)"
proof -
  have "UID 65534 501 \<noteq> Unknown" by (simp add: UID_def Unknown_def)
  then obtain p where p: "lookup_darwin (\<lambda>_. Some example_pcblist) 65534 ''u:501'' 1 (Some (loopback 40000))
      (Some (loopback 8080)) = Some p"
    by (simp add: lookup_darwin_def numeral_2_eq_2 example_owner Let_def)
  from lookup_darwin_names_live_pcb [OF p] p show ?thesis by blast
qed

end
