(* ===== verification/GoDuration.thy ===== *)
theory GoDuration
  imports GoTime GoText
begin

text \<open>\<open>Duration.Round\<close> and \<open>Duration.String\<close>.\<close>

definition duration_Round :: "int \<Rightarrow> int \<Rightarrow> int" where
  "duration_Round m d =
     (if m \<le> 0 then d
      else
        (let r = \<bar>d\<bar> mod m in
         if d < 0 then (if 2 * r < m then d + r else max (- (2 ^ 63)) (d - m + r))
         else (if 2 * r < m then d - r else min (2 ^ 63 - 1) (d + m - r))))"

text \<open>The fraction of \<open>u\<close> over \<open>10 ^ p\<close>, without its trailing zeros, and without a point if it is zero.\<close>

definition frac_text :: "nat \<Rightarrow> nat \<Rightarrow> string" where
  "frac_text p u =
     (let ds = dec_nat (u mod 10 ^ p);
          s = rev (dropWhile (\<lambda>c. c = CHR ''0'') (rev (replicate (p - length ds) (CHR ''0'') @ ds)))
      in if s = [] then [] else CHR ''.'' # s)"

definition unit_text :: "nat \<Rightarrow> nat \<Rightarrow> string" where
  "unit_text p u = dec_nat (u div 10 ^ p) @ frac_text p u"

definition duration_String :: "int \<Rightarrow> string" where
  "duration_String d =
     (let u = nat \<bar>d\<bar>; s = u div 10 ^ 9; m = s div 60; sign = (if d < 0 then ''-'' else [])
      in
        if u = 0 then ''0s''
        else if u < 10 ^ 3 then sign @ dec_nat u @ ''ns''
        else if u < 10 ^ 6 then sign @ unit_text 3 u @ [CHR 0xC2, CHR 0xB5, CHR ''s'']
        else if u < 10 ^ 9 then sign @ unit_text 6 u @ ''ms''
        else
          sign @ (if m div 60 > 0 then dec_nat (m div 60) @ ''h'' else []) @
          (if m > 0 then dec_nat (m mod 60) @ ''m'' else []) @
          dec_nat (s mod 60) @ frac_text 9 u @ ''s'')"

end
