(* ===== verification/WgAccept.thy ===== *)
theory WgAccept
  imports GoScan GoDuration "HOL-Library.Finite_Map"
begin

text \<open>
  \<open>internal/wgtun/accept.go\<close>: inbound TCP on the tunnel's own address. Which connections are
  admitted, what limits them and how refusals are logged. A connection is a number; the answers
  of the callbacks \<open>Permit\<close> and \<open>Individual\<close> may change, so they depend on the clock; whether a
  port can be bound is an argument. Copying bytes, and the line \<open>OnCarry\<close> is told, are left out.
\<close>

subsection \<open>Rules and options\<close>

record accept_rule =
  ru_Port :: int
  ru_Target :: string

definition AcceptRule_String :: "accept_rule \<Rightarrow> string" where
  "AcceptRule_String r = format_int (ru_Port r) @ '' -> '' @ ru_Target r"

record accept_opts =
  ao_Permit :: "(int \<Rightarrow> ip_addr \<Rightarrow> bool) option"
  ao_MaxConns :: int
  ao_MaxPerSource :: int
  ao_Individual :: "(int \<Rightarrow> ip_addr \<Rightarrow> bool) option"
  ao_IdleTimeout :: int
  ao_DialTimeout :: int
  ao_Logf :: bool

definition defaultAcceptMaxConns :: int where "defaultAcceptMaxConns = 64"
definition defaultAcceptMaxPerSource :: int where "defaultAcceptMaxPerSource = 16"
definition defaultAcceptIdle :: int where "defaultAcceptIdle = 60 * Minute"
definition defaultAcceptDialTimeout :: int where "defaultAcceptDialTimeout = 10 * Second"

definition withDefaults :: "accept_opts \<Rightarrow> accept_opts" where
  "withDefaults o' =
     o'\<lparr>ao_MaxConns := (if ao_MaxConns o' \<le> 0 then defaultAcceptMaxConns else ao_MaxConns o'),
        ao_MaxPerSource := (if ao_MaxPerSource o' \<le> 0 then defaultAcceptMaxPerSource else ao_MaxPerSource o'),
        ao_IdleTimeout := (if ao_IdleTimeout o' \<le> 0 then defaultAcceptIdle else ao_IdleTimeout o'),
        ao_DialTimeout := (if ao_DialTimeout o' \<le> 0 then defaultAcceptDialTimeout else ao_DialTimeout o')\<rparr>"

subsection \<open>Callers\<close>

definition callerAddr :: "string option \<Rightarrow> ip_addr option" where
  "callerAddr remote =
     (case remote of
        None \<Rightarrow> None
      | Some s \<Rightarrow> map_option (\<lambda>(a, _). WithZone [] (Unmap a)) (ParseAddrPort s))"

definition srcText :: "ip_addr option \<Rightarrow> string" where
  "srcText src = (case src of None \<Rightarrow> ''an unknown address'' | Some a \<Rightarrow> addr_String a)"

text \<open>The prefix the limits count, none for an address that is not known.\<close>

definition sourceBucket :: "ip_addr option \<Rightarrow> ip_prefix option" where
  "sourceBucket src =
     map_option (\<lambda>a. if Is4 a then \<lparr>pfx_addr = a, pfx_bits = 32\<rparr> else Masked \<lparr>pfx_addr = a, pfx_bits = 64\<rparr>) src"

definition bucketFor :: "ip_addr \<Rightarrow> bool \<Rightarrow> ip_prefix option" where
  "bucketFor src individual =
     (if individual then Some \<lparr>pfx_addr = src, pfx_bits = addr_bits src\<rparr> else sourceBucket (Some src))"

subsection \<open>The log of refusals\<close>

definition refusalWindow :: int where "refusalWindow = Minute"
definition refusalNamedMax :: nat where "refusalNamedMax = 32"

record refusal_log =
  rl_window :: "int option"
  rl_seen :: "ip_prefix option list"
  rl_suppressed :: int

definition roundWindow :: "int \<Rightarrow> string" where
  "roundWindow d = duration_String (duration_Round Second d)"

text \<open>How long the window has been open; the zero time is further back than a \<open>Duration\<close> goes.\<close>

definition window_age :: "int \<Rightarrow> refusal_log \<Rightarrow> int" where
  "window_age now r = (case rl_window r of None \<Rightarrow> 2 ^ 63 - 1 | Some w \<Rightarrow> time_sub now w)"

definition summary_line :: "int \<Rightarrow> refusal_log \<Rightarrow> string" where
  "summary_line now r =
     ''whisper: accept turned away '' @ format_int (rl_suppressed r) @ '' more connection(s) in the last '' @
     roundWindow (window_age now r) @ '', not named one by one''"

definition note_refusal :: "ip_addr option \<Rightarrow> string \<Rightarrow> int \<Rightarrow> refusal_log \<Rightarrow> refusal_log \<times> string" where
  "note_refusal src line now r =
     (let turn = (rl_window r = None \<or> window_age now r \<ge> refusalWindow);
          out = (if turn \<and> rl_suppressed r > 0 then [summary_line now r] else []);
          r = (if turn then \<lparr>rl_window = Some now, rl_seen = [], rl_suppressed = 0\<rparr> else r);
          key = sourceBucket src
      in
        if key \<notin> set (rl_seen r) \<and> length (rl_seen r) < refusalNamedMax then
          (r\<lparr>rl_seen := key # rl_seen r\<rparr>, join [CHR 0x0A] (out @ [line]))
        else (r\<lparr>rl_suppressed := rl_suppressed r + 1\<rparr>, join [CHR 0x0A] out))"

definition flush_refusals :: "int \<Rightarrow> refusal_log \<Rightarrow> refusal_log \<times> string" where
  "flush_refusals now r =
     (if rl_suppressed r = 0 then (r, [])
      else (\<lparr>rl_window = None, rl_seen = [], rl_suppressed = 0\<rparr>, summary_line now r))"

subsection \<open>The acceptor\<close>

record caller_slot =
  sl_src :: ip_addr
  sl_bucket :: "ip_prefix option"
  sl_individual :: bool

record acceptor =
  at_rules :: "accept_rule list"
  at_opts :: accept_opts
  at_open :: "nat set"
  at_callers :: "(nat, caller_slot) fmap"
  at_perSrc :: "(ip_prefix option, int) fmap"
  at_strangers :: int
  at_closed :: bool
  at_refusals :: refusal_log
  at_admitted :: int
  at_refused :: int
  at_limited :: int
  at_failed :: int
  at_log :: "string list"

definition logf :: "string \<Rightarrow> acceptor \<Rightarrow> acceptor" where
  "logf line a = (if ao_Logf (at_opts a) then a\<lparr>at_log := at_log a @ [line]\<rparr> else a)"

text \<open>A refusal is noted, and what the log of refusals says is logged, if anything.\<close>

definition log_refusal :: "ip_addr option \<Rightarrow> string \<Rightarrow> int \<Rightarrow> acceptor \<Rightarrow> acceptor" where
  "log_refusal src line now a =
     (let (r, out) = note_refusal src line now (at_refusals a); a = a\<lparr>at_refusals := r\<rparr>
      in if out = [] then a else logf out a)"

definition strangerCap :: "acceptor \<Rightarrow> int" where
  "strangerCap a =
     (let m = ao_MaxConns (at_opts a); keep = m div 4; keep = (if keep = 0 \<and> m > 1 then 1 else keep) in m - keep)"

definition individual :: "int \<Rightarrow> ip_addr \<Rightarrow> acceptor \<Rightarrow> bool" where
  "individual now src a = (case ao_Individual (at_opts a) of None \<Rightarrow> False | Some f \<Rightarrow> f now src)"

definition permitted :: "int \<Rightarrow> ip_addr \<Rightarrow> acceptor \<Rightarrow> bool" where
  "permitted now src a = (case ao_Permit (at_opts a) of None \<Rightarrow> False | Some f \<Rightarrow> f now src)"

definition conns_of :: "acceptor \<Rightarrow> int" where
  "conns_of a = int (fcard (fmdom (at_callers a)))"

text \<open>A Go map reads 0 for a key it does not have.\<close>

definition count_of :: "acceptor \<Rightarrow> ip_prefix option \<Rightarrow> int" where
  "count_of a b = (case fmlookup (at_perSrc a) b of None \<Rightarrow> 0 | Some n \<Rightarrow> n)"

definition accept_text :: "accept_rule \<Rightarrow> string \<Rightarrow> string" where
  "accept_text rule rest = ''whisper: accept :'' @ format_int (ru_Port rule) @ rest"

definition turn_away :: "ip_addr \<Rightarrow> accept_rule \<Rightarrow> string \<Rightarrow> int \<Rightarrow> acceptor \<Rightarrow> acceptor" where
  "turn_away src rule why now a =
     log_refusal (Some src) (accept_text rule ('' turned away '' @ srcText (Some src) @ '': '' @ why)) now
       (a\<lparr>at_limited := at_limited a + 1\<rparr>)"

text \<open>
  \<open>admit\<close>: the new state, and the address of the caller when the connection is carried; otherwise
  it has been closed.
\<close>

definition admit_conn ::
    "int \<Rightarrow> nat \<Rightarrow> string option \<Rightarrow> accept_rule \<Rightarrow> acceptor \<Rightarrow> acceptor \<times> ip_addr option" where
  "admit_conn now c remote rule a =
     (let src = callerAddr remote in
      if (case src of None \<Rightarrow> True | Some s \<Rightarrow> \<not> permitted now s a) then
        (log_refusal src
           (accept_text rule ('' refused '' @ srcText src @ '': not permitted to reach '' @ ru_Target rule)) now
           (a\<lparr>at_refused := at_refused a + 1\<rparr>), None)
      else
        (let s = the src; ind = individual now s a; bucket = bucketFor s ind; o' = at_opts a in
         if at_closed a then (a, None)
         else if conns_of a \<ge> ao_MaxConns o' then
           (turn_away s rule (format_int (ao_MaxConns o') @ '' connections already open, the limit'') now a, None)
         else if \<not> ind \<and> ao_Individual o' \<noteq> None \<and> at_strangers a \<ge> strangerCap a then
           (turn_away s rule (format_int (strangerCap a) @
              '' connections from outside the fleet already open, the rest are kept for fleet members'') now a, None)
         else if count_of a bucket \<ge> ao_MaxPerSource o' then
           (turn_away s rule (prefix_String bucket @ '' already holds '' @ format_int (ao_MaxPerSource o') @
              '' connections, the per-caller limit'') now a, None)
         else
           (a\<lparr>at_open := insert c (at_open a),
              at_callers := fmupd c \<lparr>sl_src = s, sl_bucket = bucket, sl_individual = ind\<rparr> (at_callers a),
              at_perSrc := fmupd bucket (count_of a bucket + 1) (at_perSrc a),
              at_strangers := (if ind then at_strangers a else at_strangers a + 1),
              at_admitted := at_admitted a + 1\<rparr>, Some s)))"

definition release_conn :: "nat \<Rightarrow> acceptor \<Rightarrow> acceptor" where
  "release_conn c a =
     (let slot = fmlookup (at_callers a) c;
          bucket = (case slot of None \<Rightarrow> None | Some s \<Rightarrow> sl_bucket s)
      in a\<lparr>at_strangers := (case slot of Some s \<Rightarrow> if sl_individual s then at_strangers a else at_strangers a - 1
                                        | None \<Rightarrow> at_strangers a),
           at_open := at_open a - {c},
           at_callers := fmdrop c (at_callers a),
           at_perSrc := (if count_of a bucket \<le> 1 then fmdrop bucket (at_perSrc a)
                         else fmupd bucket (count_of a bucket - 1) (at_perSrc a))\<rparr>)"

text \<open>\<open>carry\<close>: the dial fails, or the local half joins unless the acceptor has closed, and ends.\<close>

definition carry_failed :: "nat \<Rightarrow> ip_addr \<Rightarrow> accept_rule \<Rightarrow> string \<Rightarrow> acceptor \<Rightarrow> acceptor" where
  "carry_failed c src rule err a =
     release_conn c
       (logf (accept_text rule ('' admitted '' @ addr_String src @ '', but nothing answered on '' @ ru_Target rule @
          '' on this host ('' @ err @ '')''))
         (a\<lparr>at_failed := at_failed a + 1\<rparr>))"

definition carry_dialled :: "nat \<Rightarrow> nat \<Rightarrow> ip_addr \<Rightarrow> accept_rule \<Rightarrow> acceptor \<Rightarrow> acceptor \<times> bool" where
  "carry_dialled c local src rule a =
     (if at_closed a then (release_conn c a, False)
      else (logf (accept_text rule ('' from '' @ addr_String src @ '' -> '' @ ru_Target rule))
              (a\<lparr>at_open := insert local (at_open a)\<rparr>), True))"

definition carry_ended ::
    "nat \<Rightarrow> nat \<Rightarrow> ip_addr \<Rightarrow> accept_rule \<Rightarrow> int \<Rightarrow> string \<Rightarrow> nat \<Rightarrow> nat \<Rightarrow> acceptor \<Rightarrow> acceptor" where
  "carry_ended c local src rule lasted reason bytesIn bytesOut a =
     release_conn c
       ((logf (accept_text rule ('' from '' @ addr_String src @ '' closed after '' @ roundWindow lasted @ '' ('' @
          reason @ ''; '' @ dec_nat bytesIn @ '' bytes in, '' @ dec_nat bytesOut @ '' out)'')) a)
         \<lparr>at_open := at_open a - {local}\<rparr>)"

text \<open>\<open>revalidate\<close>: the connections it closes, each of which its carrying then releases.\<close>

definition revalidate :: "int \<Rightarrow> acceptor \<Rightarrow> nat set" where
  "revalidate now a =
     {c. \<exists>slot. fmlookup (at_callers a) c = Some slot \<and> \<not> permitted now (sl_src slot) a}"

definition close_acceptor :: "int \<Rightarrow> acceptor \<Rightarrow> acceptor \<times> nat set" where
  "close_acceptor now a =
     (if at_closed a then (a, {})
      else
        (let (r, line) = flush_refusals now (at_refusals a); b = a\<lparr>at_closed := True, at_refusals := r\<rparr>
         in (if line = [] then b else logf line b, at_open a)))"

record accept_stats =
  as_Admitted :: int
  as_Refused :: int
  as_Limited :: int
  as_Failed :: int
  as_Open :: int

definition acceptor_stats :: "acceptor \<Rightarrow> accept_stats" where
  "acceptor_stats a =
     \<lparr>as_Admitted = at_admitted a, as_Refused = at_refused a, as_Limited = at_limited a,
      as_Failed = at_failed a, as_Open = conns_of a\<rparr>"

subsection \<open>Opening the ports\<close>

datatype accept_error = NotATCPPort int | NamedTwice int | CouldNotOpen int | AlreadyAccepting | NoTunnel

text \<open>The ports bound, or the error and the listeners closed again.\<close>

fun bind_ports ::
    "(int \<Rightarrow> bool) \<Rightarrow> int list \<Rightarrow> accept_rule list \<Rightarrow> (accept_error \<times> int list) + int list" where
  "bind_ports listen bound [] = Inr bound"
| "bind_ports listen bound (r # rs) =
     (let p = ru_Port r in
      if p < 1 \<or> p > 65535 then Inl (NotATCPPort p, bound)
      else if p \<in> set bound then Inl (NamedTwice p, bound)
      else if \<not> listen p then Inl (CouldNotOpen p, bound)
      else bind_ports listen (bound @ [p]) rs)"

definition newAcceptor ::
    "accept_rule list \<Rightarrow> accept_opts \<Rightarrow> (int \<Rightarrow> bool) \<Rightarrow> (accept_error \<times> int list) + (acceptor \<times> int list)" where
  "newAcceptor rules opts listen =
     map_sum id (\<lambda>lns.
       (\<lparr>at_rules = rules, at_opts = withDefaults opts, at_open = {}, at_callers = fmempty, at_perSrc = fmempty,
         at_strangers = 0, at_closed = False, at_refusals = \<lparr>rl_window = None, rl_seen = [], rl_suppressed = 0\<rparr>,
         at_admitted = 0, at_refused = 0, at_limited = 0, at_failed = 0, at_log = []\<rparr>, lns))
       (bind_ports listen [] rules)"

text \<open>\<open>Tunnel\<close>: the acceptor of a tunnel is set once.\<close>

definition installAcceptor ::
    "accept_rule list \<Rightarrow> accept_opts \<Rightarrow> (int \<Rightarrow> bool) \<Rightarrow> acceptor option \<Rightarrow> (accept_error \<times> int list) + acceptor" where
  "installAcceptor rules opts listen cur =
     (if cur \<noteq> None then Inl (AlreadyAccepting, []) else map_sum id fst (newAcceptor rules opts listen))"

definition Accepting :: "acceptor option \<Rightarrow> accept_rule list" where
  "Accepting cur = (case cur of None \<Rightarrow> [] | Some a \<Rightarrow> at_rules a)"

definition AcceptStats :: "acceptor option \<Rightarrow> accept_stats" where
  "AcceptStats cur =
     (case cur of None \<Rightarrow> \<lparr>as_Admitted = 0, as_Refused = 0, as_Limited = 0, as_Failed = 0, as_Open = 0\<rparr>
      | Some a \<Rightarrow> acceptor_stats a)"

definition RevalidateAccept :: "int \<Rightarrow> acceptor option \<Rightarrow> nat" where
  "RevalidateAccept now cur = (case cur of None \<Rightarrow> 0 | Some a \<Rightarrow> card (revalidate now a))"

end
