(* ===== verification/WgAcceptRuns.thy ===== *)
theory WgAcceptRuns
  imports WgAccept
begin

text \<open>
  The connections of one acceptor of \<open>internal/wgtun/accept.go\<close> interleaved: each step is one
  operation under its mutex, and the counters are the sizes of the sets of open connections.
\<close>

subsection \<open>Counting the open connections\<close>

definition tally :: "(caller_slot \<Rightarrow> bool) \<Rightarrow> (nat, caller_slot) fmap \<Rightarrow> int" where
  "tally P m = int (card {c. \<exists>s. fmlookup m c = Some s \<and> P s})"

lemma tally_finite: "finite {c. \<exists>s. fmlookup m c = Some s \<and> P s}"
  by (rule finite_subset [of _ "fset (fmdom m)"]) (auto simp: fmdomI)

lemma tally_empty [simp]: "tally P fmempty = 0"
  by (simp add: tally_def)

lemma tally_upd [simp]:
  assumes "fmlookup m c = None"
  shows "tally P (fmupd c s m) = tally P m + (if P s then 1 else 0)"
proof -
  let ?S = "{c. \<exists>s. fmlookup m c = Some s \<and> P s}"
  have "{d. \<exists>t. fmlookup (fmupd c s m) d = Some t \<and> P t} = (if P s then insert c ?S else ?S)"
    using assms by auto
  moreover have "c \<notin> ?S" using assms by simp
  ultimately show ?thesis using tally_finite [of m P] by (simp add: tally_def)
qed

lemma tally_drop:
  assumes "fmlookup m c = Some s"
  shows "tally P (fmdrop c m) = tally P m - (if P s then 1 else 0)"
proof -
  let ?S = "{c. \<exists>s. fmlookup m c = Some s \<and> P s}"
  have "{d. \<exists>t. fmlookup (fmdrop c m) d = Some t \<and> P t} = ?S - {c}" by auto
  moreover have "P s \<Longrightarrow> card ?S = Suc (card (?S - {c}))"
    using assms by (intro card.remove [OF tally_finite]) auto
  moreover have "\<not> P s \<Longrightarrow> ?S - {c} = ?S" using assms by auto
  ultimately show ?thesis by (simp add: tally_def)
qed


lemma tally_nonneg [simp]: "0 \<le> tally P m"
  by (simp add: tally_def)

lemma conns_of_tally: "conns_of a = tally (\<lambda>_. True) (at_callers a)"
proof -
  have "{c. \<exists>s. fmlookup (at_callers a) c = Some s} = fset (fmdom (at_callers a))"
    by (auto simp: fmlookup_dom_iff)
  then show ?thesis by (simp add: conns_of_def tally_def fcard.rep_eq)
qed

subsection \<open>Logging changes nothing else\<close>

lemma logf_keeps [simp]:
  "at_opts (logf l a) = at_opts a" "at_callers (logf l a) = at_callers a" "at_open (logf l a) = at_open a"
  "at_perSrc (logf l a) = at_perSrc a" "at_strangers (logf l a) = at_strangers a" "at_closed (logf l a) = at_closed a"
  "at_rules (logf l a) = at_rules a"
  by (simp_all add: logf_def)

lemma log_refusal_keeps [simp]:
  "at_opts (log_refusal src l now a) = at_opts a" "at_callers (log_refusal src l now a) = at_callers a"
  "at_open (log_refusal src l now a) = at_open a" "at_perSrc (log_refusal src l now a) = at_perSrc a"
  "at_strangers (log_refusal src l now a) = at_strangers a" "at_closed (log_refusal src l now a) = at_closed a"
  "at_rules (log_refusal src l now a) = at_rules a"
  by (simp_all add: log_refusal_def Let_def split: prod.split)

lemma turn_away_keeps [simp]:
  "at_opts (turn_away src r w now a) = at_opts a" "at_callers (turn_away src r w now a) = at_callers a"
  "at_open (turn_away src r w now a) = at_open a" "at_perSrc (turn_away src r w now a) = at_perSrc a"
  "at_strangers (turn_away src r w now a) = at_strangers a" "at_closed (turn_away src r w now a) = at_closed a"
  "at_rules (turn_away src r w now a) = at_rules a"
  by (simp_all add: turn_away_def)

lemma close_keeps [simp]:
  "at_opts (fst (close_acceptor now a)) = at_opts a" "at_callers (fst (close_acceptor now a)) = at_callers a"
  "at_open (fst (close_acceptor now a)) = at_open a" "at_perSrc (fst (close_acceptor now a)) = at_perSrc a"
  "at_strangers (fst (close_acceptor now a)) = at_strangers a" "at_closed (fst (close_acceptor now a))"
  by (simp_all add: close_acceptor_def Let_def split: prod.split)

subsection \<open>Steps\<close>

datatype carry_phase = Dialling | Splicing nat

type_synonym carrying = "nat \<Rightarrow> carry_phase option"

inductive accept_step :: "acceptor \<times> carrying \<Rightarrow> acceptor \<times> carrying \<Rightarrow> bool" where
  carried: "c \<notin> at_open a \<Longrightarrow> admit_conn now c remote rule a = (a', Some src) \<Longrightarrow>
    accept_step (a, w) (a', w(c := Some Dialling))"
| turned: "admit_conn now c remote rule a = (a', None) \<Longrightarrow> accept_step (a, w) (a', w)"
| unanswered: "w c = Some Dialling \<Longrightarrow> accept_step (a, w) (carry_failed c src rule err a, w(c := None))"
| dialled: "w c = Some Dialling \<Longrightarrow> local \<notin> at_open a \<Longrightarrow> carry_dialled c local src rule a = (a', True) \<Longrightarrow>
    accept_step (a, w) (a', w(c := Some (Splicing local)))"
| too_late: "w c = Some Dialling \<Longrightarrow> carry_dialled c local src rule a = (a', False) \<Longrightarrow>
    accept_step (a, w) (a', w(c := None))"
| ended: "w c = Some (Splicing local) \<Longrightarrow>
    accept_step (a, w) (carry_ended c local src rule lasted reason bi bo a, w(c := None))"
| closed: "accept_step (a, w) (fst (close_acceptor now a), w)"

inductive_cases accept_stepE: "accept_step (a, w) s"

definition locals :: "carrying \<Rightarrow> nat set" where
  "locals w = {l. \<exists>c. w c = Some (Splicing l)}"

text \<open>The limits, the counters and the sets agree.\<close>

definition accept_inv :: "acceptor \<times> carrying \<Rightarrow> bool" where
  "accept_inv s \<longleftrightarrow>
     (let a = fst s; w = snd s; m = at_callers a; o' = at_opts a in
      (\<forall>c. fmlookup m c = None \<longleftrightarrow> w c = None) \<and>
      (\<forall>b. count_of a b = tally (\<lambda>s. sl_bucket s = b) m \<and> count_of a b \<le> ao_MaxPerSource o') \<and>
      (\<forall>b n. fmlookup (at_perSrc a) b = Some n \<longrightarrow> 0 < n) \<and>
      at_strangers a = tally (\<lambda>s. \<not> sl_individual s) m \<and>
      (ao_Individual o' \<noteq> None \<longrightarrow> at_strangers a \<le> strangerCap a) \<and>
      conns_of a \<le> ao_MaxConns o' \<and>
      at_open a = fset (fmdom m) \<union> locals w \<and> fset (fmdom m) \<inter> locals w = {} \<and>
      (\<forall>c d l. w c = Some (Splicing l) \<and> w d = Some (Splicing l) \<longrightarrow> c = d))"

text \<open>What an admitted connection is.\<close>

lemma admit_conn_Some:
  "admit_conn now c remote rule a = (a', Some src) \<longleftrightarrow>
     (let ind = individual now src a; b = bucketFor src ind in
      callerAddr remote = Some src \<and> permitted now src a \<and> \<not> at_closed a \<and>
      conns_of a < ao_MaxConns (at_opts a) \<and>
      (ind \<or> ao_Individual (at_opts a) = None \<or> at_strangers a < strangerCap a) \<and>
      count_of a b < ao_MaxPerSource (at_opts a) \<and>
      a' = a\<lparr>at_open := insert c (at_open a),
             at_callers := fmupd c \<lparr>sl_src = src, sl_bucket = b, sl_individual = ind\<rparr> (at_callers a),
             at_perSrc := fmupd b (count_of a b + 1) (at_perSrc a),
             at_strangers := (if ind then at_strangers a else at_strangers a + 1),
             at_admitted := at_admitted a + 1\<rparr>)"
  by (cases "callerAddr remote") (auto simp: admit_conn_def Let_def not_le split: if_splits)

lemma admit_conn_None:
  "admit_conn now c remote rule a = (a', None) \<Longrightarrow>
     at_opts a' = at_opts a \<and> at_callers a' = at_callers a \<and> at_open a' = at_open a \<and>
     at_perSrc a' = at_perSrc a \<and> at_strangers a' = at_strangers a \<and> at_closed a' = at_closed a"
  by (auto simp: admit_conn_def Let_def split: if_splits)

lemma accept_inv_cong:
  "at_opts a' = at_opts a \<Longrightarrow> at_callers a' = at_callers a \<Longrightarrow> at_open a' = at_open a \<Longrightarrow>
     at_perSrc a' = at_perSrc a \<Longrightarrow> at_strangers a' = at_strangers a \<Longrightarrow>
     accept_inv (a', w) \<longleftrightarrow> accept_inv (a, w)"
  by (simp add: accept_inv_def Let_def count_of_def strangerCap_def conns_of_def)

lemma accept_inv_intro:
  assumes "\<And>c. fmlookup (at_callers a) c = None \<longleftrightarrow> w c = None"
    and "\<And>b. count_of a b = tally (\<lambda>s. sl_bucket s = b) (at_callers a)"
    and "\<And>b. count_of a b \<le> ao_MaxPerSource (at_opts a)"
    and "\<And>b n. fmlookup (at_perSrc a) b = Some n \<Longrightarrow> 0 < n"
    and "at_strangers a = tally (\<lambda>s. \<not> sl_individual s) (at_callers a)"
    and "ao_Individual (at_opts a) \<noteq> None \<Longrightarrow> at_strangers a \<le> strangerCap a"
    and "conns_of a \<le> ao_MaxConns (at_opts a)"
    and "at_open a = fset (fmdom (at_callers a)) \<union> locals w"
    and "fset (fmdom (at_callers a)) \<inter> locals w = {}"
    and "\<And>c d l. w c = Some (Splicing l) \<Longrightarrow> w d = Some (Splicing l) \<Longrightarrow> c = d"
  shows "accept_inv (a, w)"
  using assms unfolding accept_inv_def Let_def fst_conv snd_conv by blast

lemma accept_invD:
  assumes "accept_inv (a, w)"
  shows "fmlookup (at_callers a) c = None \<longleftrightarrow> w c = None"
    and "count_of a b = tally (\<lambda>s. sl_bucket s = b) (at_callers a)"
    and "count_of a b \<le> ao_MaxPerSource (at_opts a)"
    and "fmlookup (at_perSrc a) b = Some n \<Longrightarrow> 0 < n"
    and "at_strangers a = tally (\<lambda>s. \<not> sl_individual s) (at_callers a)"
    and "ao_Individual (at_opts a) \<noteq> None \<Longrightarrow> at_strangers a \<le> strangerCap a"
    and "conns_of a \<le> ao_MaxConns (at_opts a)"
    and "at_open a = fset (fmdom (at_callers a)) \<union> locals w"
    and "fset (fmdom (at_callers a)) \<inter> locals w = {}"
    and "w c = Some (Splicing l) \<Longrightarrow> w d = Some (Splicing l) \<Longrightarrow> c = d"
  using assms unfolding accept_inv_def Let_def fst_conv snd_conv by blast+

lemma locals_upd [simp]:
  assumes "\<forall>l. w c \<noteq> Some (Splicing l)"
  shows "locals (w(c := Some Dialling)) = locals w" "locals (w(c := None)) = locals w"
    "locals (w(c := Some (Splicing l))) = insert l (locals w)"
proof -
  have "(w(c := x)) d = Some (Splicing k) \<longleftrightarrow> (if d = c then x = Some (Splicing k) else w d = Some (Splicing k))" for x d k
    by simp
  with assms show "locals (w(c := Some Dialling)) = locals w" "locals (w(c := None)) = locals w"
    "locals (w(c := Some (Splicing l))) = insert l (locals w)"
    unfolding locals_def by (auto simp del: fun_upd_apply) metis+
qed

lemma locals_ended:
  assumes "w c = Some (Splicing l)" and "\<And>c d l. w c = Some (Splicing l) \<Longrightarrow> w d = Some (Splicing l) \<Longrightarrow> c = d"
  shows "locals (w(c := None)) = locals w - {l}"
proof -
  have "(\<exists>d. (w(c := None)) d = Some (Splicing k)) \<longleftrightarrow> (\<exists>d. w d = Some (Splicing k)) \<and> k \<noteq> l" for k
    using assms by (metis (mono_tags, lifting) carry_phase.inject fun_upd_apply option.discI option.inject)
  then show ?thesis unfolding locals_def by blast
qed

lemma admit_inv:
  assumes "accept_inv (a, w)" and "c \<notin> at_open a" and "admit_conn now c remote rule a = (a', Some src)"
  shows "accept_inv (a', w(c := Some Dialling))"
proof -
  note I = accept_invD [OF assms(1)]
  define ind where "ind = individual now src a"
  define b where "b = bucketFor src ind"
  let ?slot = "\<lparr>sl_src = src, sl_bucket = b, sl_individual = ind\<rparr>"
  from assms(3) have g: "conns_of a < ao_MaxConns (at_opts a)"
    "ind \<or> ao_Individual (at_opts a) = None \<or> at_strangers a < strangerCap a"
    "count_of a b < ao_MaxPerSource (at_opts a)"
    and a': "a' = a\<lparr>at_open := insert c (at_open a), at_callers := fmupd c ?slot (at_callers a),
             at_perSrc := fmupd b (count_of a b + 1) (at_perSrc a),
             at_strangers := (if ind then at_strangers a else at_strangers a + 1),
             at_admitted := at_admitted a + 1\<rparr>"
    unfolding admit_conn_Some Let_def ind_def b_def by blast+
  have c: "c |\<notin>| fmdom (at_callers a)" "c \<notin> locals w" using assms(2) I(8) by auto
  then have m: "fmlookup (at_callers a) c = None" by (simp add: fmlookup_dom_iff)
  with I(1) have w: "w c = None" by simp
  have count: "count_of a' x = count_of a x + (if x = b then 1 else 0)" for x
    by (simp add: a' count_of_def)
  have conns: "conns_of a' = conns_of a + 1"
    using m unfolding conns_of_tally by (simp add: a')
  show ?thesis
  proof (rule accept_inv_intro)
    fix x show "count_of a' x = tally (\<lambda>s. sl_bucket s = x) (at_callers a')"
      using I(2) m unfolding count by (auto simp: a')
    show "count_of a' x \<le> ao_MaxPerSource (at_opts a')"
      using I(3) [of x] g(3) unfolding count by (simp add: a')
  next
    fix x n assume "fmlookup (at_perSrc a') x = Some n"
    then show "0 < n" using I(4) [of x n] I(2) [of b] tally_nonneg [of "\<lambda>s. sl_bucket s = b" "at_callers a"]
      by (auto simp: a' split: if_splits)
  next
    show "at_strangers a' = tally (\<lambda>s. \<not> sl_individual s) (at_callers a')"
      using I(5) m by (simp add: a')
    show "ao_Individual (at_opts a') \<noteq> None \<Longrightarrow> at_strangers a' \<le> strangerCap a'"
      using I(6) g(2) by (auto simp: a' strangerCap_def)
    show "conns_of a' \<le> ao_MaxConns (at_opts a')" using conns g(1) by (simp add: a')
    show "at_open a' = fset (fmdom (at_callers a')) \<union> locals (w(c := Some Dialling))"
      using I(8) w by (simp add: a')
    show "fset (fmdom (at_callers a')) \<inter> locals (w(c := Some Dialling)) = {}"
      using I(9) c(2) w by (simp add: a')
  next
    fix d show "fmlookup (at_callers a') d = None \<longleftrightarrow> (w(c := Some Dialling)) d = None"
      using I(1) by (simp add: a')
  next
    fix x y l assume "(w(c := Some Dialling)) x = Some (Splicing l)" "(w(c := Some Dialling)) y = Some (Splicing l)"
    then show "x = y" using I(10) by (auto split: if_splits)
  qed
qed

lemma release_inv:
  assumes "accept_inv (a, w)" and "w c = Some ph"
    and "a'' = release_conn c a'"
    and "at_open a' = at_open a - (case ph of Dialling \<Rightarrow> {} | Splicing l \<Rightarrow> {l})"
    and "at_opts a' = at_opts a" "at_callers a' = at_callers a" "at_perSrc a' = at_perSrc a" "at_strangers a' = at_strangers a"
  shows "accept_inv (a'', w(c := None))"
proof -
  note I = accept_invD [OF assms(1)]
  from I(1) [of c] assms(2) obtain slot where s: "fmlookup (at_callers a) c = Some slot" by auto
  let ?b = "sl_bucket slot"
  have cnt: "count_of a' x = count_of a x" for x using assms(7) by (simp add: count_of_def)
  have callers: "at_callers a'' = fmdrop c (at_callers a)" and opts: "at_opts a'' = at_opts a"
    and strangers: "at_strangers a'' = at_strangers a - (if sl_individual slot then 0 else 1)"
    and per: "at_perSrc a'' = (if count_of a ?b \<le> 1 then fmdrop ?b (at_perSrc a)
                 else fmupd ?b (count_of a ?b - 1) (at_perSrc a))"
    and opn: "at_open a'' = at_open a - (case ph of Dialling \<Rightarrow> {} | Splicing l \<Rightarrow> {l}) - {c}"
    using assms s by (simp_all add: release_conn_def cnt Let_def)
  have one: "1 \<le> count_of a ?b"
    using I(2) [of ?b] tally_drop [OF s, of "\<lambda>t. sl_bucket t = ?b"] tally_nonneg [of _ "fmdrop c (at_callers a)"]
    by (metis (mono_tags, lifting) diff_ge_0_iff_ge)
  have count: "count_of a'' x = count_of a x - (if x = ?b then 1 else 0)" for x
    using one unfolding count_of_def [of a''] per by (auto simp: count_of_def split: option.splits)
  have conns: "conns_of a'' = conns_of a - 1"
    unfolding conns_of_tally callers using tally_drop [OF s, of "\<lambda>_. True"] by simp
  have c: "c |\<in>| fmdom (at_callers a)" using s by (rule fmdomI)
  have loc: "locals (w(c := None)) = locals w - (case ph of Dialling \<Rightarrow> {} | Splicing l \<Rightarrow> {l})"
    using locals_ended [of w c, OF _ I(10)] assms(2) by (cases ph) auto
  show ?thesis
  proof (rule accept_inv_intro)
    fix x show "count_of a'' x = tally (\<lambda>s. sl_bucket s = x) (at_callers a'')"
      using I(2) [of x] unfolding count callers tally_drop [OF s] by auto
    show "count_of a'' x \<le> ao_MaxPerSource (at_opts a'')"
      using I(3) [of x] I(3) [of ?b] unfolding count opts by auto
  next
    fix x n assume "fmlookup (at_perSrc a'') x = Some n"
    then show "0 < n" using I(4) [of x n] unfolding per by (auto split: if_splits)
  next
    show "at_strangers a'' = tally (\<lambda>s. \<not> sl_individual s) (at_callers a'')"
      unfolding strangers callers tally_drop [OF s] using I(5) by simp
    show "ao_Individual (at_opts a'') \<noteq> None \<Longrightarrow> at_strangers a'' \<le> strangerCap a''"
      using I(6) unfolding strangerCap_def opts strangers by auto
    show "conns_of a'' \<le> ao_MaxConns (at_opts a'')" using I(7) unfolding conns opts by simp
    show "at_open a'' = fset (fmdom (at_callers a'')) \<union> locals (w(c := None))"
      unfolding opn callers loc using I(8,9) assms(2) c by (cases ph) (auto simp: locals_def)
    show "fset (fmdom (at_callers a'')) \<inter> locals (w(c := None)) = {}"
      unfolding callers loc using I(9) by auto
  next
    fix d show "fmlookup (at_callers a'') d = None \<longleftrightarrow> (w(c := None)) d = None"
      unfolding callers using I(1) by simp
  next
    fix x y l assume "(w(c := None)) x = Some (Splicing l)" "(w(c := None)) y = Some (Splicing l)"
    then show "x = y" using I(10) by (auto split: if_splits)
  qed
qed

lemma accept_step_inv:
  "accept_step s s' \<Longrightarrow> accept_inv s \<Longrightarrow> accept_inv s' \<and> at_opts (fst s') = at_opts (fst s)"
proof (induction rule: accept_step.induct)
  case (carried c a now remote rule a' src w)
  from admit_inv [OF carried(3,1,2)] carried(2) show ?case
    unfolding admit_conn_Some Let_def by auto
next
  case (turned now c remote rule a a' w)
  from admit_conn_None [OF turned(1)] turned(2) accept_inv_cong [of a' a w] show ?case by simp
next
  case (unanswered w c a src rule err)
  have "accept_inv (carry_failed c src rule err a, w(c := None))"
    by (rule release_inv [OF unanswered(2,1) carry_failed_def]) simp_all
  then show ?case by (simp add: carry_failed_def release_conn_def Let_def)
next
  case (dialled w c l a src rule a')
  note I = accept_invD [OF dialled(4)]
  from dialled(3) have a': "at_opts a' = at_opts a" "at_callers a' = at_callers a" "at_perSrc a' = at_perSrc a"
    "at_strangers a' = at_strangers a" "at_open a' = insert l (at_open a)"
    by (auto simp: carry_dialled_def split: if_splits)
  have l: "l \<notin> fset (fmdom (at_callers a))" "l \<notin> locals w" using dialled(2) I(8) by auto
  have c: "\<forall>k. w c \<noteq> Some (Splicing k)" using dialled(1) by simp
  have cnt: "count_of a' b = count_of a b" for b by (simp add: count_of_def a')
  have conns: "conns_of a' = conns_of a" by (simp add: conns_of_def a')
  have "accept_inv (a', w(c := Some (Splicing l)))"
  proof (rule accept_inv_intro)
    fix d show "fmlookup (at_callers a') d = None \<longleftrightarrow> (w(c := Some (Splicing l))) d = None"
      using I(1) [of d] dialled(1) by (simp add: a')
  next
    fix b show "count_of a' b = tally (\<lambda>s. sl_bucket s = b) (at_callers a')" using I(2) unfolding cnt a' .
    show "count_of a' b \<le> ao_MaxPerSource (at_opts a')" using I(3) unfolding cnt a' .
  next
    fix b n assume "fmlookup (at_perSrc a') b = Some n"
    then show "0 < n" using I(4) unfolding a' by blast
  next
    show "at_strangers a' = tally (\<lambda>s. \<not> sl_individual s) (at_callers a')" using I(5) unfolding a' .
    show "ao_Individual (at_opts a') \<noteq> None \<Longrightarrow> at_strangers a' \<le> strangerCap a'"
      using I(6) unfolding strangerCap_def a' .
    show "conns_of a' \<le> ao_MaxConns (at_opts a')" using I(7) unfolding conns a' .
    show "at_open a' = fset (fmdom (at_callers a')) \<union> locals (w(c := Some (Splicing l)))"
      using I(8) unfolding a' locals_upd(3) [of w c l, OF c] by simp
    show "fset (fmdom (at_callers a')) \<inter> locals (w(c := Some (Splicing l))) = {}"
      using I(9) l(1) unfolding a' locals_upd(3) [of w c l, OF c] by simp
  next
    fix x y k assume "(w(c := Some (Splicing l))) x = Some (Splicing k)" "(w(c := Some (Splicing l))) y = Some (Splicing k)"
    then show "x = y" using I(10) l(2) by (auto simp: locals_def split: if_splits)
  qed
  with a' show ?case by simp
next
  case (too_late w c l src rule a a')
  from too_late(2) have a': "a' = release_conn c a" by (auto simp: carry_dialled_def split: if_splits)
  have "accept_inv (a', w(c := None))"
    by (rule release_inv [OF too_late(3,1) a']) simp_all
  then show ?case by (simp add: a' release_conn_def Let_def)
next
  case (ended w c l a src rule lasted reason bi bo)
  have "accept_inv (carry_ended c l src rule lasted reason bi bo a, w(c := None))"
    by (rule release_inv [OF ended(2,1) carry_ended_def]) simp_all
  then show ?case by (simp add: carry_ended_def release_conn_def Let_def)
next
  case (closed a w now)
  from accept_inv_cong [of "fst (close_acceptor now a)" a w] closed show ?case by simp
qed

lemma accept_run_inv:
  "accept_step\<^sup>*\<^sup>* s s' \<Longrightarrow> accept_inv s \<Longrightarrow> accept_inv s' \<and> at_opts (fst s') = at_opts (fst s)"
  by (induction rule: rtranclp_induct) (auto dest: accept_step_inv)

lemma withDefaults_limits:
  "1 \<le> ao_MaxConns (withDefaults o') \<and> 1 \<le> ao_MaxPerSource (withDefaults o')"
  by (simp add: withDefaults_def defaultAcceptMaxConns_def defaultAcceptMaxPerSource_def)

lemma strangerCap_bounds: "1 \<le> ao_MaxConns (at_opts a) \<Longrightarrow> 1 \<le> strangerCap a \<and> strangerCap a \<le> ao_MaxConns (at_opts a)"
  by (auto simp: strangerCap_def Let_def)

lemma newAcceptor_inv:
  assumes "newAcceptor rules opts listen = Inr (a, lns)"
  shows "accept_inv (a, \<lambda>_. None) \<and> at_opts a = withDefaults opts"
proof -
  from assms have a: "at_opts a = withDefaults opts" "at_callers a = fmempty" "at_perSrc a = fmempty"
    "at_strangers a = 0" "at_open a = {}"
    by (auto simp: newAcceptor_def split: sum.splits) (cases "bind_ports listen [] rules"; auto)+
  have s: "0 \<le> strangerCap a" using strangerCap_bounds [of a] withDefaults_limits [of opts] a(1) by simp
  have "0 \<le> ao_MaxPerSource (withDefaults opts)" "0 \<le> ao_MaxConns (withDefaults opts)"
    using withDefaults_limits [of opts] by simp_all
  then show ?thesis
    using a s by (auto simp: accept_inv_def count_of_def conns_of_def locals_def fcard.rep_eq)
qed

subsection \<open>The limits\<close>

text \<open>
  C17. However the connections of an acceptor interleave, and however membership of the fleet
  changes meanwhile: at most \<open>MaxConns\<close> connections are open, at most \<open>MaxPerSource\<close> counted under
  one prefix, and with a fleet at most \<open>MaxConns\<close> less a quarter (and less one of two) from outside
  it, each counter being the size of the set it stands for; a limit is a limit on what is open, so
  when nothing is being carried nothing is counted and no connection is left to close.
\<close>
theorem accept_limits:
  assumes "newAcceptor rules opts listen = Inr (a0, lns)" and "accept_step\<^sup>*\<^sup>* (a0, \<lambda>_. None) (a, w)"
  shows "dom w = fset (fmdom (at_callers a)) \<and> at_open a = dom w \<union> locals w \<and>
    int (card (dom w)) \<le> ao_MaxConns (withDefaults opts) \<and>
    (\<forall>b. count_of a b = tally (\<lambda>s. sl_bucket s = b) (at_callers a) \<and>
       count_of a b \<le> ao_MaxPerSource (withDefaults opts)) \<and>
    at_strangers a = tally (\<lambda>s. \<not> sl_individual s) (at_callers a) \<and>
    (ao_Individual opts \<noteq> None \<longrightarrow>
       at_strangers a \<le> ao_MaxConns (withDefaults opts) - max (ao_MaxConns (withDefaults opts) div 4)
         (if ao_MaxConns (withDefaults opts) > 1 then 1 else 0)) \<and>
    (w = (\<lambda>_. None) \<longrightarrow> at_callers a = fmempty \<and> at_perSrc a = fmempty \<and> at_strangers a = 0 \<and> at_open a = {})"
proof -
  from newAcceptor_inv [OF assms(1)] accept_run_inv [OF assms(2)]
  have inv: "accept_inv (a, w)" and o: "at_opts a = withDefaults opts" by simp_all
  note I = accept_invD [OF inv]
  have "c \<in> dom w \<longleftrightarrow> c \<in> fset (fmdom (at_callers a))" for c
    using I(1) [of c] by (cases "fmlookup (at_callers a) c") (auto simp: fmlookup_dom_iff)
  then have d: "dom w = fset (fmdom (at_callers a))" by blast
  have card: "int (card (dom w)) \<le> ao_MaxConns (withDefaults opts)"
    using I(7) o by (simp add: d conns_of_def fcard.rep_eq)
  have ind: "ao_Individual (withDefaults opts) = ao_Individual opts" by (simp add: withDefaults_def)
  have cap: "strangerCap a = ao_MaxConns (withDefaults opts) - max (ao_MaxConns (withDefaults opts) div 4)
      (if ao_MaxConns (withDefaults opts) > 1 then 1 else 0)"
    using withDefaults_limits [of opts] by (auto simp: strangerCap_def Let_def o max_def)
  have empty: "at_callers a = fmempty \<and> at_perSrc a = fmempty \<and> at_strangers a = 0 \<and> at_open a = {}" if "w = (\<lambda>_. None)"
  proof -
    have m: "at_callers a = fmempty" using I(1) that by (intro fmap_ext) simp
    have "fmlookup (at_perSrc a) b = None" for b
      using I(2) [of b] I(4) [of b] by (cases "fmlookup (at_perSrc a) b") (auto simp: count_of_def m)
    then have "at_perSrc a = fmempty" by (intro fmap_ext) simp
    with m I(5,8) that show ?thesis by (simp add: locals_def)
  qed
  show ?thesis
    using d card I(2,3,5,6,8) empty unfolding o ind cap by blast
qed


text \<open>
  A set of ports is opened whole or not at all: \<open>newAcceptor\<close> succeeds exactly when every port
  is a TCP port, none is named twice and each can be bound, and then the ports bound are those of
  the rules in order; otherwise the error names the first port that fails, and what was bound
  before it, the ports of the rules ahead of it, is closed again.
\<close>
theorem ports_all_or_nothing:
  "(case newAcceptor rules opts listen of
      Inr (a, lns) \<Rightarrow> lns = map ru_Port rules \<and> at_rules a = rules \<and> distinct lns \<and>
        list_all (\<lambda>p. 1 \<le> p \<and> p \<le> 65535 \<and> listen p) lns
    | Inl (e, released) \<Rightarrow> \<exists>front r rest. rules = front @ r # rest \<and> released = map ru_Port front \<and>
        distinct released \<and> list_all (\<lambda>p. 1 \<le> p \<and> p \<le> 65535 \<and> listen p) released \<and>
        e = (if ru_Port r < 1 \<or> ru_Port r > 65535 then NotATCPPort (ru_Port r)
             else if ru_Port r \<in> set released then NamedTwice (ru_Port r) else CouldNotOpen (ru_Port r)) \<and>
        (ru_Port r < 1 \<or> ru_Port r > 65535 \<or> ru_Port r \<in> set released \<or> \<not> listen (ru_Port r)))"
proof -
  define G where "G lns \<longleftrightarrow> distinct lns \<and> list_all (\<lambda>p. 1 \<le> p \<and> p \<le> 65535 \<and> listen p) lns" for lns
  define B where "B released p e \<longleftrightarrow>
      e = (if p < 1 \<or> p > 65535 then NotATCPPort p else if p \<in> set released then NamedTwice p else CouldNotOpen p) \<and>
      (p < 1 \<or> p > 65535 \<or> p \<in> set released \<or> \<not> listen p)" for released p e
  have bind: "case bind_ports listen (map ru_Port front) rs of
      Inr lns \<Rightarrow> lns = map ru_Port (front @ rs) \<and> G lns
    | Inl (e, released) \<Rightarrow> \<exists>mid r rest. rs = mid @ r # rest \<and> released = map ru_Port (front @ mid) \<and>
        G released \<and> B released (ru_Port r) e"
    if "G (map ru_Port front)" for front rs
    using that
  proof (induction rs arbitrary: front)
    case (Cons r rs)
    let ?p = "ru_Port r" and ?f = "map ru_Port front"
    show ?case
    proof (cases "?p < 1 \<or> ?p > 65535 \<or> ?p \<in> set ?f \<or> \<not> listen ?p")
      case True
      then obtain e where e: "bind_ports listen ?f (r # rs) = Inl (e, ?f)" "B ?f ?p e"
        by (auto simp: Let_def B_def)
      have "r # rs = [] @ r # rs \<and> ?f = map ru_Port (front @ []) \<and> G ?f \<and> B ?f ?p e"
        using e(2) Cons.prems by simp
      then show ?thesis unfolding e(1) sum.case prod.case by blast
    next
      case False
      then have step: "bind_ports listen ?f (r # rs) = bind_ports listen (map ru_Port (front @ [r])) rs"
        by (simp add: Let_def)
      have "G (map ru_Port (front @ [r]))" using False Cons.prems by (auto simp: G_def)
      note IH = Cons.IH [OF this]
      show ?thesis
      proof (cases "bind_ports listen (map ru_Port (front @ [r])) rs")
        case (Inl x)
        obtain e released where x: "x = (e, released)" by (cases x)
        from IH obtain mid b rest where "rs = mid @ b # rest \<and> released = map ru_Port ((front @ [r]) @ mid) \<and>
            G released \<and> B released (ru_Port b) e" unfolding Inl x by auto
        then have "r # rs = (r # mid) @ b # rest \<and> released = map ru_Port (front @ (r # mid)) \<and>
            G released \<and> B released (ru_Port b) e" by auto
        then show ?thesis unfolding step Inl x sum.case prod.case by blast
      next
        case (Inr lns)
        with IH show ?thesis unfolding step by auto
      qed
    qed
  qed simp
  show ?thesis
  proof (cases "bind_ports listen [] rules")
    case (Inl x)
    obtain e released where x: "x = (e, released)" by (cases x)
    from bind [of "[]" rules] show ?thesis by (auto simp: newAcceptor_def Inl x G_def B_def)
  next
    case (Inr lns)
    with bind [of "[]" rules] show ?thesis by (auto simp: newAcceptor_def G_def)
  qed
qed

subsection \<open>The log of refusals\<close>

fun note_all :: "(ip_addr option \<times> string \<times> int) list \<Rightarrow> refusal_log \<Rightarrow> refusal_log \<times> string list" where
  "note_all [] r = (r, [])"
| "note_all ((src, line, now) # es) r =
     (let (r, out) = note_refusal src line now r; (r, outs) = note_all es r in (r, out # outs))"

lemma note_in_window:
  assumes "rl_window r = Some w" and "time_sub now w < refusalWindow"
  shows "note_refusal src line now r =
     (if sourceBucket src \<notin> set (rl_seen r) \<and> length (rl_seen r) < refusalNamedMax then
        (r\<lparr>rl_seen := sourceBucket src # rl_seen r\<rparr>, line)
      else (r\<lparr>rl_suppressed := rl_suppressed r + 1\<rparr>, []))"
  using assms by (simp add: note_refusal_def window_age_def Let_def)

lemma note_all_window:
  assumes "rl_window r = Some w" and "length (rl_seen r) \<le> refusalNamedMax"
    and "\<forall>(src, line, now) \<in> set es. time_sub now w < refusalWindow \<and> line \<noteq> []"
  shows "\<exists>r' outs. note_all es r = (r', outs) \<and> rl_window r' = Some w \<and>
     list_all2 (\<lambda>(src, line, now) out. out = line \<or> out = []) es outs \<and>
     length (rl_seen r') = length (rl_seen r) + length (filter (\<lambda>out. out \<noteq> []) outs) \<and>
     length (rl_seen r') \<le> refusalNamedMax \<and>
     rl_suppressed r' = rl_suppressed r + int (length (filter (\<lambda>out. out = []) outs)) \<and>
     (\<forall>(src, line, now) \<in> set es. sourceBucket src \<in> set (rl_seen r') \<or> length (rl_seen r') = refusalNamedMax) \<and>
     set (rl_seen r) \<subseteq> set (rl_seen r')"
  using assms
proof (induction es arbitrary: r)
  case (Cons e es)
  obtain src line now where e: "e = (src, line, now)" by (cases e)
  let ?named = "sourceBucket src \<notin> set (rl_seen r) \<and> length (rl_seen r) < refusalNamedMax"
  let ?r = "if ?named then r\<lparr>rl_seen := sourceBucket src # rl_seen r\<rparr> else r\<lparr>rl_suppressed := rl_suppressed r + 1\<rparr>"
  let ?out = "if ?named then line else []"
  have n: "note_refusal src line now r = (?r, ?out)"
    using note_in_window [OF Cons.prems(1)] Cons.prems(3) by (auto simp: e)
  have "rl_window ?r = Some w" "length (rl_seen ?r) \<le> refusalNamedMax"
    "\<forall>(src, line, now) \<in> set es. time_sub now w < refusalWindow \<and> line \<noteq> []"
    using Cons.prems by auto
  from Cons.IH [OF this] obtain r' outs where IH: "note_all es ?r = (r', outs)" "rl_window r' = Some w"
     "list_all2 (\<lambda>(src, line, now) out. out = line \<or> out = []) es outs"
     "length (rl_seen r') = length (rl_seen ?r) + length (filter (\<lambda>out. out \<noteq> []) outs)"
     "length (rl_seen r') \<le> refusalNamedMax"
     "rl_suppressed r' = rl_suppressed ?r + int (length (filter (\<lambda>out. out = []) outs))"
     "\<forall>(src, line, now) \<in> set es. sourceBucket src \<in> set (rl_seen r') \<or> length (rl_seen r') = refusalNamedMax"
     "set (rl_seen ?r) \<subseteq> set (rl_seen r')" by blast
  have line: "line \<noteq> []" using Cons.prems(3) by (simp add: e)
  have all: "note_all (e # es) r = (r', ?out # outs)" using n IH(1) by (simp add: e)
  have seen: "sourceBucket src \<in> set (rl_seen r') \<or> length (rl_seen r') = refusalNamedMax"
  proof (cases ?named)
    case True
    then show ?thesis using IH(8) by auto
  next
    case False
    then show ?thesis using IH(4,5,8) Cons.prems(2) by auto
  qed
  show ?case
    unfolding all using IH(2-8) line seen by (auto simp: e split: if_splits)
qed simp

text \<open>
  Nobody can write the operator's log at will, and no refusal is lost: within one window at most
  32 refusals are logged by their own line and every other one is counted; a source is left
  unnamed only when it is named already or 32 others are. The count is told when the window turns
  or the acceptor closes.
\<close>
theorem refusal_log_bounded:
  assumes "rl_window r = Some w" and "rl_seen r = []"
    and "\<forall>(src, line, now) \<in> set es. time_sub now w < refusalWindow \<and> line \<noteq> []"
  shows "\<exists>r' outs. note_all es r = (r', outs) \<and>
     list_all2 (\<lambda>(src, line, now) out. out = line \<or> out = []) es outs \<and>
     length (filter (\<lambda>out. out \<noteq> []) outs) \<le> 32 \<and>
     rl_suppressed r' = rl_suppressed r + int (length (filter (\<lambda>out. out = []) outs)) \<and>
     (\<forall>(src, line, now) \<in> set es. sourceBucket src \<in> set (rl_seen r') \<or> length (filter (\<lambda>out. out \<noteq> []) outs) = 32) \<and>
     (\<forall>now. rl_suppressed r' > 0 \<longrightarrow> flush_refusals now r' =
        (\<lparr>rl_window = None, rl_seen = [], rl_suppressed = 0\<rparr>, summary_line now r')) \<and>
     (\<forall>now src line. rl_suppressed r' > 0 \<and> refusalWindow \<le> time_sub now w \<longrightarrow>
        note_refusal src line now r' =
          (\<lparr>rl_window = Some now, rl_seen = [sourceBucket src], rl_suppressed = 0\<rparr>,
           summary_line now r' @ CHR 0x0A # line))"
proof -
  from note_all_window [OF assms(1) _ assms(3)] assms(2) obtain r' outs where n: "note_all es r = (r', outs)"
     "rl_window r' = Some w" "list_all2 (\<lambda>(src, line, now) out. out = line \<or> out = []) es outs"
     "length (rl_seen r') = length (filter (\<lambda>out. out \<noteq> []) outs)" "length (rl_seen r') \<le> refusalNamedMax"
     "rl_suppressed r' = rl_suppressed r + int (length (filter (\<lambda>out. out = []) outs))"
     "\<forall>(src, line, now) \<in> set es. sourceBucket src \<in> set (rl_seen r') \<or> length (rl_seen r') = refusalNamedMax"
    by auto
  have "note_refusal src line now r' =
      (\<lparr>rl_window = Some now, rl_seen = [sourceBucket src], rl_suppressed = 0\<rparr>, summary_line now r' @ CHR 0x0A # line)"
    if "rl_suppressed r' > 0" "refusalWindow \<le> time_sub now w" for now src line
    using that n(2) by (simp add: note_refusal_def window_age_def refusalNamedMax_def)
  moreover have "flush_refusals now r' = (\<lparr>rl_window = None, rl_seen = [], rl_suppressed = 0\<rparr>, summary_line now r')"
    if "rl_suppressed r' > 0" for now using that by (simp add: flush_refusals_def)
  ultimately show ?thesis using n by (intro exI [of _ r'] exI [of _ outs]) (simp add: refusalNamedMax_def)
qed

subsection \<open>At concrete inputs\<close>

text \<open>Two connections at most, one of them kept for the fleet, whose one member is \<open>2a04:2a01::5\<close>.\<close>

definition example_member :: ip_addr where
  "example_member = Addr6 0x2a042a01000000000000000000000005 []"

definition example_opts :: accept_opts where
  "example_opts =
     \<lparr>ao_Permit = Some (\<lambda>_ _. True), ao_MaxConns = 2, ao_MaxPerSource = 0,
      ao_Individual = Some (\<lambda>_ a. a = example_member), ao_IdleTimeout = 0, ao_DialTimeout = 0, ao_Logf = False\<rparr>"

definition ssh_rule :: accept_rule where
  "ssh_rule = \<lparr>ru_Port = 22, ru_Target = ''127.0.0.1:22''\<rparr>"

definition example_acceptor :: acceptor where
  "example_acceptor =
     \<lparr>at_rules = [ssh_rule], at_opts = withDefaults example_opts, at_open = {}, at_callers = fmempty,
      at_perSrc = fmempty, at_strangers = 0, at_closed = False,
      at_refusals = \<lparr>rl_window = None, rl_seen = [], rl_suppressed = 0\<rparr>,
      at_admitted = 0, at_refused = 0, at_limited = 0, at_failed = 0, at_log = []\<rparr>"

lemma example_bound: "newAcceptor [ssh_rule] example_opts (\<lambda>_. True) = Inr (example_acceptor, [22])"
  by (simp add: newAcceptor_def ssh_rule_def example_acceptor_def)

lemma example_callers:
  "callerAddr (Some ''[2001:db8::1]:4000'') = Some (Addr6 0x20010db8000000000000000000000001 [])"
  "callerAddr (Some ''[2a04:2a01::5]:4000'') = Some example_member"
proof -
  have u: "ParseUint 10 16 ''4000'' = Some 4000" by (simp add: ParseUint_def uint_digit_def of_char_def)
  have a: "ParseAddr ''2001:db8::1'' = Some (Addr6 0x20010db8000000000000000000000001 [])"
    "ParseAddr ''2a04:2a01::5'' = Some example_member" by code_simp+
  have un: "WithZone [] (Unmap (Addr6 0x20010db8000000000000000000000001 [])) = Addr6 0x20010db8000000000000000000000001 []"
    "WithZone [] (Unmap example_member) = example_member" "Is6 example_member" by code_simp+
  show "callerAddr (Some ''[2001:db8::1]:4000'') = Some (Addr6 0x20010db8000000000000000000000001 [])"
    "callerAddr (Some ''[2a04:2a01::5]:4000'') = Some example_member"
    by (simp_all add: callerAddr_def ParseAddrPort_def u a un)
qed

definition example_held :: acceptor where
  "example_held = fst (admit_conn 0 1 (Some ''[2001:db8::1]:4000'') ssh_rule example_acceptor)"

lemma example_stranger:
  "admit_conn 0 1 (Some ''[2001:db8::1]:4000'') ssh_rule example_acceptor =
     (example_held, Some (Addr6 0x20010db8000000000000000000000001 []))"
  and example_held_callers: "\<exists>b. at_callers example_held =
     fmupd 1 \<lparr>sl_src = Addr6 0x20010db8000000000000000000000001 [], sl_bucket = b, sl_individual = False\<rparr> fmempty \<and>
     b \<noteq> bucketFor example_member True"
  and example_held_rest: "\<not> at_closed example_held" "at_opts example_held = withDefaults example_opts"
proof -
  have i: "\<not> individual 0 (Addr6 0x20010db8000000000000000000000001 []) example_acceptor"
    by (simp add: individual_def example_acceptor_def example_opts_def withDefaults_def example_member_def)
  have b: "bucketFor (Addr6 0x20010db8000000000000000000000001 []) False \<noteq> bucketFor example_member True"
    by code_simp
  have p: "permitted 0 s example_acceptor" for s
    by (simp add: permitted_def example_acceptor_def example_opts_def withDefaults_def)
  let ?s = "Addr6 0x20010db8000000000000000000000001 []"
  obtain a' where a: "admit_conn 0 1 (Some ''[2001:db8::1]:4000'') ssh_rule example_acceptor = (a', Some ?s)"
    "at_callers a' = fmupd 1 \<lparr>sl_src = ?s, sl_bucket = bucketFor ?s False, sl_individual = False\<rparr> fmempty"
    "\<not> at_closed a'" "at_opts a' = withDefaults example_opts"
    using i p [of ?s]
    unfolding admit_conn_Some Let_def
    by (simp add: example_callers) (simp add: example_acceptor_def conns_of_def fcard.rep_eq withDefaults_def
        example_opts_def strangerCap_def count_of_def defaultAcceptMaxPerSource_def)
  then show "admit_conn 0 1 (Some ''[2001:db8::1]:4000'') ssh_rule example_acceptor = (example_held, Some ?s)"
    "\<exists>b. at_callers example_held = fmupd 1 \<lparr>sl_src = ?s, sl_bucket = b, sl_individual = False\<rparr> fmempty \<and>
      b \<noteq> bucketFor example_member True"
    "\<not> at_closed example_held" "at_opts example_held = withDefaults example_opts"
    using b by (auto simp: example_held_def intro!: exI [of _ "bucketFor ?s False"])
qed

lemma example_run:
  "accept_step\<^sup>*\<^sup>* (example_acceptor, \<lambda>_. None) (example_held, (\<lambda>_. None)(1 := Some Dialling))"
  by (rule r_into_rtranclp, rule accept_step.carried [OF _ example_stranger]) (simp add: example_acceptor_def)

lemma accept_limits_witness:
  "at_strangers example_held = 1 \<and> at_strangers example_held \<le> 1 \<and> at_open example_held = {1}"
proof -
  have l: "locals ((\<lambda>_. None)(1 := Some Dialling)) = {}" by (simp add: locals_def)
  from example_held_callers obtain b where c: "at_callers example_held =
      fmupd 1 \<lparr>sl_src = Addr6 0x20010db8000000000000000000000001 [], sl_bucket = b, sl_individual = False\<rparr> fmempty"
    by blast
  from accept_limits [OF example_bound example_run] c l show ?thesis
    by (simp add: example_opts_def withDefaults_def)
qed


lemma refusal_log_bounded_witness:
  "\<exists>r' outs. note_all (replicate 3 (None, ''x'', 5)) \<lparr>rl_window = Some 0, rl_seen = [], rl_suppressed = 0\<rparr> = (r', outs) \<and>
     length (filter (\<lambda>out. out \<noteq> []) outs) \<le> 32"
  using refusal_log_bounded [of "\<lparr>rl_window = Some 0, rl_seen = [], rl_suppressed = 0\<rparr>" 0 "replicate 3 (None, ''x'', 5)"]
  by (auto simp: time_sub_def refusalWindow_def Minute_def Second_def)

lemma ports_all_or_nothing_witness:
  "newAcceptor [ssh_rule, ssh_rule] example_opts (\<lambda>_. True) = Inl (NamedTwice 22, [22])"
  using ports_all_or_nothing [of "[ssh_rule, ssh_rule]" "\<lambda>_. True" example_opts]
  by (simp add: newAcceptor_def ssh_rule_def)

end
