(* ===== verification/DnsRecords.thy ===== *)
theory DnsRecords
  imports GoScan
begin

text \<open>
  The resource records of \<open>github.com/miekg/dns\<close> that the models read, with the fields the code
  reads of them; what else a record holds is opaque bytes. Type numbers are those of the DNS.
\<close>

record rrsig =
  sg_SignerName :: string
  sg_Labels :: nat
  sg_TypeCovered :: nat
  sg_KeyTag :: nat
  sg_Algorithm :: nat
  sg_OrigTtl :: nat
  sg_Rest :: bytes

record dnskey =
  dk_Algorithm :: nat
  dk_Rest :: bytes

record ds_rdata =
  ds_KeyTag :: nat
  ds_Algorithm :: nat
  ds_DigestType :: nat
  ds_Digest :: string

record nsec_rdata =
  ns_NextDomain :: string
  ns_TypeBitMap :: "nat list"

record nsec3_rdata =
  n3_Hash :: nat
  n3_Flags :: nat
  n3_Iterations :: nat
  n3_Salt :: string
  n3_NextDomain :: string
  n3_TypeBitMap :: "nat list"

datatype rr_data =
    PTR (ptr_target: string)
  | AAAA bytes
  | TXT "string list"
  | SSHFP byte byte string
  | TLSA byte byte byte string
  | RRSIG rrsig
  | DNSKEY dnskey
  | DS ds_rdata
  | NSEC nsec_rdata
  | NSEC3 nsec3_rdata
  | SOA nat
  | OtherData

record rr =
  rr_Name :: string
  rr_Type :: nat
  rr_Data :: rr_data

definition TypeNS :: nat where "TypeNS = 2"
definition TypeCNAME :: nat where "TypeCNAME = 5"
definition TypeSOA :: nat where "TypeSOA = 6"
definition TypePTR :: nat where "TypePTR = 12"
definition TypeTXT :: nat where "TypeTXT = 16"
definition TypeAAAA :: nat where "TypeAAAA = 28"
definition TypeDNAME :: nat where "TypeDNAME = 39"
definition TypeDS :: nat where "TypeDS = 43"
definition TypeSSHFP :: nat where "TypeSSHFP = 44"
definition TypeNSEC :: nat where "TypeNSEC = 47"
definition TypeDNSKEY :: nat where "TypeDNSKEY = 48"
definition TypeNSEC3 :: nat where "TypeNSEC3 = 50"
definition TypeTLSA :: nat where "TypeTLSA = 52"

text \<open>\<open>strings.EqualFold\<close>, \<open>strings.ToUpper\<close> and \<open>strings.TrimSuffix(s, ".")\<close>.\<close>

definition equal_fold :: "(string \<Rightarrow> string \<Rightarrow> bool) \<Rightarrow> string \<Rightarrow> string \<Rightarrow> bool" where
  "equal_fold uni s t =
     (if list_all is_ascii s \<and> list_all is_ascii t then map lower_char s = map lower_char t else uni s t)"

definition upper_char :: "char \<Rightarrow> char" where
  "upper_char c = (if CHR ''a'' \<le> c \<and> c \<le> CHR ''z'' then char_of (of_char c - 32 :: nat) else c)"

definition to_upper :: "(string \<Rightarrow> string) \<Rightarrow> string \<Rightarrow> string" where
  "to_upper uni s = (if list_all is_ascii s then map upper_char s else uni s)"

definition trim_dot :: "string \<Rightarrow> string" where
  "trim_dot s = (if s \<noteq> [] \<and> last s = CHR ''.'' then butlast s else s)"

end
