(* ===== verification/WhaleSshfp.thy ===== *)
theory WhaleSshfp
  imports DnsRecords Sha256 "HOL-Library.Multiset" "HOL-Library.List_Lexorder" "HOL-Library.Product_Lexorder"
begin

text \<open>
  \<open>internal/whale/sshfp.go\<close>: published SSH fingerprints and the decision whether an offered key
  is one of them, with the DNS records of \<open>github.com/miekg/dns\<close> it reads. The text of refusals is
  left out.
\<close>

subsection \<open>Pins\<close>

definition SSHFPAlgRSA :: byte where "SSHFPAlgRSA = 1"
definition SSHFPAlgDSA :: byte where "SSHFPAlgDSA = 2"
definition SSHFPAlgECDSA :: byte where "SSHFPAlgECDSA = 3"
definition SSHFPAlgEd25519 :: byte where "SSHFPAlgEd25519 = 4"
definition SSHFPAlgEd448 :: byte where "SSHFPAlgEd448 = 6"
definition SSHFPTypeSHA1 :: byte where "SSHFPTypeSHA1 = 1"
definition SSHFPTypeSHA256 :: byte where "SSHFPTypeSHA256 = 2"

record sshfp_pin =
  sp_Algorithm :: byte
  sp_Type :: byte
  sp_Fingerprint :: string
  sp_Owner :: string

definition AlgorithmName :: "sshfp_pin \<Rightarrow> string" where
  "AlgorithmName p =
     (let a = sp_Algorithm p in
      if a = SSHFPAlgRSA then ''rsa''
      else if a = SSHFPAlgDSA then ''dsa''
      else if a = SSHFPAlgECDSA then ''ecdsa''
      else if a = SSHFPAlgEd25519 then ''ed25519''
      else if a = SSHFPAlgEd448 then ''ed448''
      else ''algorithm-'' @ dec_nat (unat a))"

definition TypeName :: "sshfp_pin \<Rightarrow> string" where
  "TypeName p =
     (if sp_Type p = SSHFPTypeSHA1 then ''sha1''
      else if sp_Type p = SSHFPTypeSHA256 then ''sha256''
      else ''hash-'' @ dec_nat (unat (sp_Type p)))"

definition SSHFPPin_String :: "sshfp_pin \<Rightarrow> string" where
  "SSHFPPin_String p =
     ''SSHFP '' @ dec_nat (unat (sp_Algorithm p)) @ '' '' @ dec_nat (unat (sp_Type p)) @ '' '' @
     sp_Fingerprint p @ '' ('' @ AlgorithmName p @ '', '' @ TypeName p @ '')''"

definition pin_of :: "(string \<Rightarrow> string) \<Rightarrow> rr \<Rightarrow> sshfp_pin option" where
  "pin_of uni r =
     (case rr_Data r of
        SSHFP alg typ fp \<Rightarrow>
          Some \<lparr>sp_Algorithm = alg, sp_Type = typ, sp_Fingerprint = to_lower uni (trim_space fp),
                sp_Owner = trim_dot (rr_Name r)\<rparr>
      | _ \<Rightarrow> None)"

text \<open>The order of the pins is the one of the three fields compared.\<close>

definition pin_key :: "sshfp_pin \<Rightarrow> nat \<times> nat \<times> string" where
  "pin_key p = (unat (sp_Algorithm p), unat (sp_Type p), sp_Fingerprint p)"

definition ParseSSHFP :: "(string \<Rightarrow> string) \<Rightarrow> rr list \<Rightarrow> sshfp_pin list" where
  "ParseSSHFP uni rrs = sort_key pin_key (List.map_filter (pin_of uni) rrs)"

text \<open>\<open>strings.Contains\<close>.\<close>

definition contains_str :: "string \<Rightarrow> string \<Rightarrow> bool" where
  "contains_str s p = (index_of p s \<noteq> None)"

definition HostKeyAlgorithm :: "(string \<Rightarrow> string) \<Rightarrow> string \<Rightarrow> byte option" where
  "HostKeyAlgorithm uni keyType =
     (let t = to_lower uni (trim_space keyType) in
      if contains_str t ''-cert-v0'' then None
      else if t \<in> {''ssh-rsa'', ''rsa-sha2-256'', ''rsa-sha2-512''} then Some SSHFPAlgRSA
      else if t = ''ssh-dss'' then Some SSHFPAlgDSA
      else if prefix ''ecdsa-sha2-nistp'' t then Some SSHFPAlgECDSA
      else if t = ''ssh-ed25519'' then Some SSHFPAlgEd25519
      else if t = ''ssh-ed448'' then Some SSHFPAlgEd448
      else None)"

definition SHA256Fingerprint :: "bytes \<Rightarrow> string" where
  "SHA256Fingerprint keyBlob = hex_encode (sha256 keyBlob)"

text \<open>The pin that matches, or that none does.\<close>

definition MatchHostKey :: "(string \<Rightarrow> string) \<Rightarrow> string \<Rightarrow> string \<Rightarrow> sshfp_pin list \<Rightarrow> sshfp_pin option" where
  "MatchHostKey uni keyType base64Key pins =
     (case HostKeyAlgorithm uni keyType of
        None \<Rightarrow> None
      | Some alg \<Rightarrow>
          (case b64_decode (trim_space base64Key) of
             None \<Rightarrow> None
           | Some blob \<Rightarrow>
               List.find (\<lambda>p. sp_Algorithm p = alg \<and> sp_Type p = SSHFPTypeSHA256 \<and>
                              to_lower uni (sp_Fingerprint p) = SHA256Fingerprint blob) pins))"

definition UsableSHA256Pins :: "sshfp_pin list \<Rightarrow> sshfp_pin list" where
  "UsableSHA256Pins pins = filter (\<lambda>p. sp_Type p = SSHFPTypeSHA256) pins"

definition sshKeyTypesFor :: "byte \<Rightarrow> string list" where
  "sshKeyTypesFor alg =
     (if alg = SSHFPAlgRSA then [''rsa-sha2-512'', ''rsa-sha2-256'', ''ssh-rsa'']
      else if alg = SSHFPAlgDSA then [''ssh-dss'']
      else if alg = SSHFPAlgECDSA then [''ecdsa-sha2-nistp256'', ''ecdsa-sha2-nistp384'', ''ecdsa-sha2-nistp521'']
      else if alg = SSHFPAlgEd25519 then [''ssh-ed25519'']
      else if alg = SSHFPAlgEd448 then [''ssh-ed448'']
      else [])"

text \<open>Each name once, at its first place.\<close>

fun firsts :: "'a list \<Rightarrow> 'a list \<Rightarrow> 'a list" where
  "firsts seen [] = []"
| "firsts seen (x # xs) = (if x \<in> set seen then firsts seen xs else x # firsts (x # seen) xs)"

definition HostKeyAlgorithmsFor :: "sshfp_pin list \<Rightarrow> string" where
  "HostKeyAlgorithmsFor pins =
     join '','' (firsts [] (concat (map (\<lambda>p. sshKeyTypesFor (sp_Algorithm p)) (UsableSHA256Pins pins))))"

definition KnownHostsLine :: "string \<Rightarrow> string \<Rightarrow> string \<Rightarrow> string" where
  "KnownHostsLine host keyType base64Key = host @ '' '' @ trim_space keyType @ '' '' @ trim_space base64Key"

text \<open>The version in the banner; \<open>int\<close> arithmetic wraps, as the source's does.\<close>

definition banner_number :: "string \<Rightarrow> int" where
  "banner_number s = foldl (\<lambda>v c. i64 (v * 10 + int (digit_val c))) 0 s"

definition SupportsKnownHostsCommand :: "string \<Rightarrow> bool" where
  "SupportsKnownHostsCommand versionBanner =
     (let v = trim_space versionBanner in
      case index_of ''OpenSSH_'' v of
        None \<Rightarrow> False
      | Some i \<Rightarrow>
          (let v = drop (i + 8) v; major = takeWhile is_digit v; r = dropWhile is_digit v in
           if major = [] \<or> r = [] \<or> hd r \<noteq> CHR ''.'' then False
           else
             (let minor = takeWhile is_digit (tl r) in
              if minor = [] then False
              else banner_number major > 8 \<or> (banner_number major = 8 \<and> banner_number minor \<ge> 5))))"

subsection \<open>A match is a published SHA-256 fingerprint, in any order\<close>

lemma set_map_filter: "set (List.map_filter f xs) = {y. \<exists>x \<in> set xs. f x = Some y}"
  by (induction xs) (auto simp: List.map_filter_simps split: option.splits)

lemma set_ParseSSHFP: "p \<in> set (ParseSSHFP uni rrs) \<longleftrightarrow> (\<exists>r \<in> set rrs. pin_of uni r = Some p)"
  by (auto simp: ParseSSHFP_def set_map_filter)

lemma find_any: "(List.find P xs \<noteq> None) \<longleftrightarrow> (\<exists>x \<in> set xs. P x)"
  by (auto simp: find_None_iff)

lemma MatchHostKey_some:
  "MatchHostKey uni t k pins \<noteq> None \<longleftrightarrow>
     (\<exists>alg blob. HostKeyAlgorithm uni t = Some alg \<and> b64_decode (trim_space k) = Some blob \<and>
        (\<exists>p \<in> set pins. sp_Algorithm p = alg \<and> sp_Type p = SSHFPTypeSHA256 \<and>
           to_lower uni (sp_Fingerprint p) = SHA256Fingerprint blob))"
  by (cases "HostKeyAlgorithm uni t"; cases "b64_decode (trim_space k)")
    (simp_all add: MatchHostKey_def find_any del: not_None_eq)

text \<open>A record that proves a key: its algorithm is the key's and its hash the SHA-256 of the blob.\<close>

definition sshfp_proves :: "(string \<Rightarrow> string) \<Rightarrow> byte \<Rightarrow> bytes \<Rightarrow> rr \<Rightarrow> bool" where
  "sshfp_proves uni alg blob r \<longleftrightarrow>
     (\<exists>fp. rr_Data r = SSHFP alg SSHFPTypeSHA256 fp \<and>
        to_lower uni (to_lower uni (trim_space fp)) = SHA256Fingerprint blob)"

lemma MatchHostKey_records:
  "MatchHostKey uni t k (ParseSSHFP uni rrs) \<noteq> None \<longleftrightarrow>
     (\<exists>alg blob. HostKeyAlgorithm uni t = Some alg \<and> b64_decode (trim_space k) = Some blob \<and>
        (\<exists>r \<in> set rrs. sshfp_proves uni alg blob r))"
  unfolding MatchHostKey_some set_ParseSSHFP Bex_def sshfp_proves_def
  by (fastforce simp: pin_of_def split: rr_data.splits)

end
