(* ===== verification/WhaleAuthz.thy ===== *)
theory WhaleAuthz
  imports WhaleSshfp
begin

text \<open>
  \<open>internal/whale/sshauthz.go\<close>: may this key log in as this user from this address? The DNS name
  functions of \<open>github.com/miekg/dns\<close>, the public-suffix list, the SSH key parser, the account
  database and the Unicode tables are the fields of an environment; a validated lookup is an
  argument whose \<open>None\<close> is any error, running out of time included. The text of reasons is left out.
\<close>

record ssh_key =
  sk_Type :: string
  sk_SPKI :: "bytes option"

record authz_env =
  ae_Canonical :: "string \<Rightarrow> string"
  ae_Fqdn :: "string \<Rightarrow> string"
  ae_CountLabel :: "string \<Rightarrow> nat"
  ae_IsSubDomain :: "string \<Rightarrow> string \<Rightarrow> bool"
  ae_IsDomainName :: "string \<Rightarrow> bool"
  ae_Labels :: "string \<Rightarrow> string list"
  ae_ReverseAddr :: "string \<Rightarrow> string option"
  ae_PublicSuffix :: "string \<Rightarrow> string"
  ae_ParseKey :: "bytes \<Rightarrow> ssh_key option"
  ae_UID0 :: "string \<Rightarrow> bool option"
  ae_lower :: "string \<Rightarrow> string"
  ae_fold :: "string \<Rightarrow> string \<Rightarrow> bool"

type_synonym authz_lookup = "string \<Rightarrow> nat \<Rightarrow> (rr list \<times> rrsig option) option"

definition EqualFold :: "authz_env \<Rightarrow> string \<Rightarrow> string \<Rightarrow> bool" where
  "EqualFold env = equal_fold (ae_fold env)"

subsection \<open>Fleets\<close>

definition AgentsZone :: string where "AgentsZone = ''agents.whisper.online.''"

record authz_fleet =
  af_Zone :: string
  af_Tenant :: string

record authz_policy =
  ap_Fleets :: "authz_fleet list"
  ap_Allow :: "string list"
  ap_Users :: "string list"
  ap_AllowTLSA :: bool

definition AgentsPrefix :: ip_prefix where
  "AgentsPrefix = \<lparr>pfx_addr = Addr6 0x2a042a01000000000000000000000000 [], pfx_bits = 32\<rparr>"

record authz_request =
  rq_User :: string
  rq_KeyType :: string
  rq_Key :: string
  rq_Source :: "ip_addr option"

record authz_decision =
  dc_Admit :: bool
  dc_Line :: string
  dc_Name :: string
  dc_Fingerprint :: string
  dc_Via :: string

definition ldh_label :: "string \<Rightarrow> bool" where
  "ldh_label l \<longleftrightarrow>
     l \<noteq> [] \<and> length l \<le> 63 \<and> hd l \<noteq> CHR ''-'' \<and> last l \<noteq> CHR ''-'' \<and>
     list_all (\<lambda>c. is_lower_alnum c \<or> c = CHR ''-'') l"

definition ldhName :: "string \<Rightarrow> bool" where
  "ldhName s \<longleftrightarrow> list_all ldh_label (split_on (CHR ''.'') s)"

definition NormalizeFleet :: "authz_env \<Rightarrow> string \<Rightarrow> (string \<times> string) option" where
  "NormalizeFleet env raw =
     (let s = trim_dot (to_lower (ae_lower env) (trim_space raw)); agents = trim_dot AgentsZone in
      if s = [] then None
      else if \<not> ae_IsDomainName env s \<or> \<not> ldhName s then None
      else if CHR ''.'' \<notin> set s then Some (ae_Fqdn env (s @ ''.'' @ agents), s)
      else if s = agents then None
      else if suffix (CHR ''.'' # agents) s then
        (let t = last (ae_Labels env (take (length s - length agents - 1) s))
         in Some (ae_Fqdn env (t @ ''.'' @ agents), t))
      else if ae_CountLabel env (ae_Fqdn env s) < 2 then None
      else if ae_PublicSuffix env s = s then None
      else Some (ae_Fqdn env s, []))"

fun parse_fleets :: "authz_env \<Rightarrow> string list \<Rightarrow> string list \<Rightarrow> authz_fleet list option" where
  "parse_fleets env seen [] = Some []"
| "parse_fleets env seen (r # rs) =
     (case NormalizeFleet env r of
        None \<Rightarrow> None
      | Some (zone, tenant) \<Rightarrow>
          if zone \<in> set seen then parse_fleets env seen rs
          else map_option (\<lambda>fs. \<lparr>af_Zone = zone, af_Tenant = tenant\<rparr> # fs) (parse_fleets env (zone # seen) rs))"

definition ParseFleets :: "authz_env \<Rightarrow> string list \<Rightarrow> authz_fleet list option" where
  "ParseFleets env raw = (case parse_fleets env [] raw of Some [] \<Rightarrow> None | r \<Rightarrow> r)"

definition inFleet :: "authz_env \<Rightarrow> string \<Rightarrow> string \<Rightarrow> bool" where
  "inFleet env name fleet =
     (let n = ae_Canonical env (ae_Fqdn env name); f = ae_Canonical env (ae_Fqdn env fleet) in
      if \<not> ae_IsSubDomain env f n \<or> n = f then False
      else ae_CountLabel env n = ae_CountLabel env f + 1)"

definition fleetOf :: "authz_env \<Rightarrow> string \<Rightarrow> authz_fleet list \<Rightarrow> authz_fleet option" where
  "fleetOf env name fleets = List.find (\<lambda>f. inFleet env name (af_Zone f)) fleets"

definition allHosted :: "authz_fleet list \<Rightarrow> bool" where
  "allHosted fleets \<longleftrightarrow> list_all (\<lambda>f. af_Tenant f \<noteq> []) fleets \<and> fleets \<noteq> []"

definition HostedTenantZone :: "authz_env \<Rightarrow> string \<Rightarrow> string option" where
  "HostedTenantZone env zone =
     (case cut_at (CHR ''.'') (ae_Canonical env (ae_Fqdn env (trim_space zone))) of
        None \<Rightarrow> None
      | Some (label, rest) \<Rightarrow>
          if rest \<noteq> AgentsZone \<or> length label \<noteq> 33 \<or> hd label \<noteq> CHR ''t'' then None
          else if hex_decode (tl label) = None then None
          else Some label)"

subsection \<open>Users, addresses and records\<close>

definition named :: "string \<Rightarrow> string list \<Rightarrow> bool" where
  "named user users \<longleftrightarrow> list_ex (\<lambda>u. trim_space u = user) users"

definition userEligible :: "string \<Rightarrow> string list \<Rightarrow> bool" where
  "userEligible user users = (if users = [] then user \<noteq> ''root'' else named user users)"

definition allowed :: "authz_env \<Rightarrow> string list \<Rightarrow> string \<Rightarrow> bool" where
  "allowed env allow name =
     (let full = trim_dot (ae_Canonical env name);
          first = (case cut_at (CHR ''.'') full of None \<Rightarrow> full | Some (a, _) \<Rightarrow> a) in
      list_ex (\<lambda>a. let a = to_lower (ae_lower env) (trim_dot (trim_space a)) in a \<noteq> [] \<and> (a = full \<or> a = first)) allow)"

definition rrsetHasAddr :: "rr list \<Rightarrow> ip_addr \<Rightarrow> bool" where
  "rrsetHasAddr rrs want \<longleftrightarrow>
     list_ex (\<lambda>r. case rr_Data r of AAAA b \<Rightarrow> map_option Unmap (AddrFromSlice b) = Some want | _ \<Rightarrow> False) rrs"

text \<open>The \<open>key=value\<close> fields of one record; a key said twice is an error.\<close>

fun whisper_fields :: "authz_env \<Rightarrow> (string \<rightharpoonup> string) \<Rightarrow> string list \<Rightarrow> (string \<rightharpoonup> string) option" where
  "whisper_fields env m [] = Some m"
| "whisper_fields env m (kv # r) =
     (case cut_at (CHR ''='') kv of
        None \<Rightarrow> whisper_fields env m r
      | Some (k, v) \<Rightarrow>
          (let k = to_lower (ae_lower env) k in
           if m k \<noteq> None then None else whisper_fields env (m(k \<mapsto> v)) r))"

text \<open>The fields of a record that is a whisper-id1 one.\<close>

definition whisper_record :: "authz_env \<Rightarrow> rr \<Rightarrow> string list option" where
  "whisper_record env r =
     (case rr_Data r of
        TXT ts \<Rightarrow>
          (case Fields (concat ts) of
             [] \<Rightarrow> None
           | f # fs \<Rightarrow> if EqualFold env f ''whisper-id1'' then Some fs else None)
      | _ \<Rightarrow> None)"

fun whisper_scan :: "authz_env \<Rightarrow> (string \<rightharpoonup> string) option \<Rightarrow> rr list \<Rightarrow> (string \<rightharpoonup> string) option option" where
  "whisper_scan env found [] = Some found"
| "whisper_scan env found (r # rs) =
     (case whisper_record env r of
        None \<Rightarrow> whisper_scan env found rs
      | Some fs \<Rightarrow>
          if found \<noteq> None then None
          else (case whisper_fields env Map.empty fs of
                  None \<Rightarrow> None
                | Some m \<Rightarrow> whisper_scan env (Some m) rs))"

definition parseWhisperID :: "authz_env \<Rightarrow> rr list \<Rightarrow> (string \<rightharpoonup> string) option" where
  "parseWhisperID env rrs = (case whisper_scan env None rrs of None \<Rightarrow> None | Some found \<Rightarrow> found)"

text \<open>A map reads \<open>""\<close> for a key it does not have.\<close>

definition id_get :: "(string \<rightharpoonup> string) \<Rightarrow> string \<Rightarrow> string" where
  "id_get m k = (case m k of None \<Rightarrow> [] | Some v \<Rightarrow> v)"

definition validatedExact :: "authz_env \<Rightarrow> authz_lookup \<Rightarrow> string \<Rightarrow> nat \<Rightarrow> string \<Rightarrow> rr list option" where
  "validatedExact env lk name qtype zone =
     (let owner = ae_Canonical env (ae_Fqdn env name) in
      case lk owner qtype of
        None \<Rightarrow> None
      | Some (_, None) \<Rightarrow> None
      | Some (rrs, Some sig) \<Rightarrow>
          if zone \<noteq> [] \<and>
             (trim_space (sg_SignerName sig) = [] \<or>
              \<not> ae_IsSubDomain env (ae_Canonical env (ae_Fqdn env (sg_SignerName sig)))
                   (ae_Canonical env (ae_Fqdn env zone))) then None
          else if sg_Labels sig \<noteq> ae_CountLabel env owner then None
          else
            (let out = filter (\<lambda>r. rr_Type r = qtype \<and> ae_Canonical env (rr_Name r) = owner) rrs
             in if out = [] then None else Some out))"

subsection \<open>Keys\<close>

definition parseOfferedKey :: "authz_env \<Rightarrow> string \<Rightarrow> string \<Rightarrow> (bytes \<times> ssh_key) option" where
  "parseOfferedKey env keyType b64 =
     (let t = trim_space keyType in
      if t = [] then None
      else
        (case HostKeyAlgorithm (ae_lower env) t of
           None \<Rightarrow> None
         | Some want \<Rightarrow>
             (case b64_decode (trim_space b64) of
                None \<Rightarrow> None
              | Some blob \<Rightarrow>
                  if blob = [] then None
                  else
                    (case ae_ParseKey env blob of
                       None \<Rightarrow> None
                     | Some pub \<Rightarrow>
                         if HostKeyAlgorithm (ae_lower env) (sk_Type pub) \<noteq> Some want then None
                         else Some (blob, pub)))))"

definition spkiSHA256 :: "ssh_key \<Rightarrow> bytes option" where
  "spkiSHA256 pub = map_option sha256 (sk_SPKI pub)"

text \<open>\<open>trustverify.ExtractDANEEEPin\<close>: every 3 1 1 association, which must be a SHA-256.\<close>

definition dane_pin :: "rr \<Rightarrow> string option" where
  "dane_pin r =
     (case rr_Data r of
        TLSA usage sel mt cert \<Rightarrow> if usage = 3 \<and> sel = 1 \<and> mt = 1 then Some cert else None
      | _ \<Rightarrow> None)"

definition ExtractDANEEEPin :: "rr list \<Rightarrow> bytes list option" where
  "ExtractDANEEEPin rrs =
     (let certs = map hex_decode (List.map_filter dane_pin rrs) in
      if list_ex (\<lambda>b. case b of None \<Rightarrow> True | Some p \<Rightarrow> length p \<noteq> 32) certs then None
      else if certs = [] then None
      else Some (map the certs))"

definition matchAgentKey ::
    "authz_env \<Rightarrow> authz_lookup \<Rightarrow> string \<Rightarrow> string \<Rightarrow> string \<Rightarrow> bytes \<Rightarrow> ssh_key \<Rightarrow> bool \<Rightarrow> string" where
  "matchAgentKey env lk name zone keyType blob pub allowTLSA =
     (let byFP =
        (case validatedExact env lk name TypeSSHFP zone of
           None \<Rightarrow> False
         | Some rrs \<Rightarrow>
             MatchHostKey (ae_lower env) keyType (b64_encode blob) (ParseSSHFP (ae_lower env) rrs) \<noteq> None) in
      if byFP then ''sshfp''
      else if \<not> allowTLSA then []
      else
        (case validatedExact env lk (''_443._tcp.'' @ name) TypeTLSA zone of
           None \<Rightarrow> []
         | Some rrs \<Rightarrow>
             (case spkiSHA256 pub of
                None \<Rightarrow> []
              | Some spki \<Rightarrow>
                  (case ExtractDANEEEPin rrs of
                     None \<Rightarrow> []
                   | Some pins \<Rightarrow> if spki \<in> set pins then ''tlsa'' else []))))"

subsection \<open>The decision\<close>

definition proveName ::
    "authz_env \<Rightarrow> authz_lookup \<Rightarrow> authz_policy \<Rightarrow> authz_fleet \<Rightarrow> ip_addr \<Rightarrow> string \<Rightarrow> string \<Rightarrow> bytes \<Rightarrow> ssh_key
       \<Rightarrow> string option" where
  "proveName env lk pol fl src name keyType blob pub =
     (case validatedExact env lk name TypeAAAA (af_Zone fl) of
        None \<Rightarrow> None
      | Some aaaas \<Rightarrow>
          if \<not> rrsetHasAddr aaaas src then None
          else
            (case validatedExact env lk name TypeTXT (af_Zone fl) of
               None \<Rightarrow> None
             | Some txts \<Rightarrow>
                 (case parseWhisperID env txts of
                    None \<Rightarrow> None
                  | Some m \<Rightarrow>
                      if \<not> EqualFold env (id_get m ''status'') ''active'' then None
                      else if af_Tenant fl \<noteq> [] \<and> \<not> EqualFold env (id_get m ''tenant'') (af_Tenant fl) then None
                      else if ap_Allow pol \<noteq> [] \<and> \<not> allowed env (ap_Allow pol) name then None
                      else
                        (let via = matchAgentKey env lk name (af_Zone fl) keyType blob pub (ap_AllowTLSA pol)
                         in if via = [] then None else Some via))))"

text \<open>The names the validated PTRs give that sit directly inside a fleet, each once, in order.\<close>

definition fleet_names :: "authz_env \<Rightarrow> authz_fleet list \<Rightarrow> rr list \<Rightarrow> string list" where
  "fleet_names env fleets ptrs =
     (let ns = concat (map (\<lambda>r. case rr_Data r of PTR t \<Rightarrow> [ae_Canonical env t] | _ \<Rightarrow> []) ptrs)
      in sort (firsts [] (filter (\<lambda>n. fleetOf env n fleets \<noteq> None) ns)))"

fun try_names ::
    "authz_env \<Rightarrow> authz_lookup \<Rightarrow> authz_policy \<Rightarrow> ip_addr \<Rightarrow> string \<Rightarrow> bytes \<Rightarrow> ssh_key \<Rightarrow> string list
       \<Rightarrow> authz_decision \<Rightarrow> authz_decision" where
  "try_names env lk pol src keyType blob pub [] d = d\<lparr>dc_Admit := False, dc_Line := [], dc_Via := []\<rparr>"
| "try_names env lk pol src keyType blob pub (n # ns) d =
     (case fleetOf env n (ap_Fleets pol) of
        None \<Rightarrow> try_names env lk pol src keyType blob pub ns d
      | Some fl \<Rightarrow>
          if af_Tenant fl \<noteq> [] \<and> \<not> Contains AgentsPrefix src then
            try_names env lk pol src keyType blob pub ns d
          else
            (let d' = (if dc_Name d = [] then d\<lparr>dc_Name := trim_dot n\<rparr> else d) in
             case proveName env lk pol fl src n keyType blob pub of
               Some via \<Rightarrow>
                 d'\<lparr>dc_Name := trim_dot n, dc_Admit := True, dc_Via := via,
                    dc_Line := sk_Type pub @ '' '' @ b64_encode blob @ '' whisper:'' @ trim_dot n\<rparr>
             | None \<Rightarrow> try_names env lk pol src keyType blob pub ns d'))"

text \<open>\<open>RawStdEncoding.EncodeToString\<close> drops the padding.\<close>

definition denied :: authz_decision where
  "denied = \<lparr>dc_Admit = False, dc_Line = [], dc_Name = [], dc_Fingerprint = [], dc_Via = []\<rparr>"

definition Authorize :: "authz_env \<Rightarrow> authz_lookup option \<Rightarrow> authz_policy \<Rightarrow> authz_request \<Rightarrow> authz_decision" where
  "Authorize env lk pol req =
     (let user = trim_space (rq_User req) in
      if lk = None \<or> ap_Fleets pol = [] then denied
      else if user = [] then denied
      else if \<not> userEligible user (ap_Users pol) then denied
      else if ae_UID0 env user = Some True \<and> \<not> named user (ap_Users pol) then denied
      else
        (case parseOfferedKey env (rq_KeyType req) (rq_Key req) of
           None \<Rightarrow> denied
         | Some (blob, pub) \<Rightarrow>
             let d = denied\<lparr>dc_Fingerprint := ''SHA256:'' @ filter (\<lambda>c. c \<noteq> CHR ''='') (b64_encode (sha256 blob))\<rparr> in
             (case map_option Unmap (rq_Source req) of
                None \<Rightarrow> d
              | Some src \<Rightarrow>
                  if IsLoopback src \<or> IsUnspecified src then d
                  else if allHosted (ap_Fleets pol) \<and> \<not> Contains AgentsPrefix src then d
                  else
                    (case ae_ReverseAddr env (addr_String src) of
                       None \<Rightarrow> d
                     | Some rname \<Rightarrow>
                         (case validatedExact env (the lk) rname TypePTR [] of
                            None \<Rightarrow> d
                          | Some ptrs \<Rightarrow>
                              let names = fleet_names env (ap_Fleets pol) ptrs in
                              if names = [] then d
                              else try_names env (the lk) pol src (rq_KeyType req) blob pub names d)))))"

subsection \<open>An admission is proven from signed records\<close>

lemma AgentsPrefix_parsed: "ParsePrefix ''2a04:2a01::/32'' = Some AgentsPrefix"
  by code_simp

text \<open>
  A record published for exactly this name: its signature covers all its labels (so it is no
  wildcard) and, inside a fleet, is by the zone or one above it.
\<close>

definition published :: "authz_env \<Rightarrow> authz_lookup \<Rightarrow> string \<Rightarrow> nat \<Rightarrow> string \<Rightarrow> rr \<Rightarrow> bool" where
  "published env lk name qtype zone r \<longleftrightarrow>
     (let owner = ae_Canonical env (ae_Fqdn env name) in
      \<exists>rrs sig. lk owner qtype = Some (rrs, Some sig) \<and> r \<in> set rrs \<and> rr_Type r = qtype \<and>
        ae_Canonical env (rr_Name r) = owner \<and> sg_Labels sig = ae_CountLabel env owner \<and>
        (zone \<noteq> [] \<longrightarrow> trim_space (sg_SignerName sig) \<noteq> [] \<and>
           ae_IsSubDomain env (ae_Canonical env (ae_Fqdn env (sg_SignerName sig)))
             (ae_Canonical env (ae_Fqdn env zone))))"

lemma validatedExact_published:
  "validatedExact env lk name qtype zone = Some rrs \<Longrightarrow> r \<in> set rrs \<longleftrightarrow> published env lk name qtype zone r"
  by (auto simp: validatedExact_def published_def Let_def split: option.splits prod.splits if_splits)

text \<open>The one whisper-id1 record of a name.\<close>

definition whisper_says ::
    "authz_env \<Rightarrow> authz_lookup \<Rightarrow> string \<Rightarrow> string \<Rightarrow> (string \<rightharpoonup> string) \<Rightarrow> bool" where
  "whisper_says env lk name zone m \<longleftrightarrow>
     (\<exists>r fs. published env lk name TypeTXT zone r \<and> whisper_record env r = Some fs \<and>
        whisper_fields env Map.empty fs = Some m \<and>
        (\<forall>r'. published env lk name TypeTXT zone r' \<and> whisper_record env r' \<noteq> None \<longrightarrow> r' = r))"

lemma whisper_scan_found:
  "whisper_scan env (Some m) rrs = Some f \<longleftrightarrow> f = Some m \<and> list_all (\<lambda>r. whisper_record env r = None) rrs"
  by (induction rrs) (auto split: option.splits)

lemma whisper_scan_none:
  "whisper_scan env None rrs = Some (Some m) \<longleftrightarrow>
     (\<exists>r fs. r \<in> set rrs \<and> whisper_record env r = Some fs \<and> whisper_fields env Map.empty fs = Some m \<and>
        filter (\<lambda>r. whisper_record env r \<noteq> None) rrs = [r])"
proof (induction rrs)
  case (Cons r rrs)
  show ?case
  proof (cases "whisper_record env r")
    case None
    with Cons show ?thesis by auto
  next
    case (Some fs)
    have "filter (\<lambda>r. whisper_record env r \<noteq> None) rrs = [] \<longleftrightarrow> list_all (\<lambda>r. whisper_record env r = None) rrs"
      by (simp add: filter_empty_conv list_all_iff)
    with Some show ?thesis by (auto simp: whisper_scan_found split: option.splits)
  qed
qed simp

lemma parseWhisperID_Some:
  "parseWhisperID env rrs = Some m \<longleftrightarrow>
     (\<exists>r fs. whisper_record env r = Some fs \<and> whisper_fields env Map.empty fs = Some m \<and>
        filter (\<lambda>r. whisper_record env r \<noteq> None) rrs = [r])"
proof -
  have "parseWhisperID env rrs = Some m \<longleftrightarrow> whisper_scan env None rrs = Some (Some m)"
    by (auto simp: parseWhisperID_def split: option.splits)
  moreover have "filter P rrs = [r] \<Longrightarrow> r \<in> set rrs" for P r
    by (metis filter_is_subset list.set_intros(1) subsetD)
  ultimately show ?thesis unfolding whisper_scan_none by blast
qed

lemma parseWhisperID_says:
  assumes "validatedExact env lk name TypeTXT zone = Some txts" and "parseWhisperID env txts = Some m"
  shows "whisper_says env lk name zone m"
proof -
  from assms(2) obtain r fs where r: "whisper_record env r = Some fs" "whisper_fields env Map.empty fs = Some m"
    "filter (\<lambda>r. whisper_record env r \<noteq> None) txts = [r]" unfolding parseWhisperID_Some by blast
  have "{r'. r' \<in> set txts \<and> whisper_record env r' \<noteq> None} = {r}"
    using arg_cong [OF r(3), of set] by auto
  with r(1,2) show ?thesis
    unfolding whisper_says_def using validatedExact_published [OF assms(1)] by blast
qed

text \<open>How the key of a name is proven.\<close>

definition key_proven ::
    "authz_env \<Rightarrow> authz_lookup \<Rightarrow> string \<Rightarrow> string \<Rightarrow> string \<Rightarrow> bytes \<Rightarrow> ssh_key \<Rightarrow> bool \<Rightarrow> string \<Rightarrow> bool" where
  "key_proven env lk name zone keyType blob pub allowTLSA via \<longleftrightarrow>
     (via = ''sshfp'' \<and> (\<exists>r alg. published env lk name TypeSSHFP zone r \<and>
        HostKeyAlgorithm (ae_lower env) keyType = Some alg \<and> sshfp_proves (ae_lower env) alg blob r)) \<or>
     (via = ''tlsa'' \<and> allowTLSA \<and> (\<exists>r cert. published env lk (''_443._tcp.'' @ name) TypeTLSA zone r \<and>
        dane_pin r = Some cert \<and> hex_decode cert \<noteq> None \<and> spkiSHA256 pub = hex_decode cert))"

lemma ExtractDANEEEPin_Some:
  "ExtractDANEEEPin rrs = Some pins \<Longrightarrow> p \<in> set pins \<Longrightarrow>
     \<exists>r \<in> set rrs. \<exists>cert. dane_pin r = Some cert \<and> hex_decode cert = Some p"
  by (fastforce simp: ExtractDANEEEPin_def Let_def list_ex_iff set_map_filter split: if_splits option.splits)

lemma matchAgentKey_proven:
  assumes "matchAgentKey env lk name zone keyType blob pub allowTLSA = via" and "via \<noteq> []"
  shows "key_proven env lk name zone keyType blob pub allowTLSA via"
proof (cases "\<exists>rrs. validatedExact env lk name TypeSSHFP zone = Some rrs \<and>
    MatchHostKey (ae_lower env) keyType (b64_encode blob) (ParseSSHFP (ae_lower env) rrs) \<noteq> None")
  case True
  then obtain rrs where r: "validatedExact env lk name TypeSSHFP zone = Some rrs"
    "MatchHostKey (ae_lower env) keyType (b64_encode blob) (ParseSSHFP (ae_lower env) rrs) \<noteq> None" by blast
  with assms(1) have "via = ''sshfp''" by (simp add: matchAgentKey_def)
  with r(2) validatedExact_published [OF r(1)] show ?thesis
    unfolding MatchHostKey_records key_proven_def by auto
next
  case False
  with assms(1) have "via = (if \<not> allowTLSA then []
      else
        (case validatedExact env lk (''_443._tcp.'' @ name) TypeTLSA zone of
           None \<Rightarrow> []
         | Some rrs \<Rightarrow>
             (case spkiSHA256 pub of
                None \<Rightarrow> []
              | Some spki \<Rightarrow>
                  (case ExtractDANEEEPin rrs of
                     None \<Rightarrow> []
                   | Some pins \<Rightarrow> if spki \<in> set pins then ''tlsa'' else []))))"
    by (auto simp: matchAgentKey_def split: option.splits)
  with assms(2) obtain rrs spki pins where t: "allowTLSA" "via = ''tlsa''"
    "validatedExact env lk (''_443._tcp.'' @ name) TypeTLSA zone = Some rrs" "spkiSHA256 pub = Some spki"
    "ExtractDANEEEPin rrs = Some pins" "spki \<in> set pins"
    by (auto split: if_splits option.splits)
  from ExtractDANEEEPin_Some [OF t(5,6)] validatedExact_published [OF t(3)] t show ?thesis
    unfolding key_proven_def by auto
qed

end
