(* ===== verification/WhaleDecision.thy ===== *)
theory WhaleDecision
  imports WhaleAuthz
begin

text \<open>
  What an admission of \<open>internal/whale/sshauthz.go\<close> rests on, and that the order in which a
  resolver returns records does not matter to it.
\<close>

subsection \<open>What an admission rests on\<close>

text \<open>Rules 2 to 4 for one name of one fleet.\<close>

definition name_proven ::
    "authz_env \<Rightarrow> authz_lookup \<Rightarrow> authz_policy \<Rightarrow> authz_fleet \<Rightarrow> ip_addr \<Rightarrow> string \<Rightarrow> string \<Rightarrow> bytes \<Rightarrow> ssh_key
       \<Rightarrow> string \<Rightarrow> bool" where
  "name_proven env lk pol fl src n keyType blob pub via \<longleftrightarrow>
     (\<exists>r b. published env lk n TypeAAAA (af_Zone fl) r \<and> rr_Data r = AAAA b \<and>
        map_option Unmap (AddrFromSlice b) = Some src) \<and>
     (\<exists>m. whisper_says env lk n (af_Zone fl) m \<and> EqualFold env (id_get m ''status'') ''active'' \<and>
        (af_Tenant fl \<noteq> [] \<longrightarrow> EqualFold env (id_get m ''tenant'') (af_Tenant fl))) \<and>
     (ap_Allow pol \<noteq> [] \<longrightarrow> allowed env (ap_Allow pol) n) \<and>
     key_proven env lk n (af_Zone fl) keyType blob pub (ap_AllowTLSA pol) via"

lemma rrsetHasAddr_iff:
  "rrsetHasAddr rrs src \<longleftrightarrow>
     (\<exists>r \<in> set rrs. \<exists>b. rr_Data r = AAAA b \<and> map_option Unmap (AddrFromSlice b) = Some src)"
proof -
  have "(case d of AAAA b \<Rightarrow> P b | _ \<Rightarrow> False) \<longleftrightarrow> (\<exists>b. d = AAAA b \<and> P b)" for d P
    by (cases d) simp_all
  then show ?thesis unfolding rrsetHasAddr_def list_ex_iff by presburger
qed

lemma proveName_Some:
  "proveName env lk pol fl src n keyType blob pub = Some via \<longleftrightarrow>
     (\<exists>aaaas txts m. validatedExact env lk n TypeAAAA (af_Zone fl) = Some aaaas \<and> rrsetHasAddr aaaas src \<and>
        validatedExact env lk n TypeTXT (af_Zone fl) = Some txts \<and> parseWhisperID env txts = Some m \<and>
        EqualFold env (id_get m ''status'') ''active'' \<and>
        (af_Tenant fl \<noteq> [] \<longrightarrow> EqualFold env (id_get m ''tenant'') (af_Tenant fl)) \<and>
        (ap_Allow pol \<noteq> [] \<longrightarrow> allowed env (ap_Allow pol) n) \<and>
        matchAgentKey env lk n (af_Zone fl) keyType blob pub (ap_AllowTLSA pol) = via \<and> via \<noteq> [])"
proof (cases "validatedExact env lk n TypeAAAA (af_Zone fl)")
  case (Some aaaas)
  note a = Some
  show ?thesis
  proof (cases "validatedExact env lk n TypeTXT (af_Zone fl)")
    case (Some txts)
    with a show ?thesis by (cases "parseWhisperID env txts") (auto simp: proveName_def Let_def)
  qed (simp add: proveName_def a)
qed (simp add: proveName_def)

lemma proveName_proven:
  assumes "proveName env lk pol fl src n keyType blob pub = Some via"
  shows "name_proven env lk pol fl src n keyType blob pub via"
proof -
  from assms obtain aaaas txts m where a: "validatedExact env lk n TypeAAAA (af_Zone fl) = Some aaaas"
    "rrsetHasAddr aaaas src" and t: "validatedExact env lk n TypeTXT (af_Zone fl) = Some txts"
    "parseWhisperID env txts = Some m" and c: "EqualFold env (id_get m ''status'') ''active''"
    "af_Tenant fl \<noteq> [] \<longrightarrow> EqualFold env (id_get m ''tenant'') (af_Tenant fl)"
    "ap_Allow pol \<noteq> [] \<longrightarrow> allowed env (ap_Allow pol) n"
    "matchAgentKey env lk n (af_Zone fl) keyType blob pub (ap_AllowTLSA pol) = via" "via \<noteq> []"
    unfolding proveName_Some by blast
  have "\<exists>r b. published env lk n TypeAAAA (af_Zone fl) r \<and> rr_Data r = AAAA b \<and>
      map_option Unmap (AddrFromSlice b) = Some src"
    using a(2) validatedExact_published [OF a(1)] unfolding rrsetHasAddr_iff by blast
  moreover have "\<exists>m. whisper_says env lk n (af_Zone fl) m \<and> EqualFold env (id_get m ''status'') ''active'' \<and>
      (af_Tenant fl \<noteq> [] \<longrightarrow> EqualFold env (id_get m ''tenant'') (af_Tenant fl))"
    using parseWhisperID_says [OF t] c(1,2) by blast
  ultimately show ?thesis unfolding name_proven_def using c(3) matchAgentKey_proven [OF c(4,5)] by simp
qed

lemma set_firsts: "set (firsts seen xs) = set xs - set seen"
  by (induction xs arbitrary: seen) auto

lemma ptr_names:
  "n \<in> set (case rr_Data r of PTR t \<Rightarrow> [ae_Canonical env t] | _ \<Rightarrow> []) \<longleftrightarrow>
     (\<exists>t. rr_Data r = PTR t \<and> n = ae_Canonical env t)"
  by (cases "rr_Data r") auto

lemma set_fleet_names:
  "set (fleet_names env fleets ptrs) =
     {n. fleetOf env n fleets \<noteq> None \<and> (\<exists>r \<in> set ptrs. \<exists>t. rr_Data r = PTR t \<and> n = ae_Canonical env t)}"
  by (auto simp: fleet_names_def set_firsts ptr_names) metis+

lemma try_names_admit:
  "dc_Admit (try_names env lk pol src keyType blob pub ns d) \<Longrightarrow>
     \<exists>n fl via. n \<in> set ns \<and> fleetOf env n (ap_Fleets pol) = Some fl \<and>
       (af_Tenant fl \<noteq> [] \<longrightarrow> Contains AgentsPrefix src) \<and>
       proveName env lk pol fl src n keyType blob pub = Some via \<and>
       dc_Via (try_names env lk pol src keyType blob pub ns d) = via \<and>
       dc_Line (try_names env lk pol src keyType blob pub ns d) =
         sk_Type pub @ '' '' @ b64_encode blob @ '' whisper:'' @ trim_dot n"
proof (induction ns arbitrary: d)
  case (Cons n ns)
  consider "fleetOf env n (ap_Fleets pol) = None"
    | fl where "fleetOf env n (ap_Fleets pol) = Some fl" "af_Tenant fl \<noteq> [] \<and> \<not> Contains AgentsPrefix src"
    | fl where "fleetOf env n (ap_Fleets pol) = Some fl" "\<not> (af_Tenant fl \<noteq> [] \<and> \<not> Contains AgentsPrefix src)"
        "proveName env lk pol fl src n keyType blob pub = None"
    | fl via where "fleetOf env n (ap_Fleets pol) = Some fl" "\<not> (af_Tenant fl \<noteq> [] \<and> \<not> Contains AgentsPrefix src)"
        "proveName env lk pol fl src n keyType blob pub = Some via"
    by (cases "fleetOf env n (ap_Fleets pol)") auto
  then show ?case
  proof cases
    case 4
    then show ?thesis by (intro exI [of _ n] exI [of _ fl] exI [of _ via]) (auto simp: Let_def)
  qed (use Cons.prems Cons.IH in \<open>fastforce simp: Let_def\<close>)+
qed simp

lemma find_Some_set: "List.find P xs = Some x \<Longrightarrow> x \<in> set xs \<and> P x"
  by (induction xs) (auto split: if_splits)

text \<open>An admission passes every check before the names of the address are tried.\<close>

lemma Authorize_reaches:
  assumes "dc_Admit (Authorize env lko pol req)"
  obtains lk blob pub a rname ptrs d where "lko = Some lk" "trim_space (rq_User req) \<noteq> []"
    "userEligible (trim_space (rq_User req)) (ap_Users pol)"
    "ae_UID0 env (trim_space (rq_User req)) = Some True \<longrightarrow> named (trim_space (rq_User req)) (ap_Users pol)"
    "parseOfferedKey env (rq_KeyType req) (rq_Key req) = Some (blob, pub)"
    "rq_Source req = Some a" "\<not> IsLoopback (Unmap a)" "\<not> IsUnspecified (Unmap a)"
    "ae_ReverseAddr env (addr_String (Unmap a)) = Some rname" "validatedExact env lk rname TypePTR [] = Some ptrs"
    "Authorize env lko pol req =
       try_names env lk pol (Unmap a) (rq_KeyType req) blob pub (fleet_names env (ap_Fleets pol) ptrs) d"
proof -
  let ?user = "trim_space (rq_User req)"
  have no: "\<not> dc_Admit denied" by (simp add: denied_def)
  from assms have c1: "lko \<noteq> None" "?user \<noteq> []" "userEligible ?user (ap_Users pol)"
    "ae_UID0 env ?user = Some True \<longrightarrow> named ?user (ap_Users pol)" "ap_Fleets pol \<noteq> []"
    using no by (auto simp: Authorize_def Let_def split: if_splits)
  then obtain lk where lk: "lko = Some lk" by blast
  obtain blob pub where k: "parseOfferedKey env (rq_KeyType req) (rq_Key req) = Some (blob, pub)"
    using assms no by (auto simp: Authorize_def Let_def split: if_splits option.splits)
  define d where "d = denied\<lparr>dc_Fingerprint := ''SHA256:'' @ filter (\<lambda>c. c \<noteq> CHR ''='') (b64_encode (sha256 blob))\<rparr>"
  have nd: "\<not> dc_Admit d" by (simp add: d_def denied_def)
  have A: "Authorize env lko pol req =
      (case map_option Unmap (rq_Source req) of
         None \<Rightarrow> d
       | Some src \<Rightarrow>
           if IsLoopback src \<or> IsUnspecified src then d
           else if allHosted (ap_Fleets pol) \<and> \<not> Contains AgentsPrefix src then d
           else
             (case ae_ReverseAddr env (addr_String src) of
                None \<Rightarrow> d
              | Some rname \<Rightarrow>
                  (case validatedExact env lk rname TypePTR [] of
                     None \<Rightarrow> d
                   | Some ptrs \<Rightarrow>
                       let names = fleet_names env (ap_Fleets pol) ptrs in
                       if names = [] then d
                       else try_names env lk pol src (rq_KeyType req) blob pub names d)))"
  proof -
    have "\<not> (ae_UID0 env ?user = Some True \<and> \<not> named ?user (ap_Users pol))"
      "\<not> (lko = None \<or> ap_Fleets pol = [])" using c1 by auto
    with c1(2,3) show ?thesis
      unfolding Authorize_def k lk Let_def by (simp only: d_def if_False not_True_eq_False not_False_eq_True
        if_True option.case prod.case option.sel)
  qed
  from assms nd obtain a where a: "rq_Source req = Some a" "\<not> IsLoopback (Unmap a)" "\<not> IsUnspecified (Unmap a)"
    unfolding A by (auto split: option.splits if_splits)
  from assms nd a obtain rname where rn: "ae_ReverseAddr env (addr_String (Unmap a)) = Some rname"
    unfolding A by (auto split: option.splits if_splits)
  from assms nd a rn obtain ptrs where p: "validatedExact env lk rname TypePTR [] = Some ptrs"
    unfolding A by (auto split: option.splits if_splits)
  have T: "Authorize env lko pol req =
      try_names env lk pol (Unmap a) (rq_KeyType req) blob pub (fleet_names env (ap_Fleets pol) ptrs) d"
    using assms nd a rn p unfolding A by (auto simp: Let_def split: if_splits)
  show ?thesis by (rule that [OF lk c1(2-4) k a rn p T])
qed

lemma Authorize_admits:
  assumes "dc_Admit (Authorize env lko pol req)"
  obtains lk blob pub a rname n fl where "lko = Some lk" "trim_space (rq_User req) \<noteq> []"
    "userEligible (trim_space (rq_User req)) (ap_Users pol)"
    "ae_UID0 env (trim_space (rq_User req)) = Some True \<longrightarrow> named (trim_space (rq_User req)) (ap_Users pol)"
    "parseOfferedKey env (rq_KeyType req) (rq_Key req) = Some (blob, pub)"
    "rq_Source req = Some a" "\<not> IsLoopback (Unmap a)" "\<not> IsUnspecified (Unmap a)"
    "ae_ReverseAddr env (addr_String (Unmap a)) = Some rname"
    "\<exists>r t. published env lk rname TypePTR [] r \<and> rr_Data r = PTR t \<and> ae_Canonical env t = n"
    "fl \<in> set (ap_Fleets pol)" "inFleet env n (af_Zone fl)" "af_Tenant fl \<noteq> [] \<longrightarrow> Contains AgentsPrefix (Unmap a)"
    "name_proven env lk pol fl (Unmap a) n (rq_KeyType req) blob pub (dc_Via (Authorize env lko pol req))"
    "dc_Line (Authorize env lko pol req) = sk_Type pub @ '' '' @ b64_encode blob @ '' whisper:'' @ trim_dot n"
proof -
  obtain lk blob pub a rname ptrs d where r: "lko = Some lk" "trim_space (rq_User req) \<noteq> []"
    "userEligible (trim_space (rq_User req)) (ap_Users pol)"
    "ae_UID0 env (trim_space (rq_User req)) = Some True \<longrightarrow> named (trim_space (rq_User req)) (ap_Users pol)"
    "parseOfferedKey env (rq_KeyType req) (rq_Key req) = Some (blob, pub)"
    "rq_Source req = Some a" "\<not> IsLoopback (Unmap a)" "\<not> IsUnspecified (Unmap a)"
    "ae_ReverseAddr env (addr_String (Unmap a)) = Some rname" and p: "validatedExact env lk rname TypePTR [] = Some ptrs"
    and T: "Authorize env lko pol req =
       try_names env lk pol (Unmap a) (rq_KeyType req) blob pub (fleet_names env (ap_Fleets pol) ptrs) d"
    by (rule Authorize_reaches [OF assms])
  from try_names_admit [OF assms [unfolded T]] obtain n fl via where n: "n \<in> set (fleet_names env (ap_Fleets pol) ptrs)"
    "fleetOf env n (ap_Fleets pol) = Some fl" "af_Tenant fl \<noteq> [] \<longrightarrow> Contains AgentsPrefix (Unmap a)"
    "proveName env lk pol fl (Unmap a) n (rq_KeyType req) blob pub = Some via"
    "dc_Via (Authorize env lko pol req) = via"
    "dc_Line (Authorize env lko pol req) = sk_Type pub @ '' '' @ b64_encode blob @ '' whisper:'' @ trim_dot n"
    unfolding T by blast
  have q: "\<exists>r t. published env lk rname TypePTR [] r \<and> rr_Data r = PTR t \<and> ae_Canonical env t = n"
    using n(1) validatedExact_published [OF p] unfolding set_fleet_names by blast
  have f: "fl \<in> set (ap_Fleets pol)" "inFleet env n (af_Zone fl)"
    using find_Some_set [OF n(2) [unfolded fleetOf_def]] by simp_all
  have "name_proven env lk pol fl (Unmap a) n (rq_KeyType req) blob pub (dc_Via (Authorize env lko pol req))"
    using proveName_proven [OF n(4)] n(5) by simp
  from that [OF r q f n(3) this n(6)] show ?thesis .
qed

text \<open>
  C6. An admitted login is proven from records validated for their exact names. The account is
  eligible and no unnamed root; the key parsed is of the type sshd named and is the one in the
  line printed; the address is not this host's; its signed PTR names an agent directly inside a
  fleet of the operator, whose signed AAAA contains the address and whose one whisper-id1 record
  says active and the tenant of that very fleet; a hosted agent calls from the agents' block; the
  allowlist names the agent; and the key is its SSHFP type 2 fingerprint or, where that was
  opted in, its TLSA 3 1 1 pin.
\<close>
theorem authorize_sound:
  assumes "dc_Admit (Authorize env lko pol req)"
  shows "\<exists>lk user blob pub a rname n fl. lko = Some lk \<and> user = trim_space (rq_User req) \<and>
     user \<noteq> [] \<and> userEligible user (ap_Users pol) \<and> (ae_UID0 env user = Some True \<longrightarrow> named user (ap_Users pol)) \<and>
     parseOfferedKey env (rq_KeyType req) (rq_Key req) = Some (blob, pub) \<and>
     rq_Source req = Some a \<and> \<not> IsLoopback (Unmap a) \<and> \<not> IsUnspecified (Unmap a) \<and>
     ae_ReverseAddr env (addr_String (Unmap a)) = Some rname \<and>
     (\<exists>r t. published env lk rname TypePTR [] r \<and> rr_Data r = PTR t \<and> ae_Canonical env t = n) \<and>
     fl \<in> set (ap_Fleets pol) \<and> inFleet env n (af_Zone fl) \<and>
     (af_Tenant fl \<noteq> [] \<longrightarrow> Contains AgentsPrefix (Unmap a)) \<and>
     name_proven env lk pol fl (Unmap a) n (rq_KeyType req) blob pub (dc_Via (Authorize env lko pol req)) \<and>
     dc_Line (Authorize env lko pol req) = sk_Type pub @ '' '' @ b64_encode blob @ '' whisper:'' @ trim_dot n"
proof (rule Authorize_admits [OF assms], goal_cases)
  case (1 lk blob pub a rname n fl)
  then show ?case
    by (intro exI [of _ lk] exI [of _ "trim_space (rq_User req)"] exI [of _ blob] exI [of _ pub] exI [of _ a]
        exI [of _ rname] exI [of _ n] exI [of _ fl] conjI refl)
qed

subsection \<open>The order of records does not matter\<close>

text \<open>The same answers, with the records of each in some order.\<close>

definition reordered :: "authz_lookup \<Rightarrow> authz_lookup \<Rightarrow> bool" where
  "reordered lk lk' \<longleftrightarrow>
     (\<forall>owner qtype. rel_option (\<lambda>(rrs, s) (rrs', s'). mset rrs = mset rrs' \<and> s = s') (lk owner qtype) (lk' owner qtype))"

abbreviation same_records :: "rr list option \<Rightarrow> rr list option \<Rightarrow> bool" where
  "same_records \<equiv> rel_option (\<lambda>a b. mset a = mset b)"

lemma validatedExact_reordered:
  assumes "reordered lk lk'"
  shows "same_records (validatedExact env lk name qtype zone) (validatedExact env lk' name qtype zone)"
proof -
  let ?o = "ae_Canonical env (ae_Fqdn env name)"
  have f: "filter P a = [] \<longleftrightarrow> filter P b = []" if "mset a = mset b" for a b :: "rr list" and P
    using that by (metis mset_filter mset_zero_iff)
  show ?thesis
  proof (cases "lk ?o qtype")
    case None
    with assms have "lk' ?o qtype = None" by (metis reordered_def option.rel_distinct(1) not_None_eq)
    with None show ?thesis by (simp add: validatedExact_def)
  next
    case (Some p)
    obtain rrs s where p: "p = (rrs, s)" by (cases p)
    from assms Some p obtain rrs' where p': "lk' ?o qtype = Some (rrs', s)" "mset rrs = mset rrs'"
      unfolding reordered_def by (cases "lk' ?o qtype") (force dest: spec [of _ ?o] spec [of _ qtype])+
    show ?thesis
      by (cases s) (simp_all add: validatedExact_def Let_def Some p p' f [OF p'(2)])
  qed
qed

lemma same_records_cases:
  assumes "same_records x y"
  obtains "x = None" "y = None" | a b where "x = Some a" "y = Some b" "mset a = mset b"
  using assms by (cases rule: option.rel_cases) auto

lemma rrsetHasAddr_reordered: "mset a = mset b \<Longrightarrow> rrsetHasAddr a src = rrsetHasAddr b src"
  unfolding rrsetHasAddr_iff using mset_eq_setD by blast

lemma parseWhisperID_reordered:
  assumes "mset a = mset b"
  shows "parseWhisperID env a = parseWhisperID env b"
proof -
  have f: "filter P a = [r] \<longleftrightarrow> filter P b = [r]" for P r
    using assms by (metis mset_filter mset_single_iff_right)
  have "parseWhisperID env a = Some m \<longleftrightarrow> parseWhisperID env b = Some m" for m
    unfolding parseWhisperID_Some f ..
  then show ?thesis by (metis option.exhaust)
qed

lemma MatchHostKey_reordered:
  "mset a = mset b \<Longrightarrow>
     (MatchHostKey uni t k (ParseSSHFP uni a) = None) = (MatchHostKey uni t k (ParseSSHFP uni b) = None)"
  using MatchHostKey_records [of uni t k] mset_eq_setD by metis

lemma mset_map_filter: "mset a = mset b \<Longrightarrow> mset (List.map_filter f a) = mset (List.map_filter f b)"
  by (simp add: List.map_filter_def)

lemma ExtractDANEEEPin_reordered:
  assumes "mset a = mset b"
  shows "rel_option (\<lambda>p q. set p = set q) (ExtractDANEEEPin a) (ExtractDANEEEPin b)"
proof -
  let ?c = "\<lambda>rrs. map hex_decode (List.map_filter dane_pin rrs)"
  have m: "mset (?c a) = mset (?c b)" using mset_map_filter [OF assms] by (metis mset_map)
  have pins: "rel_option (\<lambda>p q. set p = set q)
      (if list_ex P x then None else if x = [] then None else Some (map the x))
      (if list_ex P y then None else if y = [] then None else Some (map the y))"
    if "mset x = mset y" for x y :: "bytes option list" and P
    using mset_eq_setD [OF that] that by (auto simp: list_ex_iff)
  show ?thesis unfolding ExtractDANEEEPin_def Let_def by (rule pins [OF m])
qed

lemma matchAgentKey_reordered:
  assumes "reordered lk lk'"
  shows "matchAgentKey env lk n z kt blob pub t = matchAgentKey env lk' n z kt blob pub t"
proof -
  define tlsa where "tlsa v = (case v of
      None \<Rightarrow> []
    | Some rrs \<Rightarrow>
        (case spkiSHA256 pub of
           None \<Rightarrow> []
         | Some spki \<Rightarrow>
             (case ExtractDANEEEPin rrs of
                None \<Rightarrow> []
              | Some pins \<Rightarrow> if spki \<in> set pins then ''tlsa'' else [])))" for v
  define fp where "fp v = (case v of
      None \<Rightarrow> False
    | Some rrs \<Rightarrow>
        MatchHostKey (ae_lower env) kt (b64_encode blob) (ParseSSHFP (ae_lower env) rrs) \<noteq> None)" for v
  have eq: "matchAgentKey env l n z kt blob pub t =
      (if fp (validatedExact env l n TypeSSHFP z) then ''sshfp'' else if \<not> t then []
       else tlsa (validatedExact env l (''_443._tcp.'' @ n) TypeTLSA z))" for l
    unfolding matchAgentKey_def Let_def fp_def tlsa_def ..
  have f: "fp x = fp y" if "same_records x y" for x y
    using that
  proof (cases rule: same_records_cases)
    case (2 a b)
    from MatchHostKey_reordered [OF 2(3)] show ?thesis by (simp only: fp_def 2(1,2) option.case)
  qed simp
  have g: "tlsa x = tlsa y" if "same_records x y" for x y
    using that
  proof (cases rule: same_records_cases)
    case (2 a b)
    show ?thesis
    proof (cases "ExtractDANEEEPin a")
      case None
      with ExtractDANEEEPin_reordered [OF 2(3)] have "ExtractDANEEEPin b = None" by simp
      with None show ?thesis by (simp add: tlsa_def 2(1,2) split: option.split)
    next
      case (Some p)
      with ExtractDANEEEPin_reordered [OF 2(3)] obtain q where "ExtractDANEEEPin b = Some q" "set p = set q"
        by (cases "ExtractDANEEEPin b") auto
      with Some show ?thesis by (simp add: tlsa_def 2(1,2) split: option.split)
    qed
  qed (simp add: tlsa_def)
  show ?thesis
    unfolding eq by (simp only: f [OF validatedExact_reordered [OF assms]] g [OF validatedExact_reordered [OF assms]])
qed

lemma reordered_sym:
  assumes "reordered lk lk'"
  shows "reordered lk' lk"
proof -
  have "rel_option (\<lambda>(rrs, s) (rrs', s'). mset rrs = mset rrs' \<and> s = s') y x"
    if "rel_option (\<lambda>(rrs, s) (rrs', s'). mset rrs = mset rrs' \<and> s = s') x y" for x y :: "(rr list \<times> rrsig option) option"
    using that by (cases rule: option.rel_cases) auto
  with assms show ?thesis unfolding reordered_def by blast
qed

lemma proveName_reordered:
  assumes "reordered lk lk'"
  shows "proveName env lk pol fl src n kt blob pub = proveName env lk' pol fl src n kt blob pub"
proof -
  have one: "proveName env l' pol fl src n kt blob pub = Some via"
    if "reordered l l'" and p: "proveName env l pol fl src n kt blob pub = Some via" for l l' via
  proof -
    note v = validatedExact_reordered [OF that(1), of env n _ "af_Zone fl"]
    from p obtain aaaas txts m where q: "validatedExact env l n TypeAAAA (af_Zone fl) = Some aaaas"
      "rrsetHasAddr aaaas src" "validatedExact env l n TypeTXT (af_Zone fl) = Some txts"
      "parseWhisperID env txts = Some m" "EqualFold env (id_get m ''status'') ''active''"
      "af_Tenant fl \<noteq> [] \<longrightarrow> EqualFold env (id_get m ''tenant'') (af_Tenant fl)"
      "ap_Allow pol \<noteq> [] \<longrightarrow> allowed env (ap_Allow pol) n"
      "matchAgentKey env l n (af_Zone fl) kt blob pub (ap_AllowTLSA pol) = via" "via \<noteq> []"
      unfolding proveName_Some by blast
    from v [of TypeAAAA] q(1) obtain a' where a': "validatedExact env l' n TypeAAAA (af_Zone fl) = Some a'"
      "mset aaaas = mset a'" by (cases rule: same_records_cases) auto
    from v [of TypeTXT] q(3) obtain t' where t': "validatedExact env l' n TypeTXT (af_Zone fl) = Some t'"
      "mset txts = mset t'" by (cases rule: same_records_cases) auto
    show ?thesis
      unfolding proveName_Some
      using a' t' q rrsetHasAddr_reordered [OF a'(2)] parseWhisperID_reordered [OF t'(2)]
        matchAgentKey_reordered [OF that(1)] by metis
  qed
  from one [OF assms] one [OF reordered_sym [OF assms]] show ?thesis by (metis option.exhaust)
qed

lemma try_names_reordered:
  assumes "reordered lk lk'"
  shows "try_names env lk pol src kt blob pub ns d = try_names env lk' pol src kt blob pub ns d"
  by (induction ns arbitrary: d) (simp_all add: proveName_reordered [OF assms] Let_def split: option.splits)

lemma distinct_firsts: "distinct (firsts seen xs)"
  by (induction xs arbitrary: seen) (auto simp: set_firsts)

lemma fleet_names_reordered:
  assumes "mset a = mset b"
  shows "fleet_names env fleets a = fleet_names env fleets b"
proof (rule sorted_distinct_set_unique)
  show "set (fleet_names env fleets a) = set (fleet_names env fleets b)"
    unfolding set_fleet_names mset_eq_setD [OF assms] ..
qed (simp_all add: fleet_names_def distinct_firsts)

text \<open>
  C29. The decision on a login, all of it, does not depend on the order in which the resolver
  returned the records of any answer: two lookups that give the same records under the same
  signatures, in any order, give the same decision, line, name and reason of proof.
\<close>
theorem authorize_order_independent:
  assumes "reordered lk lk'"
  shows "Authorize env (Some lk) pol req = Authorize env (Some lk') pol req"
proof -
  define from_ptrs where "from_ptrs l v src blob pub d = (case v of
      None \<Rightarrow> d
    | Some ptrs \<Rightarrow>
        let names = fleet_names env (ap_Fleets pol) ptrs in
        if names = [] then d else try_names env l pol src (rq_KeyType req) blob pub names d)"
    for l v src blob pub d
  have f: "from_ptrs lk v src blob pub d = from_ptrs lk' v' src blob pub d" if "same_records v v'" for v v' src blob pub d
    using that
  proof (cases rule: same_records_cases)
    case (2 a b)
    show ?thesis
      unfolding from_ptrs_def 2(1,2) option.case fleet_names_reordered [OF 2(3)] try_names_reordered [OF assms] ..
  qed (simp add: from_ptrs_def)
  show ?thesis
    unfolding Authorize_def from_ptrs_def [symmetric] option.sel
    by (simp only: f [OF validatedExact_reordered [OF assms]] option.distinct)
qed

end
