(* ===== verification/WhaleExamples.thy ===== *)
theory WhaleExamples
  imports WhaleDecision
begin

text \<open>The properties of the login decision at a concrete login.\<close>

subsection \<open>A login by an agent of \<open>acme.org\<close>\<close>

text \<open>Names in lower case, of which every part is a label; a key parser that takes every blob for an Ed25519 key.\<close>

definition example_env :: authz_env where
  "example_env =
     \<lparr>ae_Canonical = (\<lambda>s. s),
      ae_Fqdn = (\<lambda>s. if s \<noteq> [] \<and> last s = CHR ''.'' then s else s @ ''.''),
      ae_CountLabel = (\<lambda>s. length (filter (\<lambda>c. c = CHR ''.'') s)),
      ae_IsSubDomain = (\<lambda>p c. suffix p c),
      ae_IsDomainName = (\<lambda>s. True),
      ae_Labels = split_on (CHR ''.''),
      ae_ReverseAddr = (\<lambda>s. Some ''5.arpa.''),
      ae_PublicSuffix = (\<lambda>s. []),
      ae_ParseKey = (\<lambda>b. Some \<lparr>sk_Type = ''ssh-ed25519'', sk_SPKI = None\<rparr>),
      ae_UID0 = (\<lambda>u. Some False),
      ae_lower = (\<lambda>s. s),
      ae_fold = (=)\<rparr>"

definition example_addr :: bytes where
  "example_addr = [0x2a, 4, 0x2a, 1, 0, 0, 0, 0, 0, 0, 0, 0, 0, 0, 0, 5]"

definition example_sig :: "string \<Rightarrow> nat \<Rightarrow> nat \<Rightarrow> rrsig" where
  "example_sig signer labels covered =
     \<lparr>sg_SignerName = signer, sg_Labels = labels, sg_TypeCovered = covered, sg_KeyTag = 9, sg_Algorithm = 13,
      sg_OrigTtl = 60, sg_Rest = [9]\<rparr>"

definition answers_with :: "string \<Rightarrow> authz_lookup" where
  "answers_with fingerprint owner qtype =
     (if owner = ''5.arpa.'' \<and> qtype = TypePTR then
        Some ([\<lparr>rr_Name = owner, rr_Type = qtype, rr_Data = PTR ''n.acme.org.''\<rparr>,
               \<lparr>rr_Name = owner, rr_Type = qtype, rr_Data = PTR ''elsewhere.net.''\<rparr>],
              Some (example_sig ''arpa.'' 2 qtype))
      else if owner = ''n.acme.org.'' \<and> (qtype = TypeAAAA \<or> qtype = TypeTXT \<or> qtype = TypeSSHFP) then
        Some ([\<lparr>rr_Name = owner, rr_Type = qtype, rr_Data =
                 (if qtype = TypeAAAA then AAAA example_addr
                  else if qtype = TypeTXT then TXT [''whisper-id1 status=active'']
                  else SSHFP 4 2 fingerprint)\<rparr>],
              Some (example_sig ''acme.org.'' 3 qtype))
      else None)"

definition example_answers :: authz_lookup where
  "example_answers = answers_with (hex_encode (sha256 [1]))"

definition example_policy :: authz_policy where
  "example_policy =
     \<lparr>ap_Fleets = [\<lparr>af_Zone = ''acme.org.'', af_Tenant = []\<rparr>], ap_Allow = [], ap_Users = [], ap_AllowTLSA = False\<rparr>"

definition example_login :: authz_request where
  "example_login =
     \<lparr>rq_User = ''alice'', rq_KeyType = ''ssh-ed25519'', rq_Key = ''AQ=='',
      rq_Source = Some (Addr6 0x2a042a01000000000000000000000005 [])\<rparr>"

lemma graph_lower_hex: "list_all is_lower_hex s \<Longrightarrow> list_all is_graph s \<and> list_all is_ascii s \<and> map lower_char s = s"
proof -
  have "list_all (\<lambda>c. is_graph c \<and> is_ascii c \<and> lower_char c = c) ''0123456789abcdef''" by code_simp
  then have "is_lower_hex c \<Longrightarrow> is_graph c \<and> is_ascii c \<and> lower_char c = c" for c
    unfolding is_lower_hex_def list_all_iff by blast
  then show "list_all is_lower_hex s \<Longrightarrow> ?thesis" by (induction s) simp_all
qed

lemma hex_encode_plain:
  "to_lower uni (to_lower uni (trim_space (hex_encode b))) = hex_encode b"
  using graph_lower_hex [OF list_all_lower_hex_encode] by (simp add: to_lower_def)

lemma agent_key:
  "parseOfferedKey example_env ''ssh-ed25519'' ''AQ=='' = Some ([1], \<lparr>sk_Type = ''ssh-ed25519'', sk_SPKI = None\<rparr>)"
  by code_simp

lemma example_ptrs:
  "validatedExact example_env example_answers ''5.arpa.'' TypePTR [] =
     Some [\<lparr>rr_Name = ''5.arpa.'', rr_Type = TypePTR, rr_Data = PTR ''n.acme.org.''\<rparr>,
           \<lparr>rr_Name = ''5.arpa.'', rr_Type = TypePTR, rr_Data = PTR ''elsewhere.net.''\<rparr>]"
  by (simp add: validatedExact_def example_answers_def answers_with_def example_sig_def example_env_def Let_def TypePTR_def)

lemma example_names:
  "fleet_names example_env (ap_Fleets example_policy)
     [\<lparr>rr_Name = ''5.arpa.'', rr_Type = TypePTR, rr_Data = PTR ''n.acme.org.''\<rparr>,
      \<lparr>rr_Name = ''5.arpa.'', rr_Type = TypePTR, rr_Data = PTR ''elsewhere.net.''\<rparr>] = [''n.acme.org.'']"
  by code_simp

lemma agent_owner:
  "validatedExact example_env example_answers ''n.acme.org.'' TypeAAAA ''acme.org.'' =
     Some [\<lparr>rr_Name = ''n.acme.org.'', rr_Type = TypeAAAA, rr_Data = AAAA example_addr\<rparr>]"
  "validatedExact example_env example_answers ''n.acme.org.'' TypeTXT ''acme.org.'' =
     Some [\<lparr>rr_Name = ''n.acme.org.'', rr_Type = TypeTXT, rr_Data = TXT [''whisper-id1 status=active'']\<rparr>]"
  "validatedExact example_env example_answers ''n.acme.org.'' TypeSSHFP ''acme.org.'' =
     Some [\<lparr>rr_Name = ''n.acme.org.'', rr_Type = TypeSSHFP, rr_Data = SSHFP 4 2 (hex_encode (sha256 [1]))\<rparr>]"
proof -
  have g: "trim_space ''acme.org.'' = ''acme.org.''" by code_simp
  show "validatedExact example_env example_answers ''n.acme.org.'' TypeAAAA ''acme.org.'' =
     Some [\<lparr>rr_Name = ''n.acme.org.'', rr_Type = TypeAAAA, rr_Data = AAAA example_addr\<rparr>]"
    by (simp add: validatedExact_def example_answers_def answers_with_def example_sig_def example_env_def Let_def TypeAAAA_def TypePTR_def g)
  show "validatedExact example_env example_answers ''n.acme.org.'' TypeTXT ''acme.org.'' =
     Some [\<lparr>rr_Name = ''n.acme.org.'', rr_Type = TypeTXT, rr_Data = TXT [''whisper-id1 status=active'']\<rparr>]"
    by (simp add: validatedExact_def example_answers_def answers_with_def example_sig_def example_env_def Let_def TypeAAAA_def TypeTXT_def g)
  show "validatedExact example_env example_answers ''n.acme.org.'' TypeSSHFP ''acme.org.'' =
     Some [\<lparr>rr_Name = ''n.acme.org.'', rr_Type = TypeSSHFP, rr_Data = SSHFP 4 2 (hex_encode (sha256 [1]))\<rparr>]"
    by (simp add: validatedExact_def example_answers_def answers_with_def example_sig_def example_env_def Let_def TypeAAAA_def TypeTXT_def TypeSSHFP_def g)
qed

lemma example_address:
  "rrsetHasAddr [\<lparr>rr_Name = ''n.acme.org.'', rr_Type = TypeAAAA, rr_Data = AAAA example_addr\<rparr>]
     (Addr6 0x2a042a01000000000000000000000005 [])"
  by code_simp

lemma example_status:
  "\<exists>m. parseWhisperID example_env
     [\<lparr>rr_Name = ''n.acme.org.'', rr_Type = TypeTXT, rr_Data = TXT [''whisper-id1 status=active'']\<rparr>] = Some m \<and>
     EqualFold example_env (id_get m ''status'') ''active''"
proof -
  let ?r = "\<lparr>rr_Name = ''n.acme.org.'', rr_Type = TypeTXT, rr_Data = TXT [''whisper-id1 status=active'']\<rparr>"
  have f: "whisper_record example_env ?r = Some [''status=active'']" by code_simp
  have l: "to_lower (ae_lower example_env) ''status'' = ''status''" by code_simp
  have "whisper_fields example_env Map.empty [''status=active''] = Some [''status'' \<mapsto> ''active'']"
    by (simp add: l)
  then have "parseWhisperID example_env [?r] = Some [''status'' \<mapsto> ''active'']"
    by (simp add: parseWhisperID_def f)
  moreover have "EqualFold example_env ''active'' ''active''" by code_simp
  ultimately show ?thesis by (simp add: id_get_def)
qed

lemma example_match:
  "matchAgentKey example_env example_answers ''n.acme.org.'' ''acme.org.'' ''ssh-ed25519'' [1] k False = ''sshfp''"
proof -
  have a: "HostKeyAlgorithm (ae_lower example_env) ''ssh-ed25519'' = Some 4" by code_simp
  have "sshfp_proves (ae_lower example_env) 4 [1]
      \<lparr>rr_Name = ''n.acme.org.'', rr_Type = TypeSSHFP, rr_Data = SSHFP 4 2 (hex_encode (sha256 [1]))\<rparr>"
    by (simp add: sshfp_proves_def SSHFPTypeSHA256_def hex_encode_plain SHA256Fingerprint_def)
  then have "MatchHostKey (ae_lower example_env) ''ssh-ed25519'' (b64_encode [1]) (ParseSSHFP (ae_lower example_env)
      [\<lparr>rr_Name = ''n.acme.org.'', rr_Type = TypeSSHFP, rr_Data = SSHFP 4 2 (hex_encode (sha256 [1]))\<rparr>]) \<noteq> None"
    unfolding MatchHostKey_records by (simp add: a del: b64_encode.simps)
  then show ?thesis by (simp add: matchAgentKey_def agent_owner(3))
qed

lemma example_proven:
  "proveName example_env example_answers example_policy \<lparr>af_Zone = ''acme.org.'', af_Tenant = []\<rparr>
     (Addr6 0x2a042a01000000000000000000000005 []) ''n.acme.org.'' ''ssh-ed25519'' [1] k = Some ''sshfp''"
  unfolding proveName_Some
  using agent_owner(1,2) example_address example_status example_match
  by (auto simp: example_policy_def)

lemma example_fleet:
  "fleetOf example_env ''n.acme.org.'' (ap_Fleets example_policy) = Some \<lparr>af_Zone = ''acme.org.'', af_Tenant = []\<rparr>"
  by code_simp

lemma example_admitted: "dc_Admit (Authorize example_env (Some example_answers) example_policy example_login)"
proof -
  have u: "trim_space (rq_User example_login) = ''alice''" "userEligible ''alice'' (ap_Users example_policy)"
    "ae_UID0 example_env ''alice'' = Some False" "ap_Fleets example_policy \<noteq> []" by code_simp+
  have s: "map_option Unmap (rq_Source example_login) = Some (Addr6 0x2a042a01000000000000000000000005 [])"
    "\<not> IsLoopback (Addr6 0x2a042a01000000000000000000000005 [])"
    "\<not> IsUnspecified (Addr6 0x2a042a01000000000000000000000005 [])" "\<not> allHosted (ap_Fleets example_policy)"
    by code_simp+
  have r: "ae_ReverseAddr example_env a = Some ''5.arpa.''" for a by (simp add: example_env_def)
  have k: "rq_KeyType example_login = ''ssh-ed25519''" "rq_Key example_login = ''AQ==''"
    by (simp_all add: example_login_def)
  show ?thesis
    by (simp add: Authorize_def Let_def u s r k agent_key example_ptrs example_names example_fleet example_proven)
qed

lemma authorize_sound_witness:
  "\<exists>n fl. inFleet example_env n (af_Zone fl) \<and>
     name_proven example_env example_answers example_policy fl (Addr6 0x2a042a01000000000000000000000005 []) n
       ''ssh-ed25519'' [1] \<lparr>sk_Type = ''ssh-ed25519'', sk_SPKI = None\<rparr>
       (dc_Via (Authorize example_env (Some example_answers) example_policy example_login))"
proof -
  have a: "rq_Source example_login = Some (Addr6 0x2a042a01000000000000000000000005 [])"
    "Unmap (Addr6 0x2a042a01000000000000000000000005 []) = Addr6 0x2a042a01000000000000000000000005 []"
    "rq_KeyType example_login = ''ssh-ed25519''" "rq_Key example_login = ''AQ==''" by code_simp+
  show ?thesis using authorize_sound [OF example_admitted] unfolding a agent_key by (auto simp: a)
qed

text \<open>A resolver that gives every answer backwards.\<close>

definition backwards :: "authz_lookup \<Rightarrow> authz_lookup" where
  "backwards lk owner qtype = map_option (\<lambda>(rrs, s). (rev rrs, s)) (lk owner qtype)"

lemma authorize_order_independent_witness:
  "dc_Admit (Authorize example_env (Some (backwards example_answers)) example_policy example_login) \<and>
   backwards example_answers ''5.arpa.'' TypePTR \<noteq> example_answers ''5.arpa.'' TypePTR"
proof
  have "reordered lk (backwards lk)" for lk
    by (auto simp: reordered_def backwards_def option.rel_map intro!: option.rel_refl_strong)
  from authorize_order_independent [OF this, of example_env example_answers example_policy example_login]
  show "dc_Admit (Authorize example_env (Some (backwards example_answers)) example_policy example_login)"
    using example_admitted by simp
  show "backwards example_answers ''5.arpa.'' TypePTR \<noteq> example_answers ''5.arpa.'' TypePTR"
    by (simp add: backwards_def example_answers_def answers_with_def)
qed

end
