(* ===== verification/TvDnssec.thy ===== *)
theory TvDnssec
  imports DnsRecords "HOL-Library.Monad_Syntax" "HOL-Library.List_Lexorder"
begin

text \<open>
  \<open>internal/trustverify/dnssec.go\<close> and \<open>wildcard_denial.go\<close>: the validator that proves a set of
  records from the root's anchors, whatever the resolver answers. The functions of
  \<open>github.com/miekg/dns\<close> (names, key tags, digests, one signature check), the resolver and the
  deadline are the fields of an environment. The resolver is asked questions in order and may answer
  each as it likes, so its answer depends on the number of the question. The text of errors is left
  out, but not whether an error is one of the bounds'.
\<close>

subsection \<open>The environment and the state\<close>

record dns_msg =
  ms_Rcode :: nat
  ms_Answer :: "rr list"
  ms_Ns :: "rr list"

definition RcodeSuccess :: nat where "RcodeSuccess = 0"
definition RcodeNameError :: nat where "RcodeNameError = 3"

record tv_env =
  dn_Canonical :: "string \<Rightarrow> string"
  dn_Fqdn :: "string \<Rightarrow> string"
  dn_CountLabel :: "string \<Rightarrow> nat"
  dn_IsSubDomain :: "string \<Rightarrow> string \<Rightarrow> bool"
  dn_Split :: "string \<Rightarrow> string list"
  dn_CompareDomain :: "string \<Rightarrow> string \<Rightarrow> nat"
  dn_Pack :: "string \<Rightarrow> bytes option"
  dn_TypeToString :: "nat \<Rightarrow> string"
  dn_HashName :: "string \<Rightarrow> nat \<Rightarrow> string \<Rightarrow> string"
  dn_Match :: "rr \<Rightarrow> string \<Rightarrow> bool"
  dn_Cover :: "rr \<Rightarrow> string \<Rightarrow> bool"
  dn_KeyTag :: "rr \<Rightarrow> nat"
  dn_ToDS :: "rr \<Rightarrow> nat \<Rightarrow> string option"
  dn_Verify :: "rrsig \<Rightarrow> rr \<Rightarrow> rr list \<Rightarrow> bool"
  dn_ValidityPeriod :: "rrsig \<Rightarrow> bool"
  dn_upper :: "string \<Rightarrow> string"
  dn_lower :: "string \<Rightarrow> string"
  dn_fold :: "string \<Rightarrow> string \<Rightarrow> bool"
  tv_anchors :: "ds_rdata list"
  tv_Query :: "nat \<Rightarrow> string \<Rightarrow> nat \<Rightarrow> dns_msg option"
  tv_expired :: "nat \<Rightarrow> bool"

text \<open>Whether an error is a \<open>capError\<close>, which ends the validation of a set of records at once.\<close>

datatype tv_error = Cap | Unproven

record validator =
  va_keys :: "string \<rightharpoonup> rr list"
  va_failed :: "string \<rightharpoonup> tv_error"
  va_verifies :: nat
  va_asked :: nat

definition NewValidator :: validator where
  "NewValidator = \<lparr>va_keys = Map.empty, va_failed = Map.empty, va_verifies = 0, va_asked = 0\<rparr>"

definition maxSigsPerRRset :: nat where "maxSigsPerRRset = 8"
definition maxVerifiesPerRRset :: int where "maxVerifiesPerRRset = 8"
definition maxKeysPerTag :: nat where "maxKeysPerTag = 4"
definition maxVerifiesPerValidator :: nat where "maxVerifiesPerValidator = 512"
definition maxNSEC3Iterations :: nat where "maxNSEC3Iterations = 150"
definition maxNSEC3Hashes :: nat where "maxNSEC3Hashes = 8"
definition maxDenialCandidates :: nat where "maxDenialCandidates = 8"

definition query :: "tv_env \<Rightarrow> string \<Rightarrow> nat \<Rightarrow> validator \<Rightarrow> dns_msg option \<times> validator" where
  "query env name qtype s = (tv_Query env (va_asked s) name qtype, s\<lparr>va_asked := va_asked s + 1\<rparr>)"

subsection \<open>Records\<close>

definition rrsOfType :: "tv_env \<Rightarrow> rr list \<Rightarrow> string \<Rightarrow> nat \<Rightarrow> rr list" where
  "rrsOfType env rrs name qtype = filter (\<lambda>r. rr_Type r = qtype \<and> dn_Canonical env (rr_Name r) = name) rrs"

definition rrsigsCovering :: "tv_env \<Rightarrow> rr list \<Rightarrow> string \<Rightarrow> nat \<Rightarrow> rrsig list" where
  "rrsigsCovering env rrs name qtype =
     concat (map (\<lambda>r. case rr_Data r of
       RRSIG s \<Rightarrow> if sg_TypeCovered s = qtype \<and> dn_Canonical env (rr_Name r) = name then [s] else []
     | _ \<Rightarrow> []) rrs)"

definition dnskeysOf :: "tv_env \<Rightarrow> rr list \<Rightarrow> string \<Rightarrow> rr list" where
  "dnskeysOf env rrs zone =
     filter (\<lambda>r. (case rr_Data r of DNSKEY _ \<Rightarrow> True | _ \<Rightarrow> False) \<and> dn_Canonical env (rr_Name r) = zone) rrs"

definition dsOf :: "tv_env \<Rightarrow> rr list \<Rightarrow> string \<Rightarrow> rr list" where
  "dsOf env rrs zone =
     filter (\<lambda>r. (case rr_Data r of DS _ \<Rightarrow> True | _ \<Rightarrow> False) \<and> dn_Canonical env (rr_Name r) = zone) rrs"

definition key_Algorithm :: "rr \<Rightarrow> nat" where
  "key_Algorithm k = (case rr_Data k of DNSKEY d \<Rightarrow> dk_Algorithm d | _ \<Rightarrow> 0)"

definition ds_rdatas :: "rr list \<Rightarrow> ds_rdata list" where
  "ds_rdatas rrs = concat (map (\<lambda>r. case rr_Data r of DS d \<Rightarrow> [d] | _ \<Rightarrow> []) rrs)"

subsection \<open>Who may sign what\<close>

definition ownerLabels :: "tv_env \<Rightarrow> string \<Rightarrow> nat" where
  "ownerLabels env name =
     (let ls = dn_Split env name in if ls \<noteq> [] \<and> hd ls = ''*'' then length ls - 1 else length ls)"

definition signerMayCover :: "tv_env \<Rightarrow> rrsig \<Rightarrow> string \<Rightarrow> nat \<Rightarrow> bool" where
  "signerMayCover env sig name qtype =
     (let signer = dn_Canonical env (sg_SignerName sig) in
      if qtype = TypeDS \<and> signer = dn_Canonical env name then False
      else dn_IsSubDomain env signer name \<and> sg_Labels sig \<ge> dn_CountLabel env signer \<and>
           sg_Labels sig \<le> ownerLabels env name)"

text \<open>The next closer name, when the signature shows the name was expanded from a wildcard.\<close>

definition wildcardExpansion :: "tv_env \<Rightarrow> rrsig \<Rightarrow> string \<Rightarrow> string option" where
  "wildcardExpansion env sig name =
     (let l = sg_Labels sig; ls = dn_Split env name in
      if l \<ge> ownerLabels env name then None
      else Some (dn_Fqdn env (join ''.'' (drop (length ls - l - 1) ls))))"

subsection \<open>One signature\<close>

text \<open>\<open>None\<close> is success; the budget is the number of checks left for one set of records.\<close>

definition verifyWithKey ::
    "tv_env \<Rightarrow> rrsig \<Rightarrow> rr list \<Rightarrow> rr \<Rightarrow> int \<Rightarrow> validator \<Rightarrow> tv_error option \<times> int \<times> validator" where
  "verifyWithKey env sig rrset k b s =
     (if \<not> dn_ValidityPeriod env sig then (Some Unproven, b, s)
      else if va_verifies s \<ge> maxVerifiesPerValidator then (Some Cap, b, s)
      else if b \<le> 0 then (Some Cap, b, s)
      else (if dn_Verify env sig k rrset then None else Some Unproven, b - 1,
            s\<lparr>va_verifies := va_verifies s + 1\<rparr>))"

fun verify_cands ::
    "tv_env \<Rightarrow> rrsig \<Rightarrow> rr list \<Rightarrow> rr list \<Rightarrow> int \<Rightarrow> validator \<Rightarrow> tv_error option \<times> int \<times> validator" where
  "verify_cands env sig rrset [] b s = (Some Unproven, b, s)"
| "verify_cands env sig rrset (k # ks) b s =
     (case verifyWithKey env sig rrset k b s of
        (Some Unproven, b, s) \<Rightarrow> verify_cands env sig rrset ks b s
      | r \<Rightarrow> r)"

definition verifyWithKeys ::
    "tv_env \<Rightarrow> rrsig \<Rightarrow> rr list \<Rightarrow> rr list \<Rightarrow> int \<Rightarrow> validator \<Rightarrow> tv_error option \<times> int \<times> validator" where
  "verifyWithKeys env sig rrset keys b s =
     (let cands = filter (\<lambda>k. dn_KeyTag env k = sg_KeyTag sig \<and> key_Algorithm k = sg_Algorithm sig) keys in
      if length cands > maxKeysPerTag then (Some Cap, b, s) else verify_cands env sig rrset cands b s)"

subsection \<open>The keys of a zone\<close>

text \<open>The proof of a zone asks for the keys of other zones; the answer is none when fuel ran out.\<close>

type_synonym zone_keys = "string \<Rightarrow> validator \<Rightarrow> ((tv_error + rr list) \<times> validator) option"

fun ds_sigs ::
    "tv_env \<Rightarrow> zone_keys \<Rightarrow> string \<Rightarrow> rr list \<Rightarrow> rrsig list \<Rightarrow> nat \<Rightarrow> int \<Rightarrow> tv_error option \<Rightarrow> validator
       \<Rightarrow> ((tv_error + rr list) \<times> validator) option" where
  "ds_sigs env kz zone ds [] chased b chainErr s =
     Some (Inl (case chainErr of None \<Rightarrow> Unproven | Some e \<Rightarrow> e), s)"
| "ds_sigs env kz zone ds (sig # sigs) chased b chainErr s =
     (if \<not> signerMayCover env sig zone TypeDS then ds_sigs env kz zone ds sigs chased b chainErr s
      else if wildcardExpansion env sig zone \<noteq> None then ds_sigs env kz zone ds sigs chased b chainErr s
      else if chased + 1 > maxSigsPerRRset then Some (Inl Cap, s)
      else do {
        (r, s) \<leftarrow> kz (sg_SignerName sig) s;
        (case r of
           Inl e \<Rightarrow> ds_sigs env kz zone ds sigs (chased + 1) b (if chainErr = None then Some e else chainErr) s
         | Inr parentKeys \<Rightarrow>
             (case verifyWithKeys env sig ds parentKeys b s of
                (None, b, s) \<Rightarrow> Some (Inr ds, s)
              | (Some Cap, b, s) \<Rightarrow> Some (Inl Cap, s)
              | (Some Unproven, b, s) \<Rightarrow> ds_sigs env kz zone ds sigs (chased + 1) b chainErr s))
      })"

definition validateDS :: "tv_env \<Rightarrow> zone_keys \<Rightarrow> string \<Rightarrow> validator \<Rightarrow> ((tv_error + rr list) \<times> validator) option" where
  "validateDS env kz zone s =
     (let (m, s) = query env zone TypeDS s in
      case m of
        None \<Rightarrow> Some (Inl Unproven, s)
      | Some dm \<Rightarrow>
          if ms_Rcode dm \<noteq> RcodeSuccess then Some (Inl Unproven, s)
          else
            (let ds = dsOf env (ms_Answer dm) zone; sigs = rrsigsCovering env (ms_Answer dm) zone TypeDS in
             if ds = [] \<or> sigs = [] then Some (Inl Unproven, s)
             else ds_sigs env kz zone ds sigs 0 maxVerifiesPerRRset None s))"

text \<open>Of one key that the record matches: its own signatures over the keys of the zone.\<close>

fun self_sigs ::
    "tv_env \<Rightarrow> string \<Rightarrow> rr list \<Rightarrow> rr \<Rightarrow> rrsig list \<Rightarrow> int \<Rightarrow> validator \<Rightarrow> tv_error option \<times> int \<times> validator" where
  "self_sigs env zone keys k [] b s = (Some Unproven, b, s)"
| "self_sigs env zone keys k (sig # sigs) b s =
     (if sg_KeyTag sig \<noteq> dn_KeyTag env k \<or> dn_Canonical env (sg_SignerName sig) \<noteq> zone then
        self_sigs env zone keys k sigs b s
      else if wildcardExpansion env sig zone \<noteq> None then self_sigs env zone keys k sigs b s
      else
        (case verifyWithKey env sig keys k b s of
           (Some Unproven, b, s) \<Rightarrow> self_sigs env zone keys k sigs b s
         | r \<Rightarrow> r))"

fun ds_keys ::
    "tv_env \<Rightarrow> string \<Rightarrow> rr list \<Rightarrow> rrsig list \<Rightarrow> ds_rdata \<Rightarrow> rr list \<Rightarrow> nat \<Rightarrow> int \<Rightarrow> validator
       \<Rightarrow> tv_error option \<times> int \<times> validator" where
  "ds_keys env zone keys keySigs d [] tagged b s = (Some Unproven, b, s)"
| "ds_keys env zone keys keySigs d (k # ks) tagged b s =
     (if dn_KeyTag env k \<noteq> ds_KeyTag d \<or> key_Algorithm k \<noteq> ds_Algorithm d then
        ds_keys env zone keys keySigs d ks tagged b s
      else if tagged + 1 > maxKeysPerTag then (Some Cap, b, s)
      else
        (case dn_ToDS env k (ds_DigestType d) of
           None \<Rightarrow> ds_keys env zone keys keySigs d ks (tagged + 1) b s
         | Some digest \<Rightarrow>
             if \<not> equal_fold (dn_fold env) digest (ds_Digest d) then
               ds_keys env zone keys keySigs d ks (tagged + 1) b s
             else
               (case self_sigs env zone keys k keySigs b s of
                  (Some Unproven, b, s) \<Rightarrow> ds_keys env zone keys keySigs d ks (tagged + 1) b s
                | r \<Rightarrow> r)))"

fun anchored_key ::
    "tv_env \<Rightarrow> string \<Rightarrow> rr list \<Rightarrow> rrsig list \<Rightarrow> ds_rdata list \<Rightarrow> int \<Rightarrow> validator \<Rightarrow> (tv_error + rr list) \<times> validator" where
  "anchored_key env zone keys keySigs [] b s = (Inl Unproven, s)"
| "anchored_key env zone keys keySigs (d # ds) b s =
     (case ds_keys env zone keys keySigs d keys 0 b s of
        (None, b, s) \<Rightarrow> (Inr keys, s)
      | (Some Cap, b, s) \<Rightarrow> (Inl Cap, s)
      | (Some Unproven, b, s) \<Rightarrow> anchored_key env zone keys keySigs ds b s)"

definition proveZone :: "tv_env \<Rightarrow> zone_keys \<Rightarrow> string \<Rightarrow> validator \<Rightarrow> ((tv_error + rr list) \<times> validator) option" where
  "proveZone env kz zone s =
     (let (m, s) = query env zone TypeDNSKEY s in
      case m of
        None \<Rightarrow> Some (Inl Unproven, s)
      | Some km \<Rightarrow>
          if ms_Rcode km \<noteq> RcodeSuccess then Some (Inl Unproven, s)
          else
            (let keys = dnskeysOf env (ms_Answer km) zone;
                 keySigs = rrsigsCovering env (ms_Answer km) zone TypeDNSKEY
             in
               if keys = [] then Some (Inl Unproven, s)
               else if zone = ''.'' then Some (anchored_key env zone keys keySigs (tv_anchors env) maxVerifiesPerRRset s)
               else do {
                 (r, s) \<leftarrow> validateDS env kz zone s;
                 (case r of
                    Inl e \<Rightarrow> Some (Inl e, s)
                  | Inr ds \<Rightarrow> Some (anchored_key env zone keys keySigs (ds_rdatas ds) maxVerifiesPerRRset s))
               }))"

fun keyForZone :: "tv_env \<Rightarrow> nat \<Rightarrow> zone_keys" where
  "keyForZone env 0 zone s = None"
| "keyForZone env (Suc n) zone s =
     (let zone = dn_Canonical env zone in
      case va_keys s zone of
        Some keys \<Rightarrow> Some (Inr keys, s)
      | None \<Rightarrow>
          (case va_failed s zone of
             Some e \<Rightarrow> Some (Inl e, s)
           | None \<Rightarrow> do {
               (r, s) \<leftarrow> proveZone env (keyForZone env n) zone s;
               (case r of
                  Inl e \<Rightarrow>
                    Some (Inl e, if tv_expired env (va_asked s) then s else s\<lparr>va_failed := (va_failed s)(zone \<mapsto> e)\<rparr>)
                | Inr keys \<Rightarrow> Some (Inr keys, s\<lparr>va_keys := (va_keys s)(zone \<mapsto> keys)\<rparr>))
             }))"

subsection \<open>Names on the wire\<close>

definition asciiLower :: "bytes \<Rightarrow> bytes" where
  "asciiLower b = map (\<lambda>c. if 65 \<le> c \<and> c \<le> 90 then c + 32 else c) b"

text \<open>The labels of a packed name: a length, that many bytes, and so on until a zero.\<close>

function wire_labels :: "bytes \<Rightarrow> bytes list" where
  "wire_labels [] = []"
| "wire_labels (n # r) =
     (if n = 0 then [] else asciiLower (take (unat n) r) # wire_labels (drop (unat n) r))"
  by pat_completeness auto
termination by (relation "measure length") auto

definition wireLabelsOK :: "tv_env \<Rightarrow> string \<Rightarrow> bytes list option" where
  "wireLabelsOK env name = map_option wire_labels (dn_Pack env (dn_Fqdn env name))"

definition packs :: "tv_env \<Rightarrow> string \<Rightarrow> bool" where
  "packs env name \<longleftrightarrow> wireLabelsOK env name \<noteq> None"

definition wireLabels :: "tv_env \<Rightarrow> string \<Rightarrow> bytes list" where
  "wireLabels env name =
     (case wireLabelsOK env name of None \<Rightarrow> [bytes_of (to_lower (dn_lower env) name)] | Some ls \<Rightarrow> ls)"

text \<open>Label by label from the right, which is the front of the lists here; then the number of labels.\<close>

fun compare_labels :: "bytes list \<Rightarrow> bytes list \<Rightarrow> int" where
  "compare_labels (x # xs) (y # ys) =
     (if x = y then compare_labels xs ys else if x < y then - 1 else 1)"
| "compare_labels xs ys = int (length xs) - int (length ys)"

definition canonicalCompare :: "tv_env \<Rightarrow> string \<Rightarrow> string \<Rightarrow> int" where
  "canonicalCompare env a b = compare_labels (rev (wireLabels env a)) (rev (wireLabels env b))"

fun common_front :: "bytes list \<Rightarrow> bytes list \<Rightarrow> nat" where
  "common_front (x # xs) (y # ys) = (if x = y then Suc (common_front xs ys) else 0)"
| "common_front xs ys = 0"

definition commonLabels :: "tv_env \<Rightarrow> string \<Rightarrow> string \<Rightarrow> nat" where
  "commonLabels env a b =
     (case (wireLabelsOK env a, wireLabelsOK env b) of
        (Some la, Some lb) \<Rightarrow> common_front (rev la) (rev lb)
      | _ \<Rightarrow> 0)"

definition nsecCoversName :: "tv_env \<Rightarrow> string \<Rightarrow> string \<Rightarrow> string \<Rightarrow> bool" where
  "nsecCoversName env owner nxt name \<longleftrightarrow>
     packs env owner \<and> packs env nxt \<and> packs env name \<and> canonicalCompare env owner name < 0 \<and>
     (canonicalCompare env name nxt < 0 \<or> canonicalCompare env nxt owner \<le> 0)"

definition hashCovers :: "string \<Rightarrow> string \<Rightarrow> string \<Rightarrow> bool" where
  "hashCovers ownerHash nextHash h \<longleftrightarrow>
     h \<noteq> [] \<and> length ownerHash = length h \<and> length nextHash = length h \<and>
     (if ownerHash < nextHash then ownerHash < h \<and> h < nextHash else h > ownerHash \<or> h < nextHash)"

definition splitNSEC3Owner :: "tv_env \<Rightarrow> string \<Rightarrow> string \<times> string" where
  "splitNSEC3Owner env owner =
     (let ls = dn_Split env owner in
      if length ls < 2 \<or> hd ls = [] then ([], [])
      else (to_upper (dn_upper env) (hd ls), dn_Fqdn env (join ''.'' (tl ls))))"

subsection \<open>The authority section\<close>

record authority_section =
  au_rrs :: "string \<Rightarrow> rr list"
  au_sigs :: "string \<Rightarrow> rrsig list"
  au_owners :: "nat \<Rightarrow> string list"

definition authorityKey :: "tv_env \<Rightarrow> string \<Rightarrow> nat \<Rightarrow> string" where
  "authorityKey env owner qtype = owner @ ''|'' @ dn_TypeToString env qtype"

definition is_rrsig :: "rr \<Rightarrow> bool" where
  "is_rrsig r = (case rr_Data r of RRSIG _ \<Rightarrow> True | _ \<Rightarrow> False)"

definition indexAuthority :: "tv_env \<Rightarrow> rr list \<Rightarrow> authority_section" where
  "indexAuthority env ns =
     (let canon = (\<lambda>r. dn_Canonical env (rr_Name r)) in
      \<lparr>au_rrs = (\<lambda>k. filter (\<lambda>r. \<not> is_rrsig r \<and> authorityKey env (canon r) (rr_Type r) = k) ns),
       au_sigs = (\<lambda>k. concat (map (\<lambda>r. case rr_Data r of
           RRSIG sig \<Rightarrow> if authorityKey env (canon r) (sg_TypeCovered sig) = k then [sig] else []
         | _ \<Rightarrow> []) ns)),
       au_owners = (\<lambda>t. if t = TypeNSEC \<or> t = TypeNSEC3 then
           map canon (filter (\<lambda>r. \<not> is_rrsig r \<and> rr_Type r = t) ns) else [])\<rparr>)"

definition denialRR :: "tv_env \<Rightarrow> authority_section \<Rightarrow> string \<Rightarrow> nat \<Rightarrow> rr option" where
  "denialRR env au owner qtype =
     (case au_rrs au (authorityKey env owner qtype) of [r] \<Rightarrow> Some r | _ \<Rightarrow> None)"

fun denial_sigs ::
    "tv_env \<Rightarrow> string \<Rightarrow> rr list \<Rightarrow> rr list \<Rightarrow> rrsig list \<Rightarrow> nat \<Rightarrow> int \<Rightarrow> validator \<Rightarrow> tv_error option \<times> int \<times> validator" where
  "denial_sigs env owner rrset zoneKeys [] tried b s = (Some Unproven, b, s)"
| "denial_sigs env owner rrset zoneKeys (sig # sigs) tried b s =
     (if sg_Labels sig \<noteq> ownerLabels env owner then denial_sigs env owner rrset zoneKeys sigs tried b s
      else if tried + 1 > maxSigsPerRRset then (Some Cap, b, s)
      else
        (case verifyWithKeys env sig rrset zoneKeys b s of
           (Some Unproven, b, s) \<Rightarrow> denial_sigs env owner rrset zoneKeys sigs (tried + 1) b s
         | r \<Rightarrow> r))"

definition verifyDenial ::
    "tv_env \<Rightarrow> authority_section \<Rightarrow> string \<Rightarrow> nat \<Rightarrow> rr list \<Rightarrow> int \<Rightarrow> validator \<Rightarrow> tv_error option \<times> int \<times> validator" where
  "verifyDenial env au owner qtype zoneKeys b s =
     (let k = authorityKey env owner qtype in
      denial_sigs env owner (au_rrs au k) zoneKeys (au_sigs au k) 0 b s)"

text \<open>
  A candidate ends the proof with success or with a bound's error, or leaves it open (\<open>None\<close>).
\<close>

type_synonym proof_state = "tv_error option option \<times> nat \<times> int \<times> validator"

definition tryCandidate ::
    "tv_env \<Rightarrow> authority_section \<Rightarrow> string \<Rightarrow> nat \<Rightarrow> rr list \<Rightarrow> nat \<Rightarrow> int \<Rightarrow> validator \<Rightarrow> proof_state" where
  "tryCandidate env au owner qtype zoneKeys cands b s =
     (if cands + 1 > maxDenialCandidates then (Some (Some Cap), cands + 1, b, s)
      else
        (case verifyDenial env au owner qtype zoneKeys b s of
           (None, b, s) \<Rightarrow> (Some None, cands + 1, b, s)
         | (Some Cap, b, s) \<Rightarrow> (Some (Some Cap), cands + 1, b, s)
         | (Some Unproven, b, s) \<Rightarrow> (None, cands + 1, b, s)))"

definition nsec_candidate :: "tv_env \<Rightarrow> authority_section \<Rightarrow> string \<Rightarrow> string \<Rightarrow> nat \<Rightarrow> string \<Rightarrow> bool" where
  "nsec_candidate env au zone name encloser owner \<longleftrightarrow>
     (case denialRR env au owner TypeNSEC of
        None \<Rightarrow> False
      | Some r \<Rightarrow>
          (case rr_Data r of
             NSEC d \<Rightarrow>
               (let nxt = dn_Canonical env (ns_NextDomain d) in
                dn_IsSubDomain env zone owner \<and> dn_IsSubDomain env zone nxt \<and>
                nsecCoversName env owner nxt name \<and>
                max (commonLabels env owner name) (commonLabels env nxt name) = encloser)
           | _ \<Rightarrow> False))"

fun nsec_proof ::
    "tv_env \<Rightarrow> authority_section \<Rightarrow> string \<Rightarrow> string \<Rightarrow> nat \<Rightarrow> rr list \<Rightarrow> string list \<Rightarrow> nat \<Rightarrow> int \<Rightarrow> validator \<Rightarrow> proof_state" where
  "nsec_proof env au zone name encloser zoneKeys [] cands b s = (None, cands, b, s)"
| "nsec_proof env au zone name encloser zoneKeys (owner # owners) cands b s =
     (if \<not> nsec_candidate env au zone name encloser owner then
        nsec_proof env au zone name encloser zoneKeys owners cands b s
      else
        (case tryCandidate env au owner TypeNSEC zoneKeys cands b s of
           (None, cands, b, s) \<Rightarrow> nsec_proof env au zone name encloser zoneKeys owners cands b s
         | r \<Rightarrow> r))"

text \<open>The hashes of the next closer name, by the parameters they were made with, newest first.\<close>

fun nsec3_proof ::
    "tv_env \<Rightarrow> authority_section \<Rightarrow> string \<Rightarrow> string \<Rightarrow> rr list \<Rightarrow> string list \<Rightarrow> (string \<times> string) list \<Rightarrow> nat \<Rightarrow> int \<Rightarrow> validator
       \<Rightarrow> proof_state" where
  "nsec3_proof env au zone nextCloser zoneKeys [] hashes cands b s = (None, cands, b, s)"
| "nsec3_proof env au zone nextCloser zoneKeys (owner # owners) hashes cands b s =
     (case map_option rr_Data (denialRR env au owner TypeNSEC3) of
        Some (NSEC3 d) \<Rightarrow>
          (let (ownerHash, ownerZone) = splitNSEC3Owner env owner;
               params = dec_nat (n3_Iterations d) @ ''/'' @ to_upper (dn_upper env) (n3_Salt d)
           in
             if ownerZone \<noteq> zone \<or> n3_Hash d \<noteq> 1 \<or> n3_Flags d > 1 then
               nsec3_proof env au zone nextCloser zoneKeys owners hashes cands b s
             else if n3_Iterations d > maxNSEC3Iterations then
               nsec3_proof env au zone nextCloser zoneKeys owners hashes cands b s
             else if map_of hashes params = None \<and> length hashes = maxNSEC3Hashes then
               (Some (Some Cap), cands, b, s)
             else
               (let h = (case map_of hashes params of
                           Some h \<Rightarrow> h
                         | None \<Rightarrow> dn_HashName env nextCloser (n3_Iterations d) (n3_Salt d));
                    hashes = (if map_of hashes params = None then (params, h) # hashes else hashes)
                in
                  if \<not> hashCovers ownerHash (to_upper (dn_upper env) (n3_NextDomain d)) h then
                    nsec3_proof env au zone nextCloser zoneKeys owners hashes cands b s
                  else if odd (n3_Flags d) then
                    nsec3_proof env au zone nextCloser zoneKeys owners hashes cands b s
                  else
                    (case tryCandidate env au owner TypeNSEC3 zoneKeys cands b s of
                       (None, cands, b, s) \<Rightarrow> nsec3_proof env au zone nextCloser zoneKeys owners hashes cands b s
                     | r \<Rightarrow> r)))
      | _ \<Rightarrow> nsec3_proof env au zone nextCloser zoneKeys owners hashes cands b s)"

definition proveNoCloserName ::
    "tv_env \<Rightarrow> authority_section \<Rightarrow> string \<Rightarrow> rrsig \<Rightarrow> rr list \<Rightarrow> int \<Rightarrow> validator \<Rightarrow> tv_error option \<times> int \<times> validator" where
  "proveNoCloserName env au name sig zoneKeys b s =
     (let zone = dn_Canonical env (sg_SignerName sig);
          nextCloser = (case wildcardExpansion env sig name of None \<Rightarrow> [] | Some n \<Rightarrow> n)
      in
        case nsec_proof env au zone name (sg_Labels sig) zoneKeys (au_owners au TypeNSEC) 0 b s of
          (Some r, cands, b, s) \<Rightarrow> (r, b, s)
        | (None, cands, b, s) \<Rightarrow>
            (case nsec3_proof env au zone nextCloser zoneKeys (au_owners au TypeNSEC3) [] cands b s of
               (Some r, cands, b, s) \<Rightarrow> (r, b, s)
             | (None, cands, b, s) \<Rightarrow> (Some Unproven, b, s)))"

subsection \<open>A set of records\<close>

definition proof_key :: "tv_env \<Rightarrow> rrsig \<Rightarrow> string" where
  "proof_key env sig = dn_Canonical env (sg_SignerName sig) @ ''|'' @ dec_nat (sg_Labels sig)"

type_synonym validated = "((tv_error + (rr list \<times> rrsig)) \<times> validator) option"

fun answer_sigs ::
    "tv_env \<Rightarrow> nat \<Rightarrow> authority_section \<Rightarrow> string \<Rightarrow> nat \<Rightarrow> rr list \<Rightarrow> rrsig list \<Rightarrow> nat \<Rightarrow> int \<Rightarrow> int \<Rightarrow>
       (string \<rightharpoonup> tv_error option) \<Rightarrow> tv_error option \<Rightarrow> tv_error option \<Rightarrow> validator \<Rightarrow> validated" where
  "answer_sigs env n au name qtype rrset [] chased b pb proofs chainErr proofErr s =
     Some (Inl (case proofErr of Some e \<Rightarrow> e | None \<Rightarrow> (case chainErr of Some e \<Rightarrow> e | None \<Rightarrow> Unproven)), s)"
| "answer_sigs env n au name qtype rrset (sig # sigs) chased b pb proofs chainErr proofErr s =
     (if \<not> signerMayCover env sig name qtype then
        answer_sigs env n au name qtype rrset sigs chased b pb proofs chainErr proofErr s
      else if chased + 1 > maxSigsPerRRset then Some (Inl Cap, s)
      else do {
        (r, s) \<leftarrow> keyForZone env n (sg_SignerName sig) s;
        (case r of
           Inl e \<Rightarrow>
             answer_sigs env n au name qtype rrset sigs (chased + 1) b pb proofs
               (if chainErr = None then Some e else chainErr) proofErr s
         | Inr zoneKeys \<Rightarrow>
             (case verifyWithKeys env sig rrset zoneKeys b s of
                (Some Cap, b, s) \<Rightarrow> Some (Inl Cap, s)
              | (Some Unproven, b, s) \<Rightarrow>
                  answer_sigs env n au name qtype rrset sigs (chased + 1) b pb proofs chainErr proofErr s
              | (None, b, s) \<Rightarrow>
                  if wildcardExpansion env sig name = None then Some (Inr (rrset, sig), s)
                  else
                    (let pk = proof_key env sig;
                         (perr, pb, s) = (case proofs pk of
                             Some perr \<Rightarrow> (perr, pb, s)
                           | None \<Rightarrow> proveNoCloserName env au name sig zoneKeys pb s);
                         proofs = proofs(pk \<mapsto> perr)
                     in
                       case perr of
                         None \<Rightarrow> Some (Inr (rrset, sig), s)
                       | Some Cap \<Rightarrow> Some (Inl Cap, s)
                       | Some Unproven \<Rightarrow>
                           answer_sigs env n au name qtype rrset sigs (chased + 1) b pb proofs chainErr
                             (if proofErr = None then Some Unproven else proofErr) s)))
      })"

definition validateAnswer ::
    "tv_env \<Rightarrow> nat \<Rightarrow> rr list \<Rightarrow> rr list \<Rightarrow> string \<Rightarrow> nat \<Rightarrow> validator \<Rightarrow> validated" where
  "validateAnswer env n answer ns name qtype s =
     (let rrset = rrsOfType env answer name qtype; sigs = rrsigsCovering env answer name qtype in
      if rrset = [] \<or> sigs = [] then Some (Inl Unproven, s)
      else
        answer_sigs env n (indexAuthority env ns) name qtype rrset sigs 0 maxVerifiesPerRRset maxVerifiesPerRRset
          Map.empty None None s)"

definition ValidateRRSetSigned :: "tv_env \<Rightarrow> nat \<Rightarrow> string \<Rightarrow> nat \<Rightarrow> validator \<Rightarrow> validated" where
  "ValidateRRSetSigned env n name qtype s =
     (let name = dn_Canonical env name; (m, s) = query env name qtype s in
      case m of
        None \<Rightarrow> Some (Inl Unproven, s)
      | Some msg \<Rightarrow>
          if ms_Rcode msg \<noteq> RcodeSuccess then Some (Inl Unproven, s)
          else validateAnswer env n (ms_Answer msg) (ms_Ns msg) name qtype s)"

definition ValidateRRSet ::
    "tv_env \<Rightarrow> nat \<Rightarrow> string \<Rightarrow> nat \<Rightarrow> validator \<Rightarrow> ((tv_error + rr list) \<times> validator) option" where
  "ValidateRRSet env n name qtype s =
     map_option (\<lambda>(r, s). (map_sum id fst r, s)) (ValidateRRSetSigned env n name qtype s)"

text \<open>\<open>IANARootAnchors\<close>.\<close>

definition IANARootAnchors :: "ds_rdata list" where
  "IANARootAnchors =
     [\<lparr>ds_KeyTag = 20326, ds_Algorithm = 8, ds_DigestType = 2,
       ds_Digest = ''e06d44b80b8f1d39a95c0b0d7c65d08458e880409bbc683457104237c7f8ec8d''\<rparr>,
      \<lparr>ds_KeyTag = 38696, ds_Algorithm = 8, ds_DigestType = 2,
       ds_Digest = ''683d2d0acb8c9b712a1948b27f741219298d0a450d612c483af444a4c0fb2b16''\<rparr>]"

end
