(* ===== verification/TvChain.thy ===== *)
theory TvChain
  imports TvDnssec
begin

text \<open>
  What a validation of \<open>internal/trustverify\<close> rests on, whatever the resolver answers: a chain of
  signatures from the root's anchors. That it ends, and the bounds on the signatures it checks.
\<close>

subsection \<open>The chain of trust\<close>

definition signed_by :: "tv_env \<Rightarrow> rrsig \<Rightarrow> rr list \<Rightarrow> rr \<Rightarrow> bool" where
  "signed_by env sig rrset k \<longleftrightarrow> dn_Verify env sig k rrset \<and> dn_ValidityPeriod env sig"

text \<open>A key of the zone that a DS record is the digest of, and that signs all of them.\<close>

definition links :: "tv_env \<Rightarrow> string \<Rightarrow> rr list \<Rightarrow> ds_rdata \<Rightarrow> bool" where
  "links env zone keys d \<longleftrightarrow>
     (\<exists>k \<in> set keys. dn_KeyTag env k = ds_KeyTag d \<and> key_Algorithm k = ds_Algorithm d \<and>
        (\<exists>digest. dn_ToDS env k (ds_DigestType d) = Some digest \<and> equal_fold (dn_fold env) digest (ds_Digest d)) \<and>
        (\<exists>sig. sg_KeyTag sig = dn_KeyTag env k \<and> dn_Canonical env (sg_SignerName sig) = zone \<and>
           wildcardExpansion env sig zone = None \<and> signed_by env sig keys k))"

text \<open>Keys that are all of the zone, and DS records that are all about it.\<close>

definition keys_of :: "tv_env \<Rightarrow> string \<Rightarrow> rr list \<Rightarrow> bool" where
  "keys_of env zone keys \<longleftrightarrow>
     keys \<noteq> [] \<and> (\<forall>k \<in> set keys. (\<exists>d. rr_Data k = DNSKEY d) \<and> dn_Canonical env (rr_Name k) = zone)"

definition delegates :: "tv_env \<Rightarrow> string \<Rightarrow> rr list \<Rightarrow> bool" where
  "delegates env zone ds \<longleftrightarrow>
     ds \<noteq> [] \<and> (\<forall>r \<in> set ds. (\<exists>d. rr_Data r = DS d) \<and> dn_Canonical env (rr_Name r) = zone)"

inductive anchored :: "tv_env \<Rightarrow> string \<Rightarrow> rr list \<Rightarrow> bool" for env where
  root: "keys_of env ''.'' keys \<Longrightarrow> d \<in> set (tv_anchors env) \<Longrightarrow> links env ''.'' keys d \<Longrightarrow>
    anchored env ''.'' keys"
| below: "keys_of env zone keys \<Longrightarrow> zone \<noteq> ''.'' \<Longrightarrow>
    anchored env (dn_Canonical env (sg_SignerName sig)) parentKeys \<Longrightarrow> signerMayCover env sig zone TypeDS \<Longrightarrow>
    wildcardExpansion env sig zone = None \<Longrightarrow> k \<in> set parentKeys \<Longrightarrow> signed_by env sig ds k \<Longrightarrow>
    delegates env zone ds \<Longrightarrow> d \<in> set (ds_rdatas ds) \<Longrightarrow> links env zone keys d \<Longrightarrow>
    anchored env zone keys"

subsection \<open>What checking signatures costs\<close>

text \<open>Some checks were spent from a budget and counted, and nothing else happened.\<close>

definition spent :: "int \<Rightarrow> validator \<Rightarrow> int \<Rightarrow> validator \<Rightarrow> bool" where
  "spent b s b' s' \<longleftrightarrow>
     (\<exists>m. s' = s\<lparr>va_verifies := va_verifies s + m\<rparr> \<and> b' = b - int m \<and> (0 \<le> b \<longrightarrow> 0 \<le> b') \<and>
        (va_verifies s \<le> maxVerifiesPerValidator \<longrightarrow> va_verifies s' \<le> maxVerifiesPerValidator))"

lemma spent_refl [simp]: "spent b s b s"
  by (auto simp: spent_def intro!: exI [of _ 0])

lemma spent_trans [trans]: "spent b s b' s' \<Longrightarrow> spent b' s' b'' s'' \<Longrightarrow> spent b s b'' s''"
proof -
  assume "spent b s b' s'" "spent b' s' b'' s''"
  then obtain m n where "s' = s\<lparr>va_verifies := va_verifies s + m\<rparr>" "b' = b - int m" "0 \<le> b \<longrightarrow> 0 \<le> b'"
    "va_verifies s \<le> maxVerifiesPerValidator \<longrightarrow> va_verifies s' \<le> maxVerifiesPerValidator"
    "s'' = s'\<lparr>va_verifies := va_verifies s' + n\<rparr>" "b'' = b' - int n" "0 \<le> b' \<longrightarrow> 0 \<le> b''"
    "va_verifies s' \<le> maxVerifiesPerValidator \<longrightarrow> va_verifies s'' \<le> maxVerifiesPerValidator"
    unfolding spent_def by blast
  then show ?thesis unfolding spent_def by (intro exI [of _ "m + n"]) simp
qed

lemma spent_keeps:
  "spent b s b' s' \<Longrightarrow> va_keys s' = va_keys s \<and> va_failed s' = va_failed s \<and> va_asked s' = va_asked s"
  by (auto simp: spent_def)

lemma spent_count: "spent b s b' s' \<Longrightarrow> int (va_verifies s') = int (va_verifies s) + (b - b')"
  by (auto simp: spent_def)

lemma verifyWithKey_spent:
  "verifyWithKey env sig rrset k b s = (r, b', s') \<Longrightarrow> spent b s b' s' \<and> (r = None \<longrightarrow> signed_by env sig rrset k)"
  by (auto simp: verifyWithKey_def signed_by_def spent_def split: if_splits intro: exI [of _ 0] exI [of _ 1])

lemma verify_cands_spent:
  "verify_cands env sig rrset ks b s = (r, b', s') \<Longrightarrow>
     spent b s b' s' \<and> (r = None \<longrightarrow> (\<exists>k \<in> set ks. signed_by env sig rrset k))"
proof (induction ks arbitrary: b s)
  case (Cons k ks)
  obtain r1 b1 s1 where v: "verifyWithKey env sig rrset k b s = (r1, b1, s1)" by (metis prod_cases3)
  from Cons.prems Cons.IH [of b1 s1] verifyWithKey_spent [OF v] show ?case
    by (auto simp: v split: option.splits tv_error.splits intro: spent_trans)
qed auto

lemma verifyWithKeys_spent:
  "verifyWithKeys env sig rrset keys b s = (r, b', s') \<Longrightarrow>
     spent b s b' s' \<and> (r = None \<longrightarrow> (\<exists>k \<in> set keys. signed_by env sig rrset k \<and>
       dn_KeyTag env k = sg_KeyTag sig \<and> key_Algorithm k = sg_Algorithm sig))"
  using verify_cands_spent [of env sig rrset _ b s r b' s']
  by (fastforce simp: verifyWithKeys_def Let_def split: if_splits)

lemma self_sigs_spent:
  "self_sigs env zone keys k sigs b s = (r, b', s') \<Longrightarrow>
     spent b s b' s' \<and> (r = None \<longrightarrow> (\<exists>sig. sg_KeyTag sig = dn_KeyTag env k \<and>
       dn_Canonical env (sg_SignerName sig) = zone \<and> wildcardExpansion env sig zone = None \<and> signed_by env sig keys k))"
proof (induction sigs arbitrary: b s)
  case (Cons sig sigs)
  obtain r1 b1 s1 where v: "verifyWithKey env sig keys k b s = (r1, b1, s1)" by (metis prod_cases3)
  from Cons.prems Cons.IH [of b1 s1] Cons.IH [of b s] verifyWithKey_spent [OF v] show ?case
    by (auto simp: v split: option.splits tv_error.splits if_splits intro: spent_trans)
qed auto

lemma ds_keys_spent:
  "ds_keys env zone keys keySigs d ks tagged b s = (r, b', s') \<Longrightarrow> set ks \<subseteq> set keys \<Longrightarrow>
     spent b s b' s' \<and> (r = None \<longrightarrow> links env zone keys d)"
proof (induction ks arbitrary: tagged b s)
  case (Cons k ks)
  obtain r1 b1 s1 where v: "self_sigs env zone keys k keySigs b s = (r1, b1, s1)" by (metis prod_cases3)
  note IH = Cons.IH [of "tagged + 1" b1 s1] Cons.IH [of "tagged + 1" b s] Cons.IH [of tagged b s]
  have k: "k \<in> set keys" "set ks \<subseteq> set keys" using Cons.prems(2) by auto
  show ?case
  proof (cases "dn_KeyTag env k \<noteq> ds_KeyTag d \<or> key_Algorithm k \<noteq> ds_Algorithm d \<or> tagged + 1 > maxKeysPerTag")
    case True
    with Cons.prems IH k(2) show ?thesis by (auto split: if_splits)
  next
    case False
    note F = False
    show ?thesis
    proof (cases "dn_ToDS env k (ds_DigestType d)")
      case None
      with F Cons.prems IH k(2) show ?thesis by simp
    next
      case (Some digest)
      show ?thesis
      proof (cases "equal_fold (dn_fold env) digest (ds_Digest d)")
        case False
        with F Some Cons.prems IH k(2) show ?thesis by simp
      next
        case True
        from F Some True have eq: "ds_keys env zone keys keySigs d (k # ks) tagged b s =
            (case (r1, b1, s1) of
               (Some Unproven, b, s) \<Rightarrow> ds_keys env zone keys keySigs d ks (tagged + 1) b s
             | r \<Rightarrow> r)" by (simp add: v)
        note sp = self_sigs_spent [OF v]
        consider "r1 = None" | "r1 = Some Cap" | "r1 = Some Unproven" by (cases r1) (auto intro: tv_error.exhaust)
        then show ?thesis
        proof cases
          case 1
          with sp have "links env zone keys d" unfolding links_def using F Some True k(1) by blast
          with 1 sp Cons.prems(1) show ?thesis unfolding eq by simp
        next
          case 2
          with sp Cons.prems(1) show ?thesis unfolding eq by auto
        next
          case 3
          with sp Cons.prems(1) IH(1) k(2) show ?thesis unfolding eq by (auto intro: spent_trans)
        qed
      qed
    qed
  qed
qed auto

lemma anchored_key_spent:
  fixes b :: int
  shows "anchored_key env zone keys keySigs ds b s = (r, s') \<Longrightarrow>
     (\<exists>b'. spent b s b' s') \<and> (\<forall>ks. r = Inr ks \<longrightarrow> ks = keys \<and> (\<exists>d \<in> set ds. links env zone keys d))"
proof (induction ds arbitrary: b s)
  case (Cons d ds)
  obtain r1 b1 s1 where v: "ds_keys env zone keys keySigs d keys 0 b s = (r1, b1, s1)" by (metis prod_cases3)
  from ds_keys_spent [OF v] have sp: "spent b s b1 s1" "r1 = None \<longrightarrow> links env zone keys d" by simp_all
  consider "r1 = None" | "r1 = Some Cap" | "r1 = Some Unproven" by (cases r1) (auto intro: tv_error.exhaust)
  then show ?case
  proof cases
    case 3
    with Cons.prems have "anchored_key env zone keys keySigs ds b1 s1 = (r, s')" by (simp add: v)
    from Cons.IH [OF this] sp(1) show ?thesis by (auto intro: spent_trans)
  qed (use Cons.prems sp in \<open>auto simp: v\<close>)
qed (auto intro: spent_refl)

subsection \<open>Zones\<close>

text \<open>What the validator remembers of keys it has proven is proven.\<close>

definition memo_ok :: "tv_env \<Rightarrow> validator \<Rightarrow> bool" where
  "memo_ok env s \<longleftrightarrow> (\<forall>z ks. va_keys s z = Some ks \<longrightarrow> anchored env z ks)"

definition sound_keys :: "tv_env \<Rightarrow> zone_keys \<Rightarrow> bool" where
  "sound_keys env kz \<longleftrightarrow>
     (\<forall>z s r s'. kz z s = Some (r, s') \<and> memo_ok env s \<longrightarrow>
        memo_ok env s' \<and> (\<forall>ks. r = Inr ks \<longrightarrow> anchored env (dn_Canonical env z) ks))"

lemma memo_spent: "spent b s b' s' \<Longrightarrow> memo_ok env s \<Longrightarrow> memo_ok env s'"
  by (auto simp: memo_ok_def dest: spent_keeps)

text \<open>A signature over the DS records of a zone under the keys of a zone above it.\<close>

definition delegated :: "tv_env \<Rightarrow> string \<Rightarrow> rr list \<Rightarrow> bool" where
  "delegated env zone ds \<longleftrightarrow>
     (\<exists>sig parentKeys. \<exists>k \<in> set parentKeys. anchored env (dn_Canonical env (sg_SignerName sig)) parentKeys \<and>
        signerMayCover env sig zone TypeDS \<and> wildcardExpansion env sig zone = None \<and> signed_by env sig ds k)"

lemma ds_sigs_sound:
  assumes "sound_keys env kz"
  shows "ds_sigs env kz zone ds sigs chased b chainErr s = Some (r, s') \<Longrightarrow> memo_ok env s \<Longrightarrow>
     memo_ok env s' \<and> (\<forall>x. r = Inr x \<longrightarrow> x = ds \<and> delegated env zone ds)"
proof (induction sigs arbitrary: chased b chainErr s)
  case (Cons sig sigs)
  show ?case
  proof (cases "\<not> signerMayCover env sig zone TypeDS \<or> wildcardExpansion env sig zone \<noteq> None \<or> chased + 1 > maxSigsPerRRset")
    case True
    with Cons show ?thesis by (auto split: if_splits)
  next
    case False
    with Cons.prems(1) obtain r1 s1 where k: "kz (sg_SignerName sig) s = Some (r1, s1)"
      by (cases "kz (sg_SignerName sig) s") auto
    with assms Cons.prems(2) have m1: "memo_ok env s1"
      and a1: "\<And>ks. r1 = Inr ks \<Longrightarrow> anchored env (dn_Canonical env (sg_SignerName sig)) ks"
      unfolding sound_keys_def by blast+
    show ?thesis
    proof (cases r1)
      case (Inl e)
      with False k Cons.prems(1) have "ds_sigs env kz zone ds sigs (chased + 1) b
          (if chainErr = None then Some e else chainErr) s1 = Some (r, s')" by simp
      from Cons.IH [OF this m1] show ?thesis .
    next
      case (Inr parentKeys)
      obtain e b2 s2 where v: "verifyWithKeys env sig ds parentKeys b s1 = (e, b2, s2)" by (metis prod_cases3)
      note sp = verifyWithKeys_spent [OF v]
      have m2: "memo_ok env s2" using memo_spent sp m1 by blast
      have eq: "ds_sigs env kz zone ds (sig # sigs) chased b chainErr s =
          (case e of None \<Rightarrow> Some (Inr ds, s2) | Some Cap \<Rightarrow> Some (Inl Cap, s2)
           | Some Unproven \<Rightarrow> ds_sigs env kz zone ds sigs (chased + 1) b2 chainErr s2)"
        using False k Inr v by (simp split: option.split tv_error.split)
      note P = Cons.prems(1) [unfolded eq]
      consider "e = None" | "e = Some Cap" | "e = Some Unproven" by (cases e) (auto intro: tv_error.exhaust)
      then show ?thesis
      proof cases
        case 1
        with sp obtain k where "k \<in> set parentKeys" "signed_by env sig ds k" by blast
        with a1 [OF Inr] False have "delegated env zone ds"
          unfolding delegated_def by (intro exI [of _ sig] exI [of _ parentKeys] bexI [of _ k]) simp_all
        with 1 P m2 show ?thesis by auto
      next
        case 3
        with P have "ds_sigs env kz zone ds sigs (chased + 1) b2 chainErr s2 = Some (r, s')" by simp
        from Cons.IH [OF this m2] show ?thesis .
      qed (use P m2 in auto)
    qed
  qed
qed auto

lemma delegates_dsOf: "dsOf env rrs zone \<noteq> [] \<Longrightarrow> delegates env zone (dsOf env rrs zone)"
  by (auto simp: delegates_def dsOf_def split: rr_data.splits)

lemma keys_of_dnskeysOf: "dnskeysOf env rrs zone \<noteq> [] \<Longrightarrow> keys_of env zone (dnskeysOf env rrs zone)"
  by (auto simp: keys_of_def dnskeysOf_def split: rr_data.splits)

lemma query_keeps [simp]:
  "va_keys (snd (query env z t s)) = va_keys s" "va_failed (snd (query env z t s)) = va_failed s"
  "va_verifies (snd (query env z t s)) = va_verifies s" "va_asked (snd (query env z t s)) = va_asked s + 1"
  by (simp_all add: query_def)

lemma memo_query: "memo_ok env s \<Longrightarrow> memo_ok env (snd (query env z t s))"
  by (simp add: memo_ok_def)

lemma validateDS_sound:
  assumes "sound_keys env kz" and "validateDS env kz zone s = Some (r, s')" and "memo_ok env s"
  shows "memo_ok env s' \<and> (\<forall>ds. r = Inr ds \<longrightarrow> delegates env zone ds \<and> delegated env zone ds)"
proof -
  obtain m s1 where q: "query env zone TypeDS s = (m, s1)" by fastforce
  have m1: "memo_ok env s1" using memo_query [OF assms(3), of zone TypeDS] q by simp
  show ?thesis
  proof (cases m)
    case None
    with assms(2) m1 show ?thesis by (auto simp: validateDS_def q)
  next
    case (Some dm)
    let ?ds = "dsOf env (ms_Answer dm) zone" and ?sigs = "rrsigsCovering env (ms_Answer dm) zone TypeDS"
    show ?thesis
    proof (cases "ms_Rcode dm \<noteq> RcodeSuccess \<or> ?ds = [] \<or> ?sigs = []")
      case True
      with assms(2) Some m1 show ?thesis by (auto simp: validateDS_def q Let_def split: if_splits)
    next
      case False
      with assms(2) Some have "ds_sigs env kz zone ?ds ?sigs 0 maxVerifiesPerRRset None s1 = Some (r, s')"
        by (simp add: validateDS_def q)
      from ds_sigs_sound [OF assms(1) this m1] delegates_dsOf [of env "ms_Answer dm" zone] False
      show ?thesis by auto
    qed
  qed
qed

lemma proveZone_sound:
  assumes "sound_keys env kz" and "proveZone env kz zone s = Some (r, s')" and "memo_ok env s"
  shows "memo_ok env s' \<and> (\<forall>ks. r = Inr ks \<longrightarrow> anchored env zone ks)"
proof -
  obtain m s1 where q: "query env zone TypeDNSKEY s = (m, s1)" by fastforce
  have m1: "memo_ok env s1" using memo_query [OF assms(3), of zone TypeDNSKEY] q by simp
  show ?thesis
  proof (cases "\<exists>km. m = Some km \<and> ms_Rcode km = RcodeSuccess \<and> dnskeysOf env (ms_Answer km) zone \<noteq> []")
    case False
    with assms(2) m1 show ?thesis by (auto simp: proveZone_def q Let_def split: option.splits if_splits)
  next
    case True
    then obtain km where km: "m = Some km" "ms_Rcode km = RcodeSuccess" "dnskeysOf env (ms_Answer km) zone \<noteq> []" by blast
    let ?keys = "dnskeysOf env (ms_Answer km) zone" and ?sigs = "rrsigsCovering env (ms_Answer km) zone TypeDNSKEY"
    have ko: "keys_of env zone ?keys" by (rule keys_of_dnskeysOf [OF km(3)])
    show ?thesis
    proof (cases "zone = ''.''")
      case True
      with assms(2) km q have "anchored_key env zone ?keys ?sigs (tv_anchors env) maxVerifiesPerRRset s1 = (r, s')"
        by (simp add: proveZone_def)
      from anchored_key_spent [OF this] show ?thesis
        using memo_spent m1 ko True by (auto intro: anchored.root)
    next
      case False
      with assms(2) km obtain r2 s2 where v: "validateDS env kz zone s1 = Some (r2, s2)"
        by (cases "validateDS env kz zone s1") (auto simp: proveZone_def q)
      note vs = validateDS_sound [OF assms(1) v m1]
      show ?thesis
      proof (cases r2)
        case (Inl e)
        with assms(2) km False v vs show ?thesis by (auto simp: proveZone_def q)
      next
        case (Inr ds)
        with assms(2) km False v have a: "anchored_key env zone ?keys ?sigs (ds_rdatas ds) maxVerifiesPerRRset s2 = (r, s')"
          by (simp add: proveZone_def q)
        note an = anchored_key_spent [OF a]
        have "anchored env zone ks" if "r = Inr ks" for ks
        proof -
          from an that obtain d where d: "ks = ?keys" "d \<in> set (ds_rdatas ds)" "links env zone ?keys d" by blast
          from vs Inr obtain sig parentKeys k where g: "k \<in> set parentKeys"
            "anchored env (dn_Canonical env (sg_SignerName sig)) parentKeys" "signerMayCover env sig zone TypeDS"
            "wildcardExpansion env sig zone = None" "signed_by env sig ds k" "delegates env zone ds"
            unfolding delegated_def by blast
          show ?thesis unfolding d(1) by (rule anchored.below [OF ko False g(2-4,1,5,6) d(2,3)])
        qed
        with an vs memo_spent show ?thesis by blast
      qed
    qed
  qed
qed

lemma keyForZone_sound: "sound_keys env (keyForZone env n)"
proof (induction n)
  case (Suc n)
  show ?case unfolding sound_keys_def
  proof (intro allI impI, elim conjE)
    fix z s r s' assume k: "keyForZone env (Suc n) z s = Some (r, s')" and m: "memo_ok env s"
    let ?z = "dn_Canonical env z"
    show "memo_ok env s' \<and> (\<forall>ks. r = Inr ks \<longrightarrow> anchored env ?z ks)"
    proof (cases "va_keys s ?z = None \<and> va_failed s ?z = None")
      case False
      with k m show ?thesis by (auto simp: memo_ok_def Let_def split: option.splits)
    next
      case True
      with k obtain r1 s1 where p: "proveZone env (keyForZone env n) ?z s = Some (r1, s1)"
        by (cases "proveZone env (keyForZone env n) ?z s") (auto simp: Let_def)
      note ps = proveZone_sound [OF Suc p m]
      show ?thesis
      proof (cases r1)
        case (Inl e)
        with k True p ps show ?thesis by (auto simp: memo_ok_def split: if_splits)
      next
        case (Inr keys)
        with k True p have "r = Inr keys" "s' = s1\<lparr>va_keys := (va_keys s1)(?z \<mapsto> keys)\<rparr>" by auto
        with ps Inr show ?thesis by (auto simp: memo_ok_def)
      qed
    qed
  qed
qed (simp add: sound_keys_def)

end
