(* ===== verification/TvAnswer.thy ===== *)
theory TvAnswer
  imports TvChain
begin

text \<open>
  What a validated answer of \<open>internal/trustverify\<close> is: signed by a key of a zone that is anchored,
  for that name, and published for it or expanded from a wildcard beside a signed denial.
\<close>

subsection \<open>The denial of a closer name\<close>

text \<open>The parameters under which a hash of the next closer name is kept.\<close>

definition hash_params :: "tv_env \<Rightarrow> nat \<Rightarrow> string \<Rightarrow> string" where
  "hash_params env iters salt = dec_nat iters @ ''/'' @ to_upper (dn_upper env) salt"

text \<open>A record that covers the hash of the next closer name, not opting out.\<close>

definition nsec3_covers :: "tv_env \<Rightarrow> string \<Rightarrow> string \<Rightarrow> string \<Rightarrow> rr \<Rightarrow> bool" where
  "nsec3_covers env zone nextCloser owner r \<longleftrightarrow>
     (\<exists>d ownerHash iters salt. rr_Data r = NSEC3 d \<and> splitNSEC3Owner env owner = (ownerHash, zone) \<and>
        n3_Hash d = 1 \<and> n3_Flags d = 0 \<and> n3_Iterations d \<le> maxNSEC3Iterations \<and>
        hash_params env iters salt = hash_params env (n3_Iterations d) (n3_Salt d) \<and>
        hashCovers ownerHash (to_upper (dn_upper env) (n3_NextDomain d)) (dn_HashName env nextCloser iters salt))"

text \<open>A record of the authority section signed by the zone itself, alone of its kind at its owner.\<close>

definition denial_signed :: "tv_env \<Rightarrow> authority_section \<Rightarrow> rr list \<Rightarrow> string \<Rightarrow> nat \<Rightarrow> rr \<Rightarrow> bool" where
  "denial_signed env au keys owner t r \<longleftrightarrow>
     denialRR env au owner t = Some r \<and>
     (\<exists>sig. \<exists>k \<in> set keys. sg_Labels sig = ownerLabels env owner \<and> signed_by env sig [r] k)"

definition no_closer :: "tv_env \<Rightarrow> authority_section \<Rightarrow> rr list \<Rightarrow> string \<Rightarrow> rrsig \<Rightarrow> bool" where
  "no_closer env au keys name sig \<longleftrightarrow>
     (let zone = dn_Canonical env (sg_SignerName sig);
          nextCloser = (case wildcardExpansion env sig name of None \<Rightarrow> [] | Some n \<Rightarrow> n)
      in
        (\<exists>owner r. denial_signed env au keys owner TypeNSEC r \<and>
           nsec_candidate env au zone name (sg_Labels sig) owner) \<or>
        (\<exists>owner r. denial_signed env au keys owner TypeNSEC3 r \<and> nsec3_covers env zone nextCloser owner r))"

lemma denial_sigs_sound:
  "denial_sigs env owner rrset keys sigs tried b s = (v, b', s') \<Longrightarrow>
     spent b s b' s' \<and> (v = None \<longrightarrow> (\<exists>sig. \<exists>k \<in> set keys. sg_Labels sig = ownerLabels env owner \<and> signed_by env sig rrset k))"
proof (induction sigs arbitrary: tried b s)
  case (Cons sig sigs)
  obtain r1 b1 s1 where w: "verifyWithKeys env sig rrset keys b s = (r1, b1, s1)" by (metis prod_cases3)
  note sp = verifyWithKeys_spent [OF w]
  show ?case
  proof (cases "sg_Labels sig \<noteq> ownerLabels env owner \<or> tried + 1 > maxSigsPerRRset")
    case True
    with Cons show ?thesis by (auto split: if_splits)
  next
    case False
    note F = False
    consider "r1 = None" | "r1 = Some Cap" | "r1 = Some Unproven" by (cases r1) (auto intro: tv_error.exhaust)
    then show ?thesis
    proof cases
      case 1
      with F Cons.prems w sp show ?thesis by auto
    next
      case 2
      with F Cons.prems w sp show ?thesis by auto
    next
      case 3
      with F Cons.prems w have "denial_sigs env owner rrset keys sigs (tried + 1) b1 s1 = (v, b', s')" by simp
      from Cons.IH [OF this] sp show ?thesis by (auto intro: spent_trans)
    qed
  qed
qed auto

lemma tryCandidate_sound:
  assumes "tryCandidate env au owner t keys cands b s = (v, c', b', s')"
  shows "spent b s b' s'" and "v = Some None \<Longrightarrow> denialRR env au owner t = Some r \<Longrightarrow> denial_signed env au keys owner t r"
proof -
  obtain r1 b1 s1 where w: "verifyDenial env au owner t keys b s = (r1, b1, s1)" by (metis prod_cases3)
  note ds = denial_sigs_sound [OF w [unfolded verifyDenial_def Let_def]]
  show "spent b s b' s'"
    using assms ds by (auto simp: tryCandidate_def w split: if_splits option.splits tv_error.splits)
  assume v: "v = Some None" and d: "denialRR env au owner t = Some r"
  from d have one: "au_rrs au (authorityKey env owner t) = [r]"
    by (auto simp: denialRR_def split: list.splits)
  from assms v have "r1 = None"
    by (auto simp: tryCandidate_def w split: if_splits option.splits tv_error.splits)
  with ds d show "denial_signed env au keys owner t r" unfolding denial_signed_def one by blast
qed

lemma nsec_candidate_record: "nsec_candidate env au zone name l owner \<Longrightarrow> \<exists>r. denialRR env au owner TypeNSEC = Some r"
  by (auto simp: nsec_candidate_def split: option.splits)

lemma nsec_proof_sound:
  "nsec_proof env au zone name l keys owners cands b s = (v, c', b', s') \<Longrightarrow>
     spent b s b' s' \<and> (v = Some None \<longrightarrow> (\<exists>owner r. denial_signed env au keys owner TypeNSEC r \<and>
       nsec_candidate env au zone name l owner))"
proof (induction owners arbitrary: cands b s)
  case (Cons owner owners)
  obtain v1 c1 b1 s1 where w: "tryCandidate env au owner TypeNSEC keys cands b s = (v1, c1, b1, s1)" by (metis prod_cases4)
  show ?case
  proof (cases "nsec_candidate env au zone name l owner")
    case False
    with Cons.prems have "nsec_proof env au zone name l keys owners cands b s = (v, c', b', s')" by simp
    from Cons.IH [OF this] show ?thesis .
  next
    case True
    then obtain r where r: "denialRR env au owner TypeNSEC = Some r" using nsec_candidate_record by blast
    show ?thesis
    proof (cases v1)
      case None
      with True w Cons.prems have "nsec_proof env au zone name l keys owners c1 b1 s1 = (v, c', b', s')" by simp
      from Cons.IH [OF this] tryCandidate_sound(1) [OF w] show ?thesis by (auto intro: spent_trans)
    next
      case (Some x)
      with True w Cons.prems tryCandidate_sound(1) [OF w] tryCandidate_sound(2) [OF w _ r] show ?thesis by auto
    qed
  qed
qed auto

definition hashes_ok :: "tv_env \<Rightarrow> string \<Rightarrow> (string \<times> string) list \<Rightarrow> bool" where
  "hashes_ok env nextCloser hashes \<longleftrightarrow>
     (\<forall>p h. map_of hashes p = Some h \<longrightarrow> (\<exists>iters salt. p = hash_params env iters salt \<and> h = dn_HashName env nextCloser iters salt))"

lemma nsec3_proof_sound:
  "nsec3_proof env au zone nc keys owners hashes cands b s = (v, c', b', s') \<Longrightarrow> hashes_ok env nc hashes \<Longrightarrow>
     spent b s b' s' \<and> (v = Some None \<longrightarrow> (\<exists>owner r. denial_signed env au keys owner TypeNSEC3 r \<and>
       nsec3_covers env zone nc owner r))"
proof (induction owners arbitrary: hashes cands b s)
  case (Cons owner owners)
  show ?case
  proof (cases "\<exists>r d. denialRR env au owner TypeNSEC3 = Some r \<and> rr_Data r = NSEC3 d")
    case False
    then have "nsec3_proof env au zone nc keys (owner # owners) hashes cands b s =
        nsec3_proof env au zone nc keys owners hashes cands b s"
      by (cases "denialRR env au owner TypeNSEC3") (auto split: rr_data.splits)
    with Cons.prems(1) have "nsec3_proof env au zone nc keys owners hashes cands b s = (v, c', b', s')" by simp
    from Cons.IH [OF this Cons.prems(2)] show ?thesis .
  next
    case True
    then obtain r d where r: "denialRR env au owner TypeNSEC3 = Some r" "rr_Data r = NSEC3 d" by blast
    obtain oh oz where o': "splitNSEC3Owner env owner = (oh, oz)" by fastforce
    define p where "p = hash_params env (n3_Iterations d) (n3_Salt d)"
    define h where "h = (case map_of hashes p of Some h \<Rightarrow> h | None \<Rightarrow> dn_HashName env nc (n3_Iterations d) (n3_Salt d))"
    define hs where "hs = (if map_of hashes p = None then (p, h) # hashes else hashes)"
    obtain v1 c1 b1 s1 where w: "tryCandidate env au owner TypeNSEC3 keys cands b s = (v1, c1, b1, s1)" by (metis prod_cases4)
    have eq: "nsec3_proof env au zone nc keys (owner # owners) hashes cands b s =
        (if oz \<noteq> zone \<or> n3_Hash d \<noteq> 1 \<or> n3_Flags d > 1 \<or> n3_Iterations d > maxNSEC3Iterations then
           nsec3_proof env au zone nc keys owners hashes cands b s
         else if map_of hashes p = None \<and> length hashes = maxNSEC3Hashes then (Some (Some Cap), cands, b, s)
         else if \<not> hashCovers oh (to_upper (dn_upper env) (n3_NextDomain d)) h \<or> odd (n3_Flags d) then
           nsec3_proof env au zone nc keys owners hs cands b s
         else (case v1 of None \<Rightarrow> nsec3_proof env au zone nc keys owners hs c1 b1 s1 | Some x \<Rightarrow> (Some x, c1, b1, s1)))"
      unfolding nsec3_proof.simps
      by (simp add: r o' w Let_def p_def h_def hs_def hash_params_def split: option.split)
    have hp: "\<exists>iters salt. p = hash_params env iters salt \<and> h = dn_HashName env nc iters salt"
      using Cons.prems(2) unfolding h_def hashes_ok_def by (cases "map_of hashes p") (auto simp: p_def)
    then have ok: "hashes_ok env nc hs" using Cons.prems(2) by (auto simp: hashes_ok_def hs_def)
    note P = Cons.prems(1) [unfolded eq]
    show ?thesis
    proof (cases "oz \<noteq> zone \<or> n3_Hash d \<noteq> 1 \<or> n3_Flags d > 1 \<or> n3_Iterations d > maxNSEC3Iterations")
      case True
      with P have "nsec3_proof env au zone nc keys owners hashes cands b s = (v, c', b', s')" by auto
      from Cons.IH [OF this Cons.prems(2)] show ?thesis .
    next
      case False
      note F = False
      show ?thesis
      proof (cases "map_of hashes p = None \<and> length hashes = maxNSEC3Hashes")
        case True
        with P show ?thesis unfolding if_not_P [OF F] by auto
      next
        case False
        note G = False
        show ?thesis
        proof (cases "\<not> hashCovers oh (to_upper (dn_upper env) (n3_NextDomain d)) h \<or> odd (n3_Flags d)")
          case True
          have "nsec3_proof env au zone nc keys owners hs cands b s = (v, c', b', s')"
            using P unfolding if_not_P [OF F] if_not_P [OF G] if_P [OF True] .
          from Cons.IH [OF this ok] show ?thesis .
        next
          case False
          then have flags: "n3_Flags d = 0" using F by (cases "n3_Flags d") auto
          have covers: "nsec3_covers env zone nc owner r"
            unfolding nsec3_covers_def using r(2) o' F False flags hp unfolding p_def by fastforce
          show ?thesis
          proof (cases v1)
            case None
            with P have "nsec3_proof env au zone nc keys owners hs c1 b1 s1 = (v, c', b', s')"
              unfolding if_not_P [OF F] if_not_P [OF G] if_not_P [OF False] by simp
            from Cons.IH [OF this ok] tryCandidate_sound(1) [OF w] show ?thesis by (auto intro: spent_trans)
          next
            case (Some x)
            with P have "v = Some x" "b' = b1" "s' = s1"
              unfolding if_not_P [OF F] if_not_P [OF G] if_not_P [OF False] by simp_all
            with tryCandidate_sound(1) [OF w] tryCandidate_sound(2) [OF w _ r(1)] Some covers show ?thesis by auto
          qed
        qed
      qed
    qed
  qed
qed auto

lemma proveNoCloserName_sound:
  assumes "proveNoCloserName env au name sig keys b s = (v, b', s')"
  shows "spent b s b' s' \<and> (v = None \<longrightarrow> no_closer env au keys name sig)"
proof -
  let ?zone = "dn_Canonical env (sg_SignerName sig)"
  let ?nc = "case wildcardExpansion env sig name of None \<Rightarrow> [] | Some n \<Rightarrow> n"
  obtain v1 c1 b1 s1 where w: "nsec_proof env au ?zone name (sg_Labels sig) keys (au_owners au TypeNSEC) 0 b s = (v1, c1, b1, s1)"
    by (metis prod_cases4)
  obtain v2 c2 b2 s2 where w2: "nsec3_proof env au ?zone ?nc keys (au_owners au TypeNSEC3) [] c1 b1 s1 = (v2, c2, b2, s2)"
    by (metis prod_cases4)
  have "hashes_ok env ?nc []" by (simp add: hashes_ok_def)
  note n3 = nsec3_proof_sound [OF w2 this]
  note n1 = nsec_proof_sound [OF w]
  show ?thesis
  proof (cases v1)
    case (Some x)
    with assms w have "v = x" "b' = b1" "s' = s1" by (simp_all add: proveNoCloserName_def Let_def)
    with n1 Some show ?thesis unfolding no_closer_def Let_def by blast
  next
    case None
    note N = None
    show ?thesis
    proof (cases v2)
      case None
      with N assms w w2 have "v = Some Unproven" "b' = b2" "s' = s2" by (simp_all add: proveNoCloserName_def Let_def)
      with n1 n3 show ?thesis by (auto intro: spent_trans)
    next
      case (Some x)
      with N assms w w2 have "v = x" "b' = b2" "s' = s2" by (simp_all add: proveNoCloserName_def Let_def)
      with n1 n3 Some show ?thesis unfolding no_closer_def Let_def by (blast intro: spent_trans)
    qed
  qed
qed

subsection \<open>Validated answers\<close>

text \<open>Records for a name that some anchored zone at or above it signed, for it or as a wildcard.\<close>

definition authentic :: "tv_env \<Rightarrow> string \<Rightarrow> nat \<Rightarrow> rr list \<Rightarrow> rrsig \<Rightarrow> bool" where
  "authentic env name qtype rrs sig \<longleftrightarrow>
     rrs \<noteq> [] \<and> (\<forall>r \<in> set rrs. rr_Type r = qtype \<and> dn_Canonical env (rr_Name r) = name) \<and>
     (let signer = dn_Canonical env (sg_SignerName sig) in
      dn_IsSubDomain env signer name \<and> (qtype = TypeDS \<longrightarrow> signer \<noteq> dn_Canonical env name) \<and>
      dn_CountLabel env signer \<le> sg_Labels sig \<and> sg_Labels sig \<le> ownerLabels env name) \<and>
     (\<exists>keys. \<exists>k \<in> set keys. anchored env (dn_Canonical env (sg_SignerName sig)) keys \<and> signed_by env sig rrs k \<and>
        (wildcardExpansion env sig name = None \<or> (\<exists>ns. no_closer env (indexAuthority env ns) keys name sig)))"

lemma authentic_iff:
  "authentic env name qtype rrs sig \<longleftrightarrow>
     rrs \<noteq> [] \<and> (\<forall>r \<in> set rrs. rr_Type r = qtype \<and> dn_Canonical env (rr_Name r) = name) \<and>
     signerMayCover env sig name qtype \<and>
     (\<exists>keys. \<exists>k \<in> set keys. anchored env (dn_Canonical env (sg_SignerName sig)) keys \<and> signed_by env sig rrs k \<and>
        (wildcardExpansion env sig name = None \<or> (\<exists>ns. no_closer env (indexAuthority env ns) keys name sig)))"
  by (auto simp: authentic_def signerMayCover_def Let_def)

lemma answer_sigs_sound:
  assumes "rrset \<noteq> []" and "\<forall>r \<in> set rrset. rr_Type r = qtype \<and> dn_Canonical env (rr_Name r) = name"
  shows "answer_sigs env n (indexAuthority env ns) name qtype rrset sigs chased b pb proofs chainErr proofErr s = Some (r, s') \<Longrightarrow>
     memo_ok env s \<Longrightarrow> (\<forall>pk. proofs pk \<noteq> Some None) \<Longrightarrow>
     memo_ok env s' \<and> (\<forall>rrs sig. r = Inr (rrs, sig) \<longrightarrow> authentic env name qtype rrs sig)"
proof (induction sigs arbitrary: chased b pb proofs chainErr proofErr s)
  case (Cons sig sigs)
  let ?au = "indexAuthority env ns"
  show ?case
  proof (cases "\<not> signerMayCover env sig name qtype \<or> chased + 1 > maxSigsPerRRset")
    case True
    with Cons.prems Cons.IH [of chased b pb proofs chainErr proofErr s] show ?thesis by (auto split: if_splits)
  next
    case False
    with Cons.prems(1) obtain r1 s1 where k: "keyForZone env n (sg_SignerName sig) s = Some (r1, s1)"
      by (cases "keyForZone env n (sg_SignerName sig) s") auto
    with keyForZone_sound [of env n] Cons.prems(2) have m1: "memo_ok env s1"
      and a1: "\<And>ks. r1 = Inr ks \<Longrightarrow> anchored env (dn_Canonical env (sg_SignerName sig)) ks"
      unfolding sound_keys_def by blast+
    show ?thesis
    proof (cases r1)
      case (Inl e)
      with False k Cons.prems(1) have "answer_sigs env n ?au name qtype rrset sigs (chased + 1) b pb proofs
          (if chainErr = None then Some e else chainErr) proofErr s1 = Some (r, s')" by simp
      from Cons.IH [OF this m1 Cons.prems(3)] show ?thesis .
    next
      case (Inr keys)
      obtain e b2 s2 where v: "verifyWithKeys env sig rrset keys b s1 = (e, b2, s2)" by (metis prod_cases3)
      note sp = verifyWithKeys_spent [OF v]
      have m2: "memo_ok env s2" using memo_spent sp m1 by blast
      define pk where "pk = proof_key env sig"
      obtain perr pb3 s3 where pr: "(case proofs pk of Some perr \<Rightarrow> (perr, pb, s2)
          | None \<Rightarrow> proveNoCloserName env ?au name sig keys pb s2) = (perr, pb3, s3)" by (metis prod_cases3)
      have p3: "memo_ok env s3 \<and> (perr = None \<longrightarrow> no_closer env ?au keys name sig)"
      proof (cases "proofs pk")
        case None
        with pr proveNoCloserName_sound [of env ?au name sig keys pb s2 perr pb3 s3] m2 memo_spent show ?thesis by auto
      next
        case (Some x)
        with pr Cons.prems(3) m2 show ?thesis by auto
      qed
      have eq: "answer_sigs env n ?au name qtype rrset (sig # sigs) chased b pb proofs chainErr proofErr s =
          (case e of Some Cap \<Rightarrow> Some (Inl Cap, s2)
           | Some Unproven \<Rightarrow> answer_sigs env n ?au name qtype rrset sigs (chased + 1) b2 pb proofs chainErr proofErr s2
           | None \<Rightarrow>
               if wildcardExpansion env sig name = None then Some (Inr (rrset, sig), s2)
               else
                 (case perr of
                    None \<Rightarrow> Some (Inr (rrset, sig), s3)
                  | Some Cap \<Rightarrow> Some (Inl Cap, s3)
                  | Some Unproven \<Rightarrow>
                      answer_sigs env n ?au name qtype rrset sigs (chased + 1) b2 pb3 (proofs(pk \<mapsto> perr)) chainErr
                        (if proofErr = None then Some Unproven else proofErr) s3))"
      proof -
        have c: "chased + 1 > maxSigsPerRRset \<longleftrightarrow> False" "(\<not> signerMayCover env sig name qtype) = False"
          using False by simp_all
        show ?thesis
          unfolding answer_sigs.simps c if_False k bind.bind_lunit prod.case Inr sum.case v pk_def [symmetric] Let_def pr
          by (simp split: option.split tv_error.split)
      qed
      note P = Cons.prems(1) [unfolded eq]
      have auth: "authentic env name qtype rrset sig"
        if "e = None" "wildcardExpansion env sig name = None \<or> no_closer env ?au keys name sig"
      proof -
        from sp that(1) obtain k where "k \<in> set keys" "signed_by env sig rrset k" by blast
        with a1 [OF Inr] that(2) False assms show ?thesis
          unfolding authentic_iff by (intro conjI exI [of _ keys] bexI [of _ k]) auto
      qed
      consider "e = None" | "e = Some Cap" | "e = Some Unproven" by (cases e) (auto intro: tv_error.exhaust)
      then show ?thesis
      proof cases
        case 1
        show ?thesis
        proof (cases "wildcardExpansion env sig name = None")
          case True
          with 1 P m2 auth show ?thesis by auto
        next
          case False
          note W = False
          consider "perr = None" | "perr = Some Cap" | "perr = Some Unproven" by (cases perr) (auto intro: tv_error.exhaust)
          then show ?thesis
          proof cases
            case 1
            with \<open>e = None\<close> W P p3 auth show ?thesis by auto
          next
            case 2
            with \<open>e = None\<close> W P p3 show ?thesis by auto
          next
            case 3
            have "answer_sigs env n ?au name qtype rrset sigs (chased + 1) b2 pb3 (proofs(pk \<mapsto> perr))
                chainErr (if proofErr = None then Some Unproven else proofErr) s3 = Some (r, s')"
              using P unfolding \<open>e = None\<close> option.case if_not_P [OF W] 3 tv_error.case .
            from Cons.IH [OF this] p3 Cons.prems(3) 3 show ?thesis by auto
          qed
        qed
      next
        case 3
        with P have "answer_sigs env n ?au name qtype rrset sigs (chased + 1) b2 pb proofs chainErr proofErr s2 = Some (r, s')"
          by simp
        from Cons.IH [OF this m2 Cons.prems(3)] show ?thesis .
      qed (use P m2 in auto)
    qed
  qed
qed auto

lemma ValidateRRSetSigned_sound:
  assumes "ValidateRRSetSigned env n name qtype s = Some (r, s')" and "memo_ok env s"
  shows "memo_ok env s' \<and> (\<forall>rrs sig. r = Inr (rrs, sig) \<longrightarrow> authentic env (dn_Canonical env name) qtype rrs sig)"
proof -
  let ?name = "dn_Canonical env name"
  obtain m s1 where q: "query env ?name qtype s = (m, s1)" by fastforce
  have m1: "memo_ok env s1" using memo_query [OF assms(2), of ?name qtype] q by simp
  show ?thesis
  proof (cases "\<exists>msg. m = Some msg \<and> ms_Rcode msg = RcodeSuccess \<and> rrsOfType env (ms_Answer msg) ?name qtype \<noteq> [] \<and>
      rrsigsCovering env (ms_Answer msg) ?name qtype \<noteq> []")
    case False
    with assms(1) m1 show ?thesis
      by (auto simp: ValidateRRSetSigned_def validateAnswer_def q Let_def split: option.splits if_splits)
  next
    case True
    then obtain msg where msg: "m = Some msg" "ms_Rcode msg = RcodeSuccess"
      "rrsOfType env (ms_Answer msg) ?name qtype \<noteq> []" "rrsigsCovering env (ms_Answer msg) ?name qtype \<noteq> []" by blast
    with assms(1) have "answer_sigs env n (indexAuthority env (ms_Ns msg)) ?name qtype (rrsOfType env (ms_Answer msg) ?name qtype)
        (rrsigsCovering env (ms_Answer msg) ?name qtype) 0 maxVerifiesPerRRset maxVerifiesPerRRset Map.empty None None s1 = Some (r, s')"
      by (simp add: ValidateRRSetSigned_def validateAnswer_def q Let_def)
    from answer_sigs_sound [OF msg(3) _ this m1] show ?thesis by (auto simp: rrsOfType_def)
  qed
qed

text \<open>What a validation returns is taken from the answer as it was given.\<close>

lemma answer_sigs_from:
  "answer_sigs env n au name qtype rrset sigs chased b pb proofs chainErr proofErr s = Some (Inr (rrs, sig), s') \<Longrightarrow>
     rrs = rrset \<and> sig \<in> set sigs"
proof (induction sigs arbitrary: chased b pb proofs chainErr proofErr s)
  case (Cons x sigs)
  show ?case
  proof (cases "\<not> signerMayCover env x name qtype \<or> chased + 1 > maxSigsPerRRset")
    case True
    with Cons show ?thesis by (auto split: if_splits)
  next
    case False
    with Cons.prems obtain r1 s1 where k: "keyForZone env n (sg_SignerName x) s = Some (r1, s1)"
      by (cases "keyForZone env n (sg_SignerName x) s") auto
    have d: "chased + 1 > maxSigsPerRRset \<longleftrightarrow> False" "(\<not> signerMayCover env x name qtype) = False"
      using False by simp_all
    show ?thesis
      using Cons.prems
      unfolding answer_sigs.simps d if_False k bind.bind_lunit prod.case Let_def
      by (auto split: sum.splits prod.splits option.splits tv_error.splits if_splits
          simp del: fun_upd_apply keyForZone.simps dest: Cons.IH)
  qed
qed simp

lemma ValidateRRSetSigned_from:
  assumes "ValidateRRSetSigned env n name qtype s = Some (Inr (rrs, sig), s')"
  shows "\<exists>msg. tv_Query env (va_asked s) (dn_Canonical env name) qtype = Some msg \<and>
     rrs = rrsOfType env (ms_Answer msg) (dn_Canonical env name) qtype \<and>
     sig \<in> set (rrsigsCovering env (ms_Answer msg) (dn_Canonical env name) qtype)"
  using assms answer_sigs_from
  by (fastforce simp: ValidateRRSetSigned_def validateAnswer_def query_def Let_def split: option.splits if_splits)

text \<open>A validator as it may be after any validations.\<close>

inductive validator_at :: "tv_env \<Rightarrow> validator \<Rightarrow> bool" for env where
  new: "validator_at env NewValidator"
| used: "validator_at env s \<Longrightarrow> ValidateRRSetSigned env n name qtype s = Some (r, s') \<Longrightarrow> validator_at env s'"

lemma validator_at_memo: "validator_at env s \<Longrightarrow> memo_ok env s"
  by (induction rule: validator_at.induct)
    (auto simp: memo_ok_def NewValidator_def dest: ValidateRRSetSigned_sound [unfolded memo_ok_def])

text \<open>
  C7. Whatever the resolver answers, and however it changes its answers, a validator that has
  validated anything before returns only authentic records: all of the name and type asked for,
  under a signature within its validity by a key of a zone at or above the name, whose keys are
  linked to the anchors of the root by signed DS records of zones strictly above one another; and
  unless the signature covers the whole name, a signed denial shows that no closer name exists.
\<close>
theorem validated_is_authentic:
  assumes "validator_at env s" and "ValidateRRSetSigned env n name qtype s = Some (Inr (rrs, sig), s')"
  shows "authentic env (dn_Canonical env name) qtype rrs sig"
  using ValidateRRSetSigned_sound [OF assms(2) validator_at_memo [OF assms(1)]] by blast

end
