(* ===== verification/TvBounds.thy ===== *)
theory TvBounds
  imports TvAnswer
begin

text \<open>
  A validation of \<open>internal/trustverify\<close> ends, and the work a hostile zone or resolver can cause
  is bounded, given how the names of the DNS library behave.
\<close>

subsection \<open>Names\<close>

text \<open>
  What the DNS library documents of canonical names: making a name canonical twice changes nothing,
  the zones above a name are fewer labels and one for each number of labels, and above is transitive.
\<close>

definition name_laws :: "tv_env \<Rightarrow> bool" where
  "name_laws env \<longleftrightarrow>
     (let canon = dn_Canonical env; above = dn_IsSubDomain env; labels = dn_CountLabel env in
      (\<forall>s. canon (canon s) = canon s) \<and>
      (\<forall>p q. canon p = p \<and> canon q = q \<and> above p q \<longrightarrow> labels p \<le> labels q) \<and>
      (\<forall>p q c. canon p = p \<and> canon q = q \<and> canon c = c \<and> above p c \<and> above q c \<and> labels p = labels q \<longrightarrow> p = q) \<and>
      (\<forall>p q c. canon p = p \<and> canon q = q \<and> canon c = c \<and> above p q \<and> above q c \<longrightarrow> above p c) \<and>
      (\<forall>c. canon c = c \<longrightarrow> above c c))"

lemma name_lawsD:
  assumes "name_laws env"
  shows "dn_Canonical env (dn_Canonical env s) = dn_Canonical env s"
    and "dn_Canonical env p = p \<Longrightarrow> dn_Canonical env q = q \<Longrightarrow> dn_IsSubDomain env p q \<Longrightarrow>
      dn_CountLabel env p \<le> dn_CountLabel env q"
    and "dn_Canonical env p = p \<Longrightarrow> dn_Canonical env q = q \<Longrightarrow> dn_Canonical env c = c \<Longrightarrow> dn_IsSubDomain env p c \<Longrightarrow>
      dn_IsSubDomain env q c \<Longrightarrow> dn_CountLabel env p = dn_CountLabel env q \<Longrightarrow> p = q"
    and "dn_Canonical env p = p \<Longrightarrow> dn_Canonical env q = q \<Longrightarrow> dn_Canonical env c = c \<Longrightarrow> dn_IsSubDomain env p q \<Longrightarrow>
      dn_IsSubDomain env q c \<Longrightarrow> dn_IsSubDomain env p c"
    and "dn_Canonical env c = c \<Longrightarrow> dn_IsSubDomain env c c"
  using assms unfolding name_laws_def Let_def by blast+

lemma signer_above:
  assumes "name_laws env" and "dn_Canonical env zone = zone" and "signerMayCover env sig zone t"
  shows "dn_IsSubDomain env (dn_Canonical env (sg_SignerName sig)) zone"
    and "dn_CountLabel env (dn_Canonical env (sg_SignerName sig)) \<le> dn_CountLabel env zone"
    and "t = TypeDS \<Longrightarrow> dn_CountLabel env (dn_Canonical env (sg_SignerName sig)) < dn_CountLabel env zone"
proof -
  let ?p = "dn_Canonical env (sg_SignerName sig)"
  note L = name_lawsD [OF assms(1)]
  show a: "dn_IsSubDomain env ?p zone"
    using assms(3) by (auto simp: signerMayCover_def Let_def split: if_splits)
  show le: "dn_CountLabel env ?p \<le> dn_CountLabel env zone" by (rule L(2) [OF L(1) assms(2) a])
  assume "t = TypeDS"
  then have "?p \<noteq> zone" using assms(2,3) by (auto simp: signerMayCover_def Let_def)
  then show "dn_CountLabel env ?p < dn_CountLabel env zone"
    using L(3) [OF L(1) assms(2) assms(2) a L(5) [OF assms(2)]] le by fastforce
qed

subsection \<open>Fuel\<close>

text \<open>Keys that are known for the zones with fewer labels are enough to prove a zone.\<close>

lemma ds_sigs_returns:
  assumes "name_laws env" and "dn_Canonical env zone = zone"
    and "\<forall>z s. dn_CountLabel env (dn_Canonical env z) < dn_CountLabel env zone \<longrightarrow> kz z s \<noteq> None"
  shows "ds_sigs env kz zone ds sigs chased b chainErr s \<noteq> None"
proof (induction sigs arbitrary: chased b chainErr s)
  case (Cons sig sigs)
  show ?case
  proof (cases "\<not> signerMayCover env sig zone TypeDS \<or> wildcardExpansion env sig zone \<noteq> None \<or> chased + 1 > maxSigsPerRRset")
    case True
    with Cons show ?thesis by auto
  next
    case False
    then have "kz (sg_SignerName sig) s \<noteq> None" using signer_above(3) [OF assms(1,2)] assms(3) by blast
    then obtain r s1 where k: "kz (sg_SignerName sig) s = Some (r, s1)" by auto
    show ?thesis
    proof (cases r)
      case (Inl e)
      with False k Cons show ?thesis by simp
    next
      case (Inr keys)
      obtain e b2 s2 where v: "verifyWithKeys env sig ds keys b s1 = (e, b2, s2)" by (metis prod_cases3)
      with False k Inr Cons [of "chased + 1" b2 chainErr s2] show ?thesis
        by (simp split: option.split tv_error.split)
    qed
  qed
qed simp

lemma validateDS_returns:
  assumes "name_laws env" and "dn_Canonical env zone = zone"
    and "\<forall>z s. dn_CountLabel env (dn_Canonical env z) < dn_CountLabel env zone \<longrightarrow> kz z s \<noteq> None"
  shows "validateDS env kz zone s \<noteq> None"
proof -
  obtain m s1 where q: "query env zone TypeDS s = (m, s1)" by fastforce
  note d = ds_sigs_returns [OF assms]
  show ?thesis
  proof (cases m)
    case (Some dm)
    with q d [of "dsOf env (ms_Answer dm) zone" "rrsigsCovering env (ms_Answer dm) zone TypeDS" 0 maxVerifiesPerRRset None s1]
    show ?thesis by (simp add: validateDS_def Let_def)
  qed (simp add: validateDS_def q)
qed

lemma proveZone_returns:
  assumes "name_laws env" and "dn_Canonical env zone = zone"
    and "\<forall>z s. dn_CountLabel env (dn_Canonical env z) < dn_CountLabel env zone \<longrightarrow> kz z s \<noteq> None"
  shows "proveZone env kz zone s \<noteq> None"
proof -
  obtain m s1 where q: "query env zone TypeDNSKEY s = (m, s1)" by fastforce
  obtain r s2 where v: "validateDS env kz zone s1 = Some (r, s2)"
    using validateDS_returns [OF assms, of s1] by fastforce
  show ?thesis
  proof (cases m)
    case (Some km)
    with q v show ?thesis by (cases r) (simp_all add: proveZone_def Let_def)
  qed (simp add: proveZone_def q)
qed

lemma keyForZone_returns:
  assumes "name_laws env"
  shows "dn_CountLabel env (dn_Canonical env zone) < n \<Longrightarrow> keyForZone env n zone s \<noteq> None"
proof (induction n arbitrary: zone s)
  case (Suc n)
  let ?z = "dn_Canonical env zone"
  have c: "dn_Canonical env ?z = ?z" by (rule name_lawsD(1) [OF assms])
  have "proveZone env (keyForZone env n) ?z s \<noteq> None"
    by (rule proveZone_returns [OF assms c]) (use Suc in auto)
  then obtain r s1 where "proveZone env (keyForZone env n) ?z s = Some (r, s1)" by auto
  then show ?case by (cases r) (auto simp: Let_def split: option.split)
qed simp

text \<open>More fuel changes nothing.\<close>

definition extends :: "zone_keys \<Rightarrow> zone_keys \<Rightarrow> bool" where
  "extends kz kz' \<longleftrightarrow> (\<forall>z s x. kz z s = Some x \<longrightarrow> kz' z s = Some x)"

lemma ds_sigs_extends:
  assumes "extends kz kz'"
  shows "ds_sigs env kz zone ds sigs chased b chainErr s = Some x \<Longrightarrow> ds_sigs env kz' zone ds sigs chased b chainErr s = Some x"
proof (induction sigs arbitrary: chased b chainErr s)
  case (Cons sig sigs)
  show ?case
  proof (cases "\<not> signerMayCover env sig zone TypeDS \<or> wildcardExpansion env sig zone \<noteq> None \<or> chased + 1 > maxSigsPerRRset")
    case True
    with Cons show ?thesis by (auto split: if_splits)
  next
    case False
    with Cons.prems obtain r s1 where k: "kz (sg_SignerName sig) s = Some (r, s1)"
      by (cases "kz (sg_SignerName sig) s") auto
    with assms have k': "kz' (sg_SignerName sig) s = Some (r, s1)" unfolding extends_def by blast
    show ?thesis
    proof (cases r)
      case (Inl e)
      with False k k' Cons show ?thesis by simp
    next
      case (Inr keys)
      obtain e b2 s2 where v: "verifyWithKeys env sig ds keys b s1 = (e, b2, s2)" by (metis prod_cases3)
      with False k k' Inr Cons.prems Cons.IH [of "chased + 1" b2 chainErr s2] show ?thesis
        by (cases e) (auto split: tv_error.splits)
    qed
  qed
qed simp

lemma validateDS_extends:
  assumes "extends kz kz'" and "validateDS env kz zone s = Some x"
  shows "validateDS env kz' zone s = Some x"
proof -
  obtain m s1 where q: "query env zone TypeDS s = (m, s1)" by fastforce
  with assms ds_sigs_extends [OF assms(1)] show ?thesis
    by (cases m) (auto simp: validateDS_def Let_def split: if_splits)
qed

lemma proveZone_extends:
  assumes "extends kz kz'" and "proveZone env kz zone s = Some x"
  shows "proveZone env kz' zone s = Some x"
proof -
  obtain m s1 where q: "query env zone TypeDNSKEY s = (m, s1)" by fastforce
  show ?thesis
  proof (cases "validateDS env kz zone s1")
    case None
    with q assms(2) show ?thesis by (cases m) (auto simp: proveZone_def Let_def split: if_splits)
  next
    case (Some y)
    with validateDS_extends [OF assms(1) Some] q assms(2) show ?thesis
      by (cases m) (auto simp: proveZone_def Let_def split: if_splits)
  qed
qed

lemma keyForZone_extends: "extends (keyForZone env n) (keyForZone env (n + k))"
proof (induction n)
  case (Suc n)
  show ?case unfolding extends_def
  proof (intro allI impI)
    fix z s x assume a: "keyForZone env (Suc n) z s = Some x"
    let ?z = "dn_Canonical env z"
    show "keyForZone env (Suc n + k) z s = Some x"
    proof (cases "va_keys s ?z = None \<and> va_failed s ?z = None")
      case False
      with a show ?thesis by (auto simp: Let_def split: option.splits)
    next
      case True
      with a obtain y where p: "proveZone env (keyForZone env n) ?z s = Some y"
        by (cases "proveZone env (keyForZone env n) ?z s") (auto simp: Let_def)
      from proveZone_extends [OF Suc p] p True a show ?thesis by (simp add: Let_def)
    qed
  qed
qed (simp add: extends_def)

subsection \<open>The cost of an answer\<close>

definition known_zones :: "validator \<Rightarrow> string set" where
  "known_zones s = dom (va_keys s) \<union> dom (va_failed s)"

text \<open>
  New zones of a set came to be known; each was worth at most 16 checks and two questions, and
  \<open>k\<close> checks and \<open>q\<close> questions were made beside that.
\<close>

definition grows :: "string set \<Rightarrow> int \<Rightarrow> nat \<Rightarrow> validator \<Rightarrow> validator \<Rightarrow> bool" where
  "grows A k q s s' \<longleftrightarrow>
     (\<exists>Z. finite Z \<and> Z \<subseteq> A \<and> Z \<inter> known_zones s = {} \<and> known_zones s' = known_zones s \<union> Z \<and>
        int (va_verifies s') \<le> int (va_verifies s) + 16 * int (card Z) + k \<and>
        va_asked s' \<le> va_asked s + 2 * card Z + q \<and>
        (va_verifies s \<le> maxVerifiesPerValidator \<longrightarrow> va_verifies s' \<le> maxVerifiesPerValidator))"



lemma grows_refl [simp]: "0 \<le> k \<Longrightarrow> grows A k q s s"
  by (auto simp: grows_def intro!: exI [of _ "{}"])
















text \<open>The signatures of an answer are walked to the end, and the walk is the same for any more fuel.\<close>

lemma answer_sigs_returns:
  assumes "name_laws env" and "dn_Canonical env name = name" and "dn_CountLabel env name < m"
  shows "answer_sigs env m au name qtype rrset sigs chased b pb proofs chainErr proofErr s \<noteq> None"
proof (induction sigs arbitrary: chased b pb proofs chainErr proofErr s)
  case (Cons sig sigs)
  show ?case
  proof (cases "\<not> signerMayCover env sig name qtype \<or> chased + 1 > maxSigsPerRRset")
    case True
    with Cons show ?thesis by auto
  next
    case False
    then have "signerMayCover env sig name qtype" by simp
    from signer_above(2) [OF assms(1,2) this] assms(3) have "dn_CountLabel env (dn_Canonical env (sg_SignerName sig)) < m"
      by simp
    then obtain r s1 where k: "keyForZone env m (sg_SignerName sig) s = Some (r, s1)"
      using keyForZone_returns [OF assms(1)] by fastforce
    have d: "chased + 1 > maxSigsPerRRset \<longleftrightarrow> False" "(\<not> signerMayCover env sig name qtype) = False"
      using False by simp_all
    show ?thesis
      unfolding answer_sigs.simps d if_False k bind.bind_lunit prod.case Let_def
      using Cons by (auto split: sum.split prod.split option.split tv_error.split simp del: fun_upd_apply keyForZone.simps)
  qed
qed simp

lemma answer_sigs_extends:
  "answer_sigs env m au name qtype rrset sigs chased b pb proofs chainErr proofErr s = Some x \<Longrightarrow>
     answer_sigs env (m + k) au name qtype rrset sigs chased b pb proofs chainErr proofErr s = Some x"
proof (induction sigs arbitrary: chased b pb proofs chainErr proofErr s)
  case (Cons sig sigs)
  show ?case
  proof (cases "\<not> signerMayCover env sig name qtype \<or> chased + 1 > maxSigsPerRRset")
    case True
    with Cons show ?thesis by (auto split: if_splits)
  next
    case False
    have d: "chased + 1 > maxSigsPerRRset \<longleftrightarrow> False" "(\<not> signerMayCover env sig name qtype) = False"
      using False by simp_all
    from False Cons.prems obtain r s1 where k: "keyForZone env m (sg_SignerName sig) s = Some (r, s1)"
      by (cases "keyForZone env m (sg_SignerName sig) s") (auto simp del: keyForZone.simps)
    then have k': "keyForZone env (m + k) (sg_SignerName sig) s = Some (r, s1)"
      using keyForZone_extends [of env m k] unfolding extends_def by blast
    show ?thesis
      using Cons.prems
      unfolding answer_sigs.simps d if_False k k' bind.bind_lunit prod.case Let_def
      by (auto split: sum.splits prod.splits option.splits tv_error.splits if_splits
          simp del: fun_upd_apply keyForZone.simps intro: Cons.IH)
  qed
qed simp

text \<open>
  C22. A validation always ends: with fuel for each label of the name it returns, and what it returns
  is the same for any more fuel.
\<close>
theorem validation_terminates:
  assumes "name_laws env"
  shows "\<exists>r s'. \<forall>n > dn_CountLabel env (dn_Canonical env name). ValidateRRSetSigned env n name qtype s = Some (r, s')"
proof -
  let ?name = "dn_Canonical env name"
  let ?m = "Suc (dn_CountLabel env ?name)"
  have "ValidateRRSetSigned env ?m name qtype s \<noteq> None"
    using answer_sigs_returns [OF assms name_lawsD(1) [OF assms], of name ?m]
    by (auto simp: ValidateRRSetSigned_def validateAnswer_def Let_def split: prod.split option.split simp del: not_None_eq)
  then obtain r s' where v: "ValidateRRSetSigned env ?m name qtype s = Some (r, s')" by auto
  have "ValidateRRSetSigned env (?m + k) name qtype s = Some (r, s')" for k
    using v answer_sigs_extends [of env ?m _ _ _ _ _ _ _ _ _ _ _ _ _ k]
    by (auto simp: ValidateRRSetSigned_def validateAnswer_def Let_def split: prod.splits option.splits if_splits)
  then have "\<forall>n > dn_CountLabel env ?name. ValidateRRSetSigned env n name qtype s = Some (r, s')"
    by (metis less_eq_Suc_le le_Suc_ex)
  then show ?thesis by blast
qed

end
