(* ===== verification/TvDenial.thy ===== *)
theory TvDenial
  imports TvDnssec
begin

text \<open>
  \<open>internal/trustverify/denial.go\<close>: a set of records proven present, or proven absent by signed NSEC
  or NSEC3 records. An error is only that something is not proven.
\<close>

subsection \<open>Type bitmaps\<close>

definition hasType :: "nat list \<Rightarrow> nat \<Rightarrow> bool" where
  "hasType bitmap t \<longleftrightarrow> t \<in> set bitmap"

definition noData :: "nat list \<Rightarrow> nat \<Rightarrow> bool" where
  "noData bitmap qtype \<longleftrightarrow>
     \<not> hasType bitmap qtype \<and> \<not> hasType bitmap TypeCNAME \<and> \<not> (hasType bitmap TypeNS \<and> \<not> hasType bitmap TypeSOA)"

definition cutBelow :: "nat list \<Rightarrow> bool" where
  "cutBelow bitmap \<longleftrightarrow> hasType bitmap TypeNS \<and> \<not> hasType bitmap TypeSOA \<or> hasType bitmap TypeDNAME"

subsection \<open>NSEC3\<close>

definition nsec3_of :: "rr \<Rightarrow> nsec3_rdata" where
  "nsec3_of r = (case rr_Data r of NSEC3 d \<Rightarrow> d
     | _ \<Rightarrow> \<lparr>n3_Hash = 0, n3_Flags = 0, n3_Iterations = 0, n3_Salt = [], n3_NextDomain = [], n3_TypeBitMap = []\<rparr>)"

definition wildcard_at :: "string \<Rightarrow> string" where
  "wildcard_at ce = (if ce = ''.'' then ''*.'' else ''*.'' @ ce)"

definition match3 :: "tv_env \<Rightarrow> rr list \<Rightarrow> string \<Rightarrow> rr option" where
  "match3 env rrs name = List.find (\<lambda>r. dn_Match env r name) rrs"

definition cover3 :: "tv_env \<Rightarrow> rr list \<Rightarrow> string \<Rightarrow> bool \<Rightarrow> bool" where
  "cover3 env rrs name optOutOK \<longleftrightarrow>
     list_ex (\<lambda>r. (optOutOK \<or> even (n3_Flags (nsec3_of r))) \<and> \<not> dn_Match env r name \<and> dn_Cover env r name) rrs"

text \<open>The closest encloser, from the number of labels to leave off on; \<open>ls\<close> are the labels of the name.\<close>

definition ancestor_name :: "tv_env \<Rightarrow> string list \<Rightarrow> nat \<Rightarrow> string" where
  "ancestor_name env ls i = (if i = length ls then ''.'' else dn_Fqdn env (join ''.'' (drop i ls)))"

fun encloser3 :: "tv_env \<Rightarrow> rr list \<Rightarrow> string \<Rightarrow> nat \<Rightarrow> string list \<Rightarrow> nat list \<Rightarrow> bool" where
  "encloser3 env rrs zone qtype ls [] = False"
| "encloser3 env rrs zone qtype ls (i # js) =
     (let ce = ancestor_name env ls i in
      if \<not> dn_IsSubDomain env zone ce then False
      else
        (case match3 env rrs ce of
           None \<Rightarrow> encloser3 env rrs zone qtype ls js
         | Some m \<Rightarrow>
             if cutBelow (n3_TypeBitMap (nsec3_of m)) then False
             else if \<not> cover3 env rrs (dn_Fqdn env (join ''.'' (drop (i - 1) ls))) False then False
             else if cover3 env rrs (wildcard_at ce) True then True
             else
               (case match3 env rrs (wildcard_at ce) of
                  None \<Rightarrow> False
                | Some w \<Rightarrow> noData (n3_TypeBitMap (nsec3_of w)) qtype)))"

definition proveNSEC3 :: "tv_env \<Rightarrow> rr list \<Rightarrow> string \<Rightarrow> string \<Rightarrow> nat \<Rightarrow> bool" where
  "proveNSEC3 env rrs zone qname qtype =
     (let p = nsec3_of (hd rrs) in
      if list_ex (\<lambda>r. n3_Hash (nsec3_of r) \<noteq> 1 \<or> n3_Iterations (nsec3_of r) \<noteq> n3_Iterations p \<or>
           \<not> equal_fold (dn_fold env) (n3_Salt (nsec3_of r)) (n3_Salt p)) rrs then False
      else if n3_Iterations p > maxNSEC3Iterations then False
      else
        (case match3 env rrs qname of
           Some m \<Rightarrow> noData (n3_TypeBitMap (nsec3_of m)) qtype
         | None \<Rightarrow>
             let ls = dn_Split env qname in encloser3 env rrs zone qtype ls [1..<length ls + 1]))"

subsection \<open>NSEC\<close>

definition nsec_of :: "rr \<Rightarrow> nsec_rdata" where
  "nsec_of r = (case rr_Data r of NSEC d \<Rightarrow> d | _ \<Rightarrow> \<lparr>ns_NextDomain = [], ns_TypeBitMap = []\<rparr>)"

definition nsec_owner :: "tv_env \<Rightarrow> rr \<Rightarrow> string" where
  "nsec_owner env r = dn_Canonical env (rr_Name r)"

definition nsec_next :: "tv_env \<Rightarrow> rr \<Rightarrow> string" where
  "nsec_next env r = dn_Canonical env (ns_NextDomain (nsec_of r))"

definition nsecCovers :: "tv_env \<Rightarrow> string \<Rightarrow> string \<Rightarrow> string \<Rightarrow> string \<Rightarrow> bool" where
  "nsecCovers env owner nxt zone name =
     (if \<not> dn_IsSubDomain env zone name \<or> \<not> dn_IsSubDomain env zone owner then False
      else if canonicalCompare env owner name \<ge> 0 then False
      else if canonicalCompare env nxt owner \<le> 0 then True
      else canonicalCompare env name nxt < 0)"

definition commonAncestor :: "tv_env \<Rightarrow> string \<Rightarrow> string \<Rightarrow> string" where
  "commonAncestor env a b =
     (let n = dn_CompareDomain env a b; ls = dn_Split env a in
      if n = 0 \<or> ls = [] then ''.'' else dn_Fqdn env (join ''.'' (drop (length ls - n) ls)))"

definition longerAncestor :: "tv_env \<Rightarrow> string \<Rightarrow> string \<Rightarrow> string \<Rightarrow> string" where
  "longerAncestor env qname a b =
     (let ca = commonAncestor env qname a; cb = commonAncestor env qname b in
      if dn_CountLabel env cb > dn_CountLabel env ca then cb else ca)"

fun no_wildcard :: "tv_env \<Rightarrow> string \<Rightarrow> string \<Rightarrow> nat \<Rightarrow> rr list \<Rightarrow> bool" where
  "no_wildcard env zone wild qtype [] = False"
| "no_wildcard env zone wild qtype (w # ws) =
     (if nsec_owner env w = wild then noData (ns_TypeBitMap (nsec_of w)) qtype
      else if nsecCovers env (nsec_owner env w) (nsec_next env w) zone wild then True
      else no_wildcard env zone wild qtype ws)"

definition proveNSEC :: "tv_env \<Rightarrow> rr list \<Rightarrow> string \<Rightarrow> string \<Rightarrow> nat \<Rightarrow> bool" where
  "proveNSEC env rrs zone qname qtype =
     (case List.find (\<lambda>r. nsec_owner env r = qname) rrs of
        Some r \<Rightarrow> noData (ns_TypeBitMap (nsec_of r)) qtype
      | None \<Rightarrow>
          (case List.find (\<lambda>r. nsecCovers env (nsec_owner env r) (nsec_next env r) zone qname) rrs of
             None \<Rightarrow> False
           | Some r \<Rightarrow>
               let owner = nsec_owner env r; nxt = nsec_next env r in
               if dn_IsSubDomain env owner qname \<and> cutBelow (ns_TypeBitMap (nsec_of r)) then False
               else if dn_IsSubDomain env qname nxt \<and> nxt \<noteq> qname then True
               else
                 (let ce = longerAncestor env qname owner nxt;
                      ce = (if \<not> dn_IsSubDomain env zone ce then zone else ce)
                  in no_wildcard env zone (wildcard_at ce) qtype rrs)))"

subsection \<open>The records a denial rests on\<close>

text \<open>The zone and the signature that prove some records, none when nothing does.\<close>

fun verified_sigs ::
    "tv_env \<Rightarrow> nat \<Rightarrow> string \<Rightarrow> nat \<Rightarrow> rr list \<Rightarrow> string \<Rightarrow> rrsig list \<Rightarrow> nat \<Rightarrow> int \<Rightarrow> validator
       \<Rightarrow> ((string \<times> rrsig) option \<times> validator) option" where
  "verified_sigs env n owner qtype rrset qname [] chased b s = Some (None, s)"
| "verified_sigs env n owner qtype rrset qname (sig # sigs) chased b s =
     (let zone = dn_Canonical env (sg_SignerName sig) in
      if \<not> signerMayCover env sig owner qtype \<or> \<not> dn_IsSubDomain env zone qname then
        verified_sigs env n owner qtype rrset qname sigs chased b s
      else if chased + 1 > maxSigsPerRRset then Some (None, s)
      else do {
        (r, s) \<leftarrow> keyForZone env n zone s;
        (case r of
           Inl e \<Rightarrow> verified_sigs env n owner qtype rrset qname sigs (chased + 1) b s
         | Inr keys \<Rightarrow>
             (case verifyWithKeys env sig rrset keys b s of
                (None, b, s) \<Rightarrow> Some (Some (zone, sig), s)
              | (Some e, b, s) \<Rightarrow> verified_sigs env n owner qtype rrset qname sigs (chased + 1) b s))
      })"

definition verifiedBy ::
    "tv_env \<Rightarrow> nat \<Rightarrow> rr list \<Rightarrow> string \<Rightarrow> nat \<Rightarrow> rr list \<Rightarrow> string \<Rightarrow> validator \<Rightarrow> ((string \<times> rrsig) option \<times> validator) option" where
  "verifiedBy env n sect owner qtype rrset qname s =
     verified_sigs env n owner qtype rrset qname (rrsigsCovering env sect owner qtype) 0 maxVerifiesPerRRset s"

record denial_set =
  dl_nsec :: "rr list"
  dl_nsec3 :: "rr list"
  dl_zone :: string
  dl_ttl :: nat

definition note_ttl :: "rrsig \<Rightarrow> denial_set \<Rightarrow> denial_set" where
  "note_ttl sig d = (if sg_OrigTtl sig > dl_ttl d then d\<lparr>dl_ttl := sg_OrigTtl sig\<rparr> else d)"

text \<open>The verified records of a section; \<open>Some None\<close> when two zones signed them.\<close>

fun collect_denial ::
    "tv_env \<Rightarrow> nat \<Rightarrow> rr list \<Rightarrow> string \<Rightarrow> rr list \<Rightarrow> denial_set \<Rightarrow> validator \<Rightarrow> (denial_set option \<times> validator) option" where
  "collect_denial env n auth qname [] d s = Some (Some d, s)"
| "collect_denial env n auth qname (r # rs) d s =
     (let owner = dn_Canonical env (rr_Name r) in
      case rr_Data r of
        NSEC _ \<Rightarrow> do {
          (v, s) \<leftarrow> verifiedBy env n auth owner TypeNSEC [r] qname s;
          (case v of
             None \<Rightarrow> collect_denial env n auth qname rs d s
           | Some (zone, sig) \<Rightarrow>
               if dl_zone d \<noteq> [] \<and> dl_zone d \<noteq> zone then Some (None, s)
               else collect_denial env n auth qname rs (note_ttl sig (d\<lparr>dl_zone := zone, dl_nsec := dl_nsec d @ [r]\<rparr>)) s)
        }
      | NSEC3 x \<Rightarrow>
          if n3_Flags x > 1 then collect_denial env n auth qname rs d s
          else do {
            (v, s) \<leftarrow> verifiedBy env n auth owner TypeNSEC3 [r] qname s;
            (case v of
               None \<Rightarrow> collect_denial env n auth qname rs d s
             | Some (zone, sig) \<Rightarrow>
                 if dn_CountLabel env owner \<noteq> dn_CountLabel env zone + 1 \<or> \<not> dn_IsSubDomain env zone owner then
                   collect_denial env n auth qname rs d s
                 else if dl_zone d \<noteq> [] \<and> dl_zone d \<noteq> zone then Some (None, s)
                 else collect_denial env n auth qname rs (note_ttl sig (d\<lparr>dl_zone := zone, dl_nsec3 := dl_nsec3 d @ [r]\<rparr>)) s)
          }
      | _ \<Rightarrow> collect_denial env n auth qname rs d s)"

text \<open>The negative TTL of the zone's signed SOA records raises the time an absence may be cached.\<close>

fun soa_ttl ::
    "tv_env \<Rightarrow> nat \<Rightarrow> rr list \<Rightarrow> string \<Rightarrow> string \<Rightarrow> rr list \<Rightarrow> nat \<Rightarrow> validator \<Rightarrow> (nat \<times> validator) option" where
  "soa_ttl env n auth zone qname [] ttl s = Some (ttl, s)"
| "soa_ttl env n auth zone qname (r # rs) ttl s =
     (case rr_Data r of
        SOA minttl \<Rightarrow>
          if dn_Canonical env (rr_Name r) \<noteq> zone then soa_ttl env n auth zone qname rs ttl s
          else do {
            (v, s) \<leftarrow> verifiedBy env n auth zone TypeSOA [r] qname s;
            (case v of
               None \<Rightarrow> soa_ttl env n auth zone qname rs ttl s
             | Some (_, sig) \<Rightarrow>
                 soa_ttl env n auth zone qname rs (max ttl (min minttl (sg_OrigTtl sig))) s)
          }
      | _ \<Rightarrow> soa_ttl env n auth zone qname rs ttl s)"

text \<open>The seconds an absence may be cached for, none when it is not proven.\<close>

definition proveAbsent ::
    "tv_env \<Rightarrow> nat \<Rightarrow> rr list \<Rightarrow> string \<Rightarrow> nat \<Rightarrow> validator \<Rightarrow> (nat option \<times> validator) option" where
  "proveAbsent env n auth qname qtype s = do {
     (c, s) \<leftarrow> collect_denial env n auth qname auth \<lparr>dl_nsec = [], dl_nsec3 = [], dl_zone = [], dl_ttl = 0\<rparr> s;
     (case c of
        None \<Rightarrow> Some (None, s)
      | Some d \<Rightarrow>
          if dl_nsec d = [] \<and> dl_nsec3 d = [] then Some (None, s)
          else if dl_nsec d \<noteq> [] \<and> dl_nsec3 d \<noteq> [] then Some (None, s)
          else if \<not> (if dl_nsec3 d \<noteq> [] then proveNSEC3 env (dl_nsec3 d) (dl_zone d) qname qtype
                     else proveNSEC env (dl_nsec d) (dl_zone d) qname qtype) then Some (None, s)
          else do {
            (ttl, s) \<leftarrow> soa_ttl env n auth (dl_zone d) qname auth (dl_ttl d) s;
            Some (Some ttl, s)
          })
   }"

subsection \<open>Present or absent\<close>

record proven =
  pv_rrs :: "rr list"
  pv_sig :: "rrsig option"
  pv_absent :: bool
  pv_ttl :: nat

type_synonym fetch = "string \<Rightarrow> nat \<Rightarrow> validator \<Rightarrow> dns_msg option \<times> validator"

definition validateOrDeny ::
    "tv_env \<Rightarrow> nat \<Rightarrow> fetch \<Rightarrow> string \<Rightarrow> nat \<Rightarrow> validator \<Rightarrow> (proven option \<times> validator) option" where
  "validateOrDeny env n fetch name qtype s =
     (let name = dn_Canonical env name; (m, s) = fetch name qtype s in
      case m of
        None \<Rightarrow> Some (None, s)
      | Some msg \<Rightarrow>
          if ms_Rcode msg \<noteq> RcodeSuccess \<and> ms_Rcode msg \<noteq> RcodeNameError then Some (None, s)
          else if ms_Rcode msg = RcodeSuccess \<and> rrsOfType env (ms_Answer msg) name qtype \<noteq> [] then do {
            (r, s) \<leftarrow> validateAnswer env n (ms_Answer msg) (ms_Ns msg) name qtype s;
            (case r of
               Inl e \<Rightarrow> Some (None, s)
             | Inr (rrs, sig) \<Rightarrow>
                 if sg_Labels sig \<noteq> dn_CountLabel env name then Some (None, s)
                 else Some (Some \<lparr>pv_rrs = rrs, pv_sig = Some sig, pv_absent = False, pv_ttl = sg_OrigTtl sig\<rparr>, s))
          }
          else if rrsOfType env (ms_Answer msg) name TypeCNAME \<noteq> [] then Some (None, s)
          else do {
            (ttl, s) \<leftarrow> proveAbsent env n (ms_Ns msg) name qtype s;
            (case ttl of
               None \<Rightarrow> Some (None, s)
             | Some t \<Rightarrow> Some (Some \<lparr>pv_rrs = [], pv_sig = None, pv_absent = True, pv_ttl = t\<rparr>, s))
          })"

end
