(* ===== verification/TvAbsence.thy ===== *)
theory TvAbsence
  imports TvDenial "HOL-Library.Sublist"
begin

text \<open>
  What an accepted denial of \<open>internal/trustverify/denial.go\<close> means for the zone it comes from: the
  records asked for are not there, neither at the name nor by a wildcard.
\<close>

subsection \<open>The canonical order of names\<close>

text \<open>A name as its labels from the root down; the order of names is then the one of lists.\<close>

type_synonym zname = "bytes list"

definition labels_of :: "tv_env \<Rightarrow> string \<Rightarrow> zname" where
  "labels_of env s = rev (wireLabels env s)"

lemma Nil_less_zname: "([] :: zname) < ys \<longleftrightarrow> ys \<noteq> []"
  by (cases ys) auto

lemma compare_labels_less: "compare_labels xs ys < 0 \<longleftrightarrow> xs < ys"
  by (induction xs ys rule: compare_labels.induct) (auto simp: Nil_less_zname)

lemma compare_labels_eq: "compare_labels xs ys = 0 \<longleftrightarrow> xs = ys"
  by (induction xs ys rule: compare_labels.induct) auto

lemma canonicalCompare_order:
  "canonicalCompare env a b < 0 \<longleftrightarrow> labels_of env a < labels_of env b"
  "canonicalCompare env a b \<le> 0 \<longleftrightarrow> labels_of env a \<le> labels_of env b"
  using compare_labels_less [of "labels_of env a" "labels_of env b"] compare_labels_eq [of "labels_of env a" "labels_of env b"]
  by (auto simp: canonicalCompare_def labels_of_def less_le)

text \<open>What lies between two names of a subtree is in it.\<close>

lemma prefix_between:
  fixes q a b c :: zname
  shows "prefix q a \<Longrightarrow> prefix q c \<Longrightarrow> a \<le> b \<Longrightarrow> b \<le> c \<Longrightarrow> prefix q b"
proof (induction q arbitrary: a b c)
  case (Cons x q)
  from Cons.prems obtain a' c' where ac: "a = x # a'" "c = x # c'" "prefix q a'" "prefix q c'"
    by (auto simp: prefix_def)
  with Cons.prems(3) obtain y b' where b: "b = y # b'" by (cases b) auto
  with ac Cons.prems(3,4) have "y = x" "a' \<le> b'" "b' \<le> c'" by auto
  with Cons.IH [OF ac(3,4)] b show ?case by simp
qed simp

lemma prefix_le: "prefix (p :: zname) n \<Longrightarrow> p \<le> n"
  by (induction p arbitrary: n) (auto simp: prefix_def)

lemma strict_prefix_less: "strict_prefix (p :: zname) n \<Longrightarrow> p < n"
  using prefix_le by (auto simp: strict_prefix_def less_le)

lemma common_front_take: "take (common_front xs ys) xs = take (common_front xs ys) ys"
  by (induction xs ys rule: common_front.induct) auto

lemma common_front_le: "common_front xs ys \<le> length xs" "common_front xs ys \<le> length ys"
  by (induction xs ys rule: common_front.induct) auto

lemma common_front_greatest: "prefix q xs \<Longrightarrow> prefix q ys \<Longrightarrow> length q \<le> common_front xs ys"
  by (induction xs ys arbitrary: q rule: common_front.induct) (auto simp: prefix_Cons)

subsection \<open>Zones\<close>

text \<open>The names a zone has records of its own at, and their types.\<close>

record zone_data =
  zd_names :: "zname set"
  zd_types :: "zname \<Rightarrow> nat set"

definition star :: bytes where "star = bytes_of ''*''"

definition exists_in :: "zone_data \<Rightarrow> zname \<Rightarrow> bool" where
  "exists_in Z n \<longleftrightarrow> (\<exists>z \<in> zd_names Z. prefix n z)"

text \<open>RFC 4592: a name that exists answers for itself, another one by the wildcard at its closest encloser.\<close>

definition closest_encloser :: "zone_data \<Rightarrow> zname \<Rightarrow> zname \<Rightarrow> bool" where
  "closest_encloser Z n ce \<longleftrightarrow>
     prefix ce n \<and> exists_in Z ce \<and> (\<forall>q. prefix q n \<and> exists_in Z q \<longrightarrow> length q \<le> length ce)"

definition answers :: "zone_data \<Rightarrow> zname \<Rightarrow> nat \<Rightarrow> bool" where
  "answers Z n t \<longleftrightarrow>
     (if exists_in Z n then n \<in> zd_names Z \<and> t \<in> zd_types Z n
      else (\<exists>ce. closest_encloser Z n ce \<and> ce @ [star] \<in> zd_names Z \<and> t \<in> zd_types Z (ce @ [star])))"

definition is_cut :: "nat set \<Rightarrow> bool" where
  "is_cut T \<longleftrightarrow> TypeNS \<in> T \<and> TypeSOA \<notin> T \<or> TypeDNAME \<in> T"

text \<open>A zone has its apex, only names below it, and none below a delegation or a DNAME.\<close>

definition zone_wf :: "zname \<Rightarrow> zone_data \<Rightarrow> bool" where
  "zone_wf apex Z \<longleftrightarrow>
     apex \<in> zd_names Z \<and> (\<forall>z \<in> zd_names Z. prefix apex z) \<and>
     (\<forall>p \<in> zd_names Z. \<forall>z \<in> zd_names Z. strict_prefix p z \<longrightarrow> \<not> is_cut (zd_types Z p))"

text \<open>A record of the NSEC chain: the next name in the order, the last one pointing back.\<close>

definition genuine_nsec :: "tv_env \<Rightarrow> zone_data \<Rightarrow> rr \<Rightarrow> bool" where
  "genuine_nsec env Z r \<longleftrightarrow>
     (let o' = labels_of env (nsec_owner env r); x = labels_of env (nsec_next env r) in
      o' \<in> zd_names Z \<and> x \<in> zd_names Z \<and> zd_types Z o' = set (ns_TypeBitMap (nsec_of r)) \<and>
      (if x \<le> o' then \<forall>z \<in> zd_names Z. z \<le> o' else \<forall>z \<in> zd_names Z. \<not> (o' < z \<and> z < x)))"

text \<open>
  How the functions of the DNS library read the names of a set: by their labels. The wildcard at
  an ancestor of a name is a name again.
\<close>

definition label_laws :: "tv_env \<Rightarrow> string set \<Rightarrow> bool" where
  "label_laws env D \<longleftrightarrow>
     inj_on (labels_of env) D \<and> ''.'' \<in> D \<and> labels_of env ''.'' = [] \<and>
     (\<forall>a \<in> D. \<forall>b \<in> D. dn_IsSubDomain env a b \<longleftrightarrow> prefix (labels_of env a) (labels_of env b)) \<and>
     (\<forall>a \<in> D. \<forall>b \<in> D. dn_CompareDomain env a b = common_front (labels_of env a) (labels_of env b)) \<and>
     (\<forall>a \<in> D. dn_CountLabel env a = length (labels_of env a) \<and> length (dn_Split env a) = length (labels_of env a)) \<and>
     (\<forall>a \<in> D. \<forall>k. 0 < k \<and> k \<le> length (labels_of env a) \<longrightarrow>
        (let s = dn_Fqdn env (join ''.'' (drop (length (labels_of env a) - k) (dn_Split env a))) in
         s \<in> D \<and> labels_of env s = take k (labels_of env a))) \<and>
     (\<forall>a \<in> D. \<forall>q \<in> D. strict_prefix (labels_of env a) (labels_of env q) \<longrightarrow>
        wildcard_at a \<in> D \<and> labels_of env (wildcard_at a) = labels_of env a @ [star])"

lemma label_lawsD:
  assumes "label_laws env D"
  shows "a \<in> D \<Longrightarrow> b \<in> D \<Longrightarrow> labels_of env a = labels_of env b \<Longrightarrow> a = b"
    and "''.'' \<in> D" and "labels_of env ''.'' = []"
    and "a \<in> D \<Longrightarrow> b \<in> D \<Longrightarrow> dn_IsSubDomain env a b \<longleftrightarrow> prefix (labels_of env a) (labels_of env b)"
    and "a \<in> D \<Longrightarrow> b \<in> D \<Longrightarrow> dn_CompareDomain env a b = common_front (labels_of env a) (labels_of env b)"
    and "a \<in> D \<Longrightarrow> dn_CountLabel env a = length (labels_of env a)"
    and "a \<in> D \<Longrightarrow> length (dn_Split env a) = length (labels_of env a)"
    and "a \<in> D \<Longrightarrow> 0 < k \<Longrightarrow> k \<le> length (labels_of env a) \<Longrightarrow>
      dn_Fqdn env (join ''.'' (drop (length (labels_of env a) - k) (dn_Split env a))) \<in> D"
    and "a \<in> D \<Longrightarrow> 0 < k \<Longrightarrow> k \<le> length (labels_of env a) \<Longrightarrow>
      labels_of env (dn_Fqdn env (join ''.'' (drop (length (labels_of env a) - k) (dn_Split env a)))) = take k (labels_of env a)"
    and "a \<in> D \<Longrightarrow> q \<in> D \<Longrightarrow> strict_prefix (labels_of env a) (labels_of env q) \<Longrightarrow> wildcard_at a \<in> D"
    and "a \<in> D \<Longrightarrow> q \<in> D \<Longrightarrow> strict_prefix (labels_of env a) (labels_of env q) \<Longrightarrow>
      labels_of env (wildcard_at a) = labels_of env a @ [star]"
  using assms unfolding label_laws_def Let_def inj_on_def by blast+

lemma commonAncestor_labels:
  assumes "label_laws env D" and "a \<in> D" and "b \<in> D"
  shows "commonAncestor env a b \<in> D"
    and "labels_of env (commonAncestor env a b) = take (common_front (labels_of env a) (labels_of env b)) (labels_of env a)"
proof -
  note L = label_lawsD [OF assms(1)]
  let ?n = "common_front (labels_of env a) (labels_of env b)"
  have n: "?n \<le> length (labels_of env a)" by (rule common_front_le)
  have c: "commonAncestor env a b = (if ?n = 0 then ''.''
      else dn_Fqdn env (join ''.'' (drop (length (labels_of env a) - ?n) (dn_Split env a))))"
    using L(5) [OF assms(2,3)] L(7) [OF assms(2)] n by (auto simp: commonAncestor_def Let_def)
  show "commonAncestor env a b \<in> D" "labels_of env (commonAncestor env a b) = take ?n (labels_of env a)"
    unfolding c using L(2,3) L(8,9) [OF assms(2) _ n] by auto
qed

lemma longerAncestor_labels:
  assumes "label_laws env D" and "q \<in> D" and "a \<in> D" and "b \<in> D"
  shows "longerAncestor env q a b \<in> D"
    and "labels_of env (longerAncestor env q a b) =
      take (max (common_front (labels_of env q) (labels_of env a)) (common_front (labels_of env q) (labels_of env b))) (labels_of env q)"
proof -
  note L = label_lawsD [OF assms(1)]
  note A = commonAncestor_labels [OF assms(1,2,3)] and B = commonAncestor_labels [OF assms(1,2,4)]
  have "length (labels_of env (commonAncestor env q a)) = common_front (labels_of env q) (labels_of env a)"
    "length (labels_of env (commonAncestor env q b)) = common_front (labels_of env q) (labels_of env b)"
    unfolding A B using common_front_le by (simp_all add: min_absorb2)
  then show "longerAncestor env q a b \<in> D" "labels_of env (longerAncestor env q a b) =
      take (max (common_front (labels_of env q) (labels_of env a)) (common_front (labels_of env q) (labels_of env b))) (labels_of env q)"
    using A B by (auto simp: longerAncestor_def Let_def L(6) max_def)
qed

subsection \<open>NSEC\<close>

lemma noData_types: "noData bitmap t \<Longrightarrow> t \<notin> set bitmap \<and> TypeCNAME \<notin> set bitmap"
  by (simp add: noData_def hasType_def)

lemma cutBelow_is_cut: "cutBelow bitmap \<longleftrightarrow> is_cut (set bitmap)"
  by (simp add: cutBelow_def is_cut_def hasType_def)

text \<open>A genuine record that covers a name: the name is not in the zone.\<close>

lemma nsecCovers_labels:
  assumes "label_laws env D" and "zone \<in> D" and "n \<in> D" and "nsec_owner env r \<in> D" and "nsec_next env r \<in> D"
    and "nsecCovers env (nsec_owner env r) (nsec_next env r) zone n"
  shows "labels_of env (nsec_owner env r) < labels_of env n" and "prefix (labels_of env zone) (labels_of env n)"
    and "labels_of env (nsec_next env r) \<le> labels_of env (nsec_owner env r) \<or> labels_of env n < labels_of env (nsec_next env r)"
proof -
  let ?o = "nsec_owner env r" and ?x = "nsec_next env r"
  from assms(6) have c: "dn_IsSubDomain env zone n" "canonicalCompare env ?o n < 0"
    "canonicalCompare env ?x ?o \<le> 0 \<or> canonicalCompare env n ?x < 0"
    by (auto simp: nsecCovers_def split: if_splits)
  show "labels_of env ?o < labels_of env n" using c(2) by (simp add: canonicalCompare_order)
  show "prefix (labels_of env zone) (labels_of env n)" using c(1) label_lawsD(4) [OF assms(1,2,3)] by simp
  show "labels_of env ?x \<le> labels_of env ?o \<or> labels_of env n < labels_of env ?x"
    using c(3) by (simp add: canonicalCompare_order)
qed

text \<open>The names of the zone on either side of a covered one, in the order.\<close>

lemma covered_sides:
  assumes "genuine_nsec env Z r" and "labels_of env (nsec_owner env r) < n"
    and "labels_of env (nsec_next env r) \<le> labels_of env (nsec_owner env r) \<or> n < labels_of env (nsec_next env r)"
  shows "n \<notin> zd_names Z" and "z \<in> zd_names Z \<Longrightarrow> z < n \<Longrightarrow> z \<le> labels_of env (nsec_owner env r)"
    and "z \<in> zd_names Z \<Longrightarrow> n < z \<Longrightarrow> n < labels_of env (nsec_next env r) \<and> labels_of env (nsec_next env r) \<le> z"
proof -
  let ?o = "labels_of env (nsec_owner env r)" and ?x = "labels_of env (nsec_next env r)"
  have g: "if ?x \<le> ?o then \<forall>z \<in> zd_names Z. z \<le> ?o else \<forall>z \<in> zd_names Z. \<not> (?o < z \<and> z < ?x)"
    using assms(1) by (simp add: genuine_nsec_def Let_def)
  have w: "?x \<le> ?o \<Longrightarrow> z \<in> zd_names Z \<Longrightarrow> z < n" for z using g assms(2) by fastforce
  have i: "\<not> ?x \<le> ?o \<Longrightarrow> z \<in> zd_names Z \<Longrightarrow> z \<le> ?o \<or> ?x \<le> z" for z using g by fastforce
  show "n \<notin> zd_names Z" using w [of n] i [of n] assms(2,3) by (cases "?x \<le> ?o") auto
  show "z \<le> ?o" if "z \<in> zd_names Z" "z < n"
    using g i [of z] that assms(3) by (cases "?x \<le> ?o") auto
  show "n < ?x \<and> ?x \<le> z" if "z \<in> zd_names Z" "n < z"
    using w [of z] i [of z] that assms(2,3) by (cases "?x \<le> ?o") auto
qed

lemma no_wildcard_sound:
  assumes "label_laws env D" and "zone \<in> D" and "wild \<in> D"
    and "\<forall>r \<in> set rrs. genuine_nsec env Z r \<and> nsec_owner env r \<in> D \<and> nsec_next env r \<in> D"
    and "no_wildcard env zone wild t rrs"
  shows "\<not> (labels_of env wild \<in> zd_names Z \<and> (t \<in> zd_types Z (labels_of env wild) \<or> TypeCNAME \<in> zd_types Z (labels_of env wild)))"
  using assms(4,5)
proof (induction rrs)
  case (Cons w ws)
  have w: "genuine_nsec env Z w" "nsec_owner env w \<in> D" "nsec_next env w \<in> D" using Cons.prems(1) by auto
  show ?case
  proof (cases "nsec_owner env w = wild")
    case True
    with Cons.prems(2) have "noData (ns_TypeBitMap (nsec_of w)) t" by simp
    with noData_types w(1) True show ?thesis by (auto simp: genuine_nsec_def Let_def)
  next
    case False
    show ?thesis
    proof (cases "nsecCovers env (nsec_owner env w) (nsec_next env w) zone wild")
      case True
      from nsecCovers_labels [OF assms(1-3) w(2,3) True] covered_sides(1) [OF w(1)] show ?thesis by blast
    next
      case False
      with \<open>nsec_owner env w \<noteq> wild\<close> Cons show ?thesis by simp
    qed
  qed
qed simp

text \<open>What a covering record shows of the existing names above the one it covers.\<close>

lemma covered_encloser:
  assumes g: "genuine_nsec env Z r" and n: "labels_of env (nsec_owner env r) < n"
    and x: "labels_of env (nsec_next env r) \<le> labels_of env (nsec_owner env r) \<or> n < labels_of env (nsec_next env r)"
    and q: "prefix q n" "exists_in Z q"
  shows "length q \<le> max (common_front n (labels_of env (nsec_owner env r))) (common_front n (labels_of env (nsec_next env r)))"
proof -
  let ?o = "labels_of env (nsec_owner env r)" and ?x = "labels_of env (nsec_next env r)"
  from q(2) obtain z where z: "z \<in> zd_names Z" "prefix q z" by (auto simp: exists_in_def)
  note S = covered_sides [OF g n x]
  have "z \<noteq> n" using S(1) z(1) by blast
  then consider "z < n" | "n < z" by force
  then have "prefix q ?o \<or> prefix q ?x"
  proof cases
    case 1
    then have "z \<le> ?o" using S(2) z(1) by blast
    with prefix_between [OF z(2) q(1)] n show ?thesis by (auto simp: less_imp_le)
  next
    case 2
    then have "n < ?x" "?x \<le> z" using S(3) z(1) by blast+
    with prefix_between [OF q(1) z(2)] show ?thesis by (auto simp: less_imp_le)
  qed
  with common_front_greatest [OF q(1)] show ?thesis by fastforce
qed

text \<open>No delegation above a name that a record covers, when the record is not at one itself.\<close>

lemma covered_no_cut:
  assumes "label_laws env D" and "zone_wf apex Z" and "qname \<in> D" and "nsec_owner env r \<in> D"
    and g: "genuine_nsec env Z r" and n: "labels_of env (nsec_owner env r) < labels_of env qname"
    and x: "labels_of env (nsec_next env r) \<le> labels_of env (nsec_owner env r) \<or> labels_of env qname < labels_of env (nsec_next env r)"
    and P: "\<not> (dn_IsSubDomain env (nsec_owner env r) qname \<and> cutBelow (ns_TypeBitMap (nsec_of r)))"
    and p: "p \<in> zd_names Z" "strict_prefix p (labels_of env qname)"
  shows "\<not> is_cut (zd_types Z p)"
proof
  let ?o = "labels_of env (nsec_owner env r)" and ?n = "labels_of env qname"
  assume c: "is_cut (zd_types Z p)"
  have o: "?o \<in> zd_names Z" "zd_types Z ?o = set (ns_TypeBitMap (nsec_of r))"
    using g by (auto simp: genuine_nsec_def Let_def)
  have "p \<le> ?o" using covered_sides(2) [OF g n x] p strict_prefix_less by blast
  then have "prefix p ?o" using prefix_between [of p p ?n ?o] p(2) n by (auto simp: strict_prefix_def less_imp_le)
  with assms(2) p(1) o(1) c have "p = ?o" by (auto simp: zone_wf_def strict_prefix_def)
  with p(2) c o(2) P label_lawsD(4) [OF assms(1,4,3)] show False by (auto simp: cutBelow_is_cut strict_prefix_def)
qed

text \<open>The ancestor whose wildcard is asked about is the closest encloser.\<close>

lemma covered_closest:
  assumes L: "label_laws env D" and "zone \<in> D" and "qname \<in> D" and "nsec_owner env r \<in> D" and "nsec_next env r \<in> D"
    and "labels_of env zone \<in> zd_names Z" and "prefix (labels_of env zone) (labels_of env qname)"
    and g: "genuine_nsec env Z r" and n: "labels_of env (nsec_owner env r) < labels_of env qname"
    and x: "labels_of env (nsec_next env r) \<le> labels_of env (nsec_owner env r) \<or> labels_of env qname < labels_of env (nsec_next env r)"
    and "ce0 = longerAncestor env qname (nsec_owner env r) (nsec_next env r)"
    and "ce = (if \<not> dn_IsSubDomain env zone ce0 then zone else ce0)"
  shows "ce \<in> D" and "prefix (labels_of env ce) (labels_of env qname)" and "exists_in Z (labels_of env ce)"
    and "closest_encloser Z (labels_of env qname) c \<Longrightarrow> c = labels_of env ce"
proof -
  let ?n = "labels_of env qname" and ?o = "labels_of env (nsec_owner env r)" and ?x = "labels_of env (nsec_next env r)"
  let ?m = "max (common_front ?n ?o) (common_front ?n ?x)"
  have on: "?o \<in> zd_names Z" "?x \<in> zd_names Z" using g by (auto simp: genuine_nsec_def Let_def)
  have ce0: "ce0 \<in> D" "labels_of env ce0 = take ?m ?n" using longerAncestor_labels [OF L assms(3-5)] assms(11) by simp_all
  have m: "?m \<le> length ?n" using common_front_le by (simp add: max_def)
  have e: "exists_in Z (take ?m ?n)"
    using on common_front_take [of ?n ?o] common_front_take [of ?n ?x]
    by (auto simp: exists_in_def max_def intro: take_is_prefix)
  have "length (labels_of env zone) \<le> ?m"
    using covered_encloser [OF g n x assms(7)] assms(6) by (auto simp: exists_in_def)
  then have "prefix (labels_of env zone) (take ?m ?n)"
    using assms(7) by (metis prefix_length_prefix take_is_prefix length_take m min.absorb2)
  then have "ce = ce0" using label_lawsD(4) [OF L assms(2) ce0(1)] ce0(2) assms(12) by simp
  with ce0 e have ce: "labels_of env ce = take ?m ?n" "exists_in Z (labels_of env ce)" "ce \<in> D" by simp_all
  then show "ce \<in> D" "prefix (labels_of env ce) ?n" "exists_in Z (labels_of env ce)"
    using take_is_prefix by simp_all
  assume c: "closest_encloser Z ?n c"
  have "length c \<le> ?m" using c covered_encloser [OF g n x] by (auto simp: closest_encloser_def)
  moreover have "?m \<le> length c" using c ce m take_is_prefix [of ?m ?n] by (auto simp: closest_encloser_def)
  ultimately show "c = labels_of env ce" using c ce(1) by (auto simp: closest_encloser_def prefix_def)
qed

text \<open>A record that covers the name, when none is at it.\<close>

lemma covered_denial_sound:
  assumes "label_laws env D" and "zone_wf (labels_of env zone) Z" and "zone \<in> D" and "qname \<in> D"
    and "dn_IsSubDomain env zone qname"
    and "\<forall>r \<in> set rrs. genuine_nsec env Z r \<and> nsec_owner env r \<in> D \<and> nsec_next env r \<in> D"
    and "proveNSEC env rrs zone qname qtype" and None: "List.find (\<lambda>r. nsec_owner env r = qname) rrs = None"
  shows "\<not> answers Z (labels_of env qname) qtype \<and> \<not> answers Z (labels_of env qname) TypeCNAME \<and>
    (\<forall>p \<in> zd_names Z. strict_prefix p (labels_of env qname) \<longrightarrow> \<not> is_cut (zd_types Z p))"
proof -
  note L = label_lawsD [OF assms(1)]
  let ?n = "labels_of env qname" and ?apex = "labels_of env zone"
  have apex: "?apex \<in> zd_names Z" "prefix ?apex ?n" using assms(2,5) L(4) [OF assms(3,4)] by (auto simp: zone_wf_def)
  obtain r where f: "List.find (\<lambda>r. nsecCovers env (nsec_owner env r) (nsec_next env r) zone qname) rrs = Some r"
    using assms(7) None by (auto simp: proveNSEC_def split: option.splits)
  then have r: "r \<in> set rrs" "nsecCovers env (nsec_owner env r) (nsec_next env r) zone qname"
    by (auto simp: find_Some_iff)
  with assms(6) have g: "genuine_nsec env Z r" "nsec_owner env r \<in> D" "nsec_next env r \<in> D" by auto
  note C = nsecCovers_labels [OF assms(1,3,4) g(2,3) r(2)]
  define ce where "ce = (if \<not> dn_IsSubDomain env zone (longerAncestor env qname (nsec_owner env r) (nsec_next env r)) then zone
      else longerAncestor env qname (nsec_owner env r) (nsec_next env r))"
  have P: "\<not> (dn_IsSubDomain env (nsec_owner env r) qname \<and> cutBelow (ns_TypeBitMap (nsec_of r)))"
    "dn_IsSubDomain env qname (nsec_next env r) \<and> nsec_next env r \<noteq> qname \<or> no_wildcard env zone (wildcard_at ce) qtype rrs"
    using assms(7) None f by (auto simp: proveNSEC_def Let_def ce_def split: if_splits)
  note nocut = covered_no_cut [OF assms(1,2,4) g(2,1) C(1,3) P(1)]
  note CE = covered_closest [OF assms(1,3,4) g(2,3) apex g(1) C(1,3) refl ce_def]
  show ?thesis
  proof (cases "exists_in Z ?n")
    case True
    with covered_sides(1) [OF g(1) C(1,3)] nocut show ?thesis by (auto simp: answers_def)
  next
    case False
    have "\<not> (dn_IsSubDomain env qname (nsec_next env r) \<and> nsec_next env r \<noteq> qname)"
      using False g(1) L(4) [OF assms(4) g(3)] by (auto simp: exists_in_def genuine_nsec_def Let_def)
    with P(2) have nw: "no_wildcard env zone (wildcard_at ce) qtype rrs" by blast
    have st: "strict_prefix (labels_of env ce) ?n" using CE(2,3) False by (auto simp: strict_prefix_def)
    note W = L(10,11) [OF CE(1) assms(4) st]
    from no_wildcard_sound [OF assms(1,3) W(1) assms(6) nw] W(2) CE(4) False nocut
    show ?thesis unfolding answers_def by auto
  qed
qed

text \<open>
  C21. An NSEC denial means absence: when \<open>proveNSEC\<close> accepts records of the NSEC chain of a zone, the
  zone has neither records of the type asked for nor an alias at the name, whether it exists or
  would be answered by the wildcard at its closest encloser, and no delegation above the name hands
  it to another zone.
\<close>
theorem nsec_denial_sound:
  assumes "label_laws env D" and "zone_wf (labels_of env zone) Z" and "zone \<in> D" and "qname \<in> D"
    and "dn_IsSubDomain env zone qname"
    and "\<forall>r \<in> set rrs. genuine_nsec env Z r \<and> nsec_owner env r \<in> D \<and> nsec_next env r \<in> D"
    and "proveNSEC env rrs zone qname qtype"
  shows "\<not> answers Z (labels_of env qname) qtype \<and> \<not> answers Z (labels_of env qname) TypeCNAME \<and>
    (\<forall>p \<in> zd_names Z. strict_prefix p (labels_of env qname) \<longrightarrow> \<not> is_cut (zd_types Z p))"
proof -
  let ?n = "labels_of env qname"
  have cut: "p \<in> zd_names Z \<Longrightarrow> z \<in> zd_names Z \<Longrightarrow> strict_prefix p z \<Longrightarrow> \<not> is_cut (zd_types Z p)" for p z
    using assms(2) by (auto simp: zone_wf_def)
  show ?thesis
  proof (cases "List.find (\<lambda>r. nsec_owner env r = qname) rrs")
    case (Some r)
    then have r: "r \<in> set rrs" "nsec_owner env r = qname" by (auto simp: find_Some_iff)
    with assms(6) have g: "?n \<in> zd_names Z" "zd_types Z ?n = set (ns_TypeBitMap (nsec_of r))"
      by (auto simp: genuine_nsec_def Let_def)
    have "noData (ns_TypeBitMap (nsec_of r)) qtype" using assms(7) Some by (simp add: proveNSEC_def)
    from noData_types [OF this] g have "qtype \<notin> zd_types Z ?n" "TypeCNAME \<notin> zd_types Z ?n" by simp_all
    moreover have "exists_in Z ?n" using g(1) by (auto simp: exists_in_def)
    ultimately show ?thesis using cut g(1) by (auto simp: answers_def)
  next
    case None
    show ?thesis by (rule covered_denial_sound [OF assms None])
  qed
qed

end
