(* ===== verification/TvExamples.thy ===== *)
theory TvExamples
  imports TvBounds TvAbsence
begin

text \<open>
  The properties of the DNSSEC validator at a concrete world: names split at their dots, a zone
  \<open>o.\<close> delegated by the root, and an answer of its wildcard.
\<close>

subsection \<open>Names\<close>

definition plain_labels :: "string \<Rightarrow> string list" where
  "plain_labels s = (if s = ''.'' then [] else split_on (CHR ''.'') (butlast s))"

definition plain_fqdn :: "string \<Rightarrow> string" where
  "plain_fqdn s = (if s \<noteq> [] \<and> last s = CHR ''.'' then s else s @ ''.'')"

definition plain_pack :: "string \<Rightarrow> bytes" where
  "plain_pack s = concat (map (\<lambda>l. of_nat (length l) # bytes_of l) (plain_labels s)) @ [0]"

definition plain_wire :: "string \<Rightarrow> bytes list" where
  "plain_wire s = rev (map bytes_of (plain_labels s))"

subsection \<open>A world\<close>

definition plain_sig :: "string \<Rightarrow> nat \<Rightarrow> nat \<Rightarrow> byte \<Rightarrow> rrsig" where
  "plain_sig signer labels covered k =
     \<lparr>sg_SignerName = signer, sg_Labels = labels, sg_TypeCovered = covered, sg_KeyTag = unat k, sg_Algorithm = 13,
      sg_OrigTtl = 60, sg_Rest = [k]\<rparr>"

definition plain_rr :: "string \<Rightarrow> nat \<Rightarrow> rr_data \<Rightarrow> rr" where
  "plain_rr name t d = \<lparr>rr_Name = name, rr_Type = t, rr_Data = d\<rparr>"

definition plain_rrsig :: "string \<Rightarrow> rrsig \<Rightarrow> rr" where
  "plain_rrsig name sig = plain_rr name 46 (RRSIG sig)"

definition key_rr :: "string \<Rightarrow> byte \<Rightarrow> rr" where
  "key_rr zone k = plain_rr zone TypeDNSKEY (DNSKEY \<lparr>dk_Algorithm = 13, dk_Rest = [k]\<rparr>)"

definition key_byte :: "rr \<Rightarrow> byte" where
  "key_byte r = (case rr_Data r of DNSKEY d \<Rightarrow> hd (dk_Rest d) | _ \<Rightarrow> 0)"

definition key_ds :: "byte \<Rightarrow> ds_rdata" where
  "key_ds k = \<lparr>ds_KeyTag = unat k, ds_Algorithm = 13, ds_DigestType = 2, ds_Digest = dec_nat (unat k)\<rparr>"

definition wild_rr :: rr where
  "wild_rr = plain_rr ''b.o.'' TypeAAAA (AAAA [1])"

definition wild_sig :: rrsig where
  "wild_sig = plain_sig ''o.'' 1 TypeAAAA 9"

definition gap_rr :: rr where
  "gap_rr = plain_rr ''a.o.'' TypeNSEC (NSEC \<lparr>ns_NextDomain = ''o.'', ns_TypeBitMap = [TypeAAAA]\<rparr>)"

text \<open>Key 7 is the root's and key 9 that of \<open>o.\<close>; the answer for \<open>b.o.\<close> comes from \<open>*.o.\<close>.\<close>

definition plain_world :: "nat \<Rightarrow> string \<Rightarrow> nat \<Rightarrow> dns_msg option" where
  "plain_world i name t =
     (let reply = (\<lambda>an ns. Some \<lparr>ms_Rcode = RcodeSuccess, ms_Answer = an, ms_Ns = ns\<rparr>) in
      if t = TypeDNSKEY \<and> name = ''.'' then
        reply [key_rr ''.'' 7, plain_rrsig ''.'' (plain_sig ''.'' 0 TypeDNSKEY 7)] []
      else if t = TypeDS \<and> name = ''o.'' then
        reply [plain_rr ''o.'' TypeDS (DS (key_ds 9)), plain_rrsig ''o.'' (plain_sig ''.'' 1 TypeDS 7)] []
      else if t = TypeDNSKEY \<and> name = ''o.'' then
        reply [key_rr ''o.'' 9, plain_rrsig ''o.'' (plain_sig ''o.'' 1 TypeDNSKEY 9)] []
      else if t = TypeAAAA \<and> name = ''b.o.'' then
        reply [wild_rr, plain_rrsig ''b.o.'' wild_sig]
          [gap_rr, plain_rrsig ''a.o.'' (plain_sig ''o.'' 2 TypeNSEC 9)]
      else None)"

definition plain_env :: tv_env where
  "plain_env =
     \<lparr>dn_Canonical = (\<lambda>s. plain_fqdn (map lower_char s)),
      dn_Fqdn = plain_fqdn,
      dn_CountLabel = (\<lambda>s. length (plain_labels s)),
      dn_IsSubDomain = (\<lambda>p c. suffix (plain_labels p) (plain_labels c)),
      dn_Split = plain_labels,
      dn_CompareDomain = (\<lambda>a b. common_front (plain_wire a) (plain_wire b)),
      dn_Pack = (\<lambda>s. Some (plain_pack s)),
      dn_TypeToString = dec_nat,
      dn_HashName = (\<lambda>name iters salt. name),
      dn_Match = (\<lambda>r name. rr_Name r = name),
      dn_Cover = (\<lambda>r name. False),
      dn_KeyTag = (\<lambda>k. unat (key_byte k)),
      dn_ToDS = (\<lambda>k t. Some (dec_nat (unat (key_byte k)))),
      dn_Verify = (\<lambda>sig k rrs. sg_Rest sig = [key_byte k] \<and> rrs \<noteq> []),
      dn_ValidityPeriod = (\<lambda>sig. True),
      dn_upper = (\<lambda>s. s),
      dn_lower = (\<lambda>s. s),
      dn_fold = (=),
      tv_anchors = [key_ds 7],
      tv_Query = plain_world,
      tv_expired = (\<lambda>i. False)\<rparr>"

lemma plain_answer:
  "case ValidateRRSetSigned plain_env 3 ''B.o'' TypeAAAA NewValidator of
     Some (Inr (rrs, sig), s') \<Rightarrow> map rr_Name rrs = [''b.o.''] \<and> sg_SignerName sig = ''o.'' \<and> sg_Labels sig = 1 \<and>
       va_verifies s' = 5 \<and> va_asked s' = 4
   | _ \<Rightarrow> False"
  by code_simp

lemma plain_answer_value:
  obtains rrs sig s' where "ValidateRRSetSigned plain_env 3 ''B.o'' TypeAAAA NewValidator = Some (Inr (rrs, sig), s')"
    "map rr_Name rrs = [''b.o.'']" "sg_SignerName sig = ''o.''" "sg_Labels sig = 1" "va_verifies s' = 5" "va_asked s' = 4"
proof -
  obtain r s' where v: "ValidateRRSetSigned plain_env 3 ''B.o'' TypeAAAA NewValidator = Some (r, s')"
    using plain_answer by (auto split: option.splits)
  show ?thesis
  proof (cases r)
    case (Inr p)
    obtain rrs sig where "p = (rrs, sig)" by fastforce
    with v Inr plain_answer that show ?thesis by simp
  qed (use v plain_answer in simp)
qed

lemma validated_is_authentic_witness:
  "\<exists>rrs sig s'. validator_at plain_env NewValidator \<and>
     ValidateRRSetSigned plain_env 3 ''B.o'' TypeAAAA NewValidator = Some (Inr (rrs, sig), s') \<and>
     map rr_Name rrs = [''b.o.''] \<and> sg_SignerName sig = ''o.'' \<and> sg_Labels sig = 1 \<and>
     authentic plain_env ''b.o.'' TypeAAAA rrs sig"
proof -
  obtain rrs sig s' where v: "ValidateRRSetSigned plain_env 3 ''B.o'' TypeAAAA NewValidator = Some (Inr (rrs, sig), s')"
    and n: "map rr_Name rrs = [''b.o.'']" "sg_SignerName sig = ''o.''" "sg_Labels sig = 1" by (rule plain_answer_value)
  have c: "dn_Canonical plain_env ''B.o'' = ''b.o.''" by code_simp
  from validated_is_authentic [OF validator_at.new v] have "authentic plain_env ''b.o.'' TypeAAAA rrs sig" unfolding c .
  with v n show ?thesis by (intro exI [of _ rrs] exI [of _ sig] exI [of _ s'] conjI validator_at.new)
qed

subsection \<open>Names obey the laws\<close>

lemma lower_char_idem [simp]: "lower_char (lower_char c) = lower_char c"
proof (cases "CHR ''A'' \<le> c \<and> c \<le> CHR ''Z''")
  case True
  then have c: "65 \<le> (of_char c :: nat)" "(of_char c :: nat) \<le> 90" by (simp_all add: less_eq_char_def)
  have "lower_char c = char_of (of_char c + 32 :: nat)" using True by (simp add: lower_char_def)
  then have "(of_char (lower_char c) :: nat) = of_char c + 32" using c by simp
  with c have "\<not> (CHR ''A'' \<le> lower_char c \<and> lower_char c \<le> CHR ''Z'')" by (simp add: less_eq_char_def)
  then show ?thesis by (simp only: lower_char_def [of "lower_char c"] if_False)
next
  case False
  then have "lower_char c = c" by (simp only: lower_char_def if_False)
  then show ?thesis by simp
qed

lemma canonical_idem: "plain_fqdn (map lower_char (plain_fqdn (map lower_char s))) = plain_fqdn (map lower_char s)"
proof -
  have "lower_char CHR ''.'' = CHR ''.''" by code_simp
  then show ?thesis by (auto simp: plain_fqdn_def last_map comp_def)
qed

lemma join_Cons: "join sep ((c # t) # ts) = c # join sep (t # ts)"
  by (cases ts) simp_all

lemma join_split_on: "join ''.'' (split_on (CHR ''.'') s) = s"
proof (induction s)
  case (Cons c s)
  obtain t ts where t: "split_on (CHR ''.'') s = t # ts"
    by (cases "split_on (CHR ''.'') s") simp_all
  with Cons show ?case by (auto simp: join_Cons)
qed simp

lemma plain_labels_inj:
  assumes "plain_fqdn (map lower_char a) = a" and "plain_fqdn (map lower_char b) = b" and "plain_labels a = plain_labels b"
  shows "a = b"
proof -
  have e: "x \<noteq> [] \<and> last x = CHR ''.''" if "plain_fqdn (map lower_char x) = x" for x
    using that by (metis plain_fqdn_def append_is_Nil_conv last_snoc list.distinct(1))
  have "butlast a = butlast b"
  proof (cases "a = ''.'' \<or> b = ''.''")
    case True
    with assms(3) show ?thesis by (auto simp: plain_labels_def split: if_splits dest: sym)
  next
    case False
    with assms(3) have "split_on (CHR ''.'') (butlast a) = split_on (CHR ''.'') (butlast b)" by (simp add: plain_labels_def)
    with join_split_on show ?thesis by metis
  qed
  with e [OF assms(1)] e [OF assms(2)] show ?thesis by (metis append_butlast_last_id)
qed

lemma plain_name_laws: "name_laws plain_env"
proof -
  have i: "a = b" if "plain_fqdn (map lower_char a) = a" "plain_fqdn (map lower_char b) = b"
    "suffix (plain_labels a) c" "suffix (plain_labels b) c" "length (plain_labels a) = length (plain_labels b)" for a b c
  proof (rule plain_labels_inj [OF that(1,2)])
    show "plain_labels a = plain_labels b" using that(3-5) by (auto simp: suffix_def)
  qed
  show ?thesis
    unfolding name_laws_def Let_def plain_env_def tv_env.simps
    using canonical_idem i suffix_length_le suffix_order.trans by auto
qed


lemma validation_terminates_witness:
  "name_laws plain_env \<and>
   (\<exists>r s'. \<forall>n > 2. ValidateRRSetSigned plain_env n ''B.o'' TypeAAAA NewValidator = Some (r, s'))"
proof -
  have c: "dn_CountLabel plain_env (dn_Canonical plain_env ''B.o'') = 2" by code_simp
  from validation_terminates [OF plain_name_laws, of "''B.o''" TypeAAAA NewValidator] plain_name_laws
  show ?thesis unfolding c by blast
qed

subsection \<open>A denial\<close>

text \<open>The zone \<open>o.\<close> has records at itself and at \<open>a.o.\<close>; \<open>b.o.\<close> and its wildcard are denied.\<close>

definition plain_domain :: "string list" where
  "plain_domain = [''.'', ''*.'', ''o.'', ''*.o.'', ''a.o.'', ''b.o.'']"

definition plain_zone :: zone_data where
  "plain_zone = \<lparr>zd_names = set [labels_of plain_env ''o.'', labels_of plain_env ''a.o.''],
     zd_types = (\<lambda>z. if z = labels_of plain_env ''o.'' then set [TypeSOA, TypeNS] else set [TypeAAAA])\<rparr>"

definition apex_rr :: rr where
  "apex_rr = plain_rr ''o.'' TypeNSEC (NSEC \<lparr>ns_NextDomain = ''a.o.'', ns_TypeBitMap = [TypeSOA, TypeNS]\<rparr>)"

text \<open>The laws at the names and the pairs of names of a list.\<close>

definition names_checked :: "tv_env \<Rightarrow> string list \<Rightarrow> bool" where
  "names_checked env ns \<longleftrightarrow>
     list_all (\<lambda>a. let l = labels_of env a; n = length l in
       dn_CountLabel env a = n \<and> length (dn_Split env a) = n \<and>
       list_all (\<lambda>k. let s = dn_Fqdn env (join ''.'' (drop (n - k) (dn_Split env a))) in
         List.member ns s \<and> labels_of env s = take k l) [1..<n + 1] \<and>
       list_all (\<lambda>b. let m = labels_of env b in
         (l = m \<longrightarrow> a = b) \<and> (dn_IsSubDomain env a b \<longleftrightarrow> prefix l m) \<and> dn_CompareDomain env a b = common_front l m \<and>
         (prefix l m \<and> l \<noteq> m \<longrightarrow> List.member ns (wildcard_at a) \<and> labels_of env (wildcard_at a) = l @ [star])) ns) ns"

lemma names_checked_laws:
  assumes "names_checked env ns" and "''.'' \<in> set ns" and "labels_of env ''.'' = []"
  shows "label_laws env (set ns)"
  using assms
  unfolding names_checked_def label_laws_def Let_def list_all_iff inj_on_def strict_prefix_def List.member_iff
    set_upt atLeastLessThan_iff Suc_le_eq [symmetric] One_nat_def
  by (intro conjI) (auto simp: less_Suc_eq_le)

lemma plain_label_laws: "label_laws plain_env (set plain_domain)"
proof (rule names_checked_laws)
  show "names_checked plain_env plain_domain" by code_simp
qed code_simp+

lemma nsec_denial_sound_witness:
  "label_laws plain_env (set plain_domain) \<and> zone_wf (labels_of plain_env ''o.'') plain_zone \<and>
   proveNSEC plain_env [apex_rr, gap_rr] ''o.'' ''b.o.'' TypeAAAA \<and>
   \<not> answers plain_zone (labels_of plain_env ''b.o.'') TypeAAAA"
proof -
  have l: "labels_of plain_env ''o.'' = [bytes_of ''o'']" "labels_of plain_env ''a.o.'' = [bytes_of ''o'', bytes_of ''a'']"
    by code_simp+
  have ne: "[bytes_of ''o'', bytes_of ''a''] \<noteq> [bytes_of ''o'']" by simp
  have z: "zone_wf (labels_of plain_env ''o.'') plain_zone"
    by (auto simp: zone_wf_def plain_zone_def l is_cut_def TypeNS_def TypeSOA_def TypeDNAME_def TypeAAAA_def)
  have less: "[bytes_of ''o''] < [bytes_of ''o'', bytes_of ''a'']" by simp
  have o: "nsec_owner plain_env apex_rr = ''o.''" "nsec_next plain_env apex_rr = ''a.o.''"
    "nsec_owner plain_env gap_rr = ''a.o.''" "nsec_next plain_env gap_rr = ''o.''" by code_simp+
  have t: "ns_TypeBitMap (nsec_of apex_rr) = [TypeSOA, TypeNS]" "ns_TypeBitMap (nsec_of gap_rr) = [TypeAAAA]"
    by (simp_all add: apex_rr_def gap_rr_def plain_rr_def nsec_of_def)
  have d: "''.'' \<in> set plain_domain" "''o.'' \<in> set plain_domain" "''a.o.'' \<in> set plain_domain" "''b.o.'' \<in> set plain_domain"
    by (simp_all add: plain_domain_def)
  have g: "\<forall>r \<in> set [apex_rr, gap_rr]. genuine_nsec plain_env plain_zone r \<and> nsec_owner plain_env r \<in> set plain_domain \<and>
      nsec_next plain_env r \<in> set plain_domain"
    using less d by (auto simp: genuine_nsec_def Let_def o t l plain_zone_def)
  have s: "dn_IsSubDomain plain_env ''o.'' ''b.o.''" by code_simp
  have p: "proveNSEC plain_env [apex_rr, gap_rr] ''o.'' ''b.o.'' TypeAAAA" by code_simp
  from nsec_denial_sound [OF plain_label_laws z d(2,4) s g p] plain_label_laws z p show ?thesis by blast
qed

end
