(* ===== verification/WhaleTrust.thy ===== *)
theory WhaleTrust
  imports WhaleExamples TvExamples
begin

text \<open>
  The login decision of \<open>internal/whale/sshauthz.go\<close> over the validator of \<open>internal/trustverify\<close>
  (\<open>ValidatorLookup\<close>): what an admitted login rests on, down to the anchors of the root.
\<close>

subsection \<open>A lookup that a validator serves\<close>

definition serves :: "tv_env \<Rightarrow> authz_lookup \<Rightarrow> bool" where
  "serves tv lk \<longleftrightarrow>
     (\<forall>owner t rrs sig. lk owner t = Some (rrs, Some sig) \<longrightarrow>
        (\<exists>n s s'. validator_at tv s \<and> ValidateRRSetSigned tv n owner t s = Some (Inr (rrs, sig), s')))"

text \<open>\<open>ValidatorLookup\<close> over one validator, from a state of it.\<close>

definition ValidatorLookup :: "tv_env \<Rightarrow> nat \<Rightarrow> validator \<Rightarrow> authz_lookup" where
  "ValidatorLookup tv n s owner t =
     (case ValidateRRSetSigned tv n owner t s of
        Some (Inr (rrs, sig), s') \<Rightarrow> Some (rrs, Some sig)
      | _ \<Rightarrow> None)"

lemma ValidatorLookup_serves: "validator_at tv s \<Longrightarrow> serves tv (ValidatorLookup tv n s)"
  by (auto simp: serves_def ValidatorLookup_def split: option.splits sum.splits)

text \<open>
  A record proven from the anchors for exactly this name: its signature covers all its labels and,
  for a record of a fleet, is by the zone of the fleet or one above it.
\<close>

definition proven_record ::
    "tv_env \<Rightarrow> authz_env \<Rightarrow> string \<Rightarrow> string \<Rightarrow> nat \<Rightarrow> rr \<Rightarrow> bool" where
  "proven_record tv env zone name t r \<longleftrightarrow>
     (let owner = ae_Canonical env (ae_Fqdn env name) in
      \<exists>rrs sig. r \<in> set rrs \<and> authentic tv owner t rrs sig \<and> sg_Labels sig = ae_CountLabel env owner \<and>
        (zone \<noteq> [] \<longrightarrow> ae_IsSubDomain env (ae_Canonical env (ae_Fqdn env (sg_SignerName sig)))
           (ae_Canonical env (ae_Fqdn env zone))))"

lemma published_proven:
  assumes "serves tv lk" and "ae_Canonical env = dn_Canonical tv" and "\<forall>s. dn_Canonical tv (dn_Canonical tv s) = dn_Canonical tv s"
    and "published env lk name t zone r"
  shows "proven_record tv env zone name t r"
proof -
  let ?owner = "ae_Canonical env (ae_Fqdn env name)"
  from assms(4) obtain rrs sig where p: "lk ?owner t = Some (rrs, Some sig)" "r \<in> set rrs" "sg_Labels sig = ae_CountLabel env ?owner"
    "zone \<noteq> [] \<longrightarrow> ae_IsSubDomain env (ae_Canonical env (ae_Fqdn env (sg_SignerName sig))) (ae_Canonical env (ae_Fqdn env zone))"
    unfolding published_def Let_def by blast
  from assms(1) p(1) obtain n s s' where v: "validator_at tv s" "ValidateRRSetSigned tv n ?owner t s = Some (Inr (rrs, sig), s')"
    unfolding serves_def by blast
  have "authentic tv (dn_Canonical tv ?owner) t rrs sig"
    using ValidateRRSetSigned_sound [OF v(2) validator_at_memo [OF v(1)]] by blast
  moreover have "dn_Canonical tv ?owner = ?owner" using assms(2,3) by simp
  ultimately show ?thesis unfolding proven_record_def Let_def using p by auto
qed

text \<open>
  C1. An admitted login rests on the anchors of the root alone, whatever the resolver answers: the
  reverse name of the caller's address has a proven PTR to an agent inside a fleet of the operator,
  which has proven records of its address, of its being active in the tenant of the fleet, and of
  the key that was offered; each is signed for exactly that name by a zone at or above it whose
  keys are linked to the anchors by signed delegations.
\<close>
theorem login_rests_on_anchors:
  assumes "serves tv lk" and "ae_Canonical env = dn_Canonical tv" and "\<forall>s. dn_Canonical tv (dn_Canonical tv s) = dn_Canonical tv s"
    and "dc_Admit (Authorize env (Some lk) pol req)"
  shows "\<exists>blob pub a rname n fl zone. zone = af_Zone fl \<and> fl \<in> set (ap_Fleets pol) \<and> inFleet env n zone \<and>
     parseOfferedKey env (rq_KeyType req) (rq_Key req) = Some (blob, pub) \<and>
     rq_Source req = Some a \<and> ae_ReverseAddr env (addr_String (Unmap a)) = Some rname \<and>
     (\<exists>r t. proven_record tv env [] rname TypePTR r \<and> rr_Data r = PTR t \<and> ae_Canonical env t = n) \<and>
     (\<exists>r b. proven_record tv env zone n TypeAAAA r \<and> rr_Data r = AAAA b \<and> map_option Unmap (AddrFromSlice b) = Some (Unmap a)) \<and>
     (\<exists>r fs m. proven_record tv env zone n TypeTXT r \<and> whisper_record env r = Some fs \<and>
        whisper_fields env Map.empty fs = Some m \<and> EqualFold env (id_get m ''status'') ''active'' \<and>
        (af_Tenant fl \<noteq> [] \<longrightarrow> EqualFold env (id_get m ''tenant'') (af_Tenant fl))) \<and>
     ((\<exists>r alg. proven_record tv env zone n TypeSSHFP r \<and> HostKeyAlgorithm (ae_lower env) (rq_KeyType req) = Some alg \<and>
         sshfp_proves (ae_lower env) alg blob r) \<or>
      ap_AllowTLSA pol \<and> (\<exists>r cert. proven_record tv env zone (''_443._tcp.'' @ n) TypeTLSA r \<and>
         dane_pin r = Some cert \<and> hex_decode cert \<noteq> None \<and> spkiSHA256 pub = hex_decode cert))"
proof -
  note P = published_proven [OF assms(1-3)]
  show ?thesis
  proof (rule Authorize_admits [OF assms(4)], goal_cases)
    case (1 lk' blob pub a rname n fl)
    have lk: "lk' = lk" using 1(1) by simp
    from 1(10) obtain r t where "published env lk rname TypePTR [] r" "rr_Data r = PTR t" "ae_Canonical env t = n"
      unfolding lk by blast
    then have ptr: "\<exists>r t. proven_record tv env [] rname TypePTR r \<and> rr_Data r = PTR t \<and> ae_Canonical env t = n"
      using P by blast
    note N = 1(14) [unfolded lk name_proven_def whisper_says_def key_proven_def]
    have addr: "\<exists>r b. proven_record tv env (af_Zone fl) n TypeAAAA r \<and> rr_Data r = AAAA b \<and>
        map_option Unmap (AddrFromSlice b) = Some (Unmap a)" using N P by blast
    have said: "\<exists>r fs m. proven_record tv env (af_Zone fl) n TypeTXT r \<and> whisper_record env r = Some fs \<and>
        whisper_fields env Map.empty fs = Some m \<and> EqualFold env (id_get m ''status'') ''active'' \<and>
        (af_Tenant fl \<noteq> [] \<longrightarrow> EqualFold env (id_get m ''tenant'') (af_Tenant fl))" using N P by blast
    have key: "(\<exists>r alg. proven_record tv env (af_Zone fl) n TypeSSHFP r \<and>
         HostKeyAlgorithm (ae_lower env) (rq_KeyType req) = Some alg \<and> sshfp_proves (ae_lower env) alg blob r) \<or>
      ap_AllowTLSA pol \<and> (\<exists>r cert. proven_record tv env (af_Zone fl) (''_443._tcp.'' @ n) TypeTLSA r \<and>
         dane_pin r = Some cert \<and> hex_decode cert \<noteq> None \<and> spkiSHA256 pub = hex_decode cert)" using N P by blast
    show ?case
      by (intro exI [of _ blob] exI [of _ pub] exI [of _ a] exI [of _ rname] exI [of _ n] exI [of _ fl]
          exI [of _ "af_Zone fl"] conjI refl 1(11) 1(12) 1(5) 1(6) 1(9) ptr addr said key)
  qed
qed

subsection \<open>A login over signed zones\<close>

text \<open>The answers of the example, signed by the key 9 of \<open>arpa.\<close> and \<open>acme.org.\<close> below the root's key 7.\<close>

definition signed_world :: "string \<Rightarrow> nat \<Rightarrow> string \<Rightarrow> nat \<Rightarrow> dns_msg option" where
  "signed_world h i name t =
     (let reply = (\<lambda>an. Some \<lparr>ms_Rcode = RcodeSuccess, ms_Answer = an, ms_Ns = []\<rparr>);
          zone = (name = ''arpa.'' \<or> name = ''acme.org.'')
      in
        if t = TypeDNSKEY \<and> name = ''.'' then reply [key_rr ''.'' 7, plain_rrsig ''.'' (plain_sig ''.'' 0 TypeDNSKEY 7)]
        else if t = TypeDS \<and> zone then
          reply [plain_rr name TypeDS (DS (key_ds 9)), plain_rrsig name (plain_sig ''.'' (length (plain_labels name)) TypeDS 7)]
        else if t = TypeDNSKEY \<and> zone then
          reply [key_rr name 9, plain_rrsig name (plain_sig name (length (plain_labels name)) TypeDNSKEY 9)]
        else
          (case answers_with h name t of
             Some (rrs, Some sig) \<Rightarrow> reply (rrs @ [plain_rrsig name sig])
           | _ \<Rightarrow> None))"

definition signed_env :: "string \<Rightarrow> tv_env" where
  "signed_env h = plain_env\<lparr>dn_Canonical := (\<lambda>s. s), tv_Query := signed_world h\<rparr>"

definition returned :: "validated \<Rightarrow> bool" where
  "returned v \<longleftrightarrow> (case v of Some (Inr x, s) \<Rightarrow> True | _ \<Rightarrow> False)"

lemma signed_returns:
  "returned (ValidateRRSetSigned (signed_env h) 3 ''5.arpa.'' TypePTR NewValidator)"
  "returned (ValidateRRSetSigned (signed_env h) 3 ''n.acme.org.'' TypeAAAA NewValidator)"
  "returned (ValidateRRSetSigned (signed_env h) 3 ''n.acme.org.'' TypeTXT NewValidator)"
  "returned (ValidateRRSetSigned (signed_env h) 3 ''n.acme.org.'' TypeSSHFP NewValidator)"
  by code_simp+

lemma answers_with_cases:
  assumes "answers_with h owner t = Some x"
  shows "(owner, t) \<in> {(''5.arpa.'', TypePTR), (''n.acme.org.'', TypeAAAA), (''n.acme.org.'', TypeTXT), (''n.acme.org.'', TypeSSHFP)}"
  using assms by (auto simp: answers_with_def split: if_splits)

lemma signed_serves: "serves (signed_env h) (answers_with h)"
  unfolding serves_def
proof (intro allI impI)
  fix owner t rrs sig
  assume a: "answers_with h owner t = Some (rrs, Some sig)"
  have "returned (ValidateRRSetSigned (signed_env h) 3 owner t NewValidator)"
    using answers_with_cases [OF a] signed_returns by auto
  then obtain rrs' sig' s' where v: "ValidateRRSetSigned (signed_env h) 3 owner t NewValidator = Some (Inr (rrs', sig'), s')"
    by (auto simp: returned_def split: option.splits sum.splits)
  have q: "tv_Query (signed_env h) i owner t = Some \<lparr>ms_Rcode = RcodeSuccess, ms_Answer = rrs @ [plain_rrsig owner sig], ms_Ns = []\<rparr>" for i
    using answers_with_cases [OF a] a
    by (auto simp: signed_env_def signed_world_def TypePTR_def TypeAAAA_def TypeTXT_def TypeSSHFP_def TypeDS_def TypeDNSKEY_def)
  have c: "dn_Canonical (signed_env h) = (\<lambda>s. s)" by (simp add: signed_env_def)
  have "rrsOfType (signed_env h) (rrs @ [plain_rrsig owner sig]) owner t = rrs"
    "rrsigsCovering (signed_env h) (rrs @ [plain_rrsig owner sig]) owner t = [sig]"
    using answers_with_cases [OF a] a
    by (auto simp: answers_with_def example_sig_def rrsOfType_def rrsigsCovering_def c plain_rrsig_def plain_rr_def
        TypePTR_def TypeAAAA_def TypeTXT_def TypeSSHFP_def)
  then have "rrs' = rrs" "sig' = sig" using ValidateRRSetSigned_from [OF v] q by (auto simp: c)
  with v validator_at.new show "\<exists>n s s'. validator_at (signed_env h) s \<and>
      ValidateRRSetSigned (signed_env h) n owner t s = Some (Inr (rrs, sig), s')" by blast
qed

lemma login_rests_on_anchors_witness:
  "dc_Admit (Authorize example_env (Some example_answers) example_policy example_login) \<and>
   (\<exists>tv n r alg. serves tv example_answers \<and> inFleet example_env n ''acme.org.'' \<and>
      (proven_record tv example_env ''acme.org.'' n TypeSSHFP r \<and> sshfp_proves (ae_lower example_env) alg [1] r))"
proof -
  let ?tv = "signed_env (hex_encode (sha256 [1]))"
  have s: "serves ?tv example_answers" unfolding example_answers_def by (rule signed_serves)
  have c: "ae_Canonical example_env = dn_Canonical ?tv" "\<forall>s. dn_Canonical ?tv (dn_Canonical ?tv s) = dn_Canonical ?tv s"
    by (simp_all add: example_env_def signed_env_def)
  have k: "parseOfferedKey example_env (rq_KeyType example_login) (rq_Key example_login) = Some ([1], \<lparr>sk_Type = ''ssh-ed25519'', sk_SPKI = None\<rparr>)"
    using agent_key by (simp add: example_login_def)
  have p: "ap_AllowTLSA example_policy = False" "fl \<in> set (ap_Fleets example_policy) \<longleftrightarrow> fl = \<lparr>af_Zone = ''acme.org.'', af_Tenant = []\<rparr>" for fl
    by (simp_all add: example_policy_def)
  obtain n where n: "inFleet example_env n ''acme.org.''"
    "\<exists>r alg. proven_record ?tv example_env ''acme.org.'' n TypeSSHFP r \<and> sshfp_proves (ae_lower example_env) alg [1] r"
    using login_rests_on_anchors [OF s c example_admitted] unfolding k by (auto simp: p)
  with s example_admitted show ?thesis by blast
qed

end
