(* ===== verification/WgPunch.thy ===== *)
theory WgPunch
  imports GoScan GoTime
begin

text \<open>
  \<open>internal/wgtun/punch.go\<close> and the validation of peers in \<open>peers.go\<close>: which endpoints a tunnel
  aims a handshake at, in which order, and how often. Times are nanoseconds since the Unix epoch,
  with the zero \<open>Time\<close> at its own instant. A train is never \<open>nil\<close> here, as the tunnel makes one
  for every peer. The text of errors is left out.
\<close>

definition zeroTime :: int where "zeroTime = - 62135596800 * Second"

subsection \<open>Endpoints\<close>

definition agentBlock :: ip_prefix where
  "agentBlock = \<lparr>pfx_addr = Addr6 0x2a042a01000000000000000000000000 [], pfx_bits = 32\<rparr>"

definition tailnetBlock :: ip_prefix where
  "tailnetBlock = \<lparr>pfx_addr = Addr4 0x64400000, pfx_bits = 10\<rparr>"

definition splitHostPortLiteral :: "string \<Rightarrow> (string \<times> string) option" where
  "splitHostPortLiteral s =
     (if s = [] then None
      else if hd s = CHR ''['' then
        (case cut_at (CHR '']'') s of
           Some (a, c # port) \<Rightarrow> if c = CHR '':'' then Some (tl a, port) else None
         | _ \<Rightarrow> None)
      else
        (case cut_last (CHR '':'') s of
           Some (host, port) \<Rightarrow> if host = [] \<or> CHR '':'' \<in> set host then None else Some (host, port)
         | None \<Rightarrow> None))"

definition IsLinkLocalMulticast :: "ip_addr \<Rightarrow> bool" where
  "IsLinkLocalMulticast a =
     (case Unmap a of
        Addr4 v \<Rightarrow> v4_octet 0 v = 224 \<and> v4_octet 1 v = 0 \<and> v4_octet 2 v = 0
      | Addr6 w _ \<Rightarrow> drop_bit 112 w AND 0xFF0F = 0xFF02)"

definition checkUnderlayEndpoint :: "string \<Rightarrow> bool" where
  "checkUnderlayEndpoint endpoint =
     (case splitHostPortLiteral (trim_space endpoint) of
        None \<Rightarrow> False
      | Some (host, portStr) \<Rightarrow>
          (case parse_int portStr of
             None \<Rightarrow> False
           | Some port \<Rightarrow>
               if port < 1 \<or> port > 65535 then False
               else
                 (case ParseAddr host of
                    None \<Rightarrow> False
                  | Some ip \<Rightarrow>
                      let ip = Unmap ip in
                      \<not> IsLoopback ip \<and>
                      \<not> (IsLinkLocalUnicast ip \<or> IsLinkLocalMulticast ip \<or> IsMulticast ip) \<and>
                      \<not> IsUnspecified ip \<and> \<not> Contains agentBlock ip \<and> \<not> Contains tailnetBlock ip)))"

subsection \<open>Candidates\<close>

record candidate =
  cd_Endpoint :: string
  cd_Source :: string

definition SourceLocal :: string where "SourceLocal = ''local''"
definition SourcePublic :: string where "SourcePublic = ''public''"
definition SourceObserved :: string where "SourceObserved = ''observed''"
definition SourceRoamed :: string where "SourceRoamed = ''roamed''"

definition source_rank :: "string \<Rightarrow> nat" where
  "source_rank s =
     (if s = SourceRoamed then 0 else if s = SourceLocal then 1 else if s = SourcePublic then 2
      else if s = SourceObserved then 3 else 4)"

definition Why :: "string \<Rightarrow> string" where
  "Why s =
     (if s = SourceRoamed then ''the address its own packets last arrived from''
      else if s = SourceLocal then ''a private address it shares a segment with us on''
      else if s = SourcePublic then ''the public endpoint it declares''
      else if s = SourceObserved then ''the endpoint a Whisper box saw it arrive from''
      else ''an endpoint the control plane offered'')"

definition maxPunchCandidates :: nat where "maxPunchCandidates = 8"

text \<open>One turn of the loop: an endpoint seen before may improve its source, a new one is added.\<close>

definition add_candidate :: "candidate list \<Rightarrow> candidate \<Rightarrow> candidate list" where
  "add_candidate out c =
     (let ep = trim_space (cd_Endpoint c); src = (if cd_Source c = [] then SourcePublic else cd_Source c) in
      if ep = [] \<or> \<not> checkUnderlayEndpoint ep then out
      else if ep \<in> set (map cd_Endpoint out) then
        map (\<lambda>o'. if cd_Endpoint o' = ep \<and> source_rank src < source_rank (cd_Source o') then o'\<lparr>cd_Source := src\<rparr> else o') out
      else out @ [\<lparr>cd_Endpoint = ep, cd_Source = src\<rparr>])"

definition ParseCandidates :: "candidate list \<Rightarrow> candidate list option" where
  "ParseCandidates ins =
     (let out = foldl add_candidate [] ins in
      if out = [] then None
      else Some (take maxPunchCandidates (sort_key (\<lambda>c. source_rank (cd_Source c)) out)))"

subsection \<open>Peers\<close>

record wg_peer =
  pr_Address :: ip_addr
  pr_PublicKeyHex :: string
  pr_Endpoint :: string
  pr_Name :: string
  pr_Path :: string
  pr_Candidates :: "candidate list"

definition keyBase64ToHex :: "string \<Rightarrow> string option" where
  "keyBase64ToHex b64 =
     (case b64_decode (trim_space b64) of
        None \<Rightarrow> None
      | Some raw \<Rightarrow> if length raw \<noteq> 32 then None else Some (hex_encode raw))"

definition candidateList :: "wg_peer \<Rightarrow> candidate list" where
  "candidateList p =
     (if pr_Candidates p \<noteq> [] then pr_Candidates p
      else if trim_space (pr_Endpoint p) = [] then []
      else [\<lparr>cd_Endpoint = pr_Endpoint p, cd_Source = SourcePublic\<rparr>])"

definition sameCandidates :: "wg_peer \<Rightarrow> wg_peer \<Rightarrow> bool" where
  "sameCandidates a b \<longleftrightarrow> candidateList a = candidateList b"

definition ParsePeerCandidates :: "string \<Rightarrow> candidate list \<Rightarrow> string \<Rightarrow> string \<Rightarrow> string \<Rightarrow> wg_peer option" where
  "ParsePeerCandidates publicKeyB64 cands allowedIP name path =
     (case keyBase64ToHex publicKeyB64 of
        None \<Rightarrow> None
      | Some keyHex \<Rightarrow>
          (case map_option Unmap (ParseAddr (trim_space (trim_chars ''[]'' allowedIP))) of
             None \<Rightarrow> None
           | Some addr \<Rightarrow>
               if \<not> Is6 addr \<or> \<not> Contains agentBlock addr then None
               else if length cands = 1 \<and> \<not> checkUnderlayEndpoint (cd_Endpoint (hd cands)) then None
               else
                 (case ParseCandidates cands of
                    None \<Rightarrow> None
                  | Some ordered \<Rightarrow>
                      Some \<lparr>pr_Address = addr, pr_PublicKeyHex = keyHex, pr_Endpoint = cd_Endpoint (hd ordered),
                        pr_Name = trim_space name, pr_Path = trim_space path, pr_Candidates = ordered\<rparr>)))"

definition ParsePeer :: "string \<Rightarrow> string \<Rightarrow> string \<Rightarrow> string \<Rightarrow> string \<Rightarrow> wg_peer option" where
  "ParsePeer publicKeyB64 endpoint allowedIP name path =
     ParsePeerCandidates publicKeyB64 [\<lparr>cd_Endpoint = endpoint, cd_Source = []\<rparr>] allowedIP name path"

subsection \<open>A train of attempts\<close>

definition punchPeriod :: int where "punchPeriod = 5 * Second"
definition punchTrainAttempts :: nat where "punchTrainAttempts = 12"

record punch_train =
  pt_cands :: "candidate list"
  pt_next :: nat
  pt_attempts :: nat
  pt_trains :: nat
  pt_gaveUp :: bool
  pt_startedAt :: int
  pt_lastAt :: int
  pt_lastEP :: string
  pt_winner :: candidate
  pt_won :: bool

definition no_candidate :: candidate where "no_candidate = \<lparr>cd_Endpoint = [], cd_Source = []\<rparr>"

definition newPunchTrain :: "candidate list \<Rightarrow> int \<Rightarrow> punch_train" where
  "newPunchTrain cands now =
     \<lparr>pt_cands = cands, pt_next = 0, pt_attempts = 0, pt_trains = 1, pt_gaveUp = False, pt_startedAt = now,
      pt_lastAt = zeroTime, pt_lastEP = [], pt_winner = no_candidate, pt_won = False\<rparr>"

text \<open>The candidate to aim at when another attempt is owed.\<close>

definition due :: "int \<Rightarrow> int \<Rightarrow> punch_train \<Rightarrow> candidate option \<times> punch_train" where
  "due now period tr =
     (if pt_cands tr = [] \<or> pt_gaveUp tr then (None, tr)
      else if pt_attempts tr \<ge> punchTrainAttempts then (None, tr\<lparr>pt_gaveUp := True\<rparr>)
      else
        (let period = (if period \<le> 0 then punchPeriod else period) in
         if pt_lastAt tr \<noteq> zeroTime \<and> time_sub now (pt_lastAt tr) < period - period div 10 then (None, tr)
         else
           (let c = pt_cands tr ! (pt_next tr mod length (pt_cands tr)) in
            (Some c, tr\<lparr>pt_next := pt_next tr + 1, pt_attempts := pt_attempts tr + 1, pt_lastAt := now,
               pt_lastEP := cd_Endpoint c\<rparr>))))"

fun index_endpoint :: "string \<Rightarrow> nat \<Rightarrow> candidate list \<Rightarrow> nat option" where
  "index_endpoint ep i [] = None"
| "index_endpoint ep i (c # cs) = (if cd_Endpoint c = ep then Some i else index_endpoint ep (i + 1) cs)"

definition restart :: "int \<Rightarrow> candidate \<Rightarrow> punch_train \<Rightarrow> punch_train" where
  "restart now first tr =
     (let tr = tr\<lparr>pt_attempts := 0, pt_gaveUp := False, pt_startedAt := now, pt_lastAt := zeroTime,
            pt_trains := pt_trains tr + 1, pt_next := 0\<rparr>
      in
        if cd_Endpoint first = [] then tr
        else
          (case index_endpoint (cd_Endpoint first) 0 (pt_cands tr) of
             None \<Rightarrow> tr
           | Some i \<Rightarrow> tr\<lparr>pt_next := i\<rparr>))"

definition adopt :: "candidate list \<Rightarrow> punch_train \<Rightarrow> punch_train" where
  "adopt cands tr =
     (if cands = [] then tr
      else tr\<lparr>pt_cands := cands, pt_next := (if pt_next tr \<ge> length cands then 0 else pt_next tr)\<rparr>)"

definition spent_train :: "punch_train \<Rightarrow> bool" where
  "spent_train tr \<longleftrightarrow> pt_gaveUp tr \<or> pt_cands tr = []"

definition PunchIdle :: string where "PunchIdle = ''idle''"
definition PunchTrying :: string where "PunchTrying = ''punching''"
definition PunchEstablished :: string where "PunchEstablished = ''established''"
definition PunchGaveUp :: string where "PunchGaveUp = ''gave-up''"

record punch_info =
  pi_Phase :: string
  pi_Attempts :: nat
  pi_Trains :: nat
  pi_Candidates :: nat
  pi_Trying :: string
  pi_Winner :: string
  pi_WinnerSource :: string
  pi_Since :: int

definition punch_info_of :: "bool \<Rightarrow> punch_train \<Rightarrow> punch_info" where
  "punch_info_of promoted tr =
     \<lparr>pi_Phase =
        (if promoted then PunchEstablished else if pt_cands tr = [] then PunchIdle
         else if pt_gaveUp tr then PunchGaveUp else PunchTrying),
      pi_Attempts = pt_attempts tr, pi_Trains = pt_trains tr, pi_Candidates = length (pt_cands tr),
      pi_Trying = pt_lastEP tr,
      pi_Winner = (if pt_won tr then cd_Endpoint (pt_winner tr) else []),
      pi_WinnerSource = (if pt_won tr then cd_Source (pt_winner tr) else []),
      pi_Since = pt_startedAt tr\<rparr>"

definition Established :: "punch_info \<Rightarrow> bool" where
  "Established i \<longleftrightarrow> pi_Phase i = PunchEstablished"

subsection \<open>What the device is told\<close>

definition nl :: string where "nl = [CHR 0x0A]"

definition directKeepalive :: nat where "directKeepalive = 5"

definition punchDoc :: "wg_peer \<Rightarrow> candidate \<Rightarrow> string" where
  "punchDoc p c =
     ''public_key='' @ pr_PublicKeyHex p @ nl @ ''update_only=true'' @ nl @ ''endpoint='' @ cd_Endpoint c @ nl @
     ''persistent_keepalive_interval=0'' @ nl @ ''persistent_keepalive_interval='' @ dec_nat directKeepalive @ nl"

text \<open>One peer's endpoint in a dump of the device.\<close>

fun endpoint_scan :: "string \<Rightarrow> bool \<Rightarrow> string list \<Rightarrow> string" where
  "endpoint_scan keyHex inPeer [] = []"
| "endpoint_scan keyHex inPeer (line # ls) =
     (case cut_at (CHR ''='') line of
        None \<Rightarrow> endpoint_scan keyHex inPeer ls
      | Some (k, v) \<Rightarrow>
          if k = ''public_key'' then endpoint_scan keyHex (trim_space v = keyHex) ls
          else if k = ''endpoint'' \<and> inPeer then trim_space v
          else endpoint_scan keyHex inPeer ls)"

definition endpointFromDump :: "string \<Rightarrow> string \<Rightarrow> string" where
  "endpointFromDump dump keyHex = endpoint_scan keyHex False (split_on (CHR 0x0A) dump)"

end
