(* ===== verification/WgConfig.thy ===== *)
theory WgConfig
  imports WgPunch WgNat64
begin

text \<open>
  \<open>internal/wgtun/config.go\<close>, \<open>endpoints.go\<close>, \<open>shared.go\<close> and the part of \<open>device.go\<close> that writes
  the configuration of the device: how the answer of the control plane becomes the document the
  device is given, and which endpoints this host declares. Interfaces of the host and the
  resolution of names are arguments; the zero \<open>Addr\<close> and the zero \<open>Prefix\<close> are \<open>None\<close>.
\<close>

subsection \<open>Reading a wg-quick configuration\<close>

definition wg_line :: "(string \<rightharpoonup> string) \<Rightarrow> string \<Rightarrow> (string \<rightharpoonup> string)" where
  "wg_line out line =
     (let line = trim_space line in
      if line = [] \<or> prefix ''#'' line \<or> prefix ''['' line then out
      else
        (case cut_at (CHR ''='') line of
           None \<Rightarrow> out
         | Some (k, v) \<Rightarrow> out(trim_space k \<mapsto> trim_space v)))"

definition parseWgQuick :: "string \<Rightarrow> (string \<rightharpoonup> string)" where
  "parseWgQuick blob = foldl wg_line Map.empty (split_on (CHR 0x0A) blob)"

definition wg_get :: "(string \<rightharpoonup> string) \<Rightarrow> string \<Rightarrow> string" where
  "wg_get m k = (case m k of None \<Rightarrow> [] | Some v \<Rightarrow> v)"

definition stripPrefixLen :: "string \<Rightarrow> string" where
  "stripPrefixLen s = (case cut_at (CHR ''/'') s of Some (a, _) \<Rightarrow> trim_space a | None \<Rightarrow> trim_space s)"

definition upto_char :: "char \<Rightarrow> string \<Rightarrow> string" where
  "upto_char c s = (case cut_at c s of Some (a, _) \<Rightarrow> a | None \<Rightarrow> s)"

definition firstField :: "string \<Rightarrow> string" where
  "firstField s = trim_space (upto_char (CHR '' '') (upto_char (CHR '','') (trim_space s)))"

fun firstNonEmpty :: "string list \<Rightarrow> string" where
  "firstNonEmpty [] = []"
| "firstNonEmpty (v # vs) = (if trim_space v \<noteq> [] then trim_space v else firstNonEmpty vs)"

text \<open>\<open>strings.FieldsFunc\<close>.\<close>

fun fields_func :: "(char \<Rightarrow> bool) \<Rightarrow> string \<Rightarrow> string \<Rightarrow> string list" where
  "fields_func sep cur [] = (if cur = [] then [] else [cur])"
| "fields_func sep cur (c # s) =
     (if sep c then (if cur = [] then fields_func sep [] s else cur # fields_func sep [] s)
      else fields_func sep (cur @ [c]) s)"

definition add_servers :: "ip_addr list \<Rightarrow> string \<Rightarrow> ip_addr list" where
  "add_servers out list =
     foldl (\<lambda>out f. case ParseAddr (trim_space f) of
              None \<Rightarrow> out
            | Some a \<Rightarrow> if a \<in> set out then out else out @ [a])
       out (fields_func (\<lambda>r. r = CHR '','' \<or> r = CHR '' '' \<or> r = CHR 0x09) [] list)"

definition DNSServers :: "string \<Rightarrow> string \<Rightarrow> ip_addr list" where
  "DNSServers dns wgQuick = add_servers (add_servers [] dns) (wg_get (parseWgQuick wgQuick) ''DNS'')"

subsection \<open>The configuration\<close>

record wg_config =
  wc_PrivateKeyHex :: string
  wc_ServerPublicKeyHex :: string
  wc_Endpoint :: string
  wc_Address :: "ip_addr option"
  wc_DNS :: "ip_addr option"
  wc_Keepalive :: int
  wc_NAT64Prefix :: "ip_prefix option"
  wc_ListenPort :: int
  wc_Peers :: "wg_peer list"
  wc_MTU :: int

text \<open>The key of the server: the structured field, or else the blob; none at all is empty.\<close>

definition server_key :: "string \<Rightarrow> (string \<rightharpoonup> string) \<Rightarrow> string option" where
  "server_key serverPubB64 pq =
     (if trim_space serverPubB64 \<noteq> [] then keyBase64ToHex (trim_space serverPubB64)
      else if wg_get pq ''PublicKey'' \<noteq> [] then keyBase64ToHex (wg_get pq ''PublicKey'')
      else Some [])"

definition FromWgQuick ::
    "string \<Rightarrow> string \<Rightarrow> string \<Rightarrow> string \<Rightarrow> string \<Rightarrow> string \<Rightarrow> string \<Rightarrow> wg_config option" where
  "FromWgQuick serverPubB64 endpoint address dns nat64Prefix wgQuick privKeyHex =
     (let pq = parseWgQuick wgQuick in
      case server_key serverPubB64 pq of
        None \<Rightarrow> None
      | Some hexKey \<Rightarrow>
          Some \<lparr>wc_PrivateKeyHex = trim_space privKeyHex, wc_ServerPublicKeyHex = hexKey,
            wc_Endpoint = firstNonEmpty [trim_space endpoint, wg_get pq ''Endpoint''],
            wc_Address = ParseAddr (firstNonEmpty [trim_space address, stripPrefixLen (wg_get pq ''Address'')]),
            wc_DNS = ParseAddr (firstNonEmpty [trim_space dns, firstField (wg_get pq ''DNS'')]),
            wc_Keepalive =
              (let k = wg_get pq ''PersistentKeepalive'' in
               if k = [] then 0 else (case parse_int (trim_space k) of Some n \<Rightarrow> n | None \<Rightarrow> 0)),
            wc_NAT64Prefix = (case ParseNAT64Prefix nat64Prefix of Inr p \<Rightarrow> Some p | Inl _ \<Rightarrow> None),
            wc_ListenPort = 0, wc_Peers = [], wc_MTU = 0\<rparr>)"

definition PrivateKeyBase64ToHex :: "string \<Rightarrow> string option" where
  "PrivateKeyBase64ToHex b64 = keyBase64ToHex b64"

definition validate_config :: "wg_config \<Rightarrow> bool" where
  "validate_config c \<longleftrightarrow>
     trim_space (wc_PrivateKeyHex c) \<noteq> [] \<and> trim_space (wc_ServerPublicKeyHex c) \<noteq> [] \<and>
     trim_space (wc_Endpoint c) \<noteq> [] \<and> wc_Address c \<noteq> None"

subsection \<open>The document of the device\<close>

definition boxDefaultRoute :: "ip_addr option \<Rightarrow> string" where
  "boxDefaultRoute addr = (case addr of Some a \<Rightarrow> if Is4 a then ''0.0.0.0/0'' else ''::/0'' | None \<Rightarrow> ''::/0'')"

definition peer_lines :: "string \<Rightarrow> wg_peer \<Rightarrow> string" where
  "peer_lines server p =
     (if pr_PublicKeyHex p = [] \<or> pr_PublicKeyHex p = server then []
      else
        ''public_key='' @ pr_PublicKeyHex p @ nl @ ''endpoint='' @ pr_Endpoint p @ nl @
        ''persistent_keepalive_interval='' @ dec_nat directKeepalive @ nl)"

definition uapiConfig :: "wg_config \<Rightarrow> string" where
  "uapiConfig cfg =
     (let keepalive = (if wc_Keepalive cfg \<le> 0 then 25 else wc_Keepalive cfg) in
      ''private_key='' @ wc_PrivateKeyHex cfg @ nl @
      (if wc_ListenPort cfg > 0 then ''listen_port='' @ format_int (wc_ListenPort cfg) @ nl else []) @
      ''public_key='' @ wc_ServerPublicKeyHex cfg @ nl @ ''endpoint='' @ wc_Endpoint cfg @ nl @
      ''allowed_ip='' @ boxDefaultRoute (wc_Address cfg) @ nl @
      ''persistent_keepalive_interval='' @ format_int keepalive @ nl @
      concat (map (peer_lines (wc_ServerPublicKeyHex cfg)) (wc_Peers cfg)))"

definition endpointDoc :: "string \<Rightarrow> string \<Rightarrow> string" where
  "endpointDoc server endpoint =
     ''public_key='' @ server @ nl @ ''update_only=true'' @ nl @ ''endpoint='' @ endpoint @ nl"

subsection \<open>Endpoints of this host\<close>

record net_iface =
  if_up :: bool
  if_loopback :: bool
  if_addrs :: "bytes list option"

definition maxDeclaredEndpoints :: nat where "maxDeclaredEndpoints = 8"

definition declarable :: "ip_addr \<Rightarrow> bool" where
  "declarable ip \<longleftrightarrow>
     \<not> (IsLoopback ip \<or> IsUnspecified ip \<or> IsLinkLocalUnicast ip \<or> IsLinkLocalMulticast ip \<or> IsMulticast ip) \<and>
     \<not> (Contains agentBlock ip \<or> Contains tailnetBlock ip) \<and> IsPrivate ip"

text \<open>The addresses of an interface, those that are networks; the flag says that the list is full.\<close>

fun declare_addrs :: "int \<Rightarrow> string list \<Rightarrow> bytes list \<Rightarrow> string list \<times> bool" where
  "declare_addrs port out [] = (out, False)"
| "declare_addrs port out (b # bs) =
     (case map_option Unmap (AddrFromSlice b) of
        None \<Rightarrow> declare_addrs port out bs
      | Some ip \<Rightarrow>
          if \<not> declarable ip then declare_addrs port out bs
          else
            (let ep = JoinHostPort (addr_String ip) (format_int port);
                 out = (if ep \<in> set out then out else out @ [ep])
             in if length out \<ge> maxDeclaredEndpoints then (out, True) else declare_addrs port out bs))"

fun declare_ifaces :: "int \<Rightarrow> string list \<Rightarrow> net_iface list \<Rightarrow> string list" where
  "declare_ifaces port out [] = out"
| "declare_ifaces port out (i # is) =
     (if \<not> if_up i \<or> if_loopback i then declare_ifaces port out is
      else
        (case if_addrs i of
           None \<Rightarrow> declare_ifaces port out is
         | Some as \<Rightarrow>
             (case declare_addrs port out as of
                (out, True) \<Rightarrow> out
              | (out, False) \<Rightarrow> declare_ifaces port out is)))"

definition LocalUnderlayEndpoints :: "net_iface list option \<Rightarrow> int \<Rightarrow> string list" where
  "LocalUnderlayEndpoints ifaces listenPort =
     (if listenPort < 1 \<or> listenPort > 65535 then []
      else (case ifaces of None \<Rightarrow> [] | Some is \<Rightarrow> declare_ifaces listenPort [] is))"

subsection \<open>Documents by their lines\<close>

text \<open>A field that is part of one line.\<close>

definition plain :: "string \<Rightarrow> bool" where
  "plain s \<longleftrightarrow> CHR 0x0A \<notin> set s"

lemma plain_append [simp]: "plain (a @ b) \<longleftrightarrow> plain a \<and> plain b"
  by (auto simp: plain_def)

lemma plain_cons [simp]: "plain (c # s) \<longleftrightarrow> c \<noteq> CHR 0x0A \<and> plain s" and plain_nil [simp]: "plain []"
  by (auto simp: plain_def)

lemma split_lines:
  "list_all plain ls \<Longrightarrow> split_on (CHR 0x0A) (concat (map (\<lambda>l. l @ nl) ls)) = ls @ [[]]"
  by (induction ls) (simp_all add: nl_def plain_def split_on_append)

lemma plain_digits: "list_all is_digit s \<Longrightarrow> plain s"
proof -
  have "\<not> is_digit (CHR 0x0A)" by code_simp
  then show "list_all is_digit s \<Longrightarrow> plain s" by (auto simp: plain_def list_all_iff)
qed

lemma plain_dec_nat [simp]: "plain (dec_nat n)" and plain_format_int [simp]: "plain (format_int x)"
  by (simp_all add: plain_digits format_int_def)

lemma plain_boxDefaultRoute [simp]: "plain (boxDefaultRoute a)"
  by (simp add: boxDefaultRoute_def split: option.split)

lemma plain_lower_hex: "list_all is_lower_hex s \<Longrightarrow> plain s"
proof -
  have "\<not> is_lower_hex (CHR 0x0A)" by code_simp
  then show "list_all is_lower_hex s \<Longrightarrow> plain s" by (auto simp: plain_def list_all_iff)
qed

text \<open>The lines of the document of a configuration.\<close>

definition row_lines :: "string \<Rightarrow> wg_peer \<Rightarrow> string list" where
  "row_lines server p =
     (if pr_PublicKeyHex p = [] \<or> pr_PublicKeyHex p = server then []
      else [''public_key='' @ pr_PublicKeyHex p, ''endpoint='' @ pr_Endpoint p,
        ''persistent_keepalive_interval='' @ dec_nat directKeepalive])"

definition config_lines :: "wg_config \<Rightarrow> string list" where
  "config_lines cfg =
     [''private_key='' @ wc_PrivateKeyHex cfg] @
     (if wc_ListenPort cfg > 0 then [''listen_port='' @ format_int (wc_ListenPort cfg)] else []) @
     [''public_key='' @ wc_ServerPublicKeyHex cfg, ''endpoint='' @ wc_Endpoint cfg,
      ''allowed_ip='' @ boxDefaultRoute (wc_Address cfg),
      ''persistent_keepalive_interval='' @ format_int (if wc_Keepalive cfg \<le> 0 then 25 else wc_Keepalive cfg)] @
     concat (map (row_lines (wc_ServerPublicKeyHex cfg)) (wc_Peers cfg))"

definition plain_config :: "wg_config \<Rightarrow> bool" where
  "plain_config cfg \<longleftrightarrow>
     plain (wc_PrivateKeyHex cfg) \<and> plain (wc_ServerPublicKeyHex cfg) \<and> plain (wc_Endpoint cfg) \<and>
     (\<forall>p \<in> set (wc_Peers cfg). plain (pr_PublicKeyHex p) \<and> plain (pr_Endpoint p))"

lemma uapiConfig_lines: "uapiConfig cfg = concat (map (\<lambda>l. l @ nl) (config_lines cfg))"
proof -
  have "concat (map (peer_lines k) ps) = concat (map (\<lambda>l. l @ nl) (concat (map (row_lines k) ps)))" for k ps
    by (induction ps) (simp_all add: peer_lines_def row_lines_def)
  then show ?thesis by (simp add: uapiConfig_def config_lines_def Let_def)
qed

lemma config_lines_plain: "plain_config cfg \<Longrightarrow> list_all plain (config_lines cfg)"
  by (auto simp: plain_config_def config_lines_def list_all_iff row_lines_def split: if_splits)

lemma uapiConfig_split: "plain_config cfg \<Longrightarrow> split_on (CHR 0x0A) (uapiConfig cfg) = config_lines cfg @ [[]]"
  using split_lines [OF config_lines_plain] by (simp add: uapiConfig_lines)

end
