(* ===== verification/WgPeers.thy ===== *)
theory WgPeers
  imports WgConfig "HOL-Library.Finite_Map"
begin

text \<open>
  \<open>internal/wgtun/peers.go\<close> and the reading of the device in \<open>health.go\<close>: the direct peers of a
  tunnel, and when one of them is handed its address. The device is given documents and answers
  them as it likes, and is asked for a dump; both depend on the documents it was given. The
  order a map is walked in is an argument. The lines told to the operator are left out, and so
  is the file the paths are published to.
\<close>

definition directDeadAfter :: int where "directDeadAfter = 20 * Second"
definition directRearmAfter :: int where "directRearmAfter = 2 * Minute"

definition orDur :: "int \<Rightarrow> int \<Rightarrow> int" where
  "orDur v def = (if v \<le> 0 then def else v)"

definition orText :: "string \<Rightarrow> string \<Rightarrow> string" where
  "orText v def = (if trim_space v = [] then def else v)"

definition peerLabel :: "wg_peer \<Rightarrow> string" where
  "peerLabel p = (if pr_Name p \<noteq> [] then pr_Name p else addr_String (pr_Address p))"

subsection \<open>The state\<close>

record direct_peer =
  dp_peer :: wg_peer
  dp_promoted :: bool
  dp_lastSeen :: int
  dp_lastHS :: int
  dp_rx :: nat
  dp_armedAt :: int
  dp_demotes :: nat
  dp_punch :: punch_train

record tunnel =
  tu_server :: string
  tu_dead :: int
  tu_rearm :: int
  tu_punchEvery :: int
  tu_direct :: "(string, direct_peer) fmap"
  tu_writes :: "string list"

record wg_device =
  dv_set :: "string list \<Rightarrow> string \<Rightarrow> bool"
  dv_get :: "string list \<Rightarrow> string option"

definition IpcSet :: "wg_device \<Rightarrow> string \<Rightarrow> tunnel \<Rightarrow> bool \<times> tunnel" where
  "IpcSet dev doc t = (dv_set dev (tu_writes t) doc, t\<lparr>tu_writes := tu_writes t @ [doc]\<rparr>)"

subsection \<open>What the device is told\<close>

definition removeDoc :: "string \<Rightarrow> string" where
  "removeDoc key = ''public_key='' @ key @ nl @ ''remove=true'' @ nl"

definition armDoc :: "wg_peer \<Rightarrow> string" where
  "armDoc p =
     (let cands = candidateList p;
          endpoint = (if cands = [] then pr_Endpoint p else cd_Endpoint (hd cands))
      in
        ''public_key='' @ pr_PublicKeyHex p @ nl @ ''endpoint='' @ endpoint @ nl @ ''replace_allowed_ips=true'' @ nl @
        ''persistent_keepalive_interval=0'' @ nl @ ''persistent_keepalive_interval='' @ dec_nat directKeepalive @ nl)"

definition promoteDoc :: "wg_peer \<Rightarrow> string" where
  "promoteDoc p =
     ''public_key='' @ pr_PublicKeyHex p @ nl @ ''update_only=true'' @ nl @ ''replace_allowed_ips=true'' @ nl @
     ''allowed_ip='' @ addr_String (pr_Address p) @ ''/128'' @ nl"

definition demoteDoc :: "wg_peer \<Rightarrow> string" where
  "demoteDoc p =
     ''public_key='' @ pr_PublicKeyHex p @ nl @ ''update_only=true'' @ nl @ ''replace_allowed_ips=true'' @ nl"

subsection \<open>Installing the peers of the control plane\<close>

definition wanted_peers :: "string \<Rightarrow> wg_peer list \<Rightarrow> (string, wg_peer) fmap" where
  "wanted_peers server peers =
     foldl (\<lambda>m p. if pr_PublicKeyHex p = [] \<or> pr_PublicKeyHex p = server then m else fmupd (pr_PublicKeyHex p) p m)
       fmempty peers"

text \<open>What a row changes of a peer that is left alone.\<close>

definition refresh_peer :: "wg_peer \<Rightarrow> direct_peer \<Rightarrow> direct_peer" where
  "refresh_peer nxt cur =
     cur\<lparr>dp_peer := (dp_peer cur)\<lparr>pr_Name := pr_Name nxt, pr_Path := pr_Path nxt, pr_Candidates := candidateList nxt\<rparr>,
         dp_punch := adopt (candidateList nxt) (dp_punch cur)\<rparr>"

text \<open>The walk over the peers held: those to remove, those to arm anew, and the map it leaves.\<close>

fun compare_direct ::
    "(string, wg_peer) fmap \<Rightarrow> string list \<Rightarrow> (string, direct_peer) fmap \<Rightarrow> string list \<times> wg_peer list \<times> (string, direct_peer) fmap" where
  "compare_direct wanted [] direct = ([], [], direct)"
| "compare_direct wanted (key # ks) direct =
     (case fmlookup direct key of
        None \<Rightarrow> compare_direct wanted ks direct
      | Some cur \<Rightarrow>
          (case fmlookup wanted key of
             None \<Rightarrow> (let (rm, arm, d) = compare_direct wanted ks direct in (key # rm, arm, d))
           | Some nxt \<Rightarrow>
               if pr_Address nxt \<noteq> pr_Address (dp_peer cur) \<or>
                  \<not> dp_promoted cur \<and> \<not> sameCandidates nxt (dp_peer cur) then
                 (let (rm, arm, d) = compare_direct wanted ks (fmdrop key direct) in (rm, nxt # arm, d))
               else compare_direct wanted ks (fmupd key (refresh_peer nxt cur) direct)))"

fun remove_peers :: "wg_device \<Rightarrow> string list \<Rightarrow> bool \<Rightarrow> tunnel \<Rightarrow> bool \<times> tunnel" where
  "remove_peers dev [] ok t = (ok, t)"
| "remove_peers dev (key # ks) ok t =
     (let (w, t) = IpcSet dev (removeDoc key) t in remove_peers dev ks (ok \<and> w) t)"

definition new_direct :: "wg_peer \<Rightarrow> int \<Rightarrow> direct_peer" where
  "new_direct p now =
     \<lparr>dp_peer = p, dp_promoted = False, dp_lastSeen = zeroTime, dp_lastHS = zeroTime, dp_rx = 0, dp_armedAt = now,
      dp_demotes = 0, dp_punch = newPunchTrain (candidateList p) now\<rparr>"

fun arm_peers :: "wg_device \<Rightarrow> int \<Rightarrow> wg_peer list \<Rightarrow> bool \<Rightarrow> tunnel \<Rightarrow> bool \<times> tunnel" where
  "arm_peers dev now [] ok t = (ok, t)"
| "arm_peers dev now (p # ps) ok t =
     (let (w, t) = IpcSet dev (armDoc p) t in
      if \<not> w then
        (let (_, t) = IpcSet dev (removeDoc (pr_PublicKeyHex p)) t in arm_peers dev now ps False t)
      else
        arm_peers dev now ps ok (t\<lparr>tu_direct := fmupd (pr_PublicKeyHex p) (new_direct p now) (tu_direct t)\<rparr>))"

text \<open>
  The map of the peers held is walked in the order \<open>ks\<close>, that of the wanted ones in the order \<open>ws\<close>;
  a peer that is armed anew is met by both walks. The result is whether no write failed.
\<close>

definition SetDirectPeers ::
    "wg_device \<Rightarrow> int \<Rightarrow> string list \<Rightarrow> string list \<Rightarrow> wg_peer list \<Rightarrow> tunnel \<Rightarrow> bool \<times> tunnel" where
  "SetDirectPeers dev now ks ws peers t =
     (let wanted = wanted_peers (tu_server t) peers;
          (rm, again, direct) = compare_direct wanted ks (tu_direct t);
          direct = foldl (\<lambda>d key. fmdrop key d) direct rm;
          new = List.map_filter (\<lambda>key. if fmlookup direct key = None then fmlookup wanted key else None) ws;
          (ok, t) = remove_peers dev rm True (t\<lparr>tu_direct := direct\<rparr>)
      in arm_peers dev now (again @ new) ok t)"

definition refreshPeersOnce ::
    "wg_device \<Rightarrow> int \<Rightarrow> string list \<Rightarrow> string list \<Rightarrow> wg_peer list option \<Rightarrow> tunnel \<Rightarrow> tunnel" where
  "refreshPeersOnce dev now ks ws src t =
     (case src of None \<Rightarrow> t | Some peers \<Rightarrow> snd (SetDirectPeers dev now ks ws peers t))"

subsection \<open>Starting\<close>

record wg_options =
  op_DirectDeadAfter :: int
  op_DirectRearmAfter :: int
  op_PunchEvery :: int

text \<open>The peers known at bring-up, which the configuration has just armed.\<close>

definition start_direct :: "string \<Rightarrow> int \<Rightarrow> wg_peer list \<Rightarrow> (string, direct_peer) fmap" where
  "start_direct server now peers =
     foldl (\<lambda>D p. if pr_PublicKeyHex p = [] \<or> pr_PublicKeyHex p = server then D
                 else fmupd (pr_PublicKeyHex p) (new_direct p now) D) fmempty peers"

text \<open>
  The configuration a device takes, once more without the pinned port when it refuses the first;
  \<open>up\<close> says whether it then comes up.
\<close>

definition Start ::
    "(string \<Rightarrow> string option) \<Rightarrow> wg_device \<Rightarrow> bool \<Rightarrow> int \<Rightarrow> wg_config \<Rightarrow> wg_options \<Rightarrow> (wg_config \<times> tunnel) option" where
  "Start resolve dev up now cfg opts =
     (if \<not> validate_config cfg then None
      else
        (case resolve (wc_Endpoint cfg) of
           None \<Rightarrow> None
         | Some ep \<Rightarrow>
             (let cfg = cfg\<lparr>wc_Endpoint := ep\<rparr>;
                  t = \<lparr>tu_server = wc_ServerPublicKeyHex cfg, tu_dead = orDur (op_DirectDeadAfter opts) directDeadAfter,
                       tu_rearm = orDur (op_DirectRearmAfter opts) directRearmAfter,
                       tu_punchEvery = orDur (op_PunchEvery opts) punchPeriod, tu_direct = fmempty, tu_writes = []\<rparr>;
                  (ok, t) = IpcSet dev (uapiConfig cfg) t;
                  retry = (\<not> ok \<and> wc_ListenPort cfg > 0);
                  cfg = (if retry then cfg\<lparr>wc_ListenPort := 0\<rparr> else cfg);
                  (ok, t) = (if retry then IpcSet dev (uapiConfig cfg) t else (ok, t))
              in if \<not> ok \<or> \<not> up then None
                 else Some (cfg, t\<lparr>tu_direct := start_direct (wc_ServerPublicKeyHex cfg) now (wc_Peers cfg)\<rparr>))))"

text \<open>A reconnect points the peer of the box at its endpoint again.\<close>

definition setPeerEndpoint :: "wg_device \<Rightarrow> string \<Rightarrow> tunnel \<Rightarrow> bool \<times> tunnel" where
  "setPeerEndpoint dev endpoint t = IpcSet dev (endpointDoc (tu_server t) endpoint) t"

subsection \<open>Promotion and demotion\<close>

datatype peer_action = Promote wg_peer | Demote wg_peer | Punch wg_peer candidate

definition observe :: "int \<Rightarrow> int option \<Rightarrow> nat option \<Rightarrow> direct_peer \<Rightarrow> direct_peer" where
  "observe now hs rx d =
     (let d = (case hs of
                 Some h \<Rightarrow> if h > dp_lastHS d then d\<lparr>dp_lastHS := h, dp_lastSeen := now\<rparr> else d
               | None \<Rightarrow> d)
      in
        case rx of
          Some n \<Rightarrow>
            if n > dp_rx d then (if dp_promoted d then d\<lparr>dp_rx := n, dp_lastSeen := now\<rparr> else d\<lparr>dp_rx := n\<rparr>) else d
        | None \<Rightarrow> d)"

definition fresh :: "tunnel \<Rightarrow> int \<Rightarrow> direct_peer \<Rightarrow> bool" where
  "fresh t now d \<longleftrightarrow> dp_lastSeen d \<noteq> zeroTime \<and> time_sub now (dp_lastSeen d) < orDur (tu_dead t) directDeadAfter"

definition decide_peer :: "tunnel \<Rightarrow> int \<Rightarrow> int option \<Rightarrow> nat option \<Rightarrow> direct_peer \<Rightarrow> peer_action list \<times> direct_peer" where
  "decide_peer t now hs rx d =
     (let d = observe now hs rx d in
      if fresh t now d then
        (if dp_promoted d then ([], d) else ([Promote (dp_peer d)], d\<lparr>dp_promoted := True\<rparr>))
      else if dp_promoted d then
        ([Demote (dp_peer d)],
         d\<lparr>dp_promoted := False, dp_demotes := dp_demotes d + 1, dp_armedAt := now,
           dp_punch := restart now (pt_winner (dp_punch d)) (dp_punch d)\<rparr>)
      else
        (let tr = (if spent_train (dp_punch d) \<and> time_sub now (dp_armedAt d) > orDur (tu_rearm t) directRearmAfter then
                     restart now (pt_winner (dp_punch d)) (dp_punch d) else dp_punch d)
         in
           case due now (tu_punchEvery t) tr of
             (Some c, tr) \<Rightarrow> ([Punch (dp_peer d) c], d\<lparr>dp_punch := tr, dp_armedAt := now\<rparr>)
           | (None, tr) \<Rightarrow> ([], d\<lparr>dp_punch := tr\<rparr>)))"

fun decide_all ::
    "int \<Rightarrow> (string \<rightharpoonup> int) \<Rightarrow> (string \<rightharpoonup> nat) \<Rightarrow> string list \<Rightarrow> tunnel \<Rightarrow> peer_action list \<times> tunnel" where
  "decide_all now seen received [] t = ([], t)"
| "decide_all now seen received (key # ks) t =
     (case fmlookup (tu_direct t) key of
        None \<Rightarrow> decide_all now seen received ks t
      | Some d \<Rightarrow>
          (let (todo, d) = decide_peer t now (seen key) (received key) d;
               (rest, t) = decide_all now seen received ks (t\<lparr>tu_direct := fmupd key d (tu_direct t)\<rparr>)
           in (todo @ rest, t)))"

definition sourceOf :: "candidate list \<Rightarrow> string \<Rightarrow> string" where
  "sourceOf cands endpoint =
     (case List.find (\<lambda>c. cd_Endpoint c = endpoint) cands of Some c \<Rightarrow> cd_Source c | None \<Rightarrow> SourceRoamed)"

definition peerEndpoint :: "wg_device \<Rightarrow> string \<Rightarrow> tunnel \<Rightarrow> string" where
  "peerEndpoint dev keyHex t =
     (case dv_get dev (tu_writes t) of None \<Rightarrow> [] | Some dump \<Rightarrow> endpointFromDump dump keyHex)"

definition won_at :: "string \<Rightarrow> direct_peer \<Rightarrow> direct_peer" where
  "won_at endpoint d =
     (let tr = dp_punch d; ep = (if endpoint = [] then pt_lastEP tr else endpoint) in
      d\<lparr>dp_punch := tr\<lparr>pt_winner := \<lparr>cd_Endpoint = ep, cd_Source = sourceOf (pt_cands tr) ep\<rparr>, pt_won := True\<rparr>\<rparr>)"

definition update_direct :: "string \<Rightarrow> (direct_peer \<Rightarrow> direct_peer) \<Rightarrow> tunnel \<Rightarrow> tunnel" where
  "update_direct key f t =
     (case fmlookup (tu_direct t) key of None \<Rightarrow> t | Some d \<Rightarrow> t\<lparr>tu_direct := fmupd key (f d) (tu_direct t)\<rparr>)"

fun act :: "wg_device \<Rightarrow> peer_action \<Rightarrow> tunnel \<Rightarrow> tunnel" where
  "act dev (Promote p) t =
     (let (w, t) = IpcSet dev (promoteDoc p) t in
      if \<not> w then update_direct (pr_PublicKeyHex p) (\<lambda>d. d\<lparr>dp_promoted := False\<rparr>) t
      else update_direct (pr_PublicKeyHex p) (won_at (peerEndpoint dev (pr_PublicKeyHex p) t)) t)"
| "act dev (Demote p) t = snd (IpcSet dev (demoteDoc p) t)"
| "act dev (Punch p c) t = snd (IpcSet dev (punchDoc p c) t)"

definition act_all :: "wg_device \<Rightarrow> peer_action list \<Rightarrow> tunnel \<Rightarrow> tunnel" where
  "act_all dev todo t = foldl (\<lambda>t a. act dev a t) t todo"

definition reconcileDirectPeers ::
    "wg_device \<Rightarrow> int \<Rightarrow> (string \<rightharpoonup> int) \<Rightarrow> (string \<rightharpoonup> nat) \<Rightarrow> string list \<Rightarrow> tunnel \<Rightarrow> tunnel" where
  "reconcileDirectPeers dev now seen received ks t =
     (let (todo, t) = decide_all now seen received ks t in act_all dev todo t)"

subsection \<open>Reports\<close>

record peer_state =
  ps_Address :: ip_addr
  ps_Name :: string
  ps_Path :: string
  ps_Endpoint :: string
  ps_Promoted :: bool
  ps_LastSeen :: int
  ps_Punch :: punch_info

definition peer_state_of :: "direct_peer \<Rightarrow> peer_state" where
  "peer_state_of d =
     \<lparr>ps_Address = pr_Address (dp_peer d), ps_Name = pr_Name (dp_peer d),
      ps_Path = (if dp_promoted d then orText (pr_Path (dp_peer d)) ''direct'' else ''relayed''),
      ps_Endpoint = (if dp_promoted d \<and> pt_won (dp_punch d) then cd_Endpoint (pt_winner (dp_punch d))
                     else pr_Endpoint (dp_peer d)),
      ps_Promoted = dp_promoted d, ps_LastSeen = dp_lastSeen d, ps_Punch = punch_info_of (dp_promoted d) (dp_punch d)\<rparr>"

definition DirectPeers :: "string list \<Rightarrow> tunnel \<Rightarrow> peer_state list" where
  "DirectPeers ks t = map peer_state_of (List.map_filter (fmlookup (tu_direct t)) ks)"

fun PathTo :: "ip_addr \<Rightarrow> string list \<Rightarrow> tunnel \<Rightarrow> string" where
  "PathTo addr [] t = ''relayed''"
| "PathTo addr (key # ks) t =
     (case fmlookup (tu_direct t) key of
        None \<Rightarrow> PathTo addr ks t
      | Some d \<Rightarrow>
          if pr_Address (dp_peer d) = addr \<and> dp_promoted d then orText (pr_Path (dp_peer d)) ''direct''
          else PathTo addr ks t)"

subsection \<open>Reading the device\<close>

text \<open>
  \<open>strconv.ParseInt\<close> and \<open>ParseUint\<close> whose error is not looked at: zero for what is no number, the
  end of the range for one beyond it; and \<open>time.Unix\<close>.
\<close>

definition int_or_zero :: "string \<Rightarrow> int" where
  "int_or_zero s =
     (let neg = (s \<noteq> [] \<and> hd s = CHR ''-'');
          d = (if s \<noteq> [] \<and> (hd s = CHR ''-'' \<or> hd s = CHR ''+'') then tl s else s)
      in if d = [] \<or> \<not> list_all is_digit d then 0
         else if neg then max (- int (parse_nat d)) (- (2 ^ 63)) else min (int (parse_nat d)) (2 ^ 63 - 1))"

definition uint_or_zero :: "string \<Rightarrow> nat" where
  "uint_or_zero s = (if s = [] \<or> \<not> list_all is_digit s then 0 else min (parse_nat s) (2 ^ 64 - 1))"

definition unix_time :: "int \<Rightarrow> int \<Rightarrow> int" where
  "unix_time secs nsec = (i64 (secs + nsec div Second + 62135596800) - 62135596800) * Second + nsec mod Second"

definition flush_peer :: "string \<Rightarrow> int \<Rightarrow> int \<Rightarrow> (string \<rightharpoonup> int) \<Rightarrow> (string \<rightharpoonup> int)" where
  "flush_peer cur secs nsec out =
     (if cur = [] then out
      else out(cur \<mapsto> (if secs = 0 \<and> nsec = 0 then zeroTime else unix_time secs nsec)))"

fun handshake_scan :: "string \<Rightarrow> int \<Rightarrow> int \<Rightarrow> (string \<rightharpoonup> int) \<Rightarrow> string list \<Rightarrow> (string \<rightharpoonup> int)" where
  "handshake_scan cur secs nsec out [] = flush_peer cur secs nsec out"
| "handshake_scan cur secs nsec out (line # ls) =
     (case cut_at (CHR ''='') line of
        None \<Rightarrow> handshake_scan cur secs nsec out ls
      | Some (k, v) \<Rightarrow>
          if k = ''public_key'' then handshake_scan (trim_space v) 0 0 (flush_peer cur secs nsec out) ls
          else if k = ''last_handshake_time_sec'' then handshake_scan cur (int_or_zero v) nsec out ls
          else if k = ''last_handshake_time_nsec'' then handshake_scan cur secs (int_or_zero v) out ls
          else handshake_scan cur secs nsec out ls)"

definition parseHandshakeDump :: "string \<Rightarrow> (string \<rightharpoonup> int)" where
  "parseHandshakeDump dump = handshake_scan [] 0 0 Map.empty (split_on (CHR 0x0A) dump)"

fun received_scan :: "string \<Rightarrow> (string \<rightharpoonup> nat) \<Rightarrow> string list \<Rightarrow> (string \<rightharpoonup> nat)" where
  "received_scan cur out [] = out"
| "received_scan cur out (line # ls) =
     (case cut_at (CHR ''='') line of
        None \<Rightarrow> received_scan cur out ls
      | Some (k, v) \<Rightarrow>
          if k = ''public_key'' then received_scan (trim_space v) (out(trim_space v \<mapsto> 0)) ls
          else if k = ''rx_bytes'' \<and> cur \<noteq> [] then received_scan cur (out(cur \<mapsto> uint_or_zero (trim_space v))) ls
          else received_scan cur out ls)"

definition parseReceivedDump :: "string \<Rightarrow> (string \<rightharpoonup> nat)" where
  "parseReceivedDump dump = received_scan [] Map.empty (split_on (CHR 0x0A) dump)"

text \<open>One tick of the health monitor, as far as the direct peers go.\<close>

definition monitor_tick :: "wg_device \<Rightarrow> int \<Rightarrow> string list \<Rightarrow> tunnel \<Rightarrow> tunnel" where
  "monitor_tick dev now ks t =
     (case dv_get dev (tu_writes t) of
        None \<Rightarrow> t
      | Some dump \<Rightarrow> reconcileDirectPeers dev now (parseHandshakeDump dump) (parseReceivedDump dump) ks t)"

end
