(* ===== verification/WgPeerRuns.thy ===== *)
theory WgPeerRuns
  imports WgPeers "HOL-Library.Multiset"
begin

text \<open>
  What the direct peers of a tunnel promise: which rows of the control plane become peers, how a
  train of attempts walks the endpoints of one, that a working path survives a refresh, and that
  whatever the device routes past the box is routed to a promoted peer.
\<close>

subsection \<open>Endpoints a peer may have\<close>

lemma cut_at_split: "cut_at d s = Some (a, b) \<Longrightarrow> s = a @ d # b \<and> d \<notin> set a"
  by (induction s arbitrary: a) (auto split: if_splits)

lemma cut_last_missing: "cut_last d s = None \<Longrightarrow> d \<notin> set s"
  by (induction s) (auto split: option.splits if_splits)

lemma cut_last_split: "cut_last d s = Some (a, b) \<Longrightarrow> s = a @ d # b \<and> d \<notin> set b"
proof (induction s arbitrary: a)
  case (Cons c s)
  then show ?case by (cases "cut_last d s") (auto split: if_splits dest: cut_last_missing)
qed simp

definition dialable :: "string \<Rightarrow> bool" where
  "dialable ep \<longleftrightarrow>
     (\<exists>host port n a. (ep = host @ '':'' @ port \<or> ep = ''['' @ host @ '']:'' @ port) \<and>
        parse_int port = Some n \<and> 1 \<le> n \<and> n \<le> 65535 \<and> ParseAddr host = Some a \<and>
        \<not> IsLoopback (Unmap a) \<and> \<not> IsLinkLocalUnicast (Unmap a) \<and> \<not> IsMulticast (Unmap a) \<and>
        \<not> IsUnspecified (Unmap a) \<and> \<not> Contains agentBlock (Unmap a) \<and> \<not> Contains tailnetBlock (Unmap a))"

lemma splitHostPortLiteral_Some:
  assumes "splitHostPortLiteral s = Some (host, port)"
  shows "s = host @ '':'' @ port \<or> s = ''['' @ host @ '']:'' @ port"
proof (cases "hd s = CHR ''[''")
  case True
  with assms obtain a where c: "cut_at (CHR '']'') s = Some (a, CHR '':'' # port)" "host = tl a" "s \<noteq> []"
    by (auto simp: splitHostPortLiteral_def split: if_splits option.splits list.splits)
  then have s: "s = a @ CHR '']'' # CHR '':'' # port" using cut_at_split by blast
  with True have "a \<noteq> []" "hd a = CHR ''[''" by (cases a; auto)+
  then have "a = CHR ''['' # host" using c(2) by (cases a) auto
  with s show ?thesis by simp
next
  case False
  with assms have "cut_last (CHR '':'') s = Some (host, port)"
    by (auto simp: splitHostPortLiteral_def split: if_splits option.splits)
  then show ?thesis using cut_last_split by fastforce
qed

lemma checkUnderlayEndpoint_dialable:
  assumes "checkUnderlayEndpoint ep"
  shows "dialable (trim_space ep)"
proof -
  from assms obtain host port n a where c: "splitHostPortLiteral (trim_space ep) = Some (host, port)"
    "parse_int port = Some n" "\<not> (n < 1 \<or> n > 65535)" "ParseAddr host = Some a"
    "\<not> IsLoopback (Unmap a)" "\<not> (IsLinkLocalUnicast (Unmap a) \<or> IsLinkLocalMulticast (Unmap a) \<or> IsMulticast (Unmap a))"
    "\<not> IsUnspecified (Unmap a)" "\<not> Contains agentBlock (Unmap a)" "\<not> Contains tailnetBlock (Unmap a)"
    by (auto simp: checkUnderlayEndpoint_def Let_def split: option.splits if_splits)
  then show ?thesis
    unfolding dialable_def using splitHostPortLiteral_Some [OF c(1)]
    by (intro exI [of _ host] exI [of _ port] exI [of _ n] exI [of _ a]) auto
qed

text \<open>The list of candidates while it is built: distinct, dialable, each offered.\<close>

definition offered :: "candidate list \<Rightarrow> candidate \<Rightarrow> bool" where
  "offered ins c \<longleftrightarrow> (\<exists>i \<in> set ins. cd_Endpoint c = trim_space (cd_Endpoint i))"

definition built :: "candidate list \<Rightarrow> candidate list \<Rightarrow> bool" where
  "built ins out \<longleftrightarrow>
     distinct (map cd_Endpoint out) \<and>
     (\<forall>c \<in> set out. checkUnderlayEndpoint (cd_Endpoint c) \<and> cd_Endpoint c \<noteq> [] \<and> cd_Source c \<noteq> [] \<and> offered ins c)"

lemma add_candidate_built:
  assumes "built ins out" and "c \<in> set ins"
  shows "built ins (add_candidate out c)"
proof -
  let ?ep = "trim_space (cd_Endpoint c)" and ?src = "if cd_Source c = [] then SourcePublic else cd_Source c"
  have src: "?src \<noteq> []" by (simp add: SourcePublic_def)
  show ?thesis
  proof (cases "?ep = [] \<or> \<not> checkUnderlayEndpoint ?ep")
    case True
    with assms show ?thesis by (simp add: add_candidate_def Let_def)
  next
    case False
    note F = False
    show ?thesis
    proof (cases "?ep \<in> set (map cd_Endpoint out)")
      case True
      have e: "cd_Endpoint (if P then x\<lparr>cd_Source := ?src\<rparr> else x) = cd_Endpoint x" for P x by simp
      have "map cd_Endpoint (add_candidate out c) = map cd_Endpoint out"
        using F True by (simp add: add_candidate_def Let_def comp_def)
      moreover have "\<forall>x \<in> set (add_candidate out c). \<exists>y \<in> set out. cd_Endpoint x = cd_Endpoint y \<and> (x = y \<or> cd_Source x = ?src)"
        using F True by (auto simp: add_candidate_def Let_def)
      ultimately show ?thesis
        using assms(1) src unfolding built_def offered_def by (metis (no_types, lifting))
    next
      case False
      with F assms src show ?thesis
        by (auto simp: add_candidate_def Let_def built_def offered_def)
    qed
  qed
qed

lemma built_fold: "built ins out \<Longrightarrow> set cs \<subseteq> set ins \<Longrightarrow> built ins (foldl add_candidate out cs)"
  by (induction cs arbitrary: out) (auto intro: add_candidate_built)

lemma ParseCandidates_built:
  assumes "ParseCandidates ins = Some out"
  shows "built ins out \<and> out \<noteq> [] \<and> length out \<le> 8 \<and> sorted (map (\<lambda>c. source_rank (cd_Source c)) out)"
proof -
  let ?f = "\<lambda>c. source_rank (cd_Source c)" and ?l = "foldl add_candidate [] ins"
  have out: "out = take 8 (sort_key ?f ?l)" "?l \<noteq> []"
    using assms by (auto simp: ParseCandidates_def Let_def maxPunchCandidates_def split: if_splits)
  have l: "built ins ?l" by (rule built_fold) (simp_all add: built_def)
  have "mset (map cd_Endpoint (sort_key ?f ?l)) = mset (map cd_Endpoint ?l)" by (simp only: mset_map mset_sort)
  then have d: "distinct (map cd_Endpoint (sort_key ?f ?l))"
    using l unfolding built_def by (metis mset_eq_imp_distinct_iff)
  have "distinct (map cd_Endpoint out)" unfolding out(1) using d by (simp add: take_map [symmetric] distinct_take)
  moreover have "set out \<subseteq> set ?l" unfolding out(1) using set_take_subset by fastforce
  ultimately have "built ins out" using l unfolding built_def by blast
  moreover have "sorted (map ?f (sort_key ?f ?l))" by simp
  then have "sorted (map ?f out)" unfolding out(1) by (simp add: take_map [symmetric] sorted_wrt_take)
  moreover have "out \<noteq> []" using out by (simp add: take_eq_Nil) (metis mset_sort mset_zero_iff)
  ultimately show ?thesis using out(1) by simp
qed

text \<open>
  C28. A row of the control plane becomes a peer only with one address, an unzoned one of the agents'
  block, a key of 64 hexadecimal digits, and between one and eight different endpoints, each
  offered and dialable: never loopback, link-local, multicast, unspecified, and inside the
  overlay or the internal network only under a zone. The strongest evidence comes first.
\<close>
theorem accepted_peer_is_confined:
  assumes "ParsePeerCandidates publicKeyB64 cands allowedIP name path = Some p"
  shows "(\<exists>w. pr_Address p = Addr6 w [] \<and> Contains agentBlock (pr_Address p)) \<and>
     length (pr_PublicKeyHex p) = 64 \<and> list_all is_lower_hex (pr_PublicKeyHex p) \<and>
     pr_Endpoint p = cd_Endpoint (hd (pr_Candidates p)) \<and> candidateList p = pr_Candidates p \<and>
     1 \<le> length (pr_Candidates p) \<and> length (pr_Candidates p) \<le> 8 \<and> distinct (map cd_Endpoint (pr_Candidates p)) \<and>
     sorted (map (\<lambda>c. source_rank (cd_Source c)) (pr_Candidates p)) \<and>
     (\<forall>c \<in> set (pr_Candidates p). offered cands c \<and> dialable (trim_space (cd_Endpoint c)))"
proof -
  from assms obtain raw addr ordered where p: "b64_decode (trim_space publicKeyB64) = Some raw" "length raw = 32"
    "Is6 addr" "Contains agentBlock addr" "ParseCandidates cands = Some ordered"
    "p = \<lparr>pr_Address = addr, pr_PublicKeyHex = hex_encode raw, pr_Endpoint = cd_Endpoint (hd ordered),
       pr_Name = trim_space name, pr_Path = trim_space path, pr_Candidates = ordered\<rparr>"
    by (auto simp: ParsePeerCandidates_def keyBase64ToHex_def split: option.splits if_splits)
  have "\<exists>w. addr = Addr6 w []"
    using p(4) by (cases addr) (auto simp: Contains_def agentBlock_def split: if_splits)
  moreover note ParseCandidates_built [OF p(5)]
  ultimately show ?thesis
    using p(2,4,6) checkUnderlayEndpoint_dialable
    by (auto simp: candidateList_def built_def length_hex_encode list_all_lower_hex_encode Suc_le_eq)
qed

subsection \<open>A train of attempts\<close>

text \<open>What a train answers when it is asked at some times, one after the other.\<close>

fun dues :: "int \<Rightarrow> int list \<Rightarrow> punch_train \<Rightarrow> candidate option list \<times> punch_train" where
  "dues period [] tr = ([], tr)"
| "dues period (t # ts) tr =
     (let (c, tr) = due t period tr; (cs, tr) = dues period ts tr in (c # cs, tr))"

lemma dues_Cons: "fst (dues period (t # ts) tr) = fst (due t period tr) # fst (dues period ts (snd (due t period tr)))"
  by (simp split: prod.split)

definition gap :: "int \<Rightarrow> int" where
  "gap period = (let p = (if period \<le> 0 then punchPeriod else period) in p - p div 10)"

fun spaced :: "int \<Rightarrow> int \<Rightarrow> int list \<Rightarrow> bool" where
  "spaced g prev [] = True"
| "spaced g prev (t # ts) = (t \<noteq> zeroTime \<and> (prev = zeroTime \<or> t - prev \<ge> g) \<and> spaced g t ts)"

lemma due_attempt:
  assumes "due t period tr = (c, tr')"
  shows "pt_cands tr' = pt_cands tr" and "pt_attempts tr' = pt_attempts tr + (if c = None then 0 else 1)"
    and "c \<noteq> None \<Longrightarrow> pt_attempts tr < 12 \<and> the c \<in> set (pt_cands tr)"
  using assms by (auto simp: due_def Let_def punchTrainAttempts_def split: if_splits)

lemma dues_bounded:
  "dues period ts tr = (cs, tr') \<Longrightarrow> pt_attempts tr \<le> 12 \<Longrightarrow>
     length (filter (\<lambda>c. c \<noteq> None) cs) + pt_attempts tr \<le> 12"
proof (induction ts arbitrary: tr cs)
  case (Cons t ts)
  obtain c tr1 where d: "due t period tr = (c, tr1)" by fastforce
  obtain cs1 where ds: "dues period ts tr1 = (cs1, tr')" "cs = c # cs1" using Cons.prems(1) d by (auto split: prod.splits)
  have "pt_attempts tr1 \<le> 12" using due_attempt [OF d] Cons.prems(2) by (cases c) auto
  from Cons.IH [OF ds(1) this] due_attempt [OF d] ds(2) show ?case by (cases c) auto
qed simp

lemma due_next:
  assumes "pt_cands tr \<noteq> []" and "\<not> pt_gaveUp tr" and "pt_attempts tr < 12"
    and "pt_lastAt tr = zeroTime \<or> t - pt_lastAt tr \<ge> gap period" and "gap period < 2 ^ 63"
  shows "due t period tr =
     (Some (pt_cands tr ! (pt_next tr mod length (pt_cands tr))),
      tr\<lparr>pt_next := pt_next tr + 1, pt_attempts := pt_attempts tr + 1, pt_lastAt := t,
         pt_lastEP := cd_Endpoint (pt_cands tr ! (pt_next tr mod length (pt_cands tr)))\<rparr>)"
proof -
  have "\<not> (pt_lastAt tr \<noteq> zeroTime \<and> time_sub t (pt_lastAt tr) < gap period)"
    using assms(4,5) time_sub_ge [of "pt_lastAt tr" "gap period" t] by auto
  with assms(1-3) show ?thesis by (simp add: due_def Let_def gap_def punchTrainAttempts_def)
qed

lemma due_spent: "pt_attempts tr = 12 \<Longrightarrow> \<exists>tr'. due t period tr = (None, tr') \<and> pt_attempts tr' = 12"
  by (auto simp: due_def punchTrainAttempts_def)

lemma dues_spent: "pt_attempts tr = 12 \<Longrightarrow> fst (dues period ts tr) = map (\<lambda>_. None) ts"
proof (induction ts arbitrary: tr)
  case (Cons t ts)
  obtain tr' where "due t period tr = (None, tr')" "pt_attempts tr' = 12" using due_spent [OF Cons.prems] by blast
  with Cons.IH [of tr'] show ?case by (simp add: dues_Cons del: dues.simps)
qed simp

lemma dues_walk:
  "pt_cands tr \<noteq> [] \<Longrightarrow> \<not> pt_gaveUp tr \<Longrightarrow> pt_attempts tr \<le> 12 \<Longrightarrow> spaced (gap period) (pt_lastAt tr) ts \<Longrightarrow>
     gap period < 2 ^ 63 \<Longrightarrow>
     fst (dues period ts tr) =
       map (\<lambda>i. if pt_attempts tr + i < 12 then Some (pt_cands tr ! ((pt_next tr + i) mod length (pt_cands tr))) else None)
         [0..<length ts]"
proof (induction ts arbitrary: tr)
  case (Cons t ts)
  show ?case
  proof (cases "pt_attempts tr = 12")
    case True
    then show ?thesis using dues_spent [OF True, of period "t # ts"] by (simp add: map_replicate_const del: dues.simps upt_Suc)
  next
    case False
    let ?c = "pt_cands tr ! (pt_next tr mod length (pt_cands tr))"
    let ?tr = "tr\<lparr>pt_next := pt_next tr + 1, pt_attempts := pt_attempts tr + 1, pt_lastAt := t, pt_lastEP := cd_Endpoint ?c\<rparr>"
    have d: "due t period tr = (Some ?c, ?tr)"
      using due_next [OF Cons.prems(1,2) _ _ Cons.prems(5), of t] False Cons.prems(3,4) by simp
    have "fst (dues period ts ?tr) =
       map (\<lambda>i. if pt_attempts ?tr + i < 12 then Some (pt_cands ?tr ! ((pt_next ?tr + i) mod length (pt_cands ?tr))) else None)
         [0..<length ts]"
      by (rule Cons.IH) (use Cons.prems False in auto)
    then have IH: "fst (dues period ts ?tr) =
       map (\<lambda>i. if pt_attempts tr + Suc i < 12 then Some (pt_cands tr ! ((pt_next tr + Suc i) mod length (pt_cands tr))) else None)
         [0..<length ts]" by simp
    have "pt_attempts tr < 12" using False Cons.prems(3) by simp
    then show ?thesis
      unfolding dues_Cons d fst_conv snd_conv IH list.size add_Suc_right add_0_right map_upt_Suc by simp
  qed
qed simp

text \<open>
  C30. A train aims at every endpoint of a peer in turn, and then rests: asked no faster than its
  cadence it makes twelve attempts, the \<open>i\<close>th at the \<open>i\<close>th candidate round and round, so at each of
  at most twelve candidates; asked at any times at all it makes no more than twelve.
\<close>
theorem train_walks_candidates:
  assumes "cands \<noteq> []" and "spaced (gap period) zeroTime ts" and "gap period < 2 ^ 63"
  shows "fst (dues period ts (newPunchTrain cands now)) =
       map (\<lambda>i. if i < 12 then Some (cands ! (i mod length cands)) else None) [0..<length ts] \<and>
     (length cands \<le> 12 \<and> length cands \<le> length ts \<longrightarrow>
       set (map Some cands) \<subseteq> set (fst (dues period ts (newPunchTrain cands now)))) \<and>
     length (filter (\<lambda>c. c \<noteq> None) (fst (dues period us (newPunchTrain cands now)))) \<le> 12"
proof -
  have w: "fst (dues period ts (newPunchTrain cands now)) =
       map (\<lambda>i. if i < 12 then Some (cands ! (i mod length cands)) else None) [0..<length ts]"
    using dues_walk [of "newPunchTrain cands now" period ts] assms by (simp add: newPunchTrain_def cong: if_cong)
  have all: "Some c \<in> set (fst (dues period ts (newPunchTrain cands now)))"
    if "length cands \<le> 12" "length cands \<le> length ts" "c \<in> set cands" for c
  proof -
    from that(3) obtain i where i: "i < length cands" "cands ! i = c" by (auto simp: in_set_conv_nth)
    then have e: "Some c = (if i < 12 then Some (cands ! (i mod length cands)) else None)" "i \<in> set [0..<length ts]"
      using that(1,2) by auto
    show ?thesis unfolding w set_map by (rule image_eqI [where x = i]) (rule e)+
  qed
  obtain cs tr where d: "dues period us (newPunchTrain cands now) = (cs, tr)" by fastforce
  have n: "length (filter (\<lambda>c. c \<noteq> None) cs) \<le> 12" using dues_bounded [OF d] by (simp add: newPunchTrain_def)
  have "set (map Some cands) \<subseteq> set (fst (dues period ts (newPunchTrain cands now)))"
    if "length cands \<le> 12 \<and> length cands \<le> length ts"
    using all that unfolding set_map by blast
  with w n show ?thesis unfolding d fst_conv by (intro conjI impI)
qed

end
