(* ===== verification/WgRoutes.thy ===== *)
theory WgRoutes
  imports WgPeerRuns
begin

text \<open>
  Where packets go: that a working direct path survives what the control plane sends, and that the
  device routes an address past the box only to a peer that is promoted, given what the UAPI of
  WireGuard documents of the five documents the tunnel writes.
\<close>

subsection \<open>What the device routes\<close>










subsection \<open>Reconciling\<close>





lemma pt_cands_restart [simp]: "pt_cands (restart now c tr) = pt_cands tr"
  by (auto simp: restart_def Let_def split: option.split)

lemma observe_keeps [simp]:
  "dp_peer (observe now hs rx d) = dp_peer d" "dp_promoted (observe now hs rx d) = dp_promoted d"
  "dp_punch (observe now hs rx d) = dp_punch d"
  by (auto simp: observe_def Let_def split: option.split)



lemma update_direct_keeps [simp]:
  "tu_writes (update_direct k f t) = tu_writes t" "tu_server (update_direct k f t) = tu_server t"
  by (simp_all add: update_direct_def split: option.split)




subsection \<open>The peers of the control plane\<close>

lemma wanted_peers_fold:
  "fmlookup (foldl (\<lambda>m p. if pr_PublicKeyHex p = [] \<or> pr_PublicKeyHex p = server then m else fmupd (pr_PublicKeyHex p) p m) m ps) k = Some q \<Longrightarrow>
     fmlookup m k = Some q \<or> q \<in> set ps \<and> pr_PublicKeyHex q = k \<and> k \<noteq> server \<and> k \<noteq> []"
proof (induction ps arbitrary: m)
  case (Cons a ps)
  show ?case
  proof (cases "pr_PublicKeyHex a = [] \<or> pr_PublicKeyHex a = server")
    case True
    with Cons show ?thesis by auto
  next
    case False
    with Cons.prems Cons.IH [of "fmupd (pr_PublicKeyHex a) a m"] show ?thesis by (auto split: if_splits)
  qed
qed simp

lemma wanted_peers_Some:
  "fmlookup (wanted_peers server peers) k = Some p \<Longrightarrow> p \<in> set peers \<and> pr_PublicKeyHex p = k \<and> k \<noteq> server \<and> k \<noteq> []"
  using wanted_peers_fold [of server fmempty peers k p] by (simp add: wanted_peers_def)

text \<open>A peer that is left alone.\<close>

definition kept :: "direct_peer \<Rightarrow> direct_peer \<Rightarrow> bool" where
  "kept d d' \<longleftrightarrow>
     dp_promoted d' = dp_promoted d \<and> pr_Address (dp_peer d') = pr_Address (dp_peer d) \<and>
     dp_lastSeen d' = dp_lastSeen d \<and> dp_lastHS d' = dp_lastHS d \<and> dp_rx d' = dp_rx d"

lemma kept_refl [simp]: "kept d d"
  by (simp add: kept_def)

lemma kept_refresh: "kept (refresh_peer nxt d) d' \<Longrightarrow> kept d d'"
  by (simp add: kept_def refresh_peer_def)



lemma compare_direct_spec:
  "compare_direct W ks D = (rm, arm, D') \<Longrightarrow>
     (\<forall>k \<in> set rm. fmlookup W k = None \<and> fmlookup D k \<noteq> None) \<and> (\<forall>p \<in> set arm. \<exists>k. fmlookup W k = Some p) \<and>
     (\<forall>k. fmlookup D' k = None \<longrightarrow> fmlookup D k = None \<or> (\<exists>p \<in> set arm. fmlookup W k = Some p)) \<and>
     (\<forall>k d'. fmlookup D' k = Some d' \<longrightarrow> (\<exists>d. fmlookup D k = Some d \<and> kept d d'))"
proof (induction ks arbitrary: D rm arm)
  case (Cons key ks)
  consider "fmlookup D key = None" | "\<exists>cur. fmlookup D key = Some cur \<and> fmlookup W key = None"
    | cur nxt where "fmlookup D key = Some cur" "fmlookup W key = Some nxt"
        "pr_Address nxt \<noteq> pr_Address (dp_peer cur) \<or> \<not> dp_promoted cur \<and> \<not> sameCandidates nxt (dp_peer cur)"
    | cur nxt where "fmlookup D key = Some cur" "fmlookup W key = Some nxt"
        "\<not> (pr_Address nxt \<noteq> pr_Address (dp_peer cur) \<or> \<not> dp_promoted cur \<and> \<not> sameCandidates nxt (dp_peer cur))"
    by (cases "fmlookup D key"; cases "fmlookup W key") blast+
  then show ?case
  proof cases
    case 1
    with Cons show ?thesis by simp
  next
    case 2
    then obtain rm1 where "compare_direct W ks D = (rm1, arm, D')" "rm = key # rm1"
      using Cons.prems by (auto split: prod.splits)
    with Cons.IH [of D rm1 arm] 2 show ?thesis by auto
  next
    case 3
    then obtain arm1 where a: "compare_direct W ks (fmdrop key D) = (rm, arm1, D')" "arm = nxt # arm1"
      using Cons.prems by (auto split: prod.splits)
    note IH = Cons.IH [OF a(1)]
    have "fmlookup D' k = None \<longrightarrow> fmlookup D k = None \<or> (\<exists>p \<in> set arm. fmlookup W k = Some p)" for k
    proof -
      have "fmlookup D' k = None \<longrightarrow> fmlookup (fmdrop key D) k = None \<or> (\<exists>p \<in> set arm1. fmlookup W k = Some p)"
        using IH by blast
      then show ?thesis using 3(2) a(2) by (cases "k = key") auto
    qed
    moreover have "fmlookup D' k = Some d' \<longrightarrow> (\<exists>d. fmlookup D k = Some d \<and> kept d d')" for k d'
    proof -
      have "fmlookup D' k = Some d' \<longrightarrow> (\<exists>d. fmlookup (fmdrop key D) k = Some d \<and> kept d d')" using IH by blast
      then show ?thesis by (cases "k = key") simp_all
    qed
    moreover have "\<forall>k \<in> set rm. fmlookup W k = None \<and> fmlookup D k \<noteq> None" using IH by (auto split: if_splits)
    ultimately show ?thesis using IH 3(2) a(2) by auto
  next
    case 4
    then have a: "compare_direct W ks (fmupd key (refresh_peer nxt cur) D) = (rm, arm, D')" using Cons.prems by auto
    note IH = Cons.IH [OF a]
    have "fmlookup D' k = None \<longrightarrow> fmlookup D k = None \<or> (\<exists>p \<in> set arm. fmlookup W k = Some p)" for k
    proof -
      have "fmlookup D' k = None \<longrightarrow> fmlookup (fmupd key (refresh_peer nxt cur) D) k = None \<or> (\<exists>p \<in> set arm. fmlookup W k = Some p)"
        using IH by blast
      then show ?thesis by (cases "k = key") simp_all
    qed
    moreover have "fmlookup D' k = Some d' \<longrightarrow> (\<exists>d. fmlookup D k = Some d \<and> kept d d')" for k d'
    proof
      assume "fmlookup D' k = Some d'"
      then obtain d where "fmlookup (fmupd key (refresh_peer nxt cur) D) k = Some d" "kept d d'" using IH by blast
      with 4(1) kept_refresh show "\<exists>d. fmlookup D k = Some d \<and> kept d d'" by (cases "k = key") auto
    qed
    moreover have "\<forall>k \<in> set rm. fmlookup W k = None \<and> fmlookup D k \<noteq> None" using IH 4 by (auto split: if_splits)
    ultimately show ?thesis using IH by blast
  qed
qed auto

lemma compare_direct_promoted:
  "compare_direct W ks D = (rm, arm, D') \<Longrightarrow> fmlookup W k = Some p \<Longrightarrow> dp_promoted d \<Longrightarrow> pr_Address p = pr_Address (dp_peer d) \<Longrightarrow>
     \<exists>d'. fmlookup D k = Some d' \<and> kept d d' \<Longrightarrow>
     (\<exists>d'. fmlookup D' k = Some d' \<and> kept d d') \<and> (\<forall>q \<in> set arm. \<exists>j. fmlookup W j = Some q \<and> j \<noteq> k)"
proof (induction W ks D arbitrary: rm arm D' rule: compare_direct.induct)
  case (2 W key ks D)
  then show ?case
    by (fastforce split: option.splits prod.splits if_splits simp: kept_def refresh_peer_def)
qed simp


lemma in_map_filter: "y \<in> set (List.map_filter f xs) \<longleftrightarrow> (\<exists>x \<in> set xs. f x = Some y)"
  by (induction xs) (auto simp: map_filter_simps split: option.splits)

lemma fmlookup_drops: "fmlookup (foldl (\<lambda>d key. fmdrop key d) D rm) k = (if k \<in> set rm then None else fmlookup D k)"
  by (induction rm arbitrary: D) auto

text \<open>The documents of a call, about the peers of a set.\<close>

definition docs_about :: "string set \<Rightarrow> string list \<Rightarrow> bool" where
  "docs_about K docs \<longleftrightarrow>
     (\<forall>doc \<in> set docs. \<exists>j \<in> K. doc = removeDoc j \<or> (\<exists>p. pr_PublicKeyHex p = j \<and> doc = armDoc p))"

lemma docs_about_Un: "docs_about K docs \<Longrightarrow> docs_about L es \<Longrightarrow> docs_about (K \<union> L) (docs @ es)"
  unfolding docs_about_def by (auto 0 3)

lemma docs_about_remove: "docs_about (set rm) (map removeDoc rm)"
  by (auto simp: docs_about_def)

lemma remove_peers_writes:
  "remove_peers dev rm ok t = (ok', t') \<Longrightarrow>
     tu_direct t' = tu_direct t \<and> tu_server t' = tu_server t \<and> tu_writes t' = tu_writes t @ map removeDoc rm"
proof (induction rm arbitrary: ok t)
  case (Cons k rm)
  then show ?case by (fastforce simp: IpcSet_def)
qed simp

lemma arm_peers_writes:
  "arm_peers dev now ps ok t = (ok', t') \<Longrightarrow>
     tu_server t' = tu_server t \<and> (\<exists>docs. tu_writes t' = tu_writes t @ docs \<and> docs_about (pr_PublicKeyHex ` set ps) docs) \<and>
     (\<forall>k. k \<notin> pr_PublicKeyHex ` set ps \<longrightarrow> fmlookup (tu_direct t') k = fmlookup (tu_direct t) k)"
proof (induction ps arbitrary: ok t)
  case (Cons p ps)
  let ?k = "pr_PublicKeyHex p"
  obtain ok1 t1 D where t1: "arm_peers dev now ps ok1 t1 = (ok', t')" "tu_server t1 = tu_server t" "tu_writes t1 = tu_writes t @ D"
    "docs_about {?k} D" "\<forall>k. k \<noteq> ?k \<longrightarrow> fmlookup (tu_direct t1) k = fmlookup (tu_direct t) k"
  proof (cases "dv_set dev (tu_writes t) (armDoc p)")
    case True
    show thesis
      by (rule that [of ok "t\<lparr>tu_writes := tu_writes t @ [armDoc p], tu_direct := fmupd ?k (new_direct p now) (tu_direct t)\<rparr>" "[armDoc p]"])
        (use Cons.prems True in \<open>auto simp: IpcSet_def docs_about_def\<close>)
  next
    case False
    show thesis
      by (rule that [of False "t\<lparr>tu_writes := (tu_writes t @ [armDoc p]) @ [removeDoc ?k]\<rparr>" "[armDoc p, removeDoc ?k]"])
        (use Cons.prems False in \<open>auto simp: IpcSet_def docs_about_def\<close>)
  qed
  from Cons.IH [OF t1(1)] obtain docs where d: "tu_server t' = tu_server t1" "tu_writes t' = tu_writes t1 @ docs"
    "docs_about (pr_PublicKeyHex ` set ps) docs"
    "\<forall>k. k \<notin> pr_PublicKeyHex ` set ps \<longrightarrow> fmlookup (tu_direct t') k = fmlookup (tu_direct t1) k" by blast
  have "docs_about (pr_PublicKeyHex ` set (p # ps)) (D @ docs)"
    using t1(4) d(3) by (auto simp: docs_about_def)
  with t1 d show ?case by auto
qed (auto simp: docs_about_def)

text \<open>What a call leaves of the peers, whatever the device answers.\<close>

lemma SetDirectPeers_parts:
  assumes "SetDirectPeers dev now ks ws peers t = (ok, t')"
  obtains rm arm D1 ok1 t1 where
    "compare_direct (wanted_peers (tu_server t) peers) ks (tu_direct t) = (rm, arm, D1)"
    "remove_peers dev rm True (t\<lparr>tu_direct := foldl (\<lambda>d key. fmdrop key d) D1 rm\<rparr>) = (ok1, t1)"
    "arm_peers dev now (arm @ List.map_filter (\<lambda>key. if fmlookup (foldl (\<lambda>d key. fmdrop key d) D1 rm) key = None
        then fmlookup (wanted_peers (tu_server t) peers) key else None) ws) ok1 t1 = (ok, t')"
  using assms by (auto simp: SetDirectPeers_def Let_def split: prod.splits)

lemma SetDirectPeers_leaves:
  assumes "SetDirectPeers dev now ks ws peers t = (ok, t')"
  shows "tu_server t' = tu_server t"
    and "\<exists>docs K. tu_writes t' = tu_writes t @ docs \<and> docs_about K docs \<and>
      (\<forall>k d. fmlookup (tu_direct t) k = Some d \<and> dp_promoted d \<and>
         (\<exists>p. fmlookup (wanted_peers (tu_server t) peers) k = Some p \<and> pr_Address p = pr_Address (dp_peer d)) \<longrightarrow>
         k \<notin> K \<and> (\<exists>d'. fmlookup (tu_direct t') k = Some d' \<and> kept d d'))"
proof -
  let ?W = "wanted_peers (tu_server t) peers"
  from assms obtain rm arm D1 ok1 t1 where c: "compare_direct ?W ks (tu_direct t) = (rm, arm, D1)"
    and r: "remove_peers dev rm True (t\<lparr>tu_direct := foldl (\<lambda>d key. fmdrop key d) D1 rm\<rparr>) = (ok1, t1)"
    and a: "arm_peers dev now (arm @ List.map_filter (\<lambda>key. if fmlookup (foldl (\<lambda>d key. fmdrop key d) D1 rm) key = None
        then fmlookup ?W key else None) ws) ok1 t1 = (ok, t')" by (rule SetDirectPeers_parts)
  note C = compare_direct_spec [OF c]
  note R = remove_peers_writes [OF r]
  let ?ps = "arm @ List.map_filter (\<lambda>key. if fmlookup (foldl (\<lambda>d key. fmdrop key d) D1 rm) key = None
        then fmlookup ?W key else None) ws"
  obtain docs where A: "tu_server t' = tu_server t1" "tu_writes t' = tu_writes t1 @ docs"
    "docs_about (pr_PublicKeyHex ` set ?ps) docs"
    "\<forall>k. k \<notin> pr_PublicKeyHex ` set ?ps \<longrightarrow> fmlookup (tu_direct t') k = fmlookup (tu_direct t1) k"
    using arm_peers_writes [OF a] by blast
  show "tu_server t' = tu_server t" using A(1) R by simp
  let ?K = "set rm \<union> pr_PublicKeyHex ` set ?ps"
  have "docs_about ?K (map removeDoc rm @ docs)" by (rule docs_about_Un [OF docs_about_remove A(3)])
  moreover have "tu_writes t' = tu_writes t @ map removeDoc rm @ docs" using A(2) R by simp
  moreover have "k \<notin> ?K \<and> (\<exists>d'. fmlookup (tu_direct t') k = Some d' \<and> kept d d')"
    if d: "fmlookup (tu_direct t) k = Some d" "dp_promoted d" and p: "fmlookup ?W k = Some p" "pr_Address p = pr_Address (dp_peer d)"
    for k d p
  proof -
    have S: "(\<exists>d'. fmlookup D1 k = Some d' \<and> kept d d') \<and> (\<forall>q \<in> set arm. \<exists>j. fmlookup ?W j = Some q \<and> j \<noteq> k)"
      by (rule compare_direct_promoted [OF c p(1) d(2) p(2)]) (use d(1) in simp)
    then obtain d' where d': "fmlookup D1 k = Some d'" "kept d d'" by blast
    have rm: "k \<notin> set rm" using C p(1) by auto
    have "fmlookup (foldl (\<lambda>d key. fmdrop key d) D1 rm) k = Some d'" using d'(1) rm by (simp add: fmlookup_drops)
    moreover from this have "k \<notin> pr_PublicKeyHex ` set ?ps"
      using S wanted_peers_Some [of "tu_server t" peers] by (fastforce simp: in_map_filter split: if_splits)
    ultimately show ?thesis using rm A(4) R d'(2) by auto
  qed
  ultimately show "\<exists>docs K. tu_writes t' = tu_writes t @ docs \<and> docs_about K docs \<and>
      (\<forall>k d. fmlookup (tu_direct t) k = Some d \<and> dp_promoted d \<and>
         (\<exists>p. fmlookup (wanted_peers (tu_server t) peers) k = Some p \<and> pr_Address p = pr_Address (dp_peer d)) \<longrightarrow>
         k \<notin> K \<and> (\<exists>d'. fmlookup (tu_direct t') k = Some d' \<and> kept d d'))" by blast
qed

text \<open>
  C27. A refresh never resets a working path: a promoted peer that the control plane still lists at
  its address, whatever else the row says and whatever the device answers, stays promoted with its
  evidence, and no document of the refresh is about it.
\<close>
theorem working_path_survives_refresh:
  assumes "fmlookup (tu_direct t) k = Some d" and "dp_promoted d"
    and "fmlookup (wanted_peers (tu_server t) peers) k = Some p" and "pr_Address p = pr_Address (dp_peer d)"
    and "SetDirectPeers dev now ks ws peers t = (ok, t')"
  shows "\<exists>d' docs K. fmlookup (tu_direct t') k = Some d' \<and> dp_promoted d' \<and>
     pr_Address (dp_peer d') = pr_Address (dp_peer d) \<and> dp_lastSeen d' = dp_lastSeen d \<and> dp_lastHS d' = dp_lastHS d \<and>
     tu_writes t' = tu_writes t @ docs \<and> k \<notin> K \<and> docs_about K docs"
proof -
  from SetDirectPeers_leaves(2) [OF assms(5)] assms(1-4) obtain docs K d' where "tu_writes t' = tu_writes t @ docs"
    "docs_about K docs" "k \<notin> K" "fmlookup (tu_direct t') k = Some d'" "kept d d'" by blast
  with assms(2) show ?thesis by (auto simp: kept_def)
qed

subsection \<open>Refreshing\<close>







subsection \<open>Runs\<close>







end
