(* ===== verification/WgRouteExamples.thy ===== *)
theory WgRouteExamples
  imports WgRoutes GoInert
begin

text \<open>
  The direct peers at concrete inputs: a reader of the documents that meets what the UAPI of
  WireGuard promises, a peer that handshakes and is given its address, and two rows that get
  further than they should.
\<close>

subsection \<open>A device\<close>

text \<open>The lines of a document, one at a time; a prefix has one owner.\<close>

fun uapi_lines :: "string \<Rightarrow> (string \<Rightarrow> string set) \<Rightarrow> string list \<Rightarrow> string \<Rightarrow> string set" where
  "uapi_lines cur R [] = R"
| "uapi_lines cur R (line # ls) =
     (case cut_at (CHR ''='') line of
        None \<Rightarrow> uapi_lines cur R ls
      | Some (k, v) \<Rightarrow>
          if k = ''public_key'' then uapi_lines v R ls
          else if k = ''remove'' \<or> k = ''replace_allowed_ips'' then uapi_lines cur (R(cur := {})) ls
          else if k = ''allowed_ip'' then uapi_lines cur (\<lambda>j. if j = cur then insert v (R j) else R j - {v}) ls
          else uapi_lines cur R ls)"

definition uapi_routes :: "string list \<Rightarrow> string \<Rightarrow> string set" where
  "uapi_routes docs = foldl (\<lambda>R doc. uapi_lines [] R (split_on (CHR 0x0A) doc)) (\<lambda>_. {}) docs"

lemma uapi_routes_snoc: "uapi_routes (docs @ [doc]) = uapi_lines [] (uapi_routes docs) (split_on (CHR 0x0A) doc)"
  by (simp add: uapi_routes_def)







definition answering :: "string \<Rightarrow> wg_device" where
  "answering dump = \<lparr>dv_set = \<lambda>_ _. True, dv_get = \<lambda>_. Some dump\<rparr>"

lemma answering_simps [simp]: "dv_set (answering dump) docs doc" "dv_get (answering dump) docs = Some dump"
  by (simp_all add: answering_def)

definition shaken :: string where
  "shaken = ''public_key=aa'' @ nl @ ''last_handshake_time_sec=100'' @ nl"

lemma shaken_reads: "parseHandshakeDump shaken = [''aa'' \<mapsto> 100 * Second]" "parseReceivedDump shaken = [''aa'' \<mapsto> 0]"
proof -
  have l: "split_on (CHR 0x0A) shaken = [''public_key=aa'', ''last_handshake_time_sec=100'', []]" by code_simp
  have n: "int_or_zero ''100'' = 100" "trim_space ''aa'' = ''aa''" "unix_time 100 0 = 100 * Second"
    by (code_simp, rule trim_space_graph, code_simp, code_simp)
  show "parseHandshakeDump shaken = [''aa'' \<mapsto> 100 * Second]"
    by (simp add: parseHandshakeDump_def l n flush_peer_def)
  show "parseReceivedDump shaken = [''aa'' \<mapsto> 0]"
    by (simp add: parseReceivedDump_def l n)
qed

subsection \<open>A peer that answers\<close>

definition example_direct :: wg_peer where
  "example_direct =
     \<lparr>pr_Address = Addr6 0x2a042a01000000000000000000000005 [], pr_PublicKeyHex = ''aa'', pr_Endpoint = ''192.0.2.1:51820'',
      pr_Name = [], pr_Path = [], pr_Candidates = [\<lparr>cd_Endpoint = ''192.0.2.1:51820'', cd_Source = SourcePublic\<rparr>]\<rparr>"


definition idle_config :: wg_config where
  "idle_config =
     \<lparr>wc_PrivateKeyHex = ''cc'', wc_ServerPublicKeyHex = ''bb'', wc_Endpoint = ''box'', wc_Address = Some (Addr6 5 []),
      wc_DNS = None, wc_Keepalive = 0, wc_NAT64Prefix = None, wc_ListenPort = 0, wc_Peers = [], wc_MTU = 0\<rparr>"


definition idle_docs :: "string list" where
  "idle_docs = [uapiConfig (idle_config\<lparr>wc_Endpoint := ''192.0.2.9:1''\<rparr>)]"


definition idle_tunnel :: tunnel where
  "idle_tunnel =
     \<lparr>tu_server = ''bb'', tu_dead = directDeadAfter, tu_rearm = directRearmAfter, tu_punchEvery = punchPeriod,
      tu_direct = fmempty, tu_writes = idle_docs\<rparr>"



definition armed_tunnel :: tunnel where
  "armed_tunnel = refreshPeersOnce (answering shaken) 0 [] [''aa''] (Some [example_direct]) idle_tunnel"

definition promoted_tunnel :: tunnel where
  "promoted_tunnel = monitor_tick (answering shaken) (101 * Second) [''aa''] armed_tunnel"

lemma armed_tunnel_eq:
  "armed_tunnel =
     idle_tunnel\<lparr>tu_direct := fmupd ''aa'' (new_direct example_direct 0) fmempty, tu_writes := idle_docs @ [armDoc example_direct]\<rparr>"
proof -
  have k: "pr_PublicKeyHex example_direct = ''aa''" by (simp add: example_direct_def)
  show ?thesis
    by (simp add: armed_tunnel_def refreshPeersOnce_def SetDirectPeers_def wanted_peers_def idle_tunnel_def k IpcSet_def
        map_filter_simps)
qed

lemma observe_seen:
  assumes "dp_lastHS d < h"
  shows "dp_lastSeen (observe now (Some h) rx d) = now"
  using assms by (cases rx) (simp_all add: observe_def Let_def)

text \<open>A handshake newer than any remembered promotes, whatever its age.\<close>

lemma decide_promotes:
  assumes "dp_lastHS d < h" and "\<not> dp_promoted d" and "now \<noteq> zeroTime" and "0 \<le> tu_dead t"
  shows "decide_peer t now (Some h) rx d = ([Promote (dp_peer d)], (observe now (Some h) rx d)\<lparr>dp_promoted := True\<rparr>)"
proof -
  have "0 < orDur (tu_dead t) directDeadAfter" using assms(4) by (simp add: orDur_def directDeadAfter_def Second_def)
  then have "fresh t now (observe now (Some h) rx d)"
    using assms(3) observe_seen [OF assms(1)] by (simp add: fresh_def time_sub_def)
  with assms(2) show ?thesis by (simp add: decide_peer_def Let_def)
qed

lemma example_key [simp]: "pr_PublicKeyHex example_direct = ''aa''"
  by (simp add: example_direct_def)

lemma handshake_times: "zeroTime < 100 * Second" "101 * Second \<noteq> zeroTime"
  by (simp_all add: zeroTime_def Second_def)

definition promoted_direct :: direct_peer where
  "promoted_direct =
     won_at (endpointFromDump shaken ''aa'')
       ((observe (101 * Second) (Some (100 * Second)) (Some 0) (new_direct example_direct 0))\<lparr>dp_promoted := True\<rparr>)"

lemma promoted_tunnel_eq:
  "tu_direct promoted_tunnel = fmupd ''aa'' promoted_direct (tu_direct armed_tunnel)"
  "tu_writes promoted_tunnel = idle_docs @ [armDoc example_direct, promoteDoc example_direct]" "tu_server promoted_tunnel = ''bb''"
proof -
  have d: "decide_peer armed_tunnel (101 * Second) (Some (100 * Second)) (Some 0) (new_direct example_direct 0) =
      ([Promote example_direct],
       (observe (101 * Second) (Some (100 * Second)) (Some 0) (new_direct example_direct 0))\<lparr>dp_promoted := True\<rparr>)"
    using decide_promotes [of "new_direct example_direct 0" "100 * Second" "101 * Second" armed_tunnel "Some 0"] handshake_times
    by (simp add: new_direct_def armed_tunnel_eq idle_tunnel_def directDeadAfter_def Second_def)
  have l: "fmlookup (tu_direct armed_tunnel) ''aa'' = Some (new_direct example_direct 0)" "tu_writes armed_tunnel = idle_docs @ [armDoc example_direct]"
    "tu_server armed_tunnel = ''bb''"
    by (simp_all add: armed_tunnel_eq idle_tunnel_def)
  show "tu_direct promoted_tunnel = fmupd ''aa'' promoted_direct (tu_direct armed_tunnel)"
    "tu_writes promoted_tunnel = idle_docs @ [armDoc example_direct, promoteDoc example_direct]" "tu_server promoted_tunnel = ''bb''"
    by (simp_all add: promoted_tunnel_def monitor_tick_def shaken_reads reconcileDirectPeers_def l d act_all_def IpcSet_def
        update_direct_def peerEndpoint_def promoted_direct_def del: fmupd.rep_eq)
qed



lemma working_path_survives_refresh_witness:
  "\<exists>d' docs K. fmlookup (tu_direct (snd (SetDirectPeers (answering shaken) 0 [''aa''] [''aa''] [example_direct] promoted_tunnel))) ''aa'' =
       Some d' \<and> dp_promoted d' \<and> dp_lastHS d' = 100 * Second \<and>
     tu_writes (snd (SetDirectPeers (answering shaken) 0 [''aa''] [''aa''] [example_direct] promoted_tunnel)) =
       tu_writes promoted_tunnel @ docs \<and> ''aa'' \<notin> K \<and> docs_about K docs"
proof -
  obtain ok t' where s: "SetDirectPeers (answering shaken) 0 [''aa''] [''aa''] [example_direct] promoted_tunnel = (ok, t')" by fastforce
  have d: "fmlookup (tu_direct promoted_tunnel) ''aa'' = Some promoted_direct" "dp_promoted promoted_direct"
    "pr_Address example_direct = pr_Address (dp_peer promoted_direct)" "dp_lastHS promoted_direct = 100 * Second"
    using handshake_times
    by (simp_all add: promoted_tunnel_eq promoted_direct_def won_at_def Let_def observe_def new_direct_def)
  have w: "fmlookup (wanted_peers (tu_server promoted_tunnel) [example_direct]) ''aa'' = Some example_direct"
    by (simp add: wanted_peers_def promoted_tunnel_eq)
  from working_path_survives_refresh [OF d(1,2) w d(3) s] d(4) s show ?thesis by fastforce
qed

subsection \<open>Rows and trains\<close>

definition example_cands :: "candidate list" where
  "example_cands =
     [\<lparr>cd_Endpoint = ''198.51.100.7:51820'', cd_Source = SourceObserved\<rparr>,
      \<lparr>cd_Endpoint = ''192.168.1.5:51820'', cd_Source = SourceLocal\<rparr>]"

definition example_b64 :: string where
  "example_b64 = replicate 43 (CHR ''A'') @ ''=''"

lemma trims:
  "trim_space example_b64 = example_b64" "trim_space ''198.51.100.7:51820'' = ''198.51.100.7:51820''"
  "trim_space ''192.168.1.5:51820'' = ''192.168.1.5:51820''" "trim_space ''2a04:2a01::5'' = ''2a04:2a01::5''"
  by (rule trim_space_graph, code_simp)+

text \<open>An endpoint at port 51820, once it is cut and its host is read.\<close>

definition underlay :: "ip_addr \<Rightarrow> bool" where
  "underlay ip \<longleftrightarrow>
     \<not> IsLoopback ip \<and> \<not> (IsLinkLocalUnicast ip \<or> IsLinkLocalMulticast ip \<or> IsMulticast ip) \<and> \<not> IsUnspecified ip \<and>
     \<not> Contains agentBlock ip \<and> \<not> Contains tailnetBlock ip"

lemma endpoint_eval:
  assumes "list_all is_graph ep" and "splitHostPortLiteral ep = Some (host, ''51820'')" and "ParseAddr host = Some a"
  shows "checkUnderlayEndpoint ep \<longleftrightarrow> underlay (Unmap a)"
proof -
  have "parse_int ''51820'' = Some 51820"
    by (simp add: parse_int_def parse_nat_def digit_val_def of_char_def is_digit_def)
  with assms trim_space_graph [OF assms(1)] show ?thesis by (simp add: checkUnderlayEndpoint_def underlay_def Let_def)
qed

lemma example_endpoints: "checkUnderlayEndpoint ''198.51.100.7:51820''" "checkUnderlayEndpoint ''192.168.1.5:51820''"
proof -
  have "list_all is_graph ''198.51.100.7:51820''" "splitHostPortLiteral ''198.51.100.7:51820'' = Some (''198.51.100.7'', ''51820'')"
    "ParseAddr ''198.51.100.7'' = Some (Addr4 0xC6336407)" "underlay (Unmap (Addr4 0xC6336407))" by code_simp+
  then show "checkUnderlayEndpoint ''198.51.100.7:51820''" using endpoint_eval by blast
  have "list_all is_graph ''192.168.1.5:51820''" "splitHostPortLiteral ''192.168.1.5:51820'' = Some (''192.168.1.5'', ''51820'')"
    "ParseAddr ''192.168.1.5'' = Some (Addr4 0xC0A80105)" "underlay (Unmap (Addr4 0xC0A80105))" by code_simp+
  then show "checkUnderlayEndpoint ''192.168.1.5:51820''" using endpoint_eval by blast
qed

lemma example_parses: "\<exists>p. ParsePeerCandidates example_b64 example_cands ''2a04:2a01::5'' [] [] = Some p"
proof -
  have k: "keyBase64ToHex example_b64 = Some (replicate 64 (CHR ''0''))"
    unfolding keyBase64ToHex_def trims by code_simp
  have t: "trim_chars ''[]'' ''2a04:2a01::5'' = ''2a04:2a01::5''" by code_simp
  have a: "ParseAddr ''2a04:2a01::5'' = Some (Addr6 0x2a042a01000000000000000000000005 [])" by code_simp
  have b: "Contains agentBlock (Addr6 0x2a042a01000000000000000000000005 [])" by code_simp
  have u: "Unmap (Addr6 0x2a042a01000000000000000000000005 []) = Addr6 0x2a042a01000000000000000000000005 []" by code_simp
  have "ParseCandidates example_cands \<noteq> None"
    by (simp add: ParseCandidates_def example_cands_def add_candidate_def trims example_endpoints Let_def SourceObserved_def
        SourceLocal_def)
  then obtain cs where c: "ParseCandidates example_cands = Some cs" by blast
  have "length example_cands = 2" by (simp add: example_cands_def)
  then show ?thesis
    by (simp add: ParsePeerCandidates_def k t a b u c trims Is6_def)
qed

lemma accepted_peer_is_confined_witness:
  "\<exists>p. ParsePeerCandidates example_b64 example_cands ''2a04:2a01::5'' [] [] = Some p \<and> length (pr_PublicKeyHex p) = 64 \<and>
     1 \<le> length (pr_Candidates p) \<and> length (pr_Candidates p) \<le> 8"
  using example_parses accepted_peer_is_confined by blast

lemma train_walks_candidates_witness:
  "set (map Some example_cands) \<subseteq> set (fst (dues 0 [0, 5 * Second] (newPunchTrain example_cands 0)))"
proof -
  have g: "gap 0 < 2 ^ 63" "spaced (gap 0) zeroTime [0, 5 * Second]"
    by (simp_all add: gap_def punchPeriod_def Second_def zeroTime_def)
  have "example_cands \<noteq> []" "length example_cands \<le> 12" "length example_cands \<le> length [0, 5 * Second]"
    by (simp_all add: example_cands_def)
  with train_walks_candidates [OF _ g(2,1), of example_cands 0 "[]"] show ?thesis by blast
qed

subsection \<open>Where the code does less than it says\<close>

text \<open>
  An endpoint in the overlay is refused, and accepted once it carries a zone: no prefix contains a
  zoned address. The tunnel is then aimed down the tunnel.
\<close>

lemma zone_reaches_overlay:
  "\<not> checkUnderlayEndpoint ''[2a04:2a01::5]:51820''" "checkUnderlayEndpoint ''[2a04:2a01::5%1]:51820''"
proof -
  have "list_all is_graph ''[2a04:2a01::5]:51820''" "splitHostPortLiteral ''[2a04:2a01::5]:51820'' = Some (''2a04:2a01::5'', ''51820'')"
    "ParseAddr ''2a04:2a01::5'' = Some (Addr6 0x2a042a01000000000000000000000005 [])"
    "\<not> underlay (Unmap (Addr6 0x2a042a01000000000000000000000005 []))" by code_simp+
  then show "\<not> checkUnderlayEndpoint ''[2a04:2a01::5]:51820''" using endpoint_eval by blast
  have "list_all is_graph ''[2a04:2a01::5%1]:51820''"
    "splitHostPortLiteral ''[2a04:2a01::5%1]:51820'' = Some (''2a04:2a01::5%1'', ''51820'')"
    "ParseAddr ''2a04:2a01::5%1'' = Some (Addr6 0x2a042a01000000000000000000000005 ''1'')"
    "underlay (Unmap (Addr6 0x2a042a01000000000000000000000005 ''1''))" by code_simp+
  then show "checkUnderlayEndpoint ''[2a04:2a01::5%1]:51820''" using endpoint_eval by blast
qed

text \<open>
  C40. A handshake that was seen, and went stale, promotes again: a row with other endpoints arms the
  peer anew and forgets the newest handshake seen, the device still reports it, and the next tick
  takes it for a new one and routes the address, although nothing of the peer arrived since. The
  same dump promotes nothing when no such row came in between.
\<close>
theorem rearm_promotes_stale:
  assumes "fmlookup (tu_direct t) = [pr_PublicKeyHex p \<mapsto> d]" and "\<not> dp_promoted d" and "dp_lastHS d = h"
    and "\<not> fresh t now2 d" and "pr_Address (dp_peer d) = pr_Address p" and "\<not> sameCandidates p (dp_peer d)"
    and "pr_PublicKeyHex p \<noteq> []" and "pr_PublicKeyHex p \<noteq> tu_server t"
    and "\<forall>ws doc. dv_set dev ws doc" and "zeroTime < h" and "now2 \<noteq> zeroTime" and "0 \<le> tu_dead t"
  shows "(\<forall>q. Promote q \<notin> set (fst (decide_peer t now2 (Some h) None d))) \<and>
     (\<exists>t1. SetDirectPeers dev now1 [pr_PublicKeyHex p] [pr_PublicKeyHex p] [p] t = (True, t1) \<and>
       promoteDoc p \<in> set (tu_writes (reconcileDirectPeers dev now2 [pr_PublicKeyHex p \<mapsto> h] Map.empty [pr_PublicKeyHex p] t1)))"
proof -
  let ?k = "pr_PublicKeyHex p"
  have "observe now2 (Some h) None d = d" using assms(3) by (simp add: observe_def)
  then have quiet: "\<forall>q. Promote q \<notin> set (fst (decide_peer t now2 (Some h) None d))"
    using assms(2,4) by (auto simp: decide_peer_def Let_def split: prod.splits option.splits if_splits)
  define t1 where "t1 = snd (SetDirectPeers dev now1 [?k] [?k] [p] t)"
  have s: "SetDirectPeers dev now1 [?k] [?k] [p] t = (True, t1)"
    "fmlookup (tu_direct t1) ?k = Some (new_direct p now1)" "tu_dead t1 = tu_dead t"
    using assms(1,2,5-9)
    by (simp_all add: t1_def SetDirectPeers_def wanted_peers_def IpcSet_def map_filter_simps)
  have d: "decide_peer t1 now2 (Some h) None (new_direct p now1) =
      ([Promote p], (observe now2 (Some h) None (new_direct p now1))\<lparr>dp_promoted := True\<rparr>)"
    using decide_promotes [of "new_direct p now1" h now2 t1 None] assms(10-12) s(3) by (simp add: new_direct_def)
  have "promoteDoc p \<in> set (tu_writes (reconcileDirectPeers dev now2 [?k \<mapsto> h] Map.empty [?k] t1))"
    using assms(9) by (simp add: reconcileDirectPeers_def s(2) d act_all_def IpcSet_def)
  with s(1) quiet show ?thesis by blast
qed

definition stale_direct :: direct_peer where
  "stale_direct = (new_direct example_direct 0)\<lparr>dp_lastHS := 100 * Second, dp_lastSeen := 101 * Second\<rparr>"

definition stale_tunnel :: tunnel where
  "stale_tunnel = idle_tunnel\<lparr>tu_direct := fmupd ''aa'' stale_direct fmempty\<rparr>"

lemma rearm_promotes_stale_witness:
  "\<exists>t1 p. SetDirectPeers (answering shaken) (3000 * Second) [''aa''] [''aa''] [p] stale_tunnel = (True, t1) \<and>
     promoteDoc p \<in> set (tu_writes (reconcileDirectPeers (answering shaken) (3005 * Second) [''aa'' \<mapsto> 100 * Second] Map.empty [''aa''] t1))"
proof -
  define p where "p = example_direct\<lparr>pr_Candidates := example_cands\<rparr>"
  have f: "\<not> fresh stale_tunnel (3005 * Second) stale_direct"
    by (simp add: fresh_def stale_tunnel_def stale_direct_def idle_tunnel_def orDur_def directDeadAfter_def time_sub_def Second_def)
  have c: "\<not> sameCandidates p (dp_peer stale_direct)"
    by (simp add: sameCandidates_def candidateList_def p_def stale_direct_def new_direct_def example_cands_def example_direct_def)
  have z: "zeroTime < 100 * Second" "3005 * Second \<noteq> zeroTime" "0 \<le> tu_dead stale_tunnel"
    by (simp_all add: zeroTime_def Second_def stale_tunnel_def idle_tunnel_def directDeadAfter_def)
  have k: "pr_PublicKeyHex p = ''aa''" "pr_Address (dp_peer stale_direct) = pr_Address p" "\<not> dp_promoted stale_direct"
    "dp_lastHS stale_direct = 100 * Second" "fmlookup (tu_direct stale_tunnel) = [pr_PublicKeyHex p \<mapsto> stale_direct]"
    "pr_PublicKeyHex p \<noteq> []" "pr_PublicKeyHex p \<noteq> tu_server stale_tunnel"
    by (auto simp: p_def stale_direct_def stale_tunnel_def idle_tunnel_def new_direct_def)
  from rearm_promotes_stale [OF k(5) k(3) k(4) f k(2) c k(6,7) _ z, of "answering shaken" "3000 * Second"]
  show ?thesis unfolding k(1) by auto
qed

end
