(* ===== verification/EnfWatch.thy ===== *)
theory EnfWatch
  imports EnfFilter WgPeers
begin

text \<open>
  \<open>internal/enforce/tunnel_linux.go\<close> and \<open>renew.go\<close>: the enforced tunnel from its configuration to
  one turn of the loop that drives the kill switch. The device, the control plane, the resolver and
  the jitter are arguments; every turn may meet another answer. Building the namespace and the
  operational lines are left out, and of the re-opening of sockets there is only a count.
\<close>

definition deadAfter :: int where "deadAfter = 180 * Second"
definition nudgeEvery :: int where "nudgeEvery = 15 * Second"
definition rebindEvery :: nat where "rebindEvery = 4"
definition renewFirst :: int where "renewFirst = 15 * Second"
definition renewMax :: int where "renewMax = 5 * Minute"
definition renewStart :: int where "renewStart = 30 * Second"

subsection \<open>Renewals\<close>

datatype renew_error = ErrRenewRefused | RenewFault

definition nextRenewBackoff :: "int \<Rightarrow> int \<Rightarrow> renew_error option \<Rightarrow> int \<times> int" where
  "nextRenewBackoff cur mx err =
     (if err = Some ErrRenewRefused then (mx, mx)
      else (let nx = cur * 2; nx = (if nx > mx then mx else nx) in (cur, nx)))"

definition samePeer :: "wg_config \<Rightarrow> wg_config \<Rightarrow> bool" where
  "samePeer a b \<longleftrightarrow> wc_Endpoint a = wc_Endpoint b \<and> wc_ServerPublicKeyHex a = wc_ServerPublicKeyHex b"

definition renewedConfig :: "(string \<Rightarrow> string option) \<Rightarrow> wg_config \<Rightarrow> wg_config \<Rightarrow> wg_config option" where
  "renewedConfig resolve cur ans =
     (if wc_Address ans \<noteq> wc_Address cur then None
      else if wc_ServerPublicKeyHex ans = [] \<or> wc_Endpoint ans = [] then None
      else
        (let ans = (if wc_PrivateKeyHex ans = [] then ans\<lparr>wc_PrivateKeyHex := wc_PrivateKeyHex cur\<rparr> else ans) in
         case resolve (wc_Endpoint ans) of
           None \<Rightarrow> None
         | Some ep \<Rightarrow>
             (let ans = ans\<lparr>wc_Endpoint := ep, wc_Peers := [], wc_ListenPort := 0\<rparr> in
              Some (if wc_Keepalive ans \<le> 0 then ans\<lparr>wc_Keepalive := wc_Keepalive cur\<rparr> else ans))))"

subsection \<open>The tunnel\<close>

record enf_tunnel =
  et_filter :: pfilter
  et_cfg :: wg_config
  et_writes :: "string list"
  et_renews :: bool
  et_checkInEvery :: int
  et_rebinds :: nat

record enf_world =
  ew_dev :: wg_device
  ew_resolve :: "string \<Rightarrow> string option"
  ew_jitter :: "int \<Rightarrow> int"
  ew_checkIn :: "renew_error + wg_config"
  ew_renew :: "renew_error + wg_config"

definition enf_set :: "enf_world \<Rightarrow> string \<Rightarrow> enf_tunnel \<Rightarrow> bool \<times> enf_tunnel" where
  "enf_set w doc t = (dv_set (ew_dev w) (et_writes t) doc, t\<lparr>et_writes := et_writes t @ [doc]\<rparr>)"

text \<open>The box's handshake in a dump of the device, if it names the box at all.\<close>

definition enf_handshake :: "enf_world \<Rightarrow> enf_tunnel \<Rightarrow> int option" where
  "enf_handshake w t =
     (case dv_get (ew_dev w) (et_writes t) of
        None \<Rightarrow> None
      | Some dump \<Rightarrow> parseHandshakeDump dump (wc_ServerPublicKeyHex (et_cfg t)))"

definition nudgeDoc :: "wg_config \<Rightarrow> string" where
  "nudgeDoc c =
     ''public_key='' @ wc_ServerPublicKeyHex c @ nl @ ''update_only=true'' @ nl @ ''endpoint='' @ wc_Endpoint c @ nl @
     ''persistent_keepalive_interval=0'' @ nl"

definition nudgeDoc2 :: "wg_config \<Rightarrow> string" where
  "nudgeDoc2 c =
     (let ka = (if wc_Keepalive c \<le> 0 then 25 else wc_Keepalive c) in
      ''public_key='' @ wc_ServerPublicKeyHex c @ nl @ ''update_only=true'' @ nl @
      ''persistent_keepalive_interval='' @ format_int ka @ nl)"

definition nudge :: "enf_world \<Rightarrow> enf_tunnel \<Rightarrow> enf_tunnel" where
  "nudge w t = snd (enf_set w (nudgeDoc2 (et_cfg t)) (snd (enf_set w (nudgeDoc (et_cfg t)) t)))"

definition replaceDoc :: "wg_config \<Rightarrow> string" where
  "replaceDoc c = ''replace_peers=true'' @ nl @ uapiConfig c"

text \<open>The configuration of an answer on the device; what is already in place may be left alone.\<close>

definition apply_renewal :: "enf_world \<Rightarrow> bool \<Rightarrow> renew_error + wg_config \<Rightarrow> enf_tunnel \<Rightarrow> renew_error option \<times> enf_tunnel" where
  "apply_renewal w only_moved answer t =
     (case answer of
        Inl err \<Rightarrow> (Some err, t)
      | Inr ans \<Rightarrow>
          (case renewedConfig (ew_resolve w) (et_cfg t) ans of
             None \<Rightarrow> (Some RenewFault, t)
           | Some nx \<Rightarrow>
               if only_moved \<and> samePeer (et_cfg t) nx then (None, t)
               else
                 (let (ok, t) = enf_set w (replaceDoc nx) t in
                  if \<not> ok then (Some RenewFault, t) else (None, nudge w (t\<lparr>et_cfg := nx\<rparr>)))))"

definition reregister :: "enf_world \<Rightarrow> enf_tunnel \<Rightarrow> renew_error option \<times> enf_tunnel" where
  "reregister w t = apply_renewal w False (ew_renew w) t"

definition checkIn :: "enf_world \<Rightarrow> enf_tunnel \<Rightarrow> renew_error option \<times> enf_tunnel" where
  "checkIn w t = apply_renewal w True (ew_checkIn w) t"

definition nextCheckIn :: "enf_world \<Rightarrow> enf_tunnel \<Rightarrow> int \<Rightarrow> int" where
  "nextCheckIn w t now =
     (if et_checkInEvery t \<le> 0 \<or> \<not> et_renews t then zeroTime
      else now + (et_checkInEvery t - ew_jitter w (et_checkInEvery t div 12)))"

subsection \<open>The kill switch\<close>

record watch =
  wa_last :: int
  wa_changed :: int
  wa_lastNudge :: int
  wa_nextRenew :: int
  wa_nextCheckIn :: int
  wa_nudges :: nat
  wa_renewBackoff :: int
  wa_renewFailing :: bool
  wa_renewRefused :: bool

definition watch_start :: "enf_world \<Rightarrow> int \<Rightarrow> enf_tunnel \<Rightarrow> watch" where
  "watch_start w now t =
     \<lparr>wa_last = (case enf_handshake w t of Some h \<Rightarrow> h | None \<Rightarrow> zeroTime), wa_changed = now, wa_lastNudge = zeroTime,
      wa_nextRenew = zeroTime, wa_nextCheckIn = nextCheckIn w t now, wa_nudges = 0, wa_renewBackoff = renewStart,
      wa_renewFailing = False, wa_renewRefused = False\<rparr>"

text \<open>The check-in of a healthy tunnel, when it is due.\<close>

definition watch_checkIn :: "enf_world \<Rightarrow> int \<Rightarrow> watch \<times> enf_tunnel \<Rightarrow> watch \<times> enf_tunnel" where
  "watch_checkIn w now s =
     (let (wa, t) = s in
      if wa_nextCheckIn wa \<noteq> zeroTime \<and> \<not> now < wa_nextCheckIn wa \<and> Live (et_filter t) then
        (wa\<lparr>wa_nextCheckIn := nextCheckIn w t now\<rparr>, snd (checkIn w t))
      else s)"

text \<open>A handshake that is another than the last opens the filter and forgets the trouble.\<close>

definition watch_carries :: "int \<Rightarrow> int \<Rightarrow> watch \<times> enf_tunnel \<Rightarrow> watch \<times> enf_tunnel" where
  "watch_carries hs now s =
     (let (wa, t) = s in
      (wa\<lparr>wa_last := hs, wa_changed := now, wa_nudges := 0, wa_nextRenew := zeroTime, wa_renewBackoff := renewStart,
          wa_renewFailing := False, wa_renewRefused := False\<rparr>,
       if Live (et_filter t) then t else t\<lparr>et_filter := SetLive True (et_filter t)\<rparr>))"

definition watch_close :: "int \<Rightarrow> watch \<times> enf_tunnel \<Rightarrow> watch \<times> enf_tunnel" where
  "watch_close now s =
     (let (wa, t) = s in
      if Live (et_filter t) then (wa\<lparr>wa_nextRenew := now + renewFirst\<rparr>, t\<lparr>et_filter := SetLive False (et_filter t)\<rparr>)
      else s)"

definition watch_renew :: "enf_world \<Rightarrow> int \<Rightarrow> watch \<times> enf_tunnel \<Rightarrow> watch \<times> enf_tunnel" where
  "watch_renew w now s =
     (let (wa, t) = s in
      if et_renews t \<and> wa_nextRenew wa \<noteq> zeroTime \<and> \<not> now < wa_nextRenew wa then
        (let (err, t) = reregister w t;
             wa = (if err = None then wa
                   else wa\<lparr>wa_renewFailing := True, wa_renewRefused := (err = Some ErrRenewRefused)\<rparr>);
             (wait, backoff) = nextRenewBackoff (wa_renewBackoff wa) renewMax err
         in (wa\<lparr>wa_renewBackoff := backoff, wa_nextRenew := now + wait\<rparr>, t))
      else s)"

definition watch_nudge :: "enf_world \<Rightarrow> int \<Rightarrow> watch \<times> enf_tunnel \<Rightarrow> watch \<times> enf_tunnel" where
  "watch_nudge w now s =
     (let (wa, t) = s in
      if time_sub now (wa_lastNudge wa) \<ge> nudgeEvery then
        (let n = wa_nudges wa + 1;
             t = (if n mod rebindEvery = 0 then t\<lparr>et_rebinds := et_rebinds t + 1\<rparr> else t)
         in (wa\<lparr>wa_lastNudge := now, wa_nudges := n\<rparr>, nudge w t))
      else s)"

definition new_handshake :: "int option \<Rightarrow> int \<Rightarrow> int option" where
  "new_handshake hs prev =
     (case hs of Some h \<Rightarrow> if h \<noteq> prev \<and> h \<noteq> zeroTime then Some h else None | None \<Rightarrow> None)"

text \<open>One turn of the loop; the handshake is read before the check-in.\<close>

definition watch_turn :: "enf_world \<Rightarrow> int \<Rightarrow> watch \<times> enf_tunnel \<Rightarrow> watch \<times> enf_tunnel" where
  "watch_turn w now s =
     (let hs = enf_handshake w (snd s); s = watch_checkIn w now s in
      case new_handshake hs (wa_last (fst s)) of
        Some h \<Rightarrow> watch_carries h now s
      | None \<Rightarrow>
          if time_sub now (wa_changed (fst s)) \<le> deadAfter then s
          else watch_nudge w now (watch_renew w now (watch_close now s)))"

subsection \<open>Bring-up\<close>

text \<open>The readings of the device while it is waited for: the time of each and the handshake.\<close>

fun await_handshake :: "int \<Rightarrow> (int \<times> int option) list \<Rightarrow> bool option" where
  "await_handshake deadline [] = None"
| "await_handshake deadline ((now, hs) # rs) =
     (case hs of
        Some h \<Rightarrow> if h \<noteq> zeroTime then Some True else if now > deadline then Some False else await_handshake deadline rs
      | None \<Rightarrow> if now > deadline then Some False else await_handshake deadline rs)"

definition handshakeWait :: int where "handshakeWait = 10 * Second"

text \<open>
  \<open>place\<close> is whether the namespace and the device come up, the readings are those of the wait for
  the first handshake, which begins at \<open>now\<close>, and the loop begins at \<open>t0\<close>; \<open>None\<close> is a bring-up that
  fails, or whose wait does not end.
\<close>

definition startTunnel ::
    "enf_world \<Rightarrow> bool \<Rightarrow> bool \<Rightarrow> int \<Rightarrow> int \<Rightarrow> int \<Rightarrow> (int \<times> int option) list \<Rightarrow> wg_config \<Rightarrow> policy \<Rightarrow> (watch \<times> enf_tunnel) option" where
  "startTunnel w place renews checkInEvery now t0 readings cfg pol =
     (if wc_Address cfg = None \<or> wc_PrivateKeyHex cfg = [] \<or> wc_ServerPublicKeyHex cfg = [] \<or> wc_Endpoint cfg = [] then None
      else
        (case ew_resolve w (wc_Endpoint cfg) of
           None \<Rightarrow> None
         | Some ep \<Rightarrow>
             (let cfg = cfg\<lparr>wc_Endpoint := ep, wc_Peers := [], wc_ListenPort := 0\<rparr>;
                  f = NewFilter (pol\<lparr>pol_self := wc_Address cfg\<rparr>);
                  t = \<lparr>et_filter = f, et_cfg = cfg, et_writes = [], et_renews = renews, et_checkInEvery = checkInEvery,
                       et_rebinds = 0\<rparr>;
                  (ok, t) = enf_set w (uapiConfig cfg) t
              in
                if \<not> place \<or> \<not> ok then None
                else if await_handshake (now + handshakeWait) readings = Some True then
                  (let t = t\<lparr>et_filter := SetLive True (et_filter t)\<rparr> in Some (watch_start w t0 t, t))
                else None)))"

end
