(* ===== verification/EnfWatchRuns.thy ===== *)
theory EnfWatchRuns
  imports EnfWatch EnfRuns
begin

text \<open>
  The kill switch over time, with the packets of the agent between its turns: nothing leaves unless
  a handshake was new not long ago; the device never has another peer or address than those of the
  box and the agent; and a dead tunnel keeps asking to be registered again.
\<close>

subsection \<open>Runs\<close>

text \<open>
  The state, the readings of the handshake so far and the time of the last turn, from a start at
  \<open>t0\<close>. Turns come at times that do not go back, each in a world of its own.
\<close>

inductive enf_run ::
    "int \<Rightarrow> watch \<times> enf_tunnel \<Rightarrow> (int \<times> int option) list \<Rightarrow> int \<Rightarrow> watch \<times> enf_tunnel \<Rightarrow> bool" for t0 s0 where
  began: "enf_run t0 s0 [] t0 s0"
| turned: "enf_run t0 s0 obs prev s \<Longrightarrow> prev \<le> now \<Longrightarrow>
     enf_run t0 s0 (obs @ [(now, enf_handshake w (snd s))]) now (watch_turn w now s)"
| sent: "enf_run t0 s0 obs prev (wa, t) \<Longrightarrow> Outbound (et_filter t) ts buf n = (f', buf', k, r) \<Longrightarrow>
     enf_run t0 s0 obs prev (wa, t\<lparr>et_filter := f'\<rparr>)"
| received: "enf_run t0 s0 obs prev (wa, t) \<Longrightarrow> Inbound (et_filter t) now buf n = Some (f', buf', k) \<Longrightarrow>
     enf_run t0 s0 obs prev (wa, t\<lparr>et_filter := f'\<rparr>)"

lemma packets_keep:
  "Outbound f ts buf n = (f', buf', k, r) \<Longrightarrow> Live f' = Live f \<and> f_policy f' = f_policy f"
  "Inbound f t buf n = Some (f', buf', k) \<Longrightarrow> Live f' = Live f \<and> f_policy f' = f_policy f"
  using Outbound_changed [of f ts buf n] Inbound_changed [of f t buf n f' buf' k t]
  by (simp_all add: changed_def Live_def)

subsection \<open>What one turn does\<close>

lemma Live_SetLive [simp]: "Live (SetLive b f) = b" "f_policy (SetLive b f) = f_policy f"
  by (simp_all add: Live_def SetLive_def)

lemma enf_set_keeps [simp]:
  "et_filter (snd (enf_set w doc t)) = et_filter t" "et_cfg (snd (enf_set w doc t)) = et_cfg t"
  "et_renews (snd (enf_set w doc t)) = et_renews t" "et_checkInEvery (snd (enf_set w doc t)) = et_checkInEvery t"
  "et_writes (snd (enf_set w doc t)) = et_writes t @ [doc]"
  by (simp_all add: enf_set_def)

lemma nudge_keeps [simp]:
  "et_filter (nudge w t) = et_filter t" "et_cfg (nudge w t) = et_cfg t" "et_renews (nudge w t) = et_renews t"
  "et_checkInEvery (nudge w t) = et_checkInEvery t" "et_writes (nudge w t) = et_writes t @ [nudgeDoc (et_cfg t), nudgeDoc2 (et_cfg t)]"
  by (simp_all add: nudge_def)

lemma apply_renewal_keeps:
  assumes "apply_renewal w m ans t = (err, t')"
  shows "et_filter t' = et_filter t" and "et_renews t' = et_renews t"
  using assms by (auto simp: apply_renewal_def enf_set_def Let_def split: sum.splits option.splits if_splits)

lemma watch_checkIn_keeps:
  "et_filter (snd (watch_checkIn w now s)) = et_filter (snd s)" "et_renews (snd (watch_checkIn w now s)) = et_renews (snd s)"
  "wa_last (fst (watch_checkIn w now s)) = wa_last (fst s)" "wa_changed (fst (watch_checkIn w now s)) = wa_changed (fst s)"
  "wa_nextRenew (fst (watch_checkIn w now s)) = wa_nextRenew (fst s)"
  "wa_renewBackoff (fst (watch_checkIn w now s)) = wa_renewBackoff (fst s)"
proof -
  obtain wa t where s: "s = (wa, t)" by fastforce
  obtain err t' where a: "apply_renewal w True (ew_checkIn w) t = (err, t')" by fastforce
  show "et_filter (snd (watch_checkIn w now s)) = et_filter (snd s)" "et_renews (snd (watch_checkIn w now s)) = et_renews (snd s)"
    "wa_last (fst (watch_checkIn w now s)) = wa_last (fst s)" "wa_changed (fst (watch_checkIn w now s)) = wa_changed (fst s)"
    "wa_nextRenew (fst (watch_checkIn w now s)) = wa_nextRenew (fst s)"
    "wa_renewBackoff (fst (watch_checkIn w now s)) = wa_renewBackoff (fst s)"
    using apply_renewal_keeps [OF a] by (simp_all add: s watch_checkIn_def checkIn_def a)
qed

lemma watch_renew_keeps:
  "et_filter (snd (watch_renew w now s)) = et_filter (snd s)" "et_renews (snd (watch_renew w now s)) = et_renews (snd s)"
  "wa_last (fst (watch_renew w now s)) = wa_last (fst s)" "wa_changed (fst (watch_renew w now s)) = wa_changed (fst s)"
proof -
  obtain wa t where s: "s = (wa, t)" by fastforce
  obtain err t' where a: "apply_renewal w False (ew_renew w) t = (err, t')" by fastforce
  show "et_filter (snd (watch_renew w now s)) = et_filter (snd s)" "et_renews (snd (watch_renew w now s)) = et_renews (snd s)"
    "wa_last (fst (watch_renew w now s)) = wa_last (fst s)" "wa_changed (fst (watch_renew w now s)) = wa_changed (fst s)"
    using apply_renewal_keeps [OF a] by (simp_all add: s watch_renew_def reregister_def a Let_def split: prod.split)
qed

lemma watch_nudge_keeps:
  "et_filter (snd (watch_nudge w now s)) = et_filter (snd s)" "et_renews (snd (watch_nudge w now s)) = et_renews (snd s)"
  "et_cfg (snd (watch_nudge w now s)) = et_cfg (snd s)"
  "wa_last (fst (watch_nudge w now s)) = wa_last (fst s)" "wa_changed (fst (watch_nudge w now s)) = wa_changed (fst s)"
  "wa_nextRenew (fst (watch_nudge w now s)) = wa_nextRenew (fst s)"
  "wa_renewBackoff (fst (watch_nudge w now s)) = wa_renewBackoff (fst s)"
  by (cases s; simp add: watch_nudge_def Let_def)+

lemma watch_close_keeps:
  "wa_last (fst (watch_close now s)) = wa_last (fst s)" "wa_changed (fst (watch_close now s)) = wa_changed (fst s)"
  "\<not> Live (et_filter (snd (watch_close now s)))" "et_renews (snd (watch_close now s)) = et_renews (snd s)"
  "et_cfg (snd (watch_close now s)) = et_cfg (snd s)" "f_policy (et_filter (snd (watch_close now s))) = f_policy (et_filter (snd s))"
  "wa_renewBackoff (fst (watch_close now s)) = wa_renewBackoff (fst s)"
  by (cases s; simp add: watch_close_def)+

lemma watch_turn_cases:
  fixes w now s
  defines "hs \<equiv> enf_handshake w (snd s)" and "c \<equiv> watch_checkIn w now s"
  obtains (carries) h where "hs = Some h" "h \<noteq> wa_last (fst s)" "h \<noteq> zeroTime" "watch_turn w now s = watch_carries h now c"
    | (waits) "hs \<in> {None, Some zeroTime, Some (wa_last (fst s))}" "time_sub now (wa_changed (fst s)) \<le> deadAfter"
        "watch_turn w now s = c"
    | (dead) "hs \<in> {None, Some zeroTime, Some (wa_last (fst s))}" "\<not> time_sub now (wa_changed (fst s)) \<le> deadAfter"
        "watch_turn w now s = watch_nudge w now (watch_renew w now (watch_close now c))"
proof -
  have turn: "watch_turn w now s =
      (case new_handshake hs (wa_last (fst s)) of
         Some h \<Rightarrow> watch_carries h now c
       | None \<Rightarrow> if time_sub now (wa_changed (fst s)) \<le> deadAfter then c
           else watch_nudge w now (watch_renew w now (watch_close now c)))"
    unfolding watch_turn_def Let_def hs_def c_def by (simp only: watch_checkIn_keeps)
  show thesis
  proof (cases "new_handshake hs (wa_last (fst s))")
    case None
    then have h: "hs \<in> {None, Some zeroTime, Some (wa_last (fst s))}"
      by (auto simp: new_handshake_def split: option.splits if_splits)
    show thesis
      by (cases "time_sub now (wa_changed (fst s)) \<le> deadAfter") (use None h waits dead turn in \<open>simp_all\<close>)
  next
    case (Some h)
    then show thesis
      by (intro carries [of h]) (auto simp: turn new_handshake_def split: option.splits if_splits)
  qed
qed

subsection \<open>The kill switch\<close>











lemma startTunnel_started:
  assumes "startTunnel w place renews every now t0 readings cfg pol = Some s0"
  shows "wa_changed (fst s0) = t0" and "\<exists>r h. (r, Some h) \<in> set readings \<and> h \<noteq> zeroTime"
    and "\<exists>ep. ew_resolve w (wc_Endpoint cfg) = Some ep \<and> et_cfg (snd s0) = cfg\<lparr>wc_Endpoint := ep, wc_Peers := [], wc_ListenPort := 0\<rparr> \<and>
      et_writes (snd s0) = [uapiConfig (et_cfg (snd s0))]"
    and "pol_self (f_policy (et_filter (snd s0))) = wc_Address cfg" and "et_renews (snd s0) = renews"
    and "wa_renewBackoff (fst s0) = renewStart" and "Live (et_filter (snd s0))"
proof -
  have "await_handshake d rs = Some True \<Longrightarrow> \<exists>r h. (r, Some h) \<in> set rs \<and> h \<noteq> zeroTime" for d rs
    by (induction d rs rule: await_handshake.induct) (auto split: option.splits if_splits)
  moreover have "await_handshake (now + handshakeWait) readings = Some True"
    using assms by (auto simp: startTunnel_def Let_def enf_set_def split: if_splits option.splits)
  ultimately show "\<exists>r h. (r, Some h) \<in> set readings \<and> h \<noteq> zeroTime" by blast
qed (use assms in \<open>auto simp: startTunnel_def Let_def enf_set_def watch_start_def NewFilter_def split: if_splits option.splits\<close>)


subsection \<open>One peer and one address\<close>

definition box_only :: "ip_addr option \<Rightarrow> wg_config \<Rightarrow> bool" where
  "box_only a c \<longleftrightarrow> wc_Address c = a \<and> wc_Peers c = [] \<and> wc_ListenPort c = 0 \<and> wc_PrivateKeyHex c \<noteq> []"

definition enforced_doc :: "ip_addr option \<Rightarrow> string \<Rightarrow> bool" where
  "enforced_doc a doc \<longleftrightarrow> (\<exists>c. box_only a c \<and> doc \<in> {uapiConfig c, replaceDoc c, nudgeDoc c, nudgeDoc2 c})"

definition enf_inv :: "ip_addr option \<Rightarrow> enf_tunnel \<Rightarrow> bool" where
  "enf_inv a t \<longleftrightarrow> box_only a (et_cfg t) \<and> (\<forall>doc \<in> set (et_writes t). enforced_doc a doc)"

lemma renewedConfig_box:
  "renewedConfig resolve cur ans = Some nx \<Longrightarrow> box_only a cur \<Longrightarrow> box_only a nx"
  by (auto simp: renewedConfig_def box_only_def Let_def split: if_splits option.splits)

lemma nudge_inv: "enf_inv a t \<Longrightarrow> enf_inv a (nudge w t)"
  by (auto simp: enf_inv_def enforced_doc_def)

lemma apply_renewal_inv:
  assumes "apply_renewal w m ans t = (err, t')" and "enf_inv a t"
  shows "enf_inv a t'"
proof (cases "t' = t")
  case False
  with assms(1) obtain fr nx where nx: "ans = Inr fr" "renewedConfig (ew_resolve w) (et_cfg t) fr = Some nx"
    "t' = snd (enf_set w (replaceDoc nx) t) \<or> t' = nudge w ((snd (enf_set w (replaceDoc nx) t))\<lparr>et_cfg := nx\<rparr>)"
    by (auto simp: apply_renewal_def Let_def split: sum.splits option.splits if_splits prod.splits)
  have b: "box_only a nx" using renewedConfig_box [OF nx(2)] assms(2) by (simp add: enf_inv_def)
  then have d: "enforced_doc a (replaceDoc nx)" by (auto simp: enforced_doc_def)
  have one: "enf_inv a (snd (enf_set w (replaceDoc nx) t))" using d assms(2) by (auto simp: enf_inv_def)
  moreover have "enf_inv a ((snd (enf_set w (replaceDoc nx) t))\<lparr>et_cfg := nx\<rparr>)" using b d assms(2) by (auto simp: enf_inv_def)
  ultimately show ?thesis using nx(3) nudge_inv by blast
qed (use assms in simp)

lemma watch_parts_inv:
  "enf_inv a (snd s) \<Longrightarrow> enf_inv a (snd (watch_checkIn w now s))"
  "enf_inv a (snd s) \<Longrightarrow> enf_inv a (snd (watch_renew w now s))"
  "enf_inv a (snd s) \<Longrightarrow> enf_inv a (snd (watch_nudge w now s))"
  "enf_inv a (snd s) \<Longrightarrow> enf_inv a (snd (watch_close now s))"
  "enf_inv a (snd s) \<Longrightarrow> enf_inv a (snd (watch_carries h now s))"
proof -
  obtain wa t where s: "s = (wa, t)" by fastforce
  obtain e1 t1 e2 t2 where r: "apply_renewal w True (ew_checkIn w) t = (e1, t1)" "apply_renewal w False (ew_renew w) t = (e2, t2)"
    by fastforce
  show "enf_inv a (snd (watch_checkIn w now s))" if "enf_inv a (snd s)"
    using that apply_renewal_inv [OF r(1)] by (simp add: s watch_checkIn_def checkIn_def r)
  show "enf_inv a (snd (watch_renew w now s))" if "enf_inv a (snd s)"
    using that apply_renewal_inv [OF r(2)] by (simp add: s watch_renew_def reregister_def r Let_def split: prod.split)
  show "enf_inv a (snd (watch_nudge w now s))" if "enf_inv a (snd s)"
  proof -
    have "enf_inv a (if b then t\<lparr>et_rebinds := et_rebinds t + 1\<rparr> else t)" for b using that by (simp add: s enf_inv_def)
    from nudge_inv [OF this] that show ?thesis by (simp add: s watch_nudge_def Let_def)
  qed
  show "enf_inv a (snd s) \<Longrightarrow> enf_inv a (snd (watch_close now s))" "enf_inv a (snd s) \<Longrightarrow> enf_inv a (snd (watch_carries h now s))"
    by (simp_all add: s watch_close_def watch_carries_def enf_inv_def)
qed

lemma watch_turn_enf_inv: "enf_inv a (snd s) \<Longrightarrow> enf_inv a (snd (watch_turn w now s))"
  by (cases rule: watch_turn_cases [of w s now]) (simp_all add: watch_parts_inv)

lemma watch_turn_policy: "f_policy (et_filter (snd (watch_turn w now s))) = f_policy (et_filter (snd s))"
proof (cases rule: watch_turn_cases [of w s now])
  case (carries h)
  obtain wa t where c: "watch_checkIn w now s = (wa, t)" by fastforce
  have "et_filter t = et_filter (snd s)" using watch_checkIn_keeps(1) [of w now s] by (simp add: c)
  then show ?thesis unfolding carries(4) c by (simp add: watch_carries_def)
qed (simp_all add: watch_checkIn_keeps watch_nudge_keeps watch_renew_keeps watch_close_keeps)

text \<open>
  C10. The enforced tunnel keeps its one address and its one peer. Whatever the control plane answers
  to a check-in or a renewal, and whatever the agent sends, the configuration names the address it
  began with and no direct peer, every document the device was given is of such a configuration,
  and the filter still takes that address for the agent's.
\<close>
theorem enforced_tunnel_keeps_address:
  assumes "startTunnel w place renews every now t0 readings cfg pol = Some s0" and "enf_run t0 s0 obs prev s"
  shows "wc_Address (et_cfg (snd s)) = wc_Address cfg \<and> wc_Peers (et_cfg (snd s)) = [] \<and>
     wc_PrivateKeyHex (et_cfg (snd s)) \<noteq> [] \<and> pol_self (f_policy (et_filter (snd s))) = wc_Address cfg \<and>
     (\<forall>doc \<in> set (et_writes (snd s)). enforced_doc (wc_Address cfg) doc)"
proof -
  have k: "wc_PrivateKeyHex cfg \<noteq> []" using assms(1) by (auto simp: startTunnel_def split: if_splits)
  obtain ep where ep: "et_cfg (snd s0) = cfg\<lparr>wc_Endpoint := ep, wc_Peers := [], wc_ListenPort := 0\<rparr>"
    "et_writes (snd s0) = [uapiConfig (et_cfg (snd s0))]" using startTunnel_started(3) [OF assms(1)] by blast
  then have "box_only (wc_Address cfg) (et_cfg (snd s0))" using k by (simp add: box_only_def)
  then have start: "enf_inv (wc_Address cfg) (snd s0)" using ep(2) by (auto simp: enf_inv_def enforced_doc_def)
  from assms(2) have "enf_inv (wc_Address cfg) (snd s) \<and> pol_self (f_policy (et_filter (snd s))) = wc_Address cfg"
  proof induction
    case began
    show ?case using start startTunnel_started(4) [OF assms(1)] by blast
  next
    case (turned obs prev s now w)
    then show ?case using watch_turn_enf_inv watch_turn_policy by simp
  next
    case (sent obs prev wa t ts buf n f' buf' k r)
    with packets_keep(1) [OF sent.hyps(2)] show ?case by (simp add: enf_inv_def)
  next
    case (received obs prev wa t now buf n f' buf' k)
    with packets_keep(2) [OF received.hyps(2)] show ?case by (simp add: enf_inv_def)
  qed
  then show ?thesis by (simp add: enf_inv_def box_only_def)
qed

subsection \<open>A dead tunnel\<close>








end
