(* ===== verification/EnfWatchExamples.thy ===== *)
theory EnfWatchExamples
  imports EnfWatchRuns
begin

text \<open>
  The enforced tunnel at a concrete run: it starts on a handshake, sends a query, loses the box, and
  registers again.
\<close>

definition ex_dump :: string where
  "ex_dump = ''public_key=bb'' @ nl @ ''last_handshake_time_sec=100'' @ nl"


definition ex_config :: wg_config where
  "ex_config =
     \<lparr>wc_PrivateKeyHex = ''cc'', wc_ServerPublicKeyHex = ''bb'', wc_Endpoint = ''192.0.2.9:1'', wc_Address = Some (Addr6 ex_self []),
      wc_DNS = None, wc_Keepalive = 0, wc_NAT64Prefix = None, wc_ListenPort = 0, wc_Peers = [], wc_MTU = 0\<rparr>"

definition ex_world :: enf_world where
  "ex_world =
     \<lparr>ew_dev = \<lparr>dv_set = \<lambda>_ _. True, dv_get = \<lambda>_. Some ex_dump\<rparr>, ew_resolve = Some, ew_jitter = \<lambda>_. 0,
      ew_checkIn = Inl RenewFault, ew_renew = Inr ex_config\<rparr>"

definition ex_policy :: policy where
  "ex_policy = \<lparr>pol_self = None, pol_resolvers = [Addr6 ex_resolver []], pol_nat64 = Some ex_prefix\<rparr>"

definition ex_tunnel :: enf_tunnel where
  "ex_tunnel = \<lparr>et_filter = ex_filter, et_cfg = ex_config, et_writes = [uapiConfig ex_config], et_renews = True,
     et_checkInEvery = 0, et_rebinds = 0\<rparr>"

definition ex_start :: "watch \<times> enf_tunnel" where
  "ex_start = (watch_start ex_world Second ex_tunnel, ex_tunnel)"


lemma ex_times: "100 * Second \<noteq> zeroTime" "zeroTime < Second"
  by (simp_all add: zeroTime_def Second_def)

lemma ex_starts: "startTunnel ex_world True True 0 0 Second [(0, Some (100 * Second))] ex_config ex_policy = Some ex_start"
proof -
  have "ex_config\<lparr>wc_Endpoint := ''192.0.2.9:1'', wc_Peers := [], wc_ListenPort := 0\<rparr> = ex_config" by (simp add: ex_config_def)
  moreover have "SetLive True (NewFilter (ex_policy\<lparr>pol_self := Some (Addr6 ex_self [])\<rparr>)) = ex_filter"
    by (simp add: ex_filter_def ex_policy_def)
  moreover have "wc_Endpoint ex_config = ''192.0.2.9:1''" "wc_PrivateKeyHex ex_config \<noteq> []" "wc_ServerPublicKeyHex ex_config \<noteq> []"
    "wc_Address ex_config = Some (Addr6 ex_self [])" "ew_resolve ex_world ''192.0.2.9:1'' = Some ''192.0.2.9:1''"
    "dv_set (ew_dev ex_world) ws doc" for ws doc
    by (simp_all add: ex_config_def ex_world_def)
  ultimately show ?thesis
    using ex_times by (simp add: startTunnel_def enf_set_def ex_start_def ex_tunnel_def Let_def)
qed

lemma ex_at_start [simp]: "wc_ServerPublicKeyHex ex_config = ''bb''" "et_cfg ex_tunnel = ex_config" "et_filter ex_tunnel = ex_filter"
  "et_checkInEvery ex_tunnel = 0" "fst ex_start = watch_start ex_world Second ex_tunnel" "snd ex_start = ex_tunnel"
  by (simp_all add: ex_config_def ex_tunnel_def ex_start_def)

text \<open>The turn 200 seconds later reads the same handshake: the filter closes.\<close>

definition ex_dead :: "watch \<times> enf_tunnel" where
  "ex_dead = watch_turn ex_world (201 * Second) ex_start"


lemma ex_dead_run: "enf_run Second ex_start ([] @ [(201 * Second, enf_handshake ex_world (snd ex_start))]) (201 * Second) ex_dead"
  unfolding ex_dead_def by (rule turned [OF began]) (simp add: Second_def)


lemma enforced_tunnel_keeps_address_witness:
  "wc_Address (et_cfg (snd ex_dead)) = Some (Addr6 ex_self []) \<and>
   list_all (enforced_doc (Some (Addr6 ex_self []))) (et_writes (snd ex_dead))"
proof -
  have "wc_Address ex_config = Some (Addr6 ex_self [])" by (simp add: ex_config_def)
  with enforced_tunnel_keeps_address [OF ex_starts ex_dead_run] show ?thesis by (simp add: list_all_iff)
qed


end
