(* ===== verification/WgHealth.thy ===== *)
theory WgHealth
  imports WgRoutes
begin

definition maxBackoff :: int where "maxBackoff = 60 * Second"

record stall_tracker =
  st_consecutive :: nat
  st_said :: bool



text \<open>The fields of the tunnel the monitor owns, and the variables of its loop.\<close>

record health =
  he_lastH :: int
  he_started :: int
  he_reconnects :: nat
  he_needFresh :: bool
  he_rebinds :: nat
  he_stallRebinds :: nat
  he_reboundBefore :: bool
  he_backoff :: int
  he_nextReconnect :: int
  he_sinceRebind :: nat
  he_stall :: stall_tracker



definition handshakeAge :: "int \<Rightarrow> health \<Rightarrow> int" where
  "handshakeAge now h = time_sub now (if he_lastH h = zeroTime then he_started h else he_lastH h)"



definition HandshakeAge :: "int \<Rightarrow> health \<Rightarrow> int" where "HandshakeAge now h = handshakeAge now h"
definition Rebinds :: "health \<Rightarrow> nat" where "Rebinds h = he_rebinds h"
definition Reconnects :: "health \<Rightarrow> nat" where "Reconnects h = he_reconnects h"

definition Healthy :: "int \<Rightarrow> int \<Rightarrow> health \<Rightarrow> bool" where
  "Healthy dead now h \<longleftrightarrow> he_lastH h \<noteq> zeroTime \<and> time_sub now (he_lastH h) < dead"






subsection \<open>A stall as the list of its attempts\<close>



definition wait_after :: "nat \<Rightarrow> int" where
  "wait_after n = min (2 ^ n * Second) maxBackoff"




lemma wait_after_1 [simp]: "wait_after (Suc 0) = 2 * Second"
  by (simp add: wait_after_def maxBackoff_def Second_def)




















end
