(* ===== verification/GoAddrText.thy ===== *)
theory GoAddrText
  imports GoInert
begin

text \<open>
  \<open>netip.ParseAddr\<close> reads back what \<open>Addr.String\<close> prints of an address without a zone that is not an
  IPv4 address inside IPv6.
\<close>

subsection \<open>IPv4\<close>

lemma ipv4_field_dec: "n < 256 \<Longrightarrow> ipv4_field (dec_nat n) = Some (word_of_nat n)"
  using length_dec_nat [of n 2] by (simp add: ipv4_field_def)

lemma dec_nat_dot: "CHR ''.'' \<notin> set (dec_nat n)" and dec_nat_percent: "CHR ''%'' \<notin> set (dec_nat n)"
proof -
  have "\<not> is_digit (CHR ''.'')" "\<not> is_digit (CHR ''%'')" by code_simp+
  then show "CHR ''.'' \<notin> set (dec_nat n)" "CHR ''%'' \<notin> set (dec_nat n)"
    using list_all_digit_dec_nat [of n] by (auto simp: list_all_iff)
qed

lemma v4_string_parts:
  "v4_string v = dec_nat (unat (v4_octet 0 v)) @ CHR ''.'' # dec_nat (unat (v4_octet 1 v)) @ CHR ''.'' #
     dec_nat (unat (v4_octet 2 v)) @ CHR ''.'' # dec_nat (unat (v4_octet 3 v))"
  by (simp add: v4_string_def)

lemma octet_less: "unat (b :: byte) < 256"
  using unsigned_less [of b] by simp

lemma ipv4_fields_string: "ipv4_fields (v4_string v) = Some (be32 v)"
proof -
  have "split_on (CHR ''.'') (v4_string v) = map (\<lambda>i. dec_nat (unat (v4_octet i v))) [0, 1, 2, 3]"
    unfolding v4_string_parts by (simp add: split_on_append [OF dec_nat_dot] split_on_none [OF dec_nat_dot])
  then show ?thesis
    by (simp add: ipv4_fields_def ipv4_field_dec octet_less be32_def v4_octet_def)
qed

lemma find_append: "\<forall>x \<in> set a. \<not> P x \<Longrightarrow> P c \<Longrightarrow> find P (a @ c # b) = Some c"
  by (induction a) auto

lemma ParseAddr_v4_string: "ParseAddr (v4_string v) = Some (Addr4 v)"
proof -
  have "find (\<lambda>c. c = CHR ''.'' \<or> c = CHR '':'' \<or> c = CHR ''%'') (v4_string v) = Some (CHR ''.'')"
    unfolding v4_string_parts
    by (rule find_append) (use dec_nat_dot dec_nat_colon dec_nat_percent in auto)
  then show ?thesis by (simp add: ParseAddr_def ipv4_fields_string)
qed

subsection \<open>Groups\<close>

lemma hex_val_digit: "n < 16 \<Longrightarrow> hex_val (hex_digit n) = Some n"
proof -
  have "list_all (\<lambda>n. hex_val (hex_digit n) = Some n) [0..<16]" by code_simp
  then show "n < 16 \<Longrightarrow> ?thesis" by (simp add: list_all_iff)
qed

lemma hex_val_marks [simp]: "hex_val (CHR '':'') = None" "hex_val (CHR ''%'') = None" "hex_val (CHR ''.'') = None"
  by code_simp+

lemma hex_nat_hex: "\<forall>c \<in> set (hex_nat n). hex_val c \<noteq> None"
  by (induction n rule: hex_nat.induct) (subst hex_nat.simps, auto simp: hex_val_digit)

lemma hex_nat_nonempty [simp]: "hex_nat n \<noteq> []"
  by (subst hex_nat.simps) simp

lemma hex_nat_marks: "CHR '':'' \<notin> set (hex_nat n)" "CHR ''%'' \<notin> set (hex_nat n)" "CHR ''.'' \<notin> set (hex_nat n)"
  using hex_nat_hex [of n] hex_val_marks by metis+

lemma hd_hex_nat: "hd (hex_nat n) \<noteq> CHR '':''"
  using hex_nat_marks(1) [of n] by (metis hd_in_set hex_nat_nonempty)

lemma hex_nat_value: "foldl (\<lambda>a d. 16 * a + d) 0 (map (\<lambda>c. int (the (hex_val c))) (hex_nat n)) = int n"
proof (induction n rule: hex_nat.induct)
  case (1 n)
  show ?case
  proof (cases "n < 16")
    case True
    then show ?thesis by (subst hex_nat.simps) (simp add: hex_val_digit)
  next
    case False
    moreover have "16 * int (n div 16) + int (n mod 16) = int n" by (simp add: zdiv_int zmod_int)
    ultimately show ?thesis using 1 by (subst hex_nat.simps) (simp add: hex_val_digit)
  qed
qed

lemma length_hex_nat: "n < 65536 \<Longrightarrow> length (hex_nat n) \<le> 4"
  by (subst hex_nat.simps, subst hex_nat.simps, subst hex_nat.simps, subst hex_nat.simps) auto

lemma hex_group_hex_nat:
  assumes "t = [] \<or> hd t = CHR '':''"
  shows "hex_group (hex_nat n @ t) = (length (hex_nat n), int n)"
proof -
  have "takeWhile (\<lambda>c. hex_val c \<noteq> None) (hex_nat n @ t) = hex_nat n"
    using assms hex_nat_hex [of n] by (cases t) (auto simp: takeWhile_append)
  then show ?thesis by (simp add: hex_group_def hex_nat_value)
qed

definition group_bytes :: "nat \<Rightarrow> bytes" where
  "group_bytes g = [word_of_int (int g div 256), word_of_int (int g mod 256)]"

lemma length_group_bytes [simp]: "length (group_bytes g) = 2"
  by (simp add: group_bytes_def)

fun colons :: "nat list \<Rightarrow> string" where
  "colons [] = []"
| "colons [g] = hex_nat g"
| "colons (g # h # gs) = hex_nat g @ CHR '':'' # colons (h # gs)"

lemma hd_colons: "gs \<noteq> [] \<Longrightarrow> colons gs \<noteq> [] \<and> hd (colons gs) \<noteq> CHR '':''"
  by (induction gs rule: colons.induct) (simp_all add: hd_hex_nat)

declare ipv6_groups.simps [simp del]

text \<open>One group of the loop, and what stands after it.\<close>

lemma ipv6_groups_last:
  assumes "length ip < 16" and "g < 65536"
  shows "ipv6_groups ip ell (hex_nat g) = Some (ip @ group_bytes g, ell, [])"
  using assms hex_group_hex_nat [of "[]" g] length_hex_nat [OF assms(2)]
  by (subst ipv6_groups.simps) (simp add: Let_def group_bytes_def)

lemma ipv6_groups_more:
  assumes "length ip < 16" and "g < 65536" and "t \<noteq> []" and "hd t \<noteq> CHR '':''"
  shows "ipv6_groups ip ell (hex_nat g @ CHR '':'' # t) = ipv6_groups (ip @ group_bytes g) ell t"
  using assms hex_group_hex_nat [of "CHR '':'' # t" g] length_hex_nat [OF assms(2)]
  by (subst ipv6_groups.simps) (simp add: Let_def group_bytes_def)

lemma ipv6_groups_ellipsis:
  assumes "length ip < 16" and "g < 65536"
  shows "ipv6_groups ip None (hex_nat g @ ''::'' @ t) =
     (if t = [] then Some (ip @ group_bytes g, Some (length ip + 2), [])
      else ipv6_groups (ip @ group_bytes g) (Some (length ip + 2)) t)"
  using assms hex_group_hex_nat [of "''::'' @ t" g] length_hex_nat [OF assms(2)]
  by (subst ipv6_groups.simps) (simp add: Let_def group_bytes_def)

lemma ipv6_groups_colons:
  "gs \<noteq> [] \<Longrightarrow> \<forall>g \<in> set gs. g < 65536 \<Longrightarrow> length ip + 2 * length gs \<le> 16 \<Longrightarrow>
     ipv6_groups ip ell (colons gs) = Some (ip @ concat (map group_bytes gs), ell, [])"
proof (induction gs arbitrary: ip rule: colons.induct)
  case (3 g h gs)
  then show ?case using hd_colons [of "h # gs"] by (simp add: ipv6_groups_more)
qed (simp_all add: ipv6_groups_last)

lemma ipv6_groups_run:
  "gs \<noteq> [] \<Longrightarrow> \<forall>g \<in> set gs. g < 65536 \<Longrightarrow> length ip + 2 * length gs \<le> 16 \<Longrightarrow>
     ipv6_groups ip None (colons gs @ ''::'' @ t) =
       (if t = [] then Some (ip @ concat (map group_bytes gs), Some (length ip + 2 * length gs), [])
        else ipv6_groups (ip @ concat (map group_bytes gs)) (Some (length ip + 2 * length gs)) t)"
proof (induction gs arbitrary: ip rule: colons.induct)
  case (2 g)
  then show ?case using ipv6_groups_ellipsis [of ip g t] by simp
next
  case (3 g h gs)
  have "colons (h # gs) @ ''::'' @ t \<noteq> [] \<and> hd (colons (h # gs) @ ''::'' @ t) \<noteq> CHR '':''"
    using hd_colons [of "h # gs"] by simp
  with 3 ipv6_groups_more [of ip g "colons (h # gs) @ ''::'' @ t" None] show ?case by simp
qed simp

subsection \<open>The run of zeros\<close>

definition run_of :: "nat list \<Rightarrow> nat \<Rightarrow> nat \<Rightarrow> bool" where
  "run_of gs st ln \<longleftrightarrow>
     st = 255 \<and> ln = 0 \<or> st < length gs \<and> 2 \<le> ln \<and> st + ln \<le> length gs \<and> (\<forall>i. st \<le> i \<and> i < st + ln \<longrightarrow> gs ! i = 0)"

lemma zero_run_zeros: "i < length gs \<Longrightarrow> i + zero_run gs i \<le> length gs \<and> (\<forall>j. i \<le> j \<and> j < i + zero_run gs i \<longrightarrow> gs ! j = 0)"
proof -
  assume i: "i < length gs"
  have l: "zero_run gs i \<le> length (drop i gs)" unfolding zero_run_def by (rule length_takeWhile_le)
  have "gs ! j = 0" if "i \<le> j" "j < i + zero_run gs i" for j
  proof -
    have "j - i < length (takeWhile (\<lambda>g. g = 0) (drop i gs))" using that by (simp add: zero_run_def)
    from set_takeWhileD [OF nth_mem [OF this]] takeWhile_nth [OF this] that i show ?thesis by simp
  qed
  with l i show ?thesis by auto
qed

lemma best_run_ok: "run_of gs st ln \<Longrightarrow> \<forall>i \<in> set is. i < length gs \<Longrightarrow> best_run gs is st ln = (st', ln') \<Longrightarrow> run_of gs st' ln'"
proof (induction gs "is" st ln rule: best_run.induct)
  case (2 gs i "is" st ln)
  have "run_of gs i (zero_run gs i)" if "zero_run gs i \<ge> 2" using zero_run_zeros [of i gs] that 2(4) by (simp add: run_of_def)
  with 2 show ?case by (auto split: if_splits)
qed simp

text \<open>What is printed from a group on that is not at the run any more.\<close>

lemma groups_from_tail:
  "0 < i \<Longrightarrow> i \<le> 8 \<Longrightarrow> st < i \<or> 8 \<le> st \<Longrightarrow> 8 - i \<le> n \<Longrightarrow> length gs = 8 \<Longrightarrow>
     groups_from gs st en n i = concat (map (\<lambda>g. CHR '':'' # hex_nat g) (drop i gs))"
proof (induction n arbitrary: i)
  case (Suc n)
  show ?case
  proof (cases "i < 8")
    case True
    have "groups_from gs st en n (Suc i) = concat (map (\<lambda>g. CHR '':'' # hex_nat g) (drop (Suc i) gs))"
      by (rule Suc.IH) (use Suc.prems True in auto)
    moreover have "drop i gs = gs ! i # drop (Suc i) gs" using True Suc.prems(5) by (simp add: Cons_nth_drop_Suc)
    moreover have "i \<noteq> st" using True Suc.prems(3) by auto
    ultimately show ?thesis using True Suc.prems(1) by simp
  qed (use Suc.prems in simp)
qed simp

lemma colons_tail: "colons (g # gs) = hex_nat g @ concat (map (\<lambda>g. CHR '':'' # hex_nat g) gs)"
  by (induction gs arbitrary: g) simp_all

lemma groups_from_end:
  "en < 8 \<Longrightarrow> st < en \<Longrightarrow> 8 - en \<le> Suc n \<Longrightarrow> length gs = 8 \<Longrightarrow>
     hex_nat (gs ! en) @ groups_from gs st en n (en + 1) = colons (drop en gs)"
  using groups_from_tail [of "en + 1" st n gs en] by (simp add: colons_tail Cons_nth_drop_Suc [symmetric])

lemma groups_from_run:
  "st < 8 \<Longrightarrow> st < en \<Longrightarrow> en \<le> 8 \<Longrightarrow> i \<le> st \<Longrightarrow> 8 - i \<le> n \<Longrightarrow> length gs = 8 \<Longrightarrow>
     groups_from gs st en n i =
       (if i = 0 then colons (take st gs) else concat (map (\<lambda>g. CHR '':'' # hex_nat g) (take (st - i) (drop i gs)))) @
       ''::'' @ colons (drop en gs)"
proof (induction n arbitrary: i)
  case (Suc n)
  show ?case
  proof (cases "i = st")
    case True
    have "(if en \<ge> 8 then [] else hex_nat (gs ! en) @ groups_from gs st en n (en + 1)) = colons (drop en gs)"
      using groups_from_end [of en st n gs] Suc.prems True by simp
    with True Suc.prems show ?thesis by simp
  next
    case False
    then have i: "i < st" using Suc.prems(4) by simp
    have d: "drop i gs = gs ! i # drop (Suc i) gs" using i Suc.prems by (simp add: Cons_nth_drop_Suc)
    have s: "st - i = Suc (st - Suc i)" using i by simp
    have "groups_from gs st en n (i + 1) =
       concat (map (\<lambda>g. CHR '':'' # hex_nat g) (take (st - Suc i) (drop (Suc i) gs))) @ ''::'' @ colons (drop en gs)"
      using Suc.IH [of "i + 1"] Suc.prems i by simp
    moreover have "take st gs = gs ! 0 # take (st - 1) (drop 1 gs)" if "i = 0"
      using i that Suc.prems(6) by (cases gs; cases st) auto
    ultimately show ?thesis
      using i Suc.prems(1) by (simp add: d s) (simp add: colons_tail)
  qed
qed simp

subsection \<open>IPv6\<close>

lemma colons_marks: "CHR ''%'' \<notin> set (colons gs)" "CHR ''.'' \<notin> set (colons gs)"
  by (induction gs rule: colons.induct) (simp_all add: hex_nat_marks)

lemma group_bytes_word:
  "group_bytes (unat (drop_bit n w AND 0xFFFF)) = [ucast (drop_bit (n + 8) w), ucast (drop_bit n w)]" for w :: "128 word"
proof -
  define v where "v = drop_bit n w AND 0xFFFF"
  have m: "(0xFFFF :: 128 word) = mask 16" by (simp add: mask_eq_exp_minus_1)
  have "word_of_int (int (unat v) div 256) = (ucast (drop_bit 8 v) :: byte)"
  proof -
    have "unat (drop_bit 8 v) = drop_bit 8 (unat v)" by (rule unat_drop_bit_eq)
    also have "\<dots> = unat v div 256" by (subst drop_bit_eq_div) simp
    finally have "int (unat v) div 256 = int (unat (drop_bit 8 v))" by (simp only: zdiv_int of_nat_numeral)
    show ?thesis unfolding \<open>int (unat v) div 256 = int (unat (drop_bit 8 v))\<close> by simp
  qed
  moreover have "word_of_int (int (unat v) mod 256) = (ucast v :: byte)"
  proof -
    have "(word_of_int (k mod 256) :: byte) = word_of_int k" for k by (simp add: word_of_int_eq_iff take_bit_eq_mod)
    then have "(word_of_int (int (unat v) mod 256) :: byte) = word_of_int (int (unat v))" .
    also have "\<dots> = ucast v" by simp
    finally show ?thesis .
  qed
  moreover have "ucast (drop_bit 8 v) = (ucast (drop_bit (n + 8) w) :: byte)" "ucast v = (ucast (drop_bit n w) :: byte)"
    unfolding v_def m by (rule bit_word_eqI, auto simp: bit_simps ac_simps)+
  ultimately show ?thesis by (simp add: group_bytes_def v_def)
qed

definition groups :: "128 word \<Rightarrow> nat list" where
  "groups w = map (v6_group w) [0, 1, 2, 3, 4, 5, 6, 7]"

lemma groups_bytes: "concat (map group_bytes (groups w)) = be128 w"
  using group_bytes_word [of 0 w] by (simp add: groups_def v6_group_def group_bytes_word be128_def)

lemma length_groups: "length (groups w) = 8"
  by (simp add: groups_def)

lemma groups_small: "\<forall>g \<in> set (groups w). g < 65536"
proof -
  have "unat (x AND 0xFFFF) < 65536" for x :: "128 word"
  proof -
    have "x AND 0xFFFF \<le> 0xFFFF" by (rule word_and_le1)
    then show ?thesis by (simp add: word_le_nat_alt)
  qed
  then show ?thesis by (auto simp: groups_def v6_group_def)
qed

lemma groups_nth_v6: "\<exists>st ln. run_of (groups w) st ln \<and> v6_string w = groups_from (groups w) st (st + ln) 8 0"
proof -
  obtain st ln where b: "best_run (groups w) [0, 1, 2, 3, 4, 5, 6, 7] 255 0 = (st, ln)" by fastforce
  have "run_of (groups w) st ln" by (rule best_run_ok [OF _ _ b]) (simp_all add: run_of_def length_groups)
  moreover have "v6_string w = groups_from (groups w) st (st + ln) 8 0"
    using b unfolding v6_string_def groups_def [symmetric] Let_def by simp
  ultimately show ?thesis by blast
qed

lemma v6_string_cases:
  obtains (whole) "v6_string w = colons (groups w)"
    | (run) st ln where "st + ln \<le> 8" "2 \<le> ln" "\<forall>i. st \<le> i \<and> i < st + ln \<longrightarrow> groups w ! i = 0"
        "v6_string w = colons (take st (groups w)) @ ''::'' @ colons (drop (st + ln) (groups w))"
proof -
  obtain st ln where r: "run_of (groups w) st ln" "v6_string w = groups_from (groups w) st (st + ln) 8 0"
    using groups_nth_v6 by blast
  show thesis
  proof (cases "st = 255 \<and> ln = 0")
    case True
    have g: "groups w = groups w ! 0 # drop 1 (groups w)"
      using length_groups [of w] by (cases "groups w") auto
    have "groups_from (groups w) 255 255 7 1 = concat (map (\<lambda>g. CHR '':'' # hex_nat g) (drop 1 (groups w)))"
      by (rule groups_from_tail) (simp_all add: length_groups)
    then have "groups_from (groups w) 255 255 (Suc 7) 0 = colons (groups w ! 0 # drop 1 (groups w))"
      unfolding groups_from.simps(2) colons_tail by simp
    moreover have "(8 :: nat) = Suc 7" by simp
    ultimately show thesis using True r(2) g by (intro whole) (metis add_0_right)
  next
    case False
    then have s: "st < 8" "2 \<le> ln" "st + ln \<le> 8" "\<forall>i. st \<le> i \<and> i < st + ln \<longrightarrow> groups w ! i = 0"
      using r(1) by (auto simp: run_of_def length_groups)
    from groups_from_run [of st "st + ln" 0 8 "groups w"] s(1-3) r(2) show thesis
      by (intro run [OF s(3,2,4)]) (simp add: length_groups)
  qed
qed

lemma find_colons:
  assumes "gs \<noteq> []" and "tl gs \<noteq> [] \<or> (\<exists>t'. t = CHR '':'' # t')"
  shows "find (\<lambda>c. c = CHR ''.'' \<or> c = CHR '':'' \<or> c = CHR ''%'') (colons gs @ t) = Some (CHR '':'')"
proof -
  obtain g r where g: "gs = g # r" using assms(1) by (cases gs) auto
  have "\<exists>u. colons gs @ t = hex_nat g @ CHR '':'' # u" using assms(2) unfolding g by (cases r) auto
  then obtain u where "colons gs @ t = hex_nat g @ CHR '':'' # u" by blast
  then show ?thesis using hex_nat_marks [of g] by (simp only:) (rule find_append, auto)
qed

lemma parse_ipv6_whole:
  assumes "\<forall>g \<in> set gs. g < 65536" and "length gs = 8"
  shows "parse_ipv6 (colons gs) = Some (Addr6 (be_val (concat (map group_bytes gs))) [])"
proof -
  have c: "cut_at (CHR ''%'') (colons gs) = None" by (simp add: cut_at_None colons_marks)
  have ne: "gs \<noteq> []" using assms(2) by auto
  have p: "\<not> prefix ''::'' (colons gs)" "colons gs \<noteq> ''::''" using hd_colons [OF ne] by (auto simp: prefix_def)
  have l: "length (concat (map group_bytes gs)) = 16" using assms(2) by (simp add: length_concat comp_def sum_list_triv)
  show ?thesis
    using ipv6_groups_colons [OF ne assms(1), of "[]" None] assms(2) l by (simp add: parse_ipv6_def c p)
qed

lemma parse_ipv6_expand:
  "cut_at (CHR ''%'') s = None \<Longrightarrow> s \<noteq> ''::'' \<Longrightarrow>
     (if prefix ''::'' s then ipv6_groups [] (Some 0) (drop 2 s) else ipv6_groups [] None s) = Some (ip, Some e, []) \<Longrightarrow>
     length ip < 16 \<Longrightarrow> parse_ipv6 s = Some (Addr6 (be_val (take e ip @ replicate (16 - length ip) 0 @ drop e ip)) [])"
  by (simp add: parse_ipv6_def)

lemma parse_ipv6_run:
  assumes "\<forall>g \<in> set as. g < 65536" and "\<forall>g \<in> set bs. g < 65536" and "length as + length bs \<le> 6"
  shows "parse_ipv6 (colons as @ ''::'' @ colons bs) =
     Some (Addr6 (be_val (concat (map group_bytes as) @ replicate (16 - 2 * length as - 2 * length bs) 0 @ concat (map group_bytes bs))) [])"
proof -
  let ?A = "concat (map group_bytes as)" and ?B = "concat (map group_bytes bs)"
  let ?s = "colons as @ ''::'' @ colons bs"
  have c: "cut_at (CHR ''%'') ?s = None" by (simp add: cut_at_None colons_marks)
  have l: "length ?A = 2 * length as" "length ?B = 2 * length bs" by (simp_all add: length_concat comp_def sum_list_triv)
  have z: "(0 :: 128 word) = be_val (replicate 16 0)" by code_simp
  have g: "(if prefix ''::'' ?s then ipv6_groups [] (Some 0) (drop 2 ?s) else ipv6_groups [] None ?s) = Some (?A @ ?B, Some (2 * length as), [])"
    if ne: "?s \<noteq> ''::''"
  proof (cases "as = []")
    case True
    then have "bs \<noteq> []" using ne by auto
    from ipv6_groups_colons [OF this assms(2), of "[]" "Some 0"] assms(3) True show ?thesis by simp
  next
    case False
    have p: "\<not> prefix ''::'' ?s" using hd_colons [OF False] by (cases "colons as") (auto simp: prefix_def)
    have r: "ipv6_groups [] None ?s =
       (if colons bs = [] then Some (?A, Some (2 * length as), []) else ipv6_groups ?A (Some (2 * length as)) (colons bs))"
      using ipv6_groups_run [OF False assms(1), of "[]" "colons bs"] assms(3) by simp
    show ?thesis
    proof (cases "bs = []")
      case True
      with r p show ?thesis by simp
    next
      case False
      from ipv6_groups_colons [OF this assms(2), of ?A "Some (2 * length as)"] assms(3) l r p hd_colons [OF False]
      show ?thesis by simp
    qed
  qed
  show ?thesis
  proof (cases "?s = ''::''")
    case True
    have "as = []" using True hd_colons [of as] by (cases "as = []"; cases "colons as"; auto)
    moreover have "bs = []" using True hd_colons [of bs] calculation by (cases "bs = []") auto
    ultimately show ?thesis using z by (simp add: parse_ipv6_def) 
  next
    case False
    have n: "length (?A @ ?B) < 16" using l assms(3) by simp
    have parts: "take (2 * length as) (?A @ ?B) = ?A" "drop (2 * length as) (?A @ ?B) = ?B" using l by simp_all
    have "16 - length (?A @ ?B) = 16 - 2 * length as - 2 * length bs" using l by simp
    with parse_ipv6_expand [OF c False g [OF False] n] show ?thesis unfolding parts by simp
  qed
qed

text \<open>The run is put back where it was.\<close>

lemma zeros_bytes: "concat (map group_bytes (replicate n 0)) = replicate (2 * n) 0"
  by (induction n) (simp_all add: group_bytes_def)

lemma groups_with_run:
  assumes "st + ln \<le> length gs" and "\<forall>i. st \<le> i \<and> i < st + ln \<longrightarrow> gs ! i = 0"
  shows "gs = take st gs @ replicate ln 0 @ drop (st + ln) gs"
proof (rule nth_equalityI)
  show "length gs = length (take st gs @ replicate ln 0 @ drop (st + ln) gs)" using assms(1) by simp
  show "gs ! i = (take st gs @ replicate ln 0 @ drop (st + ln) gs) ! i" if "i < length gs" for i
    using that assms by (auto simp: nth_append)
qed

lemma ParseAddr_v6_string: "ParseAddr (v6_string w) = Some (Addr6 w [])"
proof (cases rule: v6_string_cases [of w])
  case whole
  have "groups w \<noteq> []" "tl (groups w) \<noteq> []" by (simp_all add: groups_def)
  from find_colons [OF this(1) disjI1 [OF this(2)], of "[]"] show ?thesis
    using parse_ipv6_whole [OF groups_small length_groups] by (simp add: whole ParseAddr_def groups_bytes)
next
  case (run st ln)
  let ?as = "take st (groups w)" and ?bs = "drop (st + ln) (groups w)"
  have small: "\<forall>g \<in> set ?as. g < 65536" "\<forall>g \<in> set ?bs. g < 65536"
    using groups_small [of w] by (auto dest: in_set_takeD in_set_dropD)
  have len: "length ?as = st" "length ?bs = 8 - (st + ln)" using run(1) by (simp_all add: length_groups)
  have "16 - 2 * length ?as - 2 * length ?bs = 2 * ln" using run(1) unfolding len by simp
  then have "concat (map group_bytes ?as) @ replicate (16 - 2 * length ?as - 2 * length ?bs) 0 @ concat (map group_bytes ?bs) =
      concat (map group_bytes (?as @ replicate ln 0 @ ?bs))" by (simp only: zeros_bytes map_append concat_append)
  also have "\<dots> = be128 w"
    using groups_with_run [of st ln "groups w"] run(1,3) groups_bytes [of w] by (simp add: length_groups)
  finally have b: "be_val (concat (map group_bytes ?as) @ replicate (16 - 2 * length ?as - 2 * length ?bs) 0 @ concat (map group_bytes ?bs)) = w"
    by simp
  have "find (\<lambda>c. c = CHR ''.'' \<or> c = CHR '':'' \<or> c = CHR ''%'') (v6_string w) = Some (CHR '':'')"
  proof (cases "?as = []")
    case True
    show ?thesis unfolding run(4) True by simp
  next
    case False
    from find_colons [OF this, of "''::'' @ colons ?bs"] show ?thesis by (simp add: run(4))
  qed
  moreover have "length ?as + length ?bs \<le> 6" using run(1,2) unfolding len by simp
  from parse_ipv6_run [OF small this] have "parse_ipv6 (v6_string w) = Some (Addr6 w [])" unfolding b run(4) .
  ultimately show ?thesis by (simp add: ParseAddr_def)
qed

lemma ParseAddr_addr_String: "Zone a = [] \<Longrightarrow> \<not> Is4In6 a \<Longrightarrow> ParseAddr (addr_String a) = Some a"
  by (cases a) (auto simp: addr_String_def ParseAddr_v4_string ParseAddr_v6_string Zone_def)

end
