(* ===== verification/WgEndpoints.thy ===== *)
theory WgEndpoints
  imports WgConfig GoAddrText "HOL-Library.Multiset"
begin

text \<open>
  The endpoints a host declares (\<open>internal/wgtun/endpoints.go\<close>) against the check its peers make of
  them (\<open>peers.go\<close>, \<open>punch.go\<close>): nothing that is declared is refused at the other end.
\<close>

subsection \<open>Characters\<close>

lemma hex_val_graph: "hex_val c \<noteq> None \<Longrightarrow> is_graph c"
proof -
  assume h: "hex_val c \<noteq> None"
  have "of_char (CHR 0x20) = (32 :: nat)" "of_char (CHR 0x7F) = (127 :: nat)" by code_simp+
  with h show ?thesis by (auto simp: hex_val_def Let_def is_graph_def less_char_def split: if_splits)
qed

lemma marks_graph: "is_graph (CHR '':'')" "is_graph (CHR ''.'')" "is_graph (CHR ''['')" "is_graph (CHR '']'')"
  by code_simp+

lemma hex_nat_graph: "list_all is_graph (hex_nat n)"
  using hex_nat_hex [of n] hex_val_graph by (auto simp: list_all_iff)

lemma dec_nat_graph: "list_all is_graph (dec_nat n)"
proof -
  have "list_all is_graph ''0123456789''" by code_simp
  then have "is_digit c \<Longrightarrow> is_graph c" for c by (auto simp: is_digit_def list_all_iff)
  then show ?thesis using list_all_digit_dec_nat [of n] by (auto simp: list_all_iff)
qed

lemma colons_graph: "list_all is_graph (colons gs)"
  by (induction gs rule: colons.induct) (simp_all add: hex_nat_graph marks_graph)

lemma addr_String_graph: "Zone a = [] \<Longrightarrow> \<not> Is4In6 a \<Longrightarrow> list_all is_graph (addr_String a)"
proof (cases a)
  case (Addr4 v)
  then show ?thesis by (simp add: addr_String_def v4_string_parts dec_nat_graph marks_graph)
next
  case (Addr6 w z)
  have "list_all is_graph (v6_string w)"
    by (cases rule: v6_string_cases [of w]) (simp_all add: colons_graph marks_graph)
  then show "Zone a = [] \<Longrightarrow> \<not> Is4In6 a \<Longrightarrow> ?thesis" using Addr6 by (simp add: addr_String_def Zone_def)
qed

lemma bracket_not_hex: "hex_val (CHR ''['') = None" "hex_val (CHR '']'') = None"
  by code_simp+

lemma colons_no_bracket: "CHR '']'' \<notin> set (colons gs)"
proof -
  have "CHR '']'' \<notin> set (hex_nat n)" for n using hex_nat_hex [of n] bracket_not_hex by metis
  then show ?thesis by (induction gs rule: colons.induct) simp_all
qed

subsection \<open>Hosts and ports\<close>

lemma splitHostPortLiteral_join:
  assumes "Zone a = []" and "\<not> Is4In6 a" and "CHR '':'' \<notin> set port"
  shows "splitHostPortLiteral (JoinHostPort (addr_String a) port) = Some (addr_String a, port)"
proof (cases a)
  case (Addr4 v)
  have s: "addr_String a = v4_string v" by (simp add: Addr4 addr_String_def)
  have c: "CHR '':'' \<notin> set (v4_string v)" by (rule v4_string_colon)
  have "hd (v4_string v) \<noteq> CHR ''[''"
  proof -
    have "\<not> is_digit (CHR ''['')" by code_simp
    moreover have "is_digit (hd (dec_nat n))" for n
      using list_all_digit_dec_nat [of n] by (auto simp: list_all_iff)
    ultimately show ?thesis unfolding v4_string_parts by (metis dec_nat_nonempty hd_append2)
  qed
  with c v4_string_nonempty [of v] show ?thesis
    using assms(3) by (simp add: s JoinHostPort_def splitHostPortLiteral_def)
next
  case (Addr6 w z)
  have s: "addr_String a = v6_string w" using assms(1,2) by (simp add: Addr6 addr_String_def Zone_def)
  have "CHR '':'' \<in> set (v6_string w)" "CHR '']'' \<notin> set (v6_string w)"
  proof -
    show "CHR '':'' \<in> set (v6_string w)"
    proof (cases rule: v6_string_cases [of w])
      case whole
      have "groups w = v6_group w 0 # v6_group w 1 # map (v6_group w) [2, 3, 4, 5, 6, 7]" by (simp add: groups_def)
      then show ?thesis unfolding whole by simp
    qed simp
    show "CHR '']'' \<notin> set (v6_string w)"
      by (cases rule: v6_string_cases [of w]) (simp_all add: colons_no_bracket)
  qed
  then show ?thesis
    using cut_at_append [of "CHR '']''" "CHR ''['' # v6_string w" "CHR '':'' # port"]
    by (simp add: s JoinHostPort_def splitHostPortLiteral_def)
qed

lemma declared_is_dialable:
  assumes "AddrFromSlice b = Some a" and "declarable (Unmap a)" and "1 \<le> port" and "port \<le> 65535"
  shows "checkUnderlayEndpoint (JoinHostPort (addr_String (Unmap a)) (format_int port))"
    and "trim_space (JoinHostPort (addr_String (Unmap a)) (format_int port)) = JoinHostPort (addr_String (Unmap a)) (format_int port)"
proof -
  let ?ip = "Unmap a" and ?ep = "JoinHostPort (addr_String (Unmap a)) (format_int port)"
  have z: "Zone ?ip = []" "\<not> Is4In6 ?ip" "Unmap ?ip = ?ip"
    using assms(1) by (auto simp: AddrFromSlice_def Unmap_def Zone_def Is4In6_def split: if_splits)
  have f: "format_int port = dec_nat (nat port)" using assms(3) by (simp add: format_int_def)
  have p: "CHR '':'' \<notin> set (format_int port)" "list_all is_graph (format_int port)" "parse_int (format_int port) = Some port"
    using assms(3,4) dec_nat_colon dec_nat_graph parse_int_format_int [of port] by (simp_all add: f)
  have "list_all is_graph ?ep"
    using addr_String_graph [OF z(1,2)] p(2) by (simp add: JoinHostPort_def marks_graph)
  then show t: "trim_space ?ep = ?ep" by simp
  show "checkUnderlayEndpoint ?ep"
    using splitHostPortLiteral_join [OF z(1,2) p(1)] ParseAddr_addr_String [OF z(1,2)] p(3) assms(2-4)
    by (simp add: checkUnderlayEndpoint_def t z(3) declarable_def)
qed

subsection \<open>What is declared\<close>

definition declared :: "int \<Rightarrow> string list \<Rightarrow> bool" where
  "declared port out \<longleftrightarrow>
     distinct out \<and> length out \<le> 8 \<and>
     (\<forall>ep \<in> set out. checkUnderlayEndpoint ep \<and> trim_space ep = ep \<and> ep \<noteq> [] \<and>
        (\<exists>a. ep = JoinHostPort (addr_String a) (format_int port) \<and> IsPrivate a))"

lemma declared_add:
  assumes "declared port out" and "length out < 8" and "1 \<le> port" and "port \<le> 65535"
    and "AddrFromSlice b = Some a" and "declarable (Unmap a)"
  defines "ep \<equiv> JoinHostPort (addr_String (Unmap a)) (format_int port)"
  shows "declared port (if ep \<in> set out then out else out @ [ep])"
proof -
  have "ep \<noteq> []" by (simp add: ep_def JoinHostPort_def)
  moreover have "IsPrivate (Unmap a)" using assms(6) by (simp add: declarable_def)
  ultimately show ?thesis
    using declared_is_dialable [OF assms(5,6,3,4)] assms(1,2) unfolding declared_def ep_def by auto
qed

lemma declare_addrs_declared:
  "declared port out \<Longrightarrow> length out < 8 \<Longrightarrow> 1 \<le> port \<Longrightarrow> port \<le> 65535 \<Longrightarrow> declare_addrs port out bs = (out', full) \<Longrightarrow>
     declared port out' \<and> (\<not> full \<longrightarrow> length out' < 8)"
proof (induction bs arbitrary: out)
  case (Cons b bs)
  show ?case
  proof (cases "\<exists>a. AddrFromSlice b = Some a \<and> declarable (Unmap a)")
    case True
    then obtain a where a: "AddrFromSlice b = Some a" "declarable (Unmap a)" by blast
    let ?ep = "JoinHostPort (addr_String (Unmap a)) (format_int port)"
    let ?out = "if ?ep \<in> set out then out else out @ [?ep]"
    have d: "declared port ?out" by (rule declared_add [OF Cons.prems(1-4) a])
    show ?thesis
    proof (cases "length ?out \<ge> 8")
      case True
      then have "out' = ?out \<and> full" using Cons.prems(5) a by (auto simp: maxDeclaredEndpoints_def Let_def split: if_splits)
      with d show ?thesis by simp
    next
      case False
      then have "declare_addrs port ?out bs = (out', full)" using Cons.prems(5) a by (simp add: maxDeclaredEndpoints_def Let_def)
      from Cons.IH [OF d _ Cons.prems(3,4) this] False show ?thesis by simp
    qed
  next
    case False
    then have "declare_addrs port out bs = (out', full)" using Cons.prems(5) by (auto split: option.splits)
    from Cons.IH [OF Cons.prems(1-4) this] show ?thesis .
  qed
qed simp

lemma declare_ifaces_declared:
  "declared port out \<Longrightarrow> length out < 8 \<Longrightarrow> 1 \<le> port \<Longrightarrow> port \<le> 65535 \<Longrightarrow> declared port (declare_ifaces port out is)"
proof (induction "is" arbitrary: out)
  case (Cons i "is")
  show ?case
  proof (cases "\<not> if_up i \<or> if_loopback i \<or> if_addrs i = None")
    case True
    with Cons show ?thesis by auto
  next
    case False
    then obtain bs where b: "if_addrs i = Some bs" by auto
    obtain out' full where d: "declare_addrs port out bs = (out', full)" by fastforce
    from declare_addrs_declared [OF Cons.prems d] Cons False b d show ?thesis by (cases full) auto
  qed
qed simp

lemma LocalUnderlayEndpoints_declared: "declared port (LocalUnderlayEndpoints ifaces port)"
proof -
  have "declared port []" by (simp add: declared_def)
  then show ?thesis by (auto simp: LocalUnderlayEndpoints_def intro!: declare_ifaces_declared split: option.split)
qed

text \<open>
  C39. What a host declares its peers accept: at most eight different endpoints, each a private
  address of the host with its port, and the candidates a peer makes of them are all of them, in
  the same order.
\<close>
theorem declared_endpoints_are_accepted:
  assumes "LocalUnderlayEndpoints ifaces port = eps" and "eps \<noteq> []" and "src \<noteq> []"
  shows "distinct eps \<and> length eps \<le> 8 \<and>
     (\<forall>ep \<in> set eps. \<exists>a. ep = JoinHostPort (addr_String a) (format_int port) \<and> IsPrivate a) \<and>
     ParseCandidates (map (\<lambda>ep. \<lparr>cd_Endpoint = ep, cd_Source = src\<rparr>) eps) =
       Some (map (\<lambda>ep. \<lparr>cd_Endpoint = ep, cd_Source = src\<rparr>) eps)"
proof -
  let ?c = "\<lambda>ep. \<lparr>cd_Endpoint = ep, cd_Source = src\<rparr>"
  have D: "declared port eps" using LocalUnderlayEndpoints_declared assms(1) by blast
  have fold: "foldl add_candidate (map ?c out) (map ?c as) = map ?c (out @ as)"
    if "distinct (out @ as)" "\<forall>ep \<in> set as. checkUnderlayEndpoint ep \<and> trim_space ep = ep \<and> ep \<noteq> []" for out as
    using that
  proof (induction as arbitrary: out)
    case (Cons a as)
    have "add_candidate (map ?c out) (?c a) = map ?c (out @ [a])"
      using Cons.prems assms(3) by (simp add: add_candidate_def Let_def comp_def)
    with Cons.IH [of "out @ [a]"] Cons.prems show ?case by simp
  qed simp
  have f: "foldl add_candidate [] (map ?c eps) = map ?c eps"
    using fold [of "[]" eps] D by (simp add: declared_def)
  have "sort_key (\<lambda>c. source_rank (cd_Source c)) (map ?c eps) = map ?c eps"
    by (rule sort_key_id_if_sorted) (simp add: comp_def map_replicate_const)
  then have "ParseCandidates (map ?c eps) = Some (map ?c eps)"
    using f assms(2) D by (simp add: ParseCandidates_def maxPunchCandidates_def declared_def)
  with D show ?thesis by (auto simp: declared_def)
qed

lemma declared_endpoints_are_accepted_witness:
  "let eps = [''10.0.0.7:4500''];
       cs = [\<lparr>cd_Endpoint = ''10.0.0.7:4500'', cd_Source = SourceLocal\<rparr>]
   in LocalUnderlayEndpoints (Some [\<lparr>if_up = True, if_loopback = False, if_addrs = Some [[10, 0, 0, 7]]\<rparr>]) 4500 = eps \<and>
      distinct eps \<and> ParseCandidates cs = Some cs"
proof -
  let ?eps = "LocalUnderlayEndpoints (Some [\<lparr>if_up = True, if_loopback = False, if_addrs = Some [[10, 0, 0, 7]]\<rparr>]) 4500"
  let ?a = "Addr4 0x0A000007"
  have a: "AddrFromSlice [10, 0, 0, 7] = Some ?a" by code_simp
  have "\<not> Contains agentBlock ?a" "\<not> Contains tailnetBlock ?a"
    by code_simp+
  moreover have "\<not> IsLoopback ?a" "\<not> IsUnspecified ?a" "\<not> IsLinkLocalUnicast ?a" "\<not> IsLinkLocalMulticast ?a"
    "\<not> IsMulticast ?a" "IsPrivate ?a"
    by code_simp+
  ultimately have d: "declarable ?a" by (simp add: declarable_def)
  have s: "addr_String ?a = ''10.0.0.7''" "Unmap ?a = ?a"
    by code_simp+
  moreover have "format_int 4500 = ''4500''"
    by (simp add: format_int_def dec_nat.simps [of 4500] dec_nat.simps [of 450] dec_nat.simps [of 45] dec_nat.simps [of 4] digit_char_def)
  ultimately have "JoinHostPort (addr_String ?a) (format_int 4500) = ''10.0.0.7:4500''" by (simp add: JoinHostPort_def)
  with a d s(2) have e: "?eps = [''10.0.0.7:4500'']"
    by (simp add: LocalUnderlayEndpoints_def maxDeclaredEndpoints_def Let_def)
  have "SourceLocal \<noteq> []" by (simp add: SourceLocal_def)
  from declared_endpoints_are_accepted [OF e _ this] show ?thesis by (simp add: e)
qed

end
