(* ===== verification/Spec2Isabelle.thy ===== *)
theory Spec2Isabelle
  imports KelVerify EnfRuns EgrExamples WgAcceptRuns WhaleTrust WgRouteExamples EnfWatchExamples WgHealth WgEndpoints
begin

text \<open>
  A verification development for \<open>whisper\<close>, the command-line client that gives an agent an
  identity and an IPv6 address of its own (Go, under \<open>src/\<close>). It models the parts of the
  program on which its promises to a user rest: the key history of an identity is genuine, the
  traffic of a confined process stays inside the tunnel and stops when the tunnel is dead, a local
  forwarder and the inbound ports serve only those they may, an SSH login is admitted only on
  records that are signed down from the root, and a direct path is used only once it is proved.
  Theories are named after the package they model.

  \<^bold>\<open>Parts and how they interact.\<close>
  \<^item> \<open>internal/kel\<close>, key histories. A signed statement names a change of key
    (\<open>KelStatement\<close>, \<open>KelSignature\<close> for \<open>statement.go\<close>); an event stores it and is chained by
    digest (\<open>KelEvent\<close>, \<open>KelChain\<close> for \<open>event.go\<close> and \<open>chain.go\<close>); a published record pins the
    head of a chain (\<open>KelHead\<close>, \<open>head.go\<close>); a signed note pins a log and proofs place events in it
    (\<open>KelCheckpoint\<close>, \<open>checkpoint.go\<close>); a service returns pages of events with their proofs
    (\<open>KelBundle\<close>, \<open>bundle.go\<close>); and \<open>KelVerify\<close> (\<open>verify.go\<close>) runs every check over the pages.
  \<^item> \<open>internal/enforce\<close>, the packet filter between a confined process and the tunnel. \<open>EnfFilter\<close>
    (\<open>filter.go\<close>) decides and translates each packet, with \<open>EnfChecksum\<close> (\<open>checksum.go\<close>),
    \<open>EnfFlows\<close> (\<open>flows.go\<close>), \<open>EnfIcmp\<close> (\<open>icmp.go\<close>) and, from \<open>internal/wgtun/nat64.go\<close>, \<open>WgNat64\<close>.
    \<open>EnfSafety\<close> and \<open>EnfInbound\<close> prove what one packet may do, \<open>EnfRuns\<close> what any sequence of
    packets and policy changes may do, \<open>EnfExamples\<close> holds the concrete cases.
  \<^item> \<open>internal/egress\<close>, the local forwarder. \<open>EgrAccess\<close> (\<open>access.go\<close>) is the admission rule and
    the gate with its counters, \<open>EgrAuth\<close> the conversations SOCKS5 authentication admits,
    \<open>EgrProxy\<close> (\<open>proxy.go\<close>) one connection from its pre-auth slot to the dial and the request sent
    upstream. \<open>EgrSafety\<close>, \<open>EgrTarget\<close> and \<open>EgrRuns\<close> prove who is served, what the upstream request
    can hold, and that the counters of the gate refine the sets of waiting connections.
  \<^item> \<open>internal/peerid\<close>, the user behind a loopback socket, which is what the forwarder asks.
    \<open>PeerId\<close> reads \<open>/proc\<close> and netlink (\<open>peerid.go\<close>, \<open>peerid_linux.go\<close>), \<open>PeerTables\<close> the tables
    of macOS and Windows (\<open>peerid.go\<close>, \<open>peerid_darwin.go\<close>, \<open>peerid_windows.go\<close>).
  \<^item> \<open>internal/enforce\<close>, the enforced tunnel around the filter. \<open>EnfWatch\<close> (\<open>tunnel_linux.go\<close>,
    \<open>renew.go\<close>) brings it up and drives the kill switch; \<open>EnfWatchRuns\<close> composes that loop with the
    packets of the agent, \<open>EnfWatchExamples\<close> runs it.
  \<^item> \<open>internal/trustverify\<close>, answers of the DNS that need no trust in a resolver. \<open>TvDnssec\<close>
    (\<open>dnssec.go\<close>, \<open>wildcard_denial.go\<close>, \<open>roots.go\<close>) is the validator from the anchors to an answer,
    \<open>TvChain\<close> and \<open>TvAnswer\<close> prove that what it returns is authentic, \<open>TvBounds\<close> what it may cost;
    \<open>TvDenial\<close> (\<open>denial.go\<close>) reads denials, \<open>TvAbsence\<close> proves them against the chain of a zone,
    \<open>TvExamples\<close> holds the concrete zones.
  \<^item> \<open>internal/whale\<close>, who may log in. \<open>WhaleAuthz\<close> (\<open>sshauthz.go\<close>) decides a login over validated
    records, \<open>WhaleDecision\<close> proves the decision, \<open>WhaleSshfp\<close> (\<open>sshfp.go\<close>) matches host keys, and
    \<open>WhaleTrust\<close> composes the decision with the validator of \<open>trustverify\<close>.
  \<^item> \<open>internal/wgtun\<close>, the user-space tunnel. \<open>WgConfig\<close> (\<open>config.go\<close>, \<open>shared.go\<close>, \<open>endpoints.go\<close>,
    the documents of \<open>device.go\<close>) makes a configuration of the answer of the control plane; \<open>WgPunch\<close>
    (\<open>punch.go\<close> and the checks of \<open>peers.go\<close>) holds candidates and punch trains, \<open>WgPeers\<close> the direct
    peers and the bring-up; \<open>WgPeerRuns\<close> and \<open>WgRoutes\<close> prove which rows become peers and which
    addresses are routed; \<open>WgHealth\<close> (\<open>health.go\<close>) is the monitor; \<open>WgEndpoints\<close> sets what a host
    declares against what its peers accept; \<open>WgAccept\<close> and \<open>WgAcceptRuns\<close> (\<open>accept.go\<close>) are the ports
    that are opened inside the tunnel.

  \<^bold>\<open>The library.\<close> \<open>WPrelude\<close> holds bytes, 64-bit integers, big-endian encodings, the
  combinators of checked results, the rewriting collections and the interface of strict readers;
  \<open>GoText\<close>, \<open>GoScan\<close>, \<open>GoTime\<close>, \<open>GoDuration\<close>, \<open>GoNetip\<close>, \<open>GoNet\<close>, \<open>GoJson\<close>, \<open>GoFloat\<close> and \<open>Sha256\<close>
  translate what the sources use of the standard library, \<open>DnsRecords\<close> the records they use of the DNS
  library; \<open>GoAddrText\<close> proves that addresses are read back as they are printed and \<open>GoInert\<close> what
  characters the text of an address can hold. Interfaces are locales interpreted on the model:
  \<open>strict_codec\<close> (a reader that accepts exactly one spelling; statements, events, signatures),
  \<open>flow_store\<close> (what the filter relies on of its table; the table of \<open>flows.go\<close>) and
  \<open>counted_slots\<close> (a counter with a cap; the pre-auth, the per-principal and the lookup slots).

  \<^bold>\<open>How the model corresponds to the code.\<close> A struct is a record and an enumeration a
  datatype with the names of the source; a slice of bytes is a list of 8-bit words and a string a
  list of characters, each a byte; \<open>int64\<close> is an integer wrapped explicitly where it can leave
  its range; bit operations, checksums and addresses are words at their width. A nil value and a
  panic are \<open>None\<close>, an error is \<open>Inl\<close>. A mutex makes an operation atomic, so concurrent behaviour
  is a step relation over those operations (\<open>flow_step\<close>, \<open>filter_step\<close>, \<open>gate_step\<close>, \<open>enf_run\<close>,
  \<open>peers_run\<close>, \<open>health_run\<close>). Readings
  of the clock are arguments. Floating point (\<open>GoFloat\<close>) rounds after each operation, which is
  what the compiler does for amd64.

  \<^bold>\<open>What the properties show.\<close>
  \<^item> Encodings have one spelling and determine what they encode: statements, events,
    signatures, heads, the parsers of each, and addresses under a NAT64 prefix.
  \<^item> The optimised or effectful routines decide loop-free specifications: the chain walk,
    strict DER, the note, inclusion proofs, SOCKS5 authentication.
  \<^item> Composition: a bundle that is called proven is one history in the log; a packet that leaves
    is contained and its reply comes back; a forwarder dials only for those entitled.
  \<^item> Trust: a validated answer is signed down from the anchors whatever the resolver says, at a
    bounded cost; a login rests on such answers alone; a denial is never of what a zone has.
  \<^item> Liveness where the code promises it: a dead tunnel keeps asking for its registration, a punch
    train reaches every candidate, kept slots stay for the fleet.
  \<^item> State over time: the kill switch and the one address of the enforced tunnel, routed addresses
    as promoted peers, the monitor as a refinement of its stall, the filter's invariant, flows kept for their idle time, the gate's counters
    as a refinement of sets, bounds on every table an outsider could grow.
  \<^item> Safety statements over hashes hold up to an explicit SHA-256 collision, which the statement
    exhibits.

  \<^bold>\<open>Fuel and bounds.\<close> The JSON reader takes twice the length of its text plus two, each
  token loop one more than what is left and each string its length, since every step consumes a
  byte; IPv6 printing takes the eight groups there are. The walk from a zone to the root takes a
  zone strictly above the last at each step, so any fuel above the number of labels is enough
  (\<open>validation_terminates\<close>). Nothing else is bounded: the other loops
  are recursions with a measure. \<open>fold_path\<close> of an inclusion proof may have nothing to return in
  principle and is proved to return on every input.

  \<^bold>\<open>Parameters.\<close> Ed25519 and P-256 verification and X.509 key parsing; the Unicode tables
  for non-ASCII lower-casing; the callback \<open>Witnessed\<close>; \<open>http.ReadRequest\<close>; the dialer and the
  network; what system calls return (netlink replies, files, descriptors, the macOS and Windows
  tables, process handles); the DNS library's names, digests and signature check and the resolver
  behind it; the answers of the control plane; and the WireGuard device, a function of the documents
  it was given, of which \<open>uapi_laws\<close> in \<open>WgRoutes\<close> states what its protocol documents about routes.

  \<^bold>\<open>Not modelled.\<close> Terminal rendering, flag parsing, HTTP clients, key and configuration
  files, kernel interfaces and installers (\<open>internal/cli\<close>, \<open>tui\<close>, \<open>client\<close>, \<open>idkey\<close>, \<open>projcfg\<close>,
  \<open>secfile\<close>, the rest of \<open>enforce\<close> and \<open>wgtun\<close>): mostly input and output around the parts above.
  The splice of an admitted tunnel, the lines told to an operator and the text of human-readable
  reasons are left out of the parts that are modelled. The alert rule book (\<open>internal/alerts\<close>), the
  migration of a tailnet (\<open>whale/migratemap.go\<close>), \<open>resolverprofile\<close> and the name service of \<open>wgtun\<close>
  have logic of their own over large message formats and are not modelled.
\<close>

end
